(* ===== verification/VDS_Prelude.thy ===== *)
theory VDS_Prelude
  imports Main "HOL-Library.Word"
begin

text \<open>
  The vocabulary shared by every component: bytes and fixed width integers, the result type
  of \<open>kernel/vds_core/expected.h\<close> with its two macros, the byte buffer
  \<open>const_data_buffer\<close> with its order, \<open>std::set\<close> and \<open>std::map\<close> as sorted lists, and the
  generic lemmas the component theories share.
\<close>

unbundle bit_operations_syntax

section \<open>Bytes and integers\<close>

type_synonym byte = "8 word"
type_synonym u16 = "16 word"
type_synonym u32 = "32 word"
type_synonym u64 = "64 word"
type_synonym cstring = "byte list" \<comment> \<open>std::string: a sequence of 8 bit chars\<close>

named_theorems expected_simps \<open>unfolding of the result combinators\<close>
named_theorems roundtrip \<open>decode after encode\<close>

section \<open>expected.h\<close>

text \<open>
  A call returns a value or an exception object. \<open>Runtime_error\<close> is
  \<open>make_unexpected<std::runtime_error>\<close>, \<open>Assertion_failed\<close> the exception \<open>vds_assert\<close>
  throws in builds with exceptions (\<open>#if __cpp_exceptions\<close> in \<open>vds_debug.h\<close>), which are those the build files
  make, debug or release; \<open>Constraint_violation\<close> the error SQLite returns for a broken PRIMARY KEY, UNIQUE or
  NOT NULL constraint. \<open>Undefined_behaviour\<close> marks what C++ leaves undefined (a read past the
  end of a buffer), \<open>Not_terminating\<close> a loop that does not end.
\<close>

datatype error =
    Runtime_error string
  | Assertion_failed string
  | Constraint_violation string
  | Undefined_behaviour string
  | Not_terminating

type_synonym 'a expected = "error + 'a"

definition get_expected :: "'a expected \<Rightarrow> ('a \<Rightarrow> 'b expected) \<Rightarrow> 'b expected" where
  "get_expected v k = (case v of Inl e \<Rightarrow> Inl e | Inr x \<Rightarrow> k x)"

definition check_expected :: "unit expected \<Rightarrow> 'b expected \<Rightarrow> 'b expected" where
  "check_expected v k = (case v of Inl e \<Rightarrow> Inl e | Inr _ \<Rightarrow> k)"

definition vds_assert :: "bool \<Rightarrow> string \<Rightarrow> 'b expected \<Rightarrow> 'b expected" where
  "vds_assert b msg k = (if b then k else Inl (Assertion_failed msg))"

lemma get_expected_simps [simp]:
  "get_expected (Inl e) k = Inl e"
  "get_expected (Inr x) k = k x"
  by (simp_all add: get_expected_def)

lemma check_expected_simps [simp]:
  "check_expected (Inl e) k = Inl e"
  "check_expected (Inr x) k = k"
  by (simp_all add: check_expected_def)

lemma vds_assert_simps [simp]:
  "vds_assert True msg k = k"
  "vds_assert False msg k = Inl (Assertion_failed msg)"
  by (simp_all add: vds_assert_def)

lemma get_expected_Inr_iff [expected_simps]:
  "get_expected v k = Inr y \<longleftrightarrow> (\<exists>x. v = Inr x \<and> k x = Inr y)"
  by (cases v) auto

lemma check_expected_Inr_iff [expected_simps]:
  "check_expected v k = Inr y \<longleftrightarrow> (\<exists>x. v = Inr x) \<and> k = Inr y"
  by (cases v) auto

lemma vds_assert_Inr_iff [expected_simps]:
  "vds_assert b msg k = Inr y \<longleftrightarrow> b \<and> k = Inr y"
  by (cases b) auto

lemma get_expected_assoc:
  "get_expected (get_expected v f) g = get_expected v (\<lambda>x. get_expected (f x) g)"
  by (cases v) auto

lemma get_expected_cong [fundef_cong]:
  assumes "v = w" and "\<And>x. w = Inr x \<Longrightarrow> f x = g x"
  shows "get_expected v f = get_expected w g"
  using assms by (cases w) auto

lemma check_expected_cong [fundef_cong]:
  assumes "v = w" and "\<And>x. w = Inr x \<Longrightarrow> k = l"
  shows "check_expected v k = check_expected w l"
  using assms by (cases w) auto

lemma vds_assert_cong [fundef_cong]:
  assumes "b = c" and "c \<Longrightarrow> k = l"
  shows "vds_assert b msg k = vds_assert c msg l"
  using assms by (cases c) auto

section \<open>Steps on a state\<close>

text \<open>
  A method of an object that it changes: a result and the object after it. An error leaves the changes
  made before it.
\<close>

type_synonym ('a, 's) step = "'s \<Rightarrow> 'a expected \<times> 's"

definition bind_step :: "('a, 's) step \<Rightarrow> ('a \<Rightarrow> ('b, 's) step) \<Rightarrow> ('b, 's) step" where
  "bind_step m k st = (case m st of (Inl e, st) \<Rightarrow> (Inl e, st) | (Inr x, st) \<Rightarrow> k x st)"

definition fail_step :: "error \<Rightarrow> ('a, 's) step" where
  "fail_step e st = (Inl e, st)"

definition return_step :: "'a \<Rightarrow> ('a, 's) step" where
  "return_step x st = (Inr x, st)"

definition lift_step :: "'a expected \<Rightarrow> ('a, 's) step" where
  "lift_step x st = (x, st)"

definition modify_step :: "('s \<Rightarrow> 's) \<Rightarrow> (unit, 's) step" where
  "modify_step f st = (Inr (), f st)"

definition assert_step :: "bool \<Rightarrow> string \<Rightarrow> ('a, 's) step \<Rightarrow> ('a, 's) step" where
  "assert_step b msg k = (if b then k else fail_step (Assertion_failed msg))"

lemma bind_step_cong [fundef_cong]:
  assumes "m st = m' st'" and "\<And>x t. m' st' = (Inr x, t) \<Longrightarrow> k x t = k' x t"
  shows "bind_step m k st = bind_step m' k' st'"
  using assms by (auto simp: bind_step_def split: prod.splits sum.splits)

section \<open>const_data_buffer.h\<close>

text \<open>
  A byte buffer. \<open>operator <\<close> compares the sizes first and the bytes (as \<open>memcmp\<close> does, by
  unsigned value from the left) only between buffers of equal size.
\<close>

datatype const_data_buffer = Data_buffer (buffer_data: "byte list")

abbreviation buffer_size :: "const_data_buffer \<Rightarrow> nat" where
  "buffer_size d \<equiv> length (buffer_data d)"

fun memcmp_less :: "byte list \<Rightarrow> byte list \<Rightarrow> bool" where
  "memcmp_less (x # xs) (y # ys) = (if x = y then memcmp_less xs ys else x < y)"
| "memcmp_less _ _ = False"

definition buffer_less :: "const_data_buffer \<Rightarrow> const_data_buffer \<Rightarrow> bool" where
  "buffer_less l r \<longleftrightarrow>
     buffer_size l < buffer_size r
     \<or> (buffer_size l = buffer_size r \<and> memcmp_less (buffer_data l) (buffer_data r))"

lemma memcmp_less_irrefl [simp]: "\<not> memcmp_less xs xs"
  by (induction xs) auto

lemma memcmp_less_trans: "memcmp_less xs ys \<Longrightarrow> memcmp_less ys zs \<Longrightarrow> memcmp_less xs zs"
proof (induction xs ys arbitrary: zs rule: memcmp_less.induct)
  case (1 x xs y ys)
  then show ?case by (cases zs) (auto split: if_splits)
qed auto

lemma memcmp_less_linear:
  "length xs = length ys \<Longrightarrow> memcmp_less xs ys \<or> xs = ys \<or> memcmp_less ys xs"
  by (induction xs ys rule: list_induct2) auto

instantiation const_data_buffer :: linorder
begin

definition less_const_data_buffer :: "const_data_buffer \<Rightarrow> const_data_buffer \<Rightarrow> bool" where
  "less_const_data_buffer l r = buffer_less l r"

definition less_eq_const_data_buffer :: "const_data_buffer \<Rightarrow> const_data_buffer \<Rightarrow> bool" where
  "less_eq_const_data_buffer l r \<longleftrightarrow> l = r \<or> buffer_less l r"

instance
proof
  have irr: "\<not> buffer_less x x" for x
    by (simp add: buffer_less_def)
  have tr: "buffer_less x y \<Longrightarrow> buffer_less y z \<Longrightarrow> buffer_less x z" for x y z
    by (auto simp: buffer_less_def dest: memcmp_less_trans)
  have lin: "buffer_less x y \<or> x = y \<or> buffer_less y x" for x y
  proof (cases "buffer_size x = buffer_size y")
    case True
    with memcmp_less_linear [OF True] show ?thesis
      by (auto simp: buffer_less_def const_data_buffer.expand)
  next
    case False
    then show ?thesis by (auto simp: buffer_less_def)
  qed
  fix x y z :: const_data_buffer
  show "x < y \<longleftrightarrow> x \<le> y \<and> \<not> y \<le> x"
    using irr tr by (auto simp: less_const_data_buffer_def less_eq_const_data_buffer_def)
  show "x \<le> x"
    by (simp add: less_eq_const_data_buffer_def)
  show "x \<le> y \<Longrightarrow> y \<le> z \<Longrightarrow> x \<le> z"
    using tr by (auto simp: less_eq_const_data_buffer_def)
  show "x \<le> y \<Longrightarrow> y \<le> x \<Longrightarrow> x = y"
    using irr tr by (auto simp: less_eq_const_data_buffer_def)
  show "x \<le> y \<or> y \<le> x"
    using lin by (auto simp: less_eq_const_data_buffer_def)
qed

end

section \<open>std::set and std::map\<close>

text \<open>
  A \<open>std::set\<close> is the sorted list of its elements, which is the order its iterators follow.
  \<open>emplace\<close> leaves a set that has the element as it is (\<open>insort_insert\<close>). A \<open>std::map\<close> is the
  list of its pairs, sorted by key.
\<close>

abbreviation set_emplace :: "'a::linorder \<Rightarrow> 'a list \<Rightarrow> 'a list" where
  "set_emplace \<equiv> insort_insert"

definition is_set :: "'a::linorder list \<Rightarrow> bool" where
  "is_set xs \<longleftrightarrow> sorted_wrt (<) xs"

fun map_put :: "'k::linorder \<Rightarrow> 'v \<Rightarrow> ('k \<times> 'v) list \<Rightarrow> ('k \<times> 'v) list" where
  "map_put k v [] = [(k, v)]"
| "map_put k v ((k', v') # m) =
     (if k < k' then (k, v) # (k', v') # m
      else if k = k' then (k, v) # m
      else (k', v') # map_put k v m)"

lemma is_set_simps [simp]:
  "is_set []"
  "is_set (x # xs) \<longleftrightarrow> (\<forall>y \<in> set xs. x < y) \<and> is_set xs"
  by (simp_all add: is_set_def)

lemma is_set_sorted: "is_set xs \<Longrightarrow> sorted xs \<and> distinct xs"
  by (induction xs) auto

lemma sorted_is_set: "sorted xs \<Longrightarrow> distinct xs \<Longrightarrow> is_set xs"
  by (induction xs) (auto simp: order_less_le)

lemma is_set_emplace [simp]: "is_set xs \<Longrightarrow> is_set (set_emplace x xs)"
  by (intro sorted_is_set sorted_insort_insert distinct_insort_insert) (auto dest: is_set_sorted)

lemma insort_snoc: "\<forall>y \<in> set xs. y < x \<Longrightarrow> insort x xs = xs @ [x]"
  by (induction xs) auto

lemma set_emplace_snoc:
  "\<forall>y \<in> set xs. y < x \<Longrightarrow> set_emplace x xs = xs @ [x]"
  by (subgoal_tac "x \<notin> set xs") (auto simp: insort_insert_key_def insort_snoc)

lemma set_map_put: "fst ` set (map_put k v m) = insert k (fst ` set m)"
  by (induction k v m rule: map_put.induct) auto

lemma in_map_put: "p \<in> set (map_put k v m) \<Longrightarrow> p = (k, v) \<or> p \<in> set m"
  by (induction k v m rule: map_put.induct) (auto split: if_splits)

lemma is_set_map_put: "is_set (map fst m) \<Longrightarrow> is_set (map fst (map_put k v m))"
proof (induction m)
  case (Cons p m)
  have "y \<in> fst ` set (map_put k v m) \<Longrightarrow> y = k \<or> y \<in> fst ` set m" for y
    by (auto simp: set_map_put)
  with Cons show ?case
    by (cases p) (force simp: not_less_iff_gr_or_eq)
qed simp

lemma map_of_map_put: "map_of (map_put k v m) = (map_of m)(k \<mapsto> v)"
  by (induction m) (auto simp: fun_eq_iff)

section \<open>Counting loops\<close>

text \<open>
  A \<open>for\<close> loop whose body may fail runs the body over the list of its counter values; the
  first error leaves the loop.
\<close>

fun for_loop :: "'i list \<Rightarrow> ('i \<Rightarrow> 's \<Rightarrow> 's expected) \<Rightarrow> 's \<Rightarrow> 's expected" where
  "for_loop [] body s = Inr s"
| "for_loop (i # is) body s = get_expected (body i s) (for_loop is body)"

lemma for_loop_cong [fundef_cong]:
  assumes "is = js" "s = t" "\<And>i s. i \<in> set js \<Longrightarrow> f i s = g i s"
  shows "for_loop is f s = for_loop js g t"
proof -
  have "(\<And>i s. i \<in> set js \<Longrightarrow> f i s = g i s) \<Longrightarrow> for_loop js f t = for_loop js g t" for t
  proof (induction js arbitrary: t)
    case (Cons j js)
    then have "f j t = g j t" "for_loop js f = for_loop js g" by (simp_all add: fun_eq_iff)
    then show ?case by simp
  qed simp
  with assms show ?thesis by simp
qed

lemma for_loop_append: "for_loop (is @ js) f s = get_expected (for_loop is f s) (for_loop js f)"
proof (induction "is" arbitrary: s)
  case (Cons i "is")
  then show ?case by (cases "f i s") simp_all
qed simp

text \<open>Total correctness: the body keeps the invariant and does not fail.\<close>

lemma for_loop_up:
  assumes "P a s" and "a \<le> b"
    and "\<And>i s. a \<le> i \<Longrightarrow> i < b \<Longrightarrow> P i s \<Longrightarrow> \<exists>s'. f i s = Inr s' \<and> P (Suc i) s'"
  shows "\<exists>s'. for_loop [a..<b] f s = Inr s' \<and> P b s'"
  using assms(2,3)
proof (induction b rule: dec_induct)
  case base
  with assms(1) show ?case by simp
next
  case (step n)
  then obtain s' where "for_loop [a..<n] f s = Inr s'" "P n s'" by auto
  moreover from this step obtain s'' where "f n s' = Inr s''" "P (Suc n) s''" by blast
  ultimately show ?case using step(1) by (auto simp: for_loop_append)
qed

text \<open>A loop that counts down from \<open>b\<close> to \<open>Suc a\<close>.\<close>

lemma for_loop_down:
  assumes "P b s" and "a \<le> b"
    and "\<And>i s. a < i \<Longrightarrow> i \<le> b \<Longrightarrow> P i s \<Longrightarrow> \<exists>s'. f i s = Inr s' \<and> P (i - 1) s'"
  shows "\<exists>s'. for_loop (rev [Suc a..<Suc b]) f s = Inr s' \<and> P a s'"
  using assms(2,1,3)
proof (induction b arbitrary: s rule: dec_induct)
  case base
  then show ?case by simp
next
  case (step n)
  from step.prems(2) [of "Suc n" s] step.prems(1) step.hyps
  obtain s' where s': "f (Suc n) s = Inr s'" "P n s'" by auto
  from step.IH [OF s'(2)] step.prems(2)
  obtain t where "for_loop (rev [Suc a..<Suc n]) f s' = Inr t" "P a t" by auto
  with s'(1) step.hyps(1) show ?case by simp
qed

section \<open>Shared lemmas\<close>

lemma take_append_exact [simp]: "length xs = n \<Longrightarrow> take n (xs @ ys) = xs"
  by simp

lemma drop_append_exact [simp]: "length xs = n \<Longrightarrow> drop n (xs @ ys) = ys"
  by simp


text \<open>Machine words: masks as truncations, \<open>uint8_t\<close> casts, the value of a counter.\<close>

lemma and_FF_take_bit: "(v::'a::len word) AND 0xFF = take_bit 8 v"
  by (simp add: take_bit_eq_mask mask_numeral)

lemma ucast_and_FF: "ucast ((v::'a::len word) AND 0xFF) = (ucast v :: byte)"
  unfolding and_FF_take_bit by (rule bit_word_eqI) (auto simp: bit_simps dest: bit_imp_le_length)

lemma ucast_byte_small:
  fixes v :: u64
  assumes "v < 256"
  shows "ucast (ucast v :: byte) = v"
proof -
  have "(ucast (ucast v :: byte) :: u64) = take_bit 8 v"
    by (rule bit_word_eqI) (auto simp: bit_simps)
  moreover have "unat (take_bit 8 v) = unat v"
    using assms by (simp only: unsigned_take_bit_eq) (simp add: take_bit_eq_mod word_less_nat_alt)
  ultimately show ?thesis by (simp add: word_unat_eq_iff)
qed

lemma unat_ucast_byte: "unat (ucast (v::'a::len word) :: byte) = unat v mod 256"
  by (simp add: unsigned_ucast_eq) (simp add: take_bit_eq_mod)

lemma unat_word_of_nat_u64: "n < 2 ^ 64 \<Longrightarrow> unat (word_of_nat n :: u64) = n"
  by (simp add: unsigned_of_nat take_bit_eq_mod)

lemma unat_drop_bit_8: "unat (drop_bit 8 (v::'a::len word)) = unat v div 256"
  by (simp add: unat_drop_bit_eq) (simp add: drop_bit_eq_div)

end
