(* ===== verification/Galois_field.thy ===== *)
theory Galois_field
  imports VDS_Prelude
begin

text \<open>
  The class template \<open>gf<m>\<close> of \<open>kernel/vds_data/gf.h\<close>: the binary field of \<open>2 ^ m\<close> elements as
  little endian byte arrays, multiplied by shift and reduce. The byte arrays are then refined to
  machine words, the words shown to form a commutative ring for any reduction polynomial, and a
  field for the polynomials of \<open>gf<8>\<close> and \<open>gf<16>\<close>, where 2 generates the multiplicative group.
\<close>

section \<open>The byte arrays of gf<m>\<close>

definition gf_array_size :: "nat \<Rightarrow> nat" where
  "gf_array_size m = (m + 7) div 8"

definition gf_hi_bit_mask :: "nat \<Rightarrow> byte" where
  "gf_hi_bit_mask m = push_bit ((m - 1) mod 8) 1"

definition gf_hi_bit_index :: "nat \<Rightarrow> nat" where
  "gf_hi_bit_index m = (m - 1) div 8"

fun gf_polynomial :: "nat \<Rightarrow> byte list" where
  "gf_polynomial m =
     (if m = 3 then [0x0b] \<comment> \<open>x^3 + x + 1\<close>
      else if m = 8 then [0x1D] \<comment> \<open>x^8 + x^4 + x^3 + x^2 + 1\<close>
      else if m = 16 then [0x0B, 0x10]
      else if m = 32 then [0x07, 0x00, 0x40, 0x00]
      else [])"

fun gf_exclude_or :: "byte list \<Rightarrow> byte list \<Rightarrow> byte list" where
  "gf_exclude_or (x # xs) (y # ys) = (x XOR y) # gf_exclude_or xs ys"
| "gf_exclude_or xs _ = xs"

fun gf_shift_left_loop :: "bool \<Rightarrow> byte list \<Rightarrow> byte list" where
  "gf_shift_left_loop save_hi_bit [] = []"
| "gf_shift_left_loop save_hi_bit (x # a) =
     (let hi_bit = (0x80 AND x \<noteq> 0); y = push_bit 1 x
      in (if save_hi_bit then y OR 1 else y) # gf_shift_left_loop hi_bit a)"

definition gf_shift_left :: "byte list \<Rightarrow> byte list" where
  "gf_shift_left a = gf_shift_left_loop False a"

fun gf_shift_right_loop :: "bool \<Rightarrow> byte list \<Rightarrow> byte list" where
  "gf_shift_right_loop save_lo_bit [] = []"
| "gf_shift_right_loop save_lo_bit (x # a) =
     (let lo_bit = (1 AND x \<noteq> 0); y = drop_bit 1 x
      in (if save_lo_bit then y OR 0x80 else y) # gf_shift_right_loop lo_bit a)"

text \<open>The source walks the array from its last byte to its first.\<close>

definition gf_shift_right :: "byte list \<Rightarrow> byte list" where
  "gf_shift_right a = rev (gf_shift_right_loop False (rev a))"

fun gf_mul_loop :: "nat \<Rightarrow> nat \<Rightarrow> byte list \<Rightarrow> byte list \<Rightarrow> byte list \<Rightarrow> byte list" where
  "gf_mul_loop m 0 data a b = data"
| "gf_mul_loop m (Suc i) data a b =
     (let data = (if b ! 0 AND 1 \<noteq> 0 then gf_exclude_or data a else data);
          hi_bit_set = (gf_hi_bit_mask m AND a ! gf_hi_bit_index m \<noteq> 0);
          a = gf_shift_left a;
          a = (if hi_bit_set then gf_exclude_or a (gf_polynomial m) else a)
      in gf_mul_loop m i data a (gf_shift_right b))"

definition gf_mul :: "nat \<Rightarrow> byte list \<Rightarrow> byte list \<Rightarrow> byte list" where
  "gf_mul m left right = gf_mul_loop m m (replicate (gf_array_size m) 0) left right"

definition gf_add :: "byte list \<Rightarrow> byte list \<Rightarrow> byte list" where
  "gf_add left right = gf_exclude_or left right"

section \<open>Words\<close>

text \<open>One step of the multiplication loop on a machine word, and the loop.\<close>

definition xtime :: "'a::len word \<Rightarrow> 'a word \<Rightarrow> 'a word" where
  "xtime p a = push_bit 1 a XOR (if bit a (LENGTH('a) - 1) then p else 0)"

fun gfw_loop :: "'a::len word \<Rightarrow> nat \<Rightarrow> 'a word \<Rightarrow> 'a word \<Rightarrow> 'a word \<Rightarrow> 'a word" where
  "gfw_loop p 0 data a b = data"
| "gfw_loop p (Suc i) data a b =
     gfw_loop p i (if bit b 0 then data XOR a else data) (xtime p a) (drop_bit 1 b)"

definition gfw_mul :: "'a::len word \<Rightarrow> 'a word \<Rightarrow> 'a word \<Rightarrow> 'a word" where
  "gfw_mul p a b = gfw_loop p LENGTH('a) 0 a b"

text \<open>The loop is a sum of multiples \<open>x\<^sup>i a\<close> over the bits of \<open>b\<close>.\<close>

fun gf_act :: "'a::len word \<Rightarrow> nat \<Rightarrow> 'a word \<Rightarrow> 'a word \<Rightarrow> 'a word" where
  "gf_act p 0 b a = 0"
| "gf_act p (Suc n) b a = gf_act p n b a XOR (if bit b n then (xtime p ^^ n) a else 0)"

lemma xtime_xor: "xtime p (a XOR b) = xtime p a XOR xtime p b"
  unfolding xtime_def by (rule bit_word_eqI) (auto simp: bit_simps)

lemma xtime_0 [simp]: "xtime p 0 = 0"
  by (simp add: xtime_def)

lemma xtime_pow_xor: "(xtime p ^^ n) (a XOR b) = (xtime p ^^ n) a XOR (xtime p ^^ n) b"
  by (induction n) (auto simp: xtime_xor)

lemma xtime_pow_0 [simp]: "(xtime p ^^ n) 0 = 0"
  by (induction n) auto

lemma gf_act_xor_right: "gf_act p n b (a XOR a') = gf_act p n b a XOR gf_act p n b a'"
  by (induction n) (auto simp: xtime_pow_xor ac_simps)

lemma gf_act_xor_left: "gf_act p n (b XOR b') a = gf_act p n b a XOR gf_act p n b' a"
  by (induction n) (auto simp: bit_xor_iff ac_simps)

lemma gf_act_0 [simp]: "gf_act p n b 0 = 0" "gf_act p n 0 a = 0"
  by (induction n) auto

lemma gf_act_xtime: "gf_act p n b (xtime p a) = xtime p (gf_act p n b a)"
  by (induction n) (auto simp: xtime_xor funpow_swap1)

lemma gf_act_xtime_pow: "gf_act p n b ((xtime p ^^ k) a) = (xtime p ^^ k) (gf_act p n b a)"
  by (induction k) (auto simp: gf_act_xtime)

lemma gf_act_commute: "gf_act p n b (gf_act p k c a) = gf_act p k c (gf_act p n b a)"
  by (induction k) (auto simp: gf_act_xor_right gf_act_xtime_pow)

lemma gf_act_Suc_shift:
  "gf_act p (Suc n) b a = (if bit b 0 then a else 0) XOR gf_act p n (drop_bit 1 b) (xtime p a)"
proof (induction n)
  case (Suc n)
  have "(xtime p ^^ n) (xtime p a) = (xtime p ^^ Suc n) a"
    by (simp only: funpow_Suc_right o_apply)
  with Suc show ?case by (simp add: bit_simps ac_simps del: funpow.simps)
qed simp

lemma gfw_loop_act: "gfw_loop p n d a b = d XOR gf_act p n b a"
proof (induction n arbitrary: d a b)
  case (Suc n)
  show ?case
    by (simp only: gf_act_Suc_shift gfw_loop.simps Suc) (auto simp: ac_simps)
qed simp

lemma gfw_mul_act: "gfw_mul p a b = gf_act p LENGTH('a::len) b (a :: 'a word)"
  by (simp add: gfw_mul_def gfw_loop_act)

lemma xtime_pow_1: "n < LENGTH('a::len) \<Longrightarrow> (xtime p ^^ n) (1 :: 'a word) = push_bit n 1"
proof (induction n)
  case (Suc n)
  then have "\<not> bit (push_bit n 1 :: 'a word) (LENGTH('a) - 1)"
    by (auto simp: bit_simps)
  with Suc show ?case by (simp add: xtime_def)
qed simp

lemma gf_act_1: "n \<le> LENGTH('a::len) \<Longrightarrow> gf_act p n b (1 :: 'a word) = take_bit n b"
proof (induction n)
  case (Suc n)
  have "take_bit (Suc n) b = take_bit n b XOR (if bit b n then push_bit n 1 else 0)"
    by (rule bit_word_eqI) (auto simp: bit_simps less_Suc_eq)
  with Suc show ?case by (simp add: xtime_pow_1 del: funpow.simps take_bit_Suc)
qed simp

lemma gf_act_one: "gf_act p LENGTH('a::len) b (1 :: 'a word) = b"
  by (simp add: gf_act_1)

lemma gfw_mul_commute: "gfw_mul p a b = gfw_mul p b a"
  by (metis gf_act_commute gf_act_one gfw_mul_act)

lemma gfw_mul_assoc: "gfw_mul p (gfw_mul p a b) c = gfw_mul p a (gfw_mul p b c)"
  by (metis gf_act_commute gfw_mul_act gfw_mul_commute)

lemma gfw_mul_1: "gfw_mul p 1 a = a"
  by (simp add: gfw_mul_act gf_act_one)

lemma gfw_mul_0: "gfw_mul p 0 a = 0"
  by (simp add: gfw_mul_act)

lemma gfw_mul_xor: "gfw_mul p (a XOR b) c = gfw_mul p a c XOR gfw_mul p b c"
  by (simp add: gfw_mul_act gf_act_xor_right)

section \<open>The byte arrays of gf<8> and gf<16> as words\<close>

definition gf8_word :: "byte list \<Rightarrow> byte" where
  "gf8_word d = d ! 0"

definition gf16_word :: "byte list \<Rightarrow> u16" where
  "gf16_word d = push_bit 8 (ucast (d ! 1)) OR ucast (d ! 0)"

definition gf8_poly :: byte where "gf8_poly = 0x1D"
definition gf16_poly :: u16 where "gf16_poly = 0x100B"

lemma length_gf_exclude_or [simp]: "length (gf_exclude_or a b) = length a"
  by (induction a b rule: gf_exclude_or.induct) auto

lemma length_gf_shift_left [simp]: "length (gf_shift_left a) = length a"
proof -
  have "length (gf_shift_left_loop c a) = length a" for c
    by (induction c a rule: gf_shift_left_loop.induct) (auto simp: Let_def)
  then show ?thesis by (simp add: gf_shift_left_def)
qed

lemma length_gf_shift_right [simp]: "length (gf_shift_right a) = length a"
proof -
  have "length (gf_shift_right_loop c a) = length a" for c a
    by (induction c a rule: gf_shift_right_loop.induct) (auto simp: Let_def)
  then show ?thesis by (simp add: gf_shift_right_def)
qed

lemma and_1_bit: "(1 AND x \<noteq> 0) = bit (x :: byte) 0" "(x AND 1 \<noteq> 0) = bit (x :: byte) 0"
  by (simp_all add: and_one_eq one_and_eq bit_0 odd_iff_mod_2_eq_one)

lemma and_80_bit: "(0x80 AND x \<noteq> 0) = bit (x :: byte) 7"
proof -
  have "(0x80 :: byte) = push_bit 7 1" by simp
  then show ?thesis
    by (metis and.commute bit_push_bit_iff bit_iff_and_push_bit_not_eq_0)
qed

lemma list1_cases: "length xs = 1 \<Longrightarrow> (\<And>x. xs = [x] \<Longrightarrow> P) \<Longrightarrow> P"
  by (auto simp: length_Suc_conv)

lemma list2_cases: "length xs = 2 \<Longrightarrow> (\<And>x y. xs = [x, y] \<Longrightarrow> P) \<Longrightarrow> P"
  by (auto simp: length_Suc_conv numeral_2_eq_2)


lemma gf8_step:
  assumes "length a = 1"
  shows "gf8_word (gf_shift_left a) = push_bit 1 (gf8_word a)"
    and "gf8_word (gf_shift_right a) = drop_bit 1 (gf8_word a)"
    and "length b = 1 \<Longrightarrow> gf8_word (gf_exclude_or a b) = gf8_word a XOR gf8_word b"
    and "(a ! 0 AND 1 \<noteq> 0) = bit (gf8_word a) 0"
    and "(gf_hi_bit_mask 8 AND a ! gf_hi_bit_index 8 \<noteq> 0) = bit (gf8_word a) 7"
proof -
  obtain x where a: "a = [x]" using assms by (rule list1_cases)
  show "gf8_word (gf_shift_left a) = push_bit 1 (gf8_word a)"
    and "gf8_word (gf_shift_right a) = drop_bit 1 (gf8_word a)"
    and "(a ! 0 AND 1 \<noteq> 0) = bit (gf8_word a) 0"
    and "(gf_hi_bit_mask 8 AND a ! gf_hi_bit_index 8 \<noteq> 0) = bit (gf8_word a) 7"
    by (simp_all add: a gf8_word_def gf_shift_left_def gf_shift_right_def and_1_bit
        gf_hi_bit_mask_def gf_hi_bit_index_def and_80_bit)
  show "length b = 1 \<Longrightarrow> gf8_word (gf_exclude_or a b) = gf8_word a XOR gf8_word b"
    unfolding a gf8_word_def by (erule list1_cases) simp
qed

lemma byte_bit_less: "bit (x :: byte) n \<Longrightarrow> n < 8"
  using bit_imp_le_length [of x n] by simp

lemma bit_gf16_word: "bit (gf16_word [x, y]) n \<longleftrightarrow> (if n < 8 then bit x n else bit y (n - 8))"
  by (auto simp: gf16_word_def bit_simps dest: byte_bit_less)

lemma bit_80: "bit (128 :: 'a::len word) n \<longleftrightarrow> n = 7 \<and> 7 < LENGTH('a)"
proof -
  have "(128 :: 'a word) = push_bit 7 1" by simp
  then show ?thesis by (auto simp only: bit_simps) (auto simp: bit_simps)
qed

lemma bit_80_unsigned: "bit (128 :: nat) n \<longleftrightarrow> n = 7" "bit (128 :: int) n \<longleftrightarrow> n = 7"
proof -
  have "(128 :: nat) = push_bit 7 1" "(128 :: int) = push_bit 7 1" by simp_all
  then show "bit (128 :: nat) n \<longleftrightarrow> n = 7" "bit (128 :: int) n \<longleftrightarrow> n = 7"
    by (auto simp only: bit_simps) (auto simp: bit_simps)
qed

lemma gf16_step:
  assumes "length a = 2"
  shows "gf16_word (gf_shift_left a) = push_bit 1 (gf16_word a)"
    and "gf16_word (gf_shift_right a) = drop_bit 1 (gf16_word a)"
    and "length b = 2 \<Longrightarrow> gf16_word (gf_exclude_or a b) = gf16_word a XOR gf16_word b"
    and "(a ! 0 AND 1 \<noteq> 0) = bit (gf16_word a) 0"
    and "(gf_hi_bit_mask 16 AND a ! gf_hi_bit_index 16 \<noteq> 0) = bit (gf16_word a) 15"
proof -
  obtain x y where a: "a = [x, y]" using assms by (rule list2_cases)
  show "gf16_word (gf_shift_left a) = push_bit 1 (gf16_word a)"
  proof (rule bit_word_eqI)
    fix n assume "n < LENGTH(16)"
    consider "n < 8" | "n = 8" | "8 < n" by arith
    then show "bit (gf16_word (gf_shift_left a)) n = bit (push_bit 1 (gf16_word a)) n"
      by cases (use \<open>n < LENGTH(16)\<close> in
        \<open>auto simp: a gf16_word_def gf_shift_left_def and_80_bit bit_simps Let_def bit_1_iff
           simp del: push_bit_Suc One_nat_def dest: byte_bit_less\<close>)
  qed
  show "gf16_word (gf_shift_right a) = drop_bit 1 (gf16_word a)"
  proof (rule bit_word_eqI)
    fix n assume "n < LENGTH(16)"
    have e: "8 \<le> n \<Longrightarrow> 1 + (n - 8) = n - 7" by simp
    consider "n < 7" | "n = 7" | "7 < n" by arith
    then show "bit (gf16_word (gf_shift_right a)) n = bit (drop_bit 1 (gf16_word a)) n"
      by cases (use \<open>n < LENGTH(16)\<close> e in
        \<open>auto simp: a gf16_word_def gf_shift_right_def and_1_bit bit_simps bit_80 bit_80_unsigned Let_def
           simp del: drop_bit_Suc One_nat_def dest: byte_bit_less\<close>)
  qed
  show "length b = 2 \<Longrightarrow> gf16_word (gf_exclude_or a b) = gf16_word a XOR gf16_word b"
    unfolding a by (erule list2_cases) (auto intro!: bit_word_eqI simp: bit_gf16_word bit_xor_iff)
  show "(a ! 0 AND 1 \<noteq> 0) = bit (gf16_word a) 0"
    by (simp add: a and_1_bit gf16_word_def bit_simps)
  show "(gf_hi_bit_mask 16 AND a ! gf_hi_bit_index 16 \<noteq> 0) = bit (gf16_word a) 15"
    by (simp add: a gf_hi_bit_mask_def gf_hi_bit_index_def and_80_bit bit_gf16_word)
qed

lemma gf8_mul_loop:
  assumes "length d = 1" "length a = 1" "length b = 1"
  shows "gf8_word (gf_mul_loop 8 n d a b) = gfw_loop gf8_poly n (gf8_word d) (gf8_word a) (gf8_word b)
    \<and> length (gf_mul_loop 8 n d a b) = 1"
  using assms
proof (induction n arbitrary: d a b)
  case (Suc n)
  have p: "gf8_word [0x1D] = gf8_poly" by (simp add: gf8_word_def gf8_poly_def)
  from Suc show ?case
    by (simp add: Let_def gf8_step p xtime_def)
qed simp

lemma gf16_mul_loop:
  assumes "length d = 2" "length a = 2" "length b = 2"
  shows "gf16_word (gf_mul_loop 16 n d a b) = gfw_loop gf16_poly n (gf16_word d) (gf16_word a) (gf16_word b)
    \<and> length (gf_mul_loop 16 n d a b) = 2"
  using assms
proof (induction n arbitrary: d a b)
  case (Suc n)
  have p: "gf16_word [0x0B, 0x10] = gf16_poly" by (simp add: gf16_word_def gf16_poly_def)
  from Suc show ?case
    by (simp add: Let_def gf16_step p xtime_def)
qed simp

lemma gf8_mul:
  assumes "length a = 1" "length b = 1"
  shows "gf8_word (gf_mul 8 a b) = gfw_mul gf8_poly (gf8_word a) (gf8_word b)"
    and "length (gf_mul 8 a b) = 1"
  using gf8_mul_loop [of "[0]" a b 8] assms
  by (simp_all add: gf_mul_def gf_array_size_def gfw_mul_def gf8_word_def)

lemma gf16_mul:
  assumes "length a = 2" "length b = 2"
  shows "gf16_word (gf_mul 16 a b) = gfw_mul gf16_poly (gf16_word a) (gf16_word b)"
    and "length (gf_mul 16 a b) = 2"
proof -
  have "replicate (gf_array_size 16) 0 = [0, 0 :: byte]"
    by (simp add: gf_array_size_def numeral_2_eq_2)
  moreover have "gf16_word [0, 0] = 0" by (simp add: gf16_word_def)
  ultimately show "gf16_word (gf_mul 16 a b) = gfw_mul gf16_poly (gf16_word a) (gf16_word b)"
    and "length (gf_mul 16 a b) = 2"
    using gf16_mul_loop [of "[0, 0]" a b 16] assms by (simp_all add: gf_mul_def gfw_mul_def)
qed

section \<open>Fields\<close>

text \<open>
  Cells as field elements. The addition is exclusive or, so every element is its own negative.
\<close>

typedef gf16 = "UNIV :: u16 set" morphisms cell_of Gf16 ..
typedef gf8 = "UNIV :: byte set" morphisms cell8_of Gf8 ..

setup_lifting type_definition_gf16
setup_lifting type_definition_gf8

instantiation gf16 :: comm_ring_1
begin

lift_definition zero_gf16 :: gf16 is 0 .
lift_definition one_gf16 :: gf16 is 1 .
lift_definition plus_gf16 :: "gf16 \<Rightarrow> gf16 \<Rightarrow> gf16" is "(XOR)" .
lift_definition minus_gf16 :: "gf16 \<Rightarrow> gf16 \<Rightarrow> gf16" is "(XOR)" .
lift_definition uminus_gf16 :: "gf16 \<Rightarrow> gf16" is "\<lambda>x. x" .
lift_definition times_gf16 :: "gf16 \<Rightarrow> gf16 \<Rightarrow> gf16" is "gfw_mul gf16_poly" .

instance
  by standard (transfer; auto simp: gfw_mul_assoc gfw_mul_1 gfw_mul_xor ac_simps intro: gfw_mul_commute)+

end

instantiation gf8 :: comm_ring_1
begin

lift_definition zero_gf8 :: gf8 is 0 .
lift_definition one_gf8 :: gf8 is 1 .
lift_definition plus_gf8 :: "gf8 \<Rightarrow> gf8 \<Rightarrow> gf8" is "(XOR)" .
lift_definition minus_gf8 :: "gf8 \<Rightarrow> gf8 \<Rightarrow> gf8" is "(XOR)" .
lift_definition uminus_gf8 :: "gf8 \<Rightarrow> gf8" is "\<lambda>x. x" .
lift_definition times_gf8 :: "gf8 \<Rightarrow> gf8 \<Rightarrow> gf8" is "gfw_mul gf8_poly" .

instance
  by standard (transfer; auto simp: gfw_mul_assoc gfw_mul_1 gfw_mul_xor ac_simps intro: gfw_mul_commute)+

end

text \<open>
  A finite commutative ring in which some element \<open>g\<close> has order one less than the number of
  elements: every non-zero element is a power of \<open>g\<close>.
\<close>

locale generator =
  fixes g :: "'r::comm_ring_1" and n :: nat
  assumes card_ring: "card (UNIV :: 'r set) = Suc n"
    and pow_n: "g ^ n = 1"
    and pow_less: "0 < d \<Longrightarrow> d < n \<Longrightarrow> g ^ d \<noteq> 1"
    and n_pos: "0 < n"
begin

lemma unit: "i \<le> n \<Longrightarrow> g ^ i * g ^ (n - i) = 1"
  by (simp add: pow_n flip: power_add)

lemma pow_inj: "inj_on (\<lambda>i. g ^ i) {..<n}"
proof (rule linorder_inj_onI)
  fix i j assume "i < j" and "i \<in> {..<n}" "j \<in> {..<n}"
  show "g ^ i \<noteq> g ^ j"
  proof
    assume "g ^ i = g ^ j"
    then have "g ^ (n - i) * g ^ i = g ^ (n - i) * g ^ j" by simp
    then have "1 = g ^ (n - i + j)"
      using unit [of i] \<open>i \<in> _\<close> by (simp only: power_add) (simp add: mult.commute)
    also have "n - i + j = n + (j - i)" using \<open>i < j\<close> \<open>i \<in> _\<close> by simp
    finally have "g ^ (j - i) = 1" by (simp add: power_add pow_n)
    then show False using pow_less [of "j - i"] \<open>i < j\<close> \<open>j \<in> _\<close> by (simp add: less_imp_diff_less)
  qed
qed auto

lemma pow_nonzero: "g ^ i \<noteq> 0"
proof
  assume z: "g ^ i = 0"
  have "(g ^ n) ^ i = (g ^ i) ^ n" by (simp add: power_mult [symmetric] mult.commute)
  with z n_pos pow_n show False by (simp add: zero_power)
qed

lemma finite_ring: "finite (UNIV :: 'r set)"
  using card_ring card.infinite by fastforce

lemma all_powers: "(\<lambda>i. g ^ i) ` {..<n} = UNIV - {0}"
proof (rule card_seteq)
  show "(\<lambda>i. g ^ i) ` {..<n} \<subseteq> UNIV - {0}" using pow_nonzero by auto
  have "card (UNIV - {0 :: 'r}) = n"
    using card_ring finite_ring by (simp add: card_Diff_singleton)
  then show "card (UNIV - {0 :: 'r}) \<le> card ((\<lambda>i. g ^ i) ` {..<n})"
    by (simp add: card_image pow_inj)
qed (use finite_ring in simp)

lemma is_power: "x \<noteq> 0 \<Longrightarrow> \<exists>i < n. x = g ^ i"
  using all_powers by (auto simp: set_eq_iff image_iff)

lemma fermat: "(x :: 'r) \<noteq> 0 \<Longrightarrow> x * x ^ (n - 1) = 1"
proof -
  assume "x \<noteq> 0"
  then obtain i where "x = g ^ i" using is_power by blast
  then have "x ^ n = 1"
    by (metis pow_n power_commutes power_mult power_one mult.commute)
  then show ?thesis using n_pos by (simp flip: power_Suc)
qed

end


text \<open>
  2 generates the multiplicative group: its power to the group's order is 1, its powers to the
  maximal divisors of the order are not. The powers are computed by repeated squaring.
\<close>

lemma pow_one_dvd:
  fixes g :: "'r::comm_ring_1"
  assumes "g ^ a = 1" "g ^ b = 1" "0 < a"
  shows "g ^ gcd a b = 1"
proof -
  obtain x y where "a * x = b * y + gcd a b"
    using bezout_nat [of a b] assms(3) by blast
  then have "(g ^ a) ^ x = (g ^ b) ^ y * g ^ gcd a b"
    by (metis power_add power_mult)
  with assms show ?thesis by simp
qed

lemma dvd_less_or:
  fixes d e :: nat
  assumes "d * e = N" "N = p * k" "\<And>x. x dvd p \<Longrightarrow> x = 1 \<or> x = p" "0 < N"
  shows "d dvd k \<or> coprime e p"
proof (cases "p dvd e")
  case True
  then obtain f where "e = p * f" by blast
  with assms have "p * (d * f) = p * k" by (simp add: ac_simps)
  with assms(2,4) have "d * f = k" by simp
  then show ?thesis by (metis dvd_triv_left)
next
  case False
  have "gcd e p = 1 \<or> gcd e p = p" using assms(3) [of "gcd e p"] by simp
  with False show ?thesis
    by (metis coprime_iff_gcd_eq_1 gcd_dvd1)
qed

lemma dvd_checked:
  assumes "\<forall>x \<in> set [0..<Suc p]. x dvd p \<longrightarrow> x = 1 \<or> x = p" and "0 < p" and "x dvd p"
  shows "x = 1 \<or> x = (p :: nat)"
proof -
  from assms(2,3) have "x \<in> set [0..<Suc p]" using dvd_imp_le [of x p] by auto
  with assms(1,3) show ?thesis by blast
qed

lemma small_prime:
  "x dvd 3 \<Longrightarrow> x = 1 \<or> x = (3::nat)"
  "x dvd 5 \<Longrightarrow> x = 1 \<or> x = (5::nat)"
  "x dvd 17 \<Longrightarrow> x = 1 \<or> x = (17::nat)"
  "x dvd 257 \<Longrightarrow> x = 1 \<or> x = (257::nat)"
  by (rule dvd_checked, code_simp, simp, assumption)+

lemma order_65535:
  fixes g :: "'r::comm_ring_1"
  assumes one: "g ^ 65535 = 1"
    and ne: "g ^ 21845 \<noteq> 1" "g ^ 13107 \<noteq> 1" "g ^ 3855 \<noteq> 1" "g ^ 255 \<noteq> 1"
    and d: "0 < d" "d < 65535"
  shows "g ^ d \<noteq> 1"
proof
  assume "g ^ d = 1"
  with one have g1: "g ^ gcd 65535 d = 1" by (intro pow_one_dvd) auto
  obtain e where e: "gcd 65535 d * e = 65535" by (metis dvd_def gcd_dvd1)
  have not: "\<not> gcd 65535 d dvd k" if "g ^ k \<noteq> 1" for k
    using g1 that by (metis dvd_def power_mult power_one)
  have "coprime e 3" "coprime e 5" "coprime e 17" "coprime e 257"
    using dvd_less_or [OF e, of 3 21845] dvd_less_or [OF e, of 5 13107]
      dvd_less_or [OF e, of 17 3855] dvd_less_or [OF e, of 257 255] small_prime not ne by auto
  then have "coprime e (3 * (5 * (17 * 257)))" by (simp only: coprime_mult_right_iff)
  then have "coprime e 65535" by simp
  moreover have "e dvd 65535" using e by (metis dvd_triv_right)
  ultimately have "e = 1" by (metis coprime_absorb_left nat_dvd_1_iff_1)
  with e have "65535 dvd d" by (metis gcd_dvd2 mult.right_neutral)
  with d show False by (auto dest: dvd_imp_le)
qed

lemma order_255:
  fixes g :: "'r::comm_ring_1"
  assumes one: "g ^ 255 = 1"
    and ne: "g ^ 85 \<noteq> 1" "g ^ 51 \<noteq> 1" "g ^ 15 \<noteq> 1"
    and d: "0 < d" "d < 255"
  shows "g ^ d \<noteq> 1"
proof
  assume "g ^ d = 1"
  with one have g1: "g ^ gcd 255 d = 1" by (intro pow_one_dvd) auto
  obtain e where e: "gcd 255 d * e = 255" by (metis dvd_def gcd_dvd1)
  have not: "\<not> gcd 255 d dvd k" if "g ^ k \<noteq> 1" for k
    using g1 that by (metis dvd_def power_mult power_one)
  have "coprime e 3" "coprime e 5" "coprime e 17"
    using dvd_less_or [OF e, of 3 85] dvd_less_or [OF e, of 5 51]
      dvd_less_or [OF e, of 17 15] small_prime not ne by auto
  then have "coprime e (3 * (5 * 17))" by (simp only: coprime_mult_right_iff)
  then have "coprime e 255" by simp
  moreover have "e dvd 255" using e by (metis dvd_triv_right)
  ultimately have "e = 1" by (metis coprime_absorb_left nat_dvd_1_iff_1)
  with e have "255 dvd d" by (metis gcd_dvd2 mult.right_neutral)
  with d show False by (auto dest: dvd_imp_le)
qed


text \<open>Powers by repeated squaring, most significant bit of the exponent first.\<close>

definition gfw_pow :: "'a::len word \<Rightarrow> 'a word \<Rightarrow> bool list \<Rightarrow> 'a word" where
  "gfw_pow p a bits =
     foldl (\<lambda>acc b. if b then gfw_mul p (gfw_mul p acc acc) a else gfw_mul p acc acc) 1 bits"

definition bits_value :: "bool list \<Rightarrow> nat" where
  "bits_value bits = foldl (\<lambda>n b. if b then 2 * n + 1 else 2 * n) 0 bits"

lemma Gf16_times: "Gf16 a * Gf16 b = Gf16 (gfw_mul gf16_poly a b)"
  by (simp add: times_gf16.abs_eq eq_onp_same_args)

lemma Gf8_times: "Gf8 a * Gf8 b = Gf8 (gfw_mul gf8_poly a b)"
  by (simp add: times_gf8.abs_eq eq_onp_same_args)

lemma Gf16_pow: "Gf16 a ^ bits_value bits = Gf16 (gfw_pow gf16_poly a bits)"
  unfolding bits_value_def gfw_pow_def
proof (induction bits rule: rev_induct)
  case (snoc b bits)
  then show ?case
    by (simp add: mult_2 power_add ac_simps flip: Gf16_times)
qed (simp add: one_gf16_def)

lemma Gf8_pow: "Gf8 a ^ bits_value bits = Gf8 (gfw_pow gf8_poly a bits)"
  unfolding bits_value_def gfw_pow_def
proof (induction bits rule: rev_induct)
  case (snoc b bits)
  then show ?case
    by (simp add: mult_2 power_add ac_simps flip: Gf8_times)
qed (simp add: one_gf8_def)

lemma gf16_powers:
  "Gf16 2 ^ 65535 = Gf16 1" "Gf16 2 ^ 21845 = Gf16 350" "Gf16 2 ^ 13107 = Gf16 7400"
  "Gf16 2 ^ 3855 = Gf16 19832" "Gf16 2 ^ 255 = Gf16 36242"
proof -
  have p: "bits_value bits = e \<Longrightarrow> gfw_pow gf16_poly 2 bits = r \<Longrightarrow> Gf16 2 ^ e = Gf16 r" for bits e r
    using Gf16_pow [of 2 bits] by simp
  show "Gf16 2 ^ 65535 = Gf16 1"
    by (rule p [of "[True, True, True, True, True, True, True, True, True, True, True, True, True, True, True, True]"]) (simp add: bits_value_def, code_simp)
  show "Gf16 2 ^ 21845 = Gf16 350"
    by (rule p [of "[True, False, True, False, True, False, True, False, True, False, True, False, True, False, True]"]) (simp add: bits_value_def, code_simp)
  show "Gf16 2 ^ 13107 = Gf16 7400"
    by (rule p [of "[True, True, False, False, True, True, False, False, True, True, False, False, True, True]"]) (simp add: bits_value_def, code_simp)
  show "Gf16 2 ^ 3855 = Gf16 19832"
    by (rule p [of "[True, True, True, True, False, False, False, False, True, True, True, True]"]) (simp add: bits_value_def, code_simp)
  show "Gf16 2 ^ 255 = Gf16 36242"
    by (rule p [of "[True, True, True, True, True, True, True, True]"]) (simp add: bits_value_def, code_simp)
qed

lemma gf8_powers:
  "Gf8 2 ^ 255 = Gf8 1" "Gf8 2 ^ 85 = Gf8 214" "Gf8 2 ^ 51 = Gf8 10" "Gf8 2 ^ 15 = Gf8 38"
proof -
  have p: "bits_value bits = e \<Longrightarrow> gfw_pow gf8_poly 2 bits = r \<Longrightarrow> Gf8 2 ^ e = Gf8 r" for bits e r
    using Gf8_pow [of 2 bits] by simp
  show "Gf8 2 ^ 255 = Gf8 1"
    by (rule p [of "[True, True, True, True, True, True, True, True]"]) (simp add: bits_value_def, code_simp)
  show "Gf8 2 ^ 85 = Gf8 214"
    by (rule p [of "[True, False, True, False, True, False, True]"]) (simp add: bits_value_def, code_simp)
  show "Gf8 2 ^ 51 = Gf8 10"
    by (rule p [of "[True, True, False, False, True, True]"]) (simp add: bits_value_def, code_simp)
  show "Gf8 2 ^ 15 = Gf8 38"
    by (rule p [of "[True, True, True, True]"]) (simp add: bits_value_def, code_simp)
qed

lemma Gf16_neq_1: "x \<noteq> 1 \<Longrightarrow> Gf16 x \<noteq> 1"
  by (simp add: one_gf16_def Gf16_inject)

lemma Gf8_neq_1: "x \<noteq> 1 \<Longrightarrow> Gf8 x \<noteq> 1"
  by (simp add: one_gf8_def Gf8_inject)

interpretation gf16: generator "Gf16 2" 65535
proof
  show "card (UNIV :: gf16 set) = Suc 65535"
    by (simp add: type_definition.card [OF type_definition_gf16] card_word)
  show one: "Gf16 2 ^ 65535 = 1"
    by (simp only: gf16_powers one_gf16_def)
  show "0 < d \<Longrightarrow> d < 65535 \<Longrightarrow> Gf16 2 ^ d \<noteq> 1" for d
    by (rule order_65535) (simp_all only: one gf16_powers, auto simp: Gf16_neq_1)
qed simp

interpretation gf8: generator "Gf8 2" 255
proof
  show "card (UNIV :: gf8 set) = Suc 255"
    by (simp add: type_definition.card [OF type_definition_gf8] card_word)
  show one: "Gf8 2 ^ 255 = 1"
    by (simp only: gf8_powers one_gf8_def)
  show "0 < d \<Longrightarrow> d < 255 \<Longrightarrow> Gf8 2 ^ d \<noteq> 1" for d
    by (rule order_255) (simp_all only: one gf8_powers, auto simp: Gf8_neq_1)
qed simp

instantiation gf16 :: field
begin

definition inverse_gf16 :: "gf16 \<Rightarrow> gf16" where "inverse_gf16 x = x ^ (65535 - 1)"
definition divide_gf16 :: "gf16 \<Rightarrow> gf16 \<Rightarrow> gf16" where "divide_gf16 x y = x * inverse y"

instance
  by standard (use gf16.fermat in \<open>auto simp: inverse_gf16_def divide_gf16_def mult.commute power_0_left\<close>)

end

instantiation gf8 :: field
begin

definition inverse_gf8 :: "gf8 \<Rightarrow> gf8" where "inverse_gf8 x = x ^ (255 - 1)"
definition divide_gf8 :: "gf8 \<Rightarrow> gf8 \<Rightarrow> gf8" where "divide_gf8 x y = x * inverse y"

instance
  by standard (use gf8.fermat in \<open>auto simp: inverse_gf8_def divide_gf8_def mult.commute power_0_left\<close>)

end

end
