(* ===== verification/Gf_math.thy ===== *)
theory Gf_math
  imports Galois_field
begin

text \<open>
  The class template \<open>gf_math<value_type>\<close> of \<open>kernel/vds_data/gf.h\<close> and its specialisations
  for \<open>uint8_t\<close> and \<open>uint16_t\<close>: cell arithmetic by logarithm tables. The two
  specialisations run the same code over different constants, so the loops take the
  constants as arguments. The tables start with what the memory holds (\<open>log2value\<close>), since
  the constructor clears only \<open>value2log\<close>.
\<close>

section \<open>The tables and the cell operations\<close>

record 'w gf_math =
  value2log :: "'w \<Rightarrow> 'w"
  log2value :: "'w \<Rightarrow> 'w"

text \<open>
  The constructor's loop: \<open>m\<close> the field, \<open>value_of\<close> the cell of a byte array, \<open>v\<close> the
  array of the constant two, \<open>n\<close> the rounds left.
\<close>

fun gf_math_loop :: "nat \<Rightarrow> (byte list \<Rightarrow> 'a::len word) \<Rightarrow> byte list \<Rightarrow> nat \<Rightarrow> 'a word \<Rightarrow>
    byte list \<Rightarrow> 'a word gf_math \<Rightarrow> 'a word gf_math expected" where
  "gf_math_loop m value_of v 0 log k t = Inr t"
| "gf_math_loop m value_of v (Suc n) log k t =
     (let val = value_of k;
          t = t\<lparr>log2value := (log2value t)(log := val)\<rparr>
      in vds_assert (0 = value2log t val) ''0 == this->value2log[value]''
           (gf_math_loop m value_of v n (log + 1) (gf_mul m k v)
             (t\<lparr>value2log := (value2log t)(val := log)\<rparr>)))"

definition gf_math_init :: "('a::len word \<Rightarrow> 'a word) \<Rightarrow> 'a word gf_math" where
  "gf_math_init memory = \<lparr>value2log = (\<lambda>_. 0)(1 := 0), log2value = memory(0 := 1)\<rparr>"

definition gf_math8 :: "(byte \<Rightarrow> byte) \<Rightarrow> byte gf_math expected" where
  "gf_math8 memory = gf_math_loop 8 (\<lambda>k. k ! 0) [2] (255 - 1) 1 [2] (gf_math_init memory)"

definition gf_math16 :: "(u16 \<Rightarrow> u16) \<Rightarrow> u16 gf_math expected" where
  "gf_math16 memory =
     gf_math_loop 16 (\<lambda>k. push_bit 8 (ucast (k ! 1)) OR ucast (k ! 0)) [2, 0] (0xFFFF - 1) 1 [2, 0]
       (gf_math_init memory)"

definition gf_math_mul :: "nat \<Rightarrow> 'a::len word gf_math \<Rightarrow> 'a word \<Rightarrow> 'a word \<Rightarrow> 'a word" where
  "gf_math_mul n t left right =
     (if left = 0 \<or> right = 0 then 0
      else let log_left = value2log t left; log_right = value2log t right
           in log2value t (word_of_nat ((unat log_left + unat log_right) mod n)))"

text \<open>The loop \<open>while (dif < 0) dif += n\<close>; \<open>n\<close> is the constant 255 or 0xFFFF.\<close>

function gf_math_wrap :: "nat \<Rightarrow> int \<Rightarrow> int" where
  "gf_math_wrap n dif = (if dif < 0 \<and> 0 < n then gf_math_wrap n (dif + int n) else dif)"
  by pat_completeness auto
termination
  by (relation "measure (\<lambda>(n, dif). nat (- dif))") auto

declare gf_math_wrap.simps [simp del]

definition gf_math_div :: "nat \<Rightarrow> 'a::len word gf_math \<Rightarrow> 'a word \<Rightarrow> 'a word \<Rightarrow> 'a word" where
  "gf_math_div n t left right =
     (if left = 0 \<or> right = 0 then 0
      else let dif = int (unat (value2log t left)) - int (unat (value2log t right))
           in log2value t (word_of_int (gf_math_wrap n dif mod int n)))"

definition gf_math_add :: "'a::len word \<Rightarrow> 'a word \<Rightarrow> 'a word" where
  "gf_math_add left right = left XOR right"

definition gf_math_sub :: "'a::len word \<Rightarrow> 'a word \<Rightarrow> 'a word" where
  "gf_math_sub left right = left XOR right"

definition gf_math8_mul :: "byte gf_math \<Rightarrow> byte \<Rightarrow> byte \<Rightarrow> byte" where
  "gf_math8_mul t = gf_math_mul 255 t"

definition gf_math8_div :: "byte gf_math \<Rightarrow> byte \<Rightarrow> byte \<Rightarrow> byte" where
  "gf_math8_div t = gf_math_div 255 t"

definition gf_math16_mul :: "u16 gf_math \<Rightarrow> u16 \<Rightarrow> u16 \<Rightarrow> u16" where
  "gf_math16_mul t = gf_math_mul 0xFFFF t"

definition gf_math16_div :: "u16 gf_math \<Rightarrow> u16 \<Rightarrow> u16 \<Rightarrow> u16" where
  "gf_math16_div t = gf_math_div 0xFFFF t"

section \<open>The tables are logarithms\<close>

lemma gf_math_wrap_mod: "0 < n \<Longrightarrow> gf_math_wrap n d mod int n = d mod int n"
proof (induction n d rule: gf_math_wrap.induct)
  case (1 n d)
  then show ?case by (subst gf_math_wrap.simps) auto
qed

text \<open>
  A cell type refines a field by \<open>emb\<close>; the byte arrays of the field refine the cells by
  \<open>value_of\<close>.
\<close>

locale log_cells = generator g n for g :: "'r::field" and n :: nat +
  fixes emb :: "'a::len word \<Rightarrow> 'r" and value_of :: "byte list \<Rightarrow> 'a word" and m :: nat
    and arrays :: "byte list set" and two :: "byte list"
  assumes bij_emb: "bij emb"
    and emb_0: "emb 0 = 0" and emb_1: "emb 1 = 1"
    and emb_add: "emb (x XOR y) = emb x + emb y"
    and emb_two: "emb (value_of two) = g"
    and two_array: "two \<in> arrays"
    and mul_array: "a \<in> arrays \<Longrightarrow> b \<in> arrays \<Longrightarrow> gf_mul m a b \<in> arrays"
    and emb_mul: "a \<in> arrays \<Longrightarrow> b \<in> arrays \<Longrightarrow>
      emb (value_of (gf_mul m a b)) = emb (value_of a) * emb (value_of b)"
    and n_less: "n < 2 ^ LENGTH('a)"
begin

lemma emb_inject: "emb x = emb y \<longleftrightarrow> x = y"
  using bij_emb by (meson bij_def injD)

lemma emb_eq_0: "emb x = 0 \<longleftrightarrow> x = 0"
  using emb_inject [of x 0] by (simp add: emb_0)

lemma unat_log: "j < n \<Longrightarrow> unat (word_of_nat j :: 'a word) = j"
  using n_less by (simp add: unsigned_of_nat take_bit_nat_eq_self)

text \<open>After \<open>i\<close> rounds the powers \<open>0 .. i\<close> of two are in the tables.\<close>

definition tabulated :: "nat \<Rightarrow> 'a word gf_math \<Rightarrow> bool" where
  "tabulated i t \<longleftrightarrow>
     (\<forall>j \<le> i. emb (log2value t (word_of_nat j)) = g ^ j)
     \<and> (\<forall>x. \<forall>j < n. emb x = g ^ j \<longrightarrow> value2log t x = (if j \<le> i then word_of_nat j else 0))"

lemma pow_eq_iff: "i < n \<Longrightarrow> j < n \<Longrightarrow> g ^ i = g ^ j \<longleftrightarrow> i = j"
  using pow_inj by (auto dest: inj_onD)

lemma tabulated_init: "tabulated 0 (gf_math_init memory)"
  using emb_inject [of _ 1] emb_1 by (auto simp: tabulated_def gf_math_init_def)

lemma tabulated_step:
  assumes t: "tabulated i t" and i: "Suc i < n" and x: "emb x = g ^ Suc i"
  shows "value2log t x = 0"
    and "tabulated (Suc i) (t\<lparr>log2value := (log2value t)(word_of_nat (Suc i) := x),
           value2log := (value2log t)(x := word_of_nat (Suc i))\<rparr>)"
proof -
  show "value2log t x = 0" using t i x by (auto simp: tabulated_def)
  have ne: "word_of_nat j \<noteq> (word_of_nat (Suc i) :: 'a word)" if "j \<le> i" for j
  proof
    assume "word_of_nat j = (word_of_nat (Suc i) :: 'a word)"
    then have "j = Suc i" using unat_log [of "Suc i"] unat_log [of j] that i by simp
    with that show False by simp
  qed
  obtain l :: "'a word" where l: "l = word_of_nat (Suc i)" by simp
  let ?t = "t\<lparr>log2value := (log2value t)(l := x), value2log := (value2log t)(x := l)\<rparr>"
  have "emb (log2value ?t (word_of_nat j)) = g ^ j" if "j \<le> Suc i" for j
    using that t ne [of j] x by (cases "j = Suc i") (simp_all add: l tabulated_def del: of_nat_Suc)
  moreover have "value2log ?t y = (if j \<le> Suc i then word_of_nat j else 0)"
    if "j < n" "emb y = g ^ j" for y j
  proof (cases "j = Suc i")
    case True
    with that x have "y = x" by (metis emb_inject)
    with True show ?thesis by (simp add: l)
  next
    case False
    with that x pow_eq_iff [OF that(1) i] have "y \<noteq> x" by auto
    moreover have "j \<le> Suc i \<longleftrightarrow> j \<le> i" using False by auto
    ultimately show ?thesis using t that by (simp add: tabulated_def)
  qed
  ultimately show "tabulated (Suc i) (t\<lparr>log2value := (log2value t)(word_of_nat (Suc i) := x),
           value2log := (value2log t)(x := word_of_nat (Suc i))\<rparr>)"
    unfolding tabulated_def l by blast
qed

lemma math_loop:
  assumes "tabulated i t" and "Suc (i + r) = n" and "k \<in> arrays" and "emb (value_of k) = g ^ Suc i"
  shows "\<exists>t'. gf_math_loop m value_of two r (word_of_nat (Suc i)) k t = Inr t' \<and> tabulated (n - 1) t'"
  using assms
proof (induction r arbitrary: i k t)
  case (Suc r)
  let ?x = "value_of k"
  let ?t = "t\<lparr>log2value := (log2value t)(word_of_nat (Suc i) := ?x),
    value2log := (value2log t)(?x := word_of_nat (Suc i))\<rparr>"
  from Suc.prems(2) have i: "Suc i < n" by simp
  note step = tabulated_step [OF Suc.prems(1) i Suc.prems(4)]
  have "emb (value_of (gf_mul m k two)) = g ^ Suc (Suc i)"
    using emb_mul [OF Suc.prems(3) two_array] Suc.prems(4) by (simp add: emb_two mult.commute)
  with Suc.IH [OF step(2) _ mul_array [OF Suc.prems(3) two_array]] Suc.prems(2) step(1)
  show ?case by (simp add: Let_def add.commute)
qed auto

text \<open>The tables of the finished constructor.\<close>

lemma math_ok: "\<exists>t. gf_math_loop m value_of two (n - 1) 1 two (gf_math_init memory) = Inr t \<and> tabulated (n - 1) t"
  using math_loop [OF tabulated_init [of memory], of "n - 1" two] n_pos two_array emb_two by simp

lemma log_of:
  assumes "tabulated (n - 1) t" "x \<noteq> 0"
  obtains i where "i < n" "emb x = g ^ i" "unat (value2log t x) = i"
proof -
  from assms(2) emb_eq_0 is_power obtain i where i: "i < n" "emb x = g ^ i" by metis
  with assms(1) have "value2log t x = word_of_nat i" by (auto simp: tabulated_def)
  with i unat_log that show ?thesis by metis
qed

lemma value_of_log: "tabulated (n - 1) t \<Longrightarrow> i < n \<Longrightarrow> emb (log2value t (word_of_nat i)) = g ^ i"
  by (simp add: tabulated_def)

lemma pow_mod: "g ^ (i mod n) = g ^ i"
proof -
  have "g ^ i = g ^ (n * (i div n) + i mod n)" by simp
  also have "\<dots> = g ^ (i mod n)" by (simp only: power_add power_mult pow_n power_one mult_1)
  finally show ?thesis by simp
qed

lemma math_mul: "tabulated (n - 1) t \<Longrightarrow> emb (gf_math_mul n t x y) = emb x * emb y"
proof (cases "x = 0 \<or> y = 0")
  case False
  assume t: "tabulated (n - 1) t"
  obtain i where i: "i < n" "emb x = g ^ i" "unat (value2log t x) = i" using False by (auto intro: log_of [OF t, of x])
  obtain j where j: "j < n" "emb y = g ^ j" "unat (value2log t y) = j" using False by (auto intro: log_of [OF t, of y])
  have "emb (log2value t (word_of_nat ((i + j) mod n))) = g ^ (i + j)"
    using value_of_log [OF t, of "(i + j) mod n"] n_pos by (simp add: pow_mod)
  with False i j show ?thesis by (simp add: gf_math_mul_def power_add)
qed (auto simp: gf_math_mul_def emb_0)

lemma math_div: "tabulated (n - 1) t \<Longrightarrow> emb (gf_math_div n t x y) = emb x / emb y"
proof (cases "x = 0 \<or> y = 0")
  case False
  assume t: "tabulated (n - 1) t"
  obtain i where i: "i < n" "emb x = g ^ i" "unat (value2log t x) = i" using False by (auto intro: log_of [OF t, of x])
  obtain j where j: "j < n" "emb y = g ^ j" "unat (value2log t y) = j" using False by (auto intro: log_of [OF t, of y])
  let ?d = "nat ((int i - int j) mod int n)"
  have d: "(int i - int j) mod int n = int ?d" "?d < n" using n_pos by (auto simp: nat_less_iff)
  have "(?d + j) mod n = i"
  proof -
    have "int ((?d + j) mod n) = ((int i - int j) mod int n + int j) mod int n"
      by (simp only: of_nat_mod of_nat_add d(1) [symmetric])
    also have "\<dots> = int i" using i(1) by (simp add: mod_add_left_eq)
    finally show ?thesis by simp
  qed
  then have "g ^ ?d * g ^ j = g ^ i" by (metis pow_mod power_add)
  then have "g ^ ?d = emb x / emb y" using i j pow_nonzero [of j] by (simp add: field_simps)
  moreover have "gf_math_div n t x y = log2value t (word_of_nat ?d)"
  proof -
    have "gf_math_div n t x y = log2value t (word_of_int (gf_math_wrap n (int i - int j) mod int n))"
      unfolding gf_math_div_def Let_def i(3) j(3) using False by presburger
    also have "gf_math_wrap n (int i - int j) mod int n = int ?d"
      by (rule trans [OF gf_math_wrap_mod [OF n_pos] d(1)])
    finally show ?thesis by (simp only: of_int_of_nat_eq)
  qed
  ultimately show ?thesis using value_of_log [OF t d(2)] by simp
qed (auto simp: gf_math_div_def emb_0)

end

lemma bij_Gf16: "bij Gf16"
  by (metis Gf16_inject Gf16_cases UNIV_I bijI')

lemma bij_Gf8: "bij Gf8"
  by (metis Gf8_inject Gf8_cases UNIV_I bijI')

interpretation cells16: log_cells "Gf16 2" 65535 Gf16 gf16_word 16 "{d. length d = 2}" "[2, 0]"
proof
  show "bij Gf16" by (rule bij_Gf16)
  show "Gf16 0 = 0" "Gf16 1 = 1" by (simp_all add: zero_gf16_def one_gf16_def)
  show "Gf16 (x XOR y) = Gf16 x + Gf16 y" for x y
    by (simp add: plus_gf16.abs_eq eq_onp_same_args)
  show "Gf16 (gf16_word [2, 0]) = Gf16 2" by (simp add: gf16_word_def)
qed (auto simp: gf16_mul Gf16_times)

interpretation cells8: log_cells "Gf8 2" 255 Gf8 gf8_word 8 "{d. length d = 1}" "[2]"
proof
  show "bij Gf8" by (rule bij_Gf8)
  show "Gf8 0 = 0" "Gf8 1 = 1" by (simp_all add: zero_gf8_def one_gf8_def)
  show "Gf8 (x XOR y) = Gf8 x + Gf8 y" for x y
    by (simp add: plus_gf8.abs_eq eq_onp_same_args)
  show "Gf8 (gf8_word [2]) = Gf8 2" by (simp add: gf8_word_def)
qed (auto simp: gf8_mul Gf8_times)


text \<open>What the rest of the program relies on: the tables of a constructed \<open>gf_math\<close>.\<close>

lemma value_of_gf8: "(\<lambda>k. k ! 0) = gf8_word"
  by (simp add: fun_eq_iff gf8_word_def)

lemma value_of_gf16: "(\<lambda>k. push_bit 8 (ucast (k ! 1)) OR ucast (k ! 0)) = gf16_word"
  by (simp add: fun_eq_iff gf16_word_def)

lemma gf_math8_ok: "\<exists>t. gf_math8 memory = Inr t \<and> cells8.tabulated 254 t"
  using cells8.math_ok [of memory] by (simp add: gf_math8_def value_of_gf8)

lemma gf_math16_ok: "\<exists>t. gf_math16 memory = Inr t \<and> cells16.tabulated 65534 t"
  using cells16.math_ok [of memory] by (simp add: gf_math16_def value_of_gf16 [unfolded One_nat_def])

lemma gf_math16_tabulated: "gf_math16 memory = Inr t \<Longrightarrow> cells16.tabulated 65534 t"
  using gf_math16_ok [of memory] by auto

lemma gf_math8_tabulated: "gf_math8 memory = Inr t \<Longrightarrow> cells8.tabulated 254 t"
  using gf_math8_ok [of memory] by auto

lemma Gf16_math:
  assumes "gf_math16 memory = Inr t"
  shows "Gf16 (gf_math16_mul t x y) = Gf16 x * Gf16 y"
    and "Gf16 (gf_math16_div t x y) = Gf16 x / Gf16 y"
  using cells16.math_mul [of t x y] cells16.math_div [of t x y] gf_math16_tabulated [OF assms]
  by (simp_all add: gf_math16_mul_def gf_math16_div_def)

lemma Gf8_math:
  assumes "gf_math8 memory = Inr t"
  shows "Gf8 (gf_math8_mul t x y) = Gf8 x * Gf8 y"
    and "Gf8 (gf_math8_div t x y) = Gf8 x / Gf8 y"
  using cells8.math_mul [of t x y] cells8.math_div [of t x y] gf_math8_tabulated [OF assms]
  by (simp_all add: gf_math8_mul_def gf_math8_div_def)

section \<open>Tables and byte arrays agree\<close>

lemma gf16_add:
  assumes "length a = 2" "length b = 2"
  shows "gf_math_add (gf16_word a) (gf16_word b) = gf16_word (gf_add a b)"
proof -
  obtain x y u v where "a = [x, y]" "b = [u, v]" using assms by (elim list2_cases) blast
  then show ?thesis
    by (simp add: gf_math_add_def gf_add_def) (rule bit_word_eqI, auto simp: bit_gf16_word bit_simps)
qed

lemma gf8_add: "length a = 1 \<Longrightarrow> length b = 1 \<Longrightarrow> gf_math_add (gf8_word a) (gf8_word b) = gf8_word (gf_add a b)"
  by (elim list1_cases) (simp add: gf_math_add_def gf_add_def gf8_word_def)

text \<open>C26: The table arithmetic of \<open>gf_math<uint16_t>\<close> computes what \<open>gf<16>\<close> computes on byte
  arrays: whatever the memory held, the constructor ends without a failed assertion, \<open>mul\<close> is the
  shift-and-reduce product, \<open>div\<close> undoes it, and \<open>add\<close> is that of the arrays.\<close>

theorem gf_math16_refines_gf:
  "\<exists>t. gf_math16 memory = Inr t
     \<and> (\<forall>a b. length a = 2 \<longrightarrow> length b = 2 \<longrightarrow>
          gf_math16_mul t (gf16_word a) (gf16_word b) = gf16_word (gf_mul 16 a b)
          \<and> gf_math_add (gf16_word a) (gf16_word b) = gf16_word (gf_add a b))
     \<and> (\<forall>x y. y \<noteq> 0 \<longrightarrow> gf_math16_div t (gf_math16_mul t x y) y = x \<and> gf_math16_mul t (gf_math16_div t x y) y = x)
     \<and> (\<forall>x. gf_math16_div t x 0 = 0)"
proof -
  obtain t where t: "gf_math16 memory = Inr t" using gf_math16_ok by blast
  note math = Gf16_math [OF t]
  have "gf_math16_mul t (gf16_word a) (gf16_word b) = gf16_word (gf_mul 16 a b)"
    if "length a = 2" "length b = 2" for a b
    using that by (simp add: cells16.emb_inject [symmetric] math Gf16_times gf16_mul)
  moreover have "gf_math_add (gf16_word a) (gf16_word b) = gf16_word (gf_add a b)"
    if "length a = 2" "length b = 2" for a b
    using that by (rule gf16_add)
  moreover have "gf_math16_div t (gf_math16_mul t x y) y = x" "gf_math16_mul t (gf_math16_div t x y) y = x" if "y \<noteq> 0" for x y
    using that cells16.emb_eq_0 [of y] by (simp_all add: cells16.emb_inject [symmetric] math)
  moreover have "gf_math16_div t x 0 = 0" for x
    by (simp add: gf_math16_div_def gf_math_div_def)
  ultimately show ?thesis using t by blast
qed

theorem gf_math16_refines_gf_witness:
  "\<exists>t. gf_math16 (\<lambda>_. 7) = Inr t
     \<and> gf_math16_mul t (gf16_word [2, 0]) (gf16_word [0, 0x80]) = gf16_word (gf_mul 16 [2, 0] [0, 0x80])
     \<and> gf_math16_div t (gf_math16_mul t 5 3) 3 = 5"
proof -
  obtain t where t: "gf_math16 (\<lambda>_. 7) = Inr t"
    and mul: "\<forall>a b. length a = 2 \<longrightarrow> length b = 2 \<longrightarrow>
          gf_math16_mul t (gf16_word a) (gf16_word b) = gf16_word (gf_mul 16 a b)
          \<and> gf_math_add (gf16_word a) (gf16_word b) = gf16_word (gf_add a b)"
    and div: "\<forall>x y. y \<noteq> 0 \<longrightarrow> gf_math16_div t (gf_math16_mul t x y) y = x \<and> gf_math16_mul t (gf_math16_div t x y) y = x"
    using gf_math16_refines_gf [of "\<lambda>_. 7"] by blast
  have "gf_math16_mul t (gf16_word [2, 0]) (gf16_word [0, 0x80]) = gf16_word (gf_mul 16 [2, 0] [0, 0x80])"
    using mul by simp
  moreover have "gf_math16_div t (gf_math16_mul t 5 3) 3 = 5" using div by simp
  ultimately show ?thesis using t by blast
qed

text \<open>The same for \<open>uint8_t\<close> and \<open>gf<8>\<close>, whose tables have 255 entries.\<close>

theorem gf_math8_refines_gf:
  "\<exists>t. gf_math8 memory = Inr t
     \<and> (\<forall>a b. length a = 1 \<longrightarrow> length b = 1 \<longrightarrow>
          gf_math8_mul t (gf8_word a) (gf8_word b) = gf8_word (gf_mul 8 a b)
          \<and> gf_math_add (gf8_word a) (gf8_word b) = gf8_word (gf_add a b))
     \<and> (\<forall>x y. y \<noteq> 0 \<longrightarrow> gf_math8_div t (gf_math8_mul t x y) y = x \<and> gf_math8_mul t (gf_math8_div t x y) y = x)
     \<and> (\<forall>x. gf_math8_div t x 0 = 0)"
proof -
  obtain t where t: "gf_math8 memory = Inr t" using gf_math8_ok by blast
  note math = Gf8_math [OF t]
  have "gf_math8_mul t (gf8_word a) (gf8_word b) = gf8_word (gf_mul 8 a b)"
    if "length a = 1" "length b = 1" for a b
    using that by (simp add: cells8.emb_inject [symmetric] math Gf8_times gf8_mul)
  moreover have "gf_math8_div t (gf_math8_mul t x y) y = x" "gf_math8_mul t (gf_math8_div t x y) y = x" if "y \<noteq> 0" for x y
    using that cells8.emb_eq_0 [of y] by (simp_all add: cells8.emb_inject [symmetric] math)
  moreover have "gf_math8_div t x 0 = 0" for x
    by (simp add: gf_math8_div_def gf_math_div_def)
  ultimately show ?thesis using t gf8_add by blast
qed

theorem gf_math8_refines_gf_witness:
  "\<exists>t. gf_math8 (\<lambda>_. 7) = Inr t
     \<and> gf_math8_mul t (gf8_word [0x53]) (gf8_word [0xCA]) = gf8_word (gf_mul 8 [0x53] [0xCA])
     \<and> gf_math8_div t (gf_math8_mul t 5 3) 3 = 5"
proof -
  obtain t where t: "gf_math8 (\<lambda>_. 7) = Inr t"
    and mul: "\<forall>a b. length a = 1 \<longrightarrow> length b = 1 \<longrightarrow>
          gf_math8_mul t (gf8_word a) (gf8_word b) = gf8_word (gf_mul 8 a b)
          \<and> gf_math_add (gf8_word a) (gf8_word b) = gf8_word (gf_add a b)"
    and div: "\<forall>x y. y \<noteq> 0 \<longrightarrow> gf_math8_div t (gf_math8_mul t x y) y = x \<and> gf_math8_mul t (gf_math8_div t x y) y = x"
    using gf_math8_refines_gf [of "\<lambda>_. 7"] by blast
  have "gf_math8_mul t (gf8_word [0x53]) (gf8_word [0xCA]) = gf8_word (gf_mul 8 [0x53] [0xCA])"
    using mul by simp
  moreover have "gf_math8_div t (gf_math8_mul t 5 3) 3 = 5" using div by simp
  ultimately show ?thesis using t by blast
qed

end
