(* ===== verification/Binary_serialize.thy ===== *)
theory Binary_serialize
  imports VDS_Prelude
begin

text \<open>
  \<open>kernel/vds_core/binary_serialize.h\<close> and \<open>.cpp\<close>. A \<open>binary_serializer\<close> is the bytes written
  so far, a \<open>binary_deserializer\<close> the bytes not read yet (its pointer and length). Every \<open>put\<close>
  appends; every \<open>get\<close> returns an error or the value and the rest. Allocation of the growing
  buffer is taken to succeed.
\<close>

section \<open>binary_serializer\<close>

type_synonym binary_serializer = "byte list"
type_synonym binary_deserializer = "byte list"

definition add_byte :: "byte \<Rightarrow> binary_serializer \<Rightarrow> binary_serializer" where
  "add_byte b s = s @ [b]"

definition add_bytes :: "byte list \<Rightarrow> binary_serializer \<Rightarrow> binary_serializer" where
  "add_bytes d s = s @ d"

definition put_bool :: "bool \<Rightarrow> binary_serializer \<Rightarrow> binary_serializer" where
  "put_bool val s = add_byte (if val then 0xFF else 0) s"

definition put_uint8 :: "byte \<Rightarrow> binary_serializer \<Rightarrow> binary_serializer" where
  "put_uint8 val s = add_byte val s"

definition put_uint16 :: "u16 \<Rightarrow> binary_serializer \<Rightarrow> binary_serializer" where
  "put_uint16 val s =
     add_byte (ucast (val AND 0xFF))
       (add_byte (ucast (drop_bit 8 val AND 0xFF)) s)"

definition put_uint32 :: "u32 \<Rightarrow> binary_serializer \<Rightarrow> binary_serializer" where
  "put_uint32 val s =
     add_byte (ucast (val AND 0xFF))
       (add_byte (ucast (drop_bit 8 val AND 0xFF))
         (add_byte (ucast (drop_bit 16 val AND 0xFF))
           (add_byte (ucast (drop_bit 24 val AND 0xFF)) s)))"

definition put_uint64 :: "u64 \<Rightarrow> binary_serializer \<Rightarrow> binary_serializer" where
  "put_uint64 val s =
     add_byte (ucast (val AND 0xFF))
       (add_byte (ucast (drop_bit 8 val AND 0xFF))
         (add_byte (ucast (drop_bit 16 val AND 0xFF))
           (add_byte (ucast (drop_bit 24 val AND 0xFF))
             (add_byte (ucast (drop_bit 32 val AND 0xFF))
               (add_byte (ucast (drop_bit 40 val AND 0xFF))
                 (add_byte (ucast (drop_bit 48 val AND 0xFF))
                   (add_byte (ucast (drop_bit 56 val AND 0xFF)) s)))))))"

text \<open>
  The \<open>do ... while\<close> loop of \<open>write_number\<close>: the bytes of \<open>value\<close>, least significant first, as
  they are stored in \<open>data[0 .. index)\<close>.
\<close>

function number_digits :: "u64 \<Rightarrow> byte list" where
  "number_digits val =
     ucast (val AND 0xFF) #
     (if drop_bit 8 val = 0 then [] else number_digits (drop_bit 8 val))"
  by pat_completeness auto
termination
proof (relation "measure unat")
  fix val :: u64
  assume nz: "drop_bit 8 val \<noteq> 0"
  note unat_drop_bit_8 [of val]
  moreover from nz have "unat val \<noteq> 0" by (auto simp: unat_eq_zero)
  ultimately show "(drop_bit 8 val, val) \<in> measure unat" by simp
qed simp

declare number_digits.simps [simp del]

definition write_number :: "u64 \<Rightarrow> binary_serializer \<Rightarrow> binary_serializer" where
  "write_number val s =
     (if val < 128 then put_uint8 (ucast val) s
      else let data = number_digits (val - 128); index = length data
           in add_bytes (rev data) (add_byte (0x80 OR word_of_nat index) s))"

definition put_string :: "cstring \<Rightarrow> binary_serializer \<Rightarrow> binary_serializer" where
  "put_string val s = add_bytes val (write_number (word_of_nat (length val)) s)"

definition push_data :: "byte list \<Rightarrow> bool \<Rightarrow> binary_serializer \<Rightarrow> binary_serializer" where
  "push_data data serialize_size s =
     add_bytes data (if serialize_size then write_number (word_of_nat (length data)) s else s)"

definition put_buffer :: "const_data_buffer \<Rightarrow> binary_serializer \<Rightarrow> binary_serializer" where
  "put_buffer data s = push_data (buffer_data data) True s"

text \<open>
  The container overloads of \<open>operator <<\<close>: the size, then the elements in iteration order.
  The element's own \<open>operator <<\<close> may fail (a key that cannot be exported), so they return
  \<open>expected\<close>.
\<close>

type_synonym 'a put = "'a \<Rightarrow> binary_serializer \<Rightarrow> binary_serializer expected"

definition total_put :: "('a \<Rightarrow> binary_serializer \<Rightarrow> binary_serializer) \<Rightarrow> 'a put" where
  "total_put p val s = Inr (p val s)"

fun put_items :: "'a put \<Rightarrow> 'a list \<Rightarrow> binary_serializer \<Rightarrow> binary_serializer expected" where
  "put_items p [] s = Inr s"
| "put_items p (x # xs) s = get_expected (p x s) (\<lambda>s. put_items p xs s)"

definition put_list :: "'a put \<Rightarrow> 'a list \<Rightarrow> binary_serializer \<Rightarrow> binary_serializer expected" where
  "put_list p val s = put_items p val (write_number (word_of_nat (length val)) s)"

definition put_map :: "'k put \<Rightarrow> 'v put \<Rightarrow> ('k \<times> 'v) list \<Rightarrow> binary_serializer \<Rightarrow> binary_serializer expected" where
  "put_map pk pv val s =
     put_items (\<lambda>(k, v) s. get_expected (pk k s) (\<lambda>s. pv v s)) val
       (write_number (word_of_nat (length val)) s)"

section \<open>binary_deserializer\<close>

type_synonym 'a get = "binary_deserializer \<Rightarrow> ('a \<times> binary_deserializer) expected"

abbreviation invalid_data :: error where
  "invalid_data \<equiv> Runtime_error ''Invalid data''"

fun get_bool :: "bool get" where
  "get_bool (b # d) = Inr (b \<noteq> 0, d)"
| "get_bool [] = Inl invalid_data"

fun get_uint8 :: "byte get" where
  "get_uint8 (b # d) = Inr (b, d)"
| "get_uint8 [] = Inl invalid_data"

text \<open>\<open>value <<= 8; value |= *data_++\<close>\<close>

definition shift_in :: "'a::len word \<Rightarrow> byte \<Rightarrow> 'a word" where
  "shift_in val b = push_bit 8 val OR ucast b"

fun get_uint16 :: "u16 get" where
  "get_uint16 (a # b # d) = Inr (shift_in (ucast a) b, d)"
| "get_uint16 _ = Inl invalid_data"

fun get_uint32 :: "u32 get" where
  "get_uint32 (a # b # c # e # d) = Inr (foldl shift_in (ucast a) [b, c, e], d)"
| "get_uint32 _ = Inl invalid_data"

fun get_uint64 :: "u64 get" where
  "get_uint64 (a # b # c # e # f # g # h # i # d) =
     Inr (foldl shift_in (ucast a) [b, c, e, f, g, h, i], d)"
| "get_uint64 _ = Inl invalid_data"

fun read_number_loop :: "nat \<Rightarrow> u64 \<Rightarrow> u64 get" where
  "read_number_loop 0 result d = Inr (result, d)"
| "read_number_loop (Suc i) result d =
     get_expected (get_uint8 d) (\<lambda>(val, d). read_number_loop i (shift_in result val) d)"

definition read_number :: "u64 get" where
  "read_number d =
     get_expected (get_uint8 d) (\<lambda>(val, d).
       if val < 0x80 then Inr (ucast val, d)
       else get_expected (read_number_loop (unat (val AND 0x7F)) 0 d) (\<lambda>(result, d).
         Inr (result + 0x80, d)))"

fun get_items :: "'a get \<Rightarrow> nat \<Rightarrow> 'a list get" where
  "get_items g 0 d = Inr ([], d)"
| "get_items g (Suc i) d =
     get_expected (g d) (\<lambda>(item, d).
     get_expected (get_items g i d) (\<lambda>(items, d). Inr (item # items, d)))"

definition get_string :: "cstring get" where
  "get_string d = get_expected (read_number d) (\<lambda>(len, d). get_items get_uint8 (unat len) d)"

definition get_buffer :: "const_data_buffer get" where
  "get_buffer d =
     get_expected (read_number d) (\<lambda>(len, d).
       if len > 1024 * 1024 * 1024 then Inl (Runtime_error ''very big object'')
       else if unat len > length d then Inl invalid_data
       else Inr (Data_buffer (take (unat len) d), drop (unat len) d))"

text \<open>
  \<open>pop_data\<close> copies into a caller's buffer of \<open>size\<close> bytes; the result is what was copied.
\<close>

definition pop_data :: "u64 \<Rightarrow> bool \<Rightarrow> byte list get" where
  "pop_data sz serialize_size d =
     get_expected
       (if serialize_size
        then get_expected (read_number d) (\<lambda>(len, d).
               if sz < len then Inl (Runtime_error ''Buffer too small'') else Inr (len, d))
        else Inr (sz, d)) (\<lambda>(sz, d).
       if unat sz > length d then Inl invalid_data
       else Inr (take (unat sz) d, drop (unat sz) d))"

definition get_list :: "'a get \<Rightarrow> 'a list get" where
  "get_list g d = get_expected (read_number d) (\<lambda>(count, d). get_items g (unat count) d)"

definition get_set :: "'a::linorder get \<Rightarrow> 'a list get" where
  "get_set g d = get_expected (read_number d) (\<lambda>(count, d).
     get_expected (get_items g (unat count) d) (\<lambda>(items, d).
       Inr (fold set_emplace items [], d)))"

definition map_emplace :: "'k::linorder \<times> 'v \<Rightarrow> ('k \<times> 'v) list \<Rightarrow> ('k \<times> 'v) list" where
  "map_emplace p m = (if fst p \<in> fst ` set m then m else map_put (fst p) (snd p) m)"

definition get_pair :: "'a get \<Rightarrow> 'b get \<Rightarrow> ('a \<times> 'b) get" where
  "get_pair ga gb d = get_expected (ga d) (\<lambda>(a, d). get_expected (gb d) (\<lambda>(b, d). Inr ((a, b), d)))"

definition get_map :: "'k::linorder get \<Rightarrow> 'v get \<Rightarrow> ('k \<times> 'v) list get" where
  "get_map gk gv d = get_expected (read_number d) (\<lambda>(count, d).
     get_expected (get_items (get_pair gk gv) (unat count) d) (\<lambda>(items, d).
       Inr (fold map_emplace items [], d)))"


section \<open>The encoding of numbers\<close>

lemma shift_in_drop_bit:
  fixes v :: "'a::len word"
  shows "shift_in (drop_bit 8 v) (ucast v) = v"
  unfolding shift_in_def by (rule bit_word_eqI) (auto simp: bit_simps)

lemma number_digits_unfold:
  "number_digits v = ucast v # (if drop_bit 8 v = 0 then [] else number_digits (drop_bit 8 v))"
  by (subst number_digits.simps) (simp only: ucast_and_FF)

lemma foldl_number_digits: "foldl shift_in (0::u64) (rev (number_digits v)) = v"
proof (induction v rule: number_digits.induct)
  case (1 v)
  show ?case
  proof (cases "drop_bit 8 v = 0")
    case True
    with shift_in_drop_bit [of v] show ?thesis
      by (simp add: number_digits_unfold [of v])
  next
    case False
    with 1 shift_in_drop_bit [of v] show ?thesis
      by (simp add: number_digits_unfold [of v])
  qed
qed

lemma number_digits_nonempty [simp]: "number_digits v \<noteq> []"
  by (simp add: number_digits_unfold [of v])

lemma number_digits_length_le: "unat v < 256 ^ n \<Longrightarrow> 0 < n \<Longrightarrow> length (number_digits v) \<le> n"
proof (induction v arbitrary: n rule: number_digits.induct)
  case (1 v)
  show ?case
  proof (cases "drop_bit 8 v = 0")
    case True
    with 1 show ?thesis by (simp add: number_digits_unfold [of v])
  next
    case False
    note d = unat_drop_bit_8 [of v]
    from False have "unat (drop_bit 8 v) \<noteq> 0" by (auto simp: unat_eq_zero)
    with d have ge: "256 \<le> unat v" by (simp add: div_eq_0_iff)
    obtain m where n: "n = Suc m" using 1(3) by (cases n) auto
    with 1(2) ge have "0 < m" by (cases m) auto
    note n = n this
    with 1(2) d have "unat (drop_bit 8 v) < 256 ^ m" by (simp add: less_mult_imp_div_less mult.commute)
    with 1(1) False n have "length (number_digits (drop_bit 8 v)) \<le> m" by simp
    with False n show ?thesis by (simp add: number_digits_unfold [of v])
  qed
qed

lemma read_number_loop_append:
  "read_number_loop (length ds) r (ds @ rest) = Inr (foldl shift_in r ds, rest)"
  by (induction ds arbitrary: r) auto

lemma write_number_append: "write_number v s = s @ write_number v []"
  by (simp add: write_number_def put_uint8_def add_byte_def add_bytes_def Let_def)

lemma number_header:
  assumes "n \<le> 8" "0 < n"
  shows "\<not> (0x80 OR word_of_nat n :: byte) < 0x80"
    and "unat ((0x80 OR word_of_nat n :: byte) AND 0x7F) = n"
proof -
  have "\<forall>n \<in> set [1..<9]. \<not> (0x80 OR word_of_nat n :: byte) < 0x80
      \<and> unat ((0x80 OR word_of_nat n :: byte) AND 0x7F) = n" by code_simp
  moreover have "n \<in> set [1..<9]" using assms by simp
  ultimately show "\<not> (0x80 OR word_of_nat n :: byte) < 0x80"
    and "unat ((0x80 OR word_of_nat n :: byte) AND 0x7F) = n" by blast+
qed

lemma number_digits_length: "0 < length (number_digits v)" "length (number_digits v) \<le> 8"
proof -
  have "unat v < 256 ^ 8" using unsigned_less [of v, where ?'a = nat] by simp
  then show "length (number_digits v) \<le> 8" by (rule number_digits_length_le) simp
qed simp

lemma read_write_number: "read_number (write_number v [] @ rest) = Inr (v, rest)"
proof (cases "v < 128")
  case True
  then have u: "unat v < 128" by (simp add: word_less_nat_alt)
  then have "(ucast v :: byte) < 0x80"
    by (simp add: word_less_nat_alt unat_ucast_byte)
  moreover from u have "ucast (ucast v :: byte) = v"
    by (intro ucast_byte_small) (simp add: word_less_nat_alt)
  moreover note True
  ultimately show ?thesis
    by (simp add: read_number_def write_number_def put_uint8_def add_byte_def)
next
  case False
  let ?ds = "number_digits (v - 128)"
  have "read_number_loop (length ?ds) 0 (rev ?ds @ rest) = Inr (v - 128, rest)"
    using read_number_loop_append [of "rev ?ds" 0 rest] foldl_number_digits [of "v - 128"] by simp
  with False number_header [OF number_digits_length(2,1), of "v - 128"] show ?thesis
    by (simp add: read_number_def write_number_def Let_def add_byte_def add_bytes_def)
qed

section \<open>Codecs\<close>

text \<open>
  What a type promises to the containers and messages that hold it: writing a valid value
  appends a fixed encoding, and reading that encoding back gives the value and leaves the rest.
\<close>

locale codec =
  fixes put :: "'a put" and get :: "'a get" and enc :: "'a \<Rightarrow> byte list" and valid :: "'a \<Rightarrow> bool"
  assumes put_enc: "valid x \<Longrightarrow> put x s = Inr (s @ enc x)"
    and get_enc: "valid x \<Longrightarrow> get (enc x @ rest) = Inr (x, rest)"
begin

lemma put_items_enc: "list_all valid xs \<Longrightarrow> put_items put xs s = Inr (s @ concat (map enc xs))"
  by (induction xs arbitrary: s) (auto simp: put_enc)

lemma get_items_enc:
  "list_all valid xs \<Longrightarrow> get_items get (length xs) (concat (map enc xs) @ rest) = Inr (xs, rest)"
  by (induction xs) (auto simp: get_enc)

lemma put_list_enc:
  "list_all valid xs \<Longrightarrow>
   put_list put xs s = Inr (s @ write_number (word_of_nat (length xs)) [] @ concat (map enc xs))"
  by (simp add: put_list_def put_items_enc write_number_append [of _ s])

lemma get_list_enc:
  assumes "list_all valid xs" and "length xs < 2 ^ 64"
  shows "get_list get ((write_number (word_of_nat (length xs)) [] @ concat (map enc xs)) @ rest)
    = Inr (xs, rest)"
proof -
  have "read_number ((write_number (word_of_nat (length xs)) [] @ concat (map enc xs)) @ rest)
    = Inr (word_of_nat (length xs), concat (map enc xs) @ rest)"
    by (simp only: append_assoc read_write_number)
  then show ?thesis
    by (simp only: get_list_def get_expected_simps prod.case unat_word_of_nat_u64 [OF assms(2)]
        get_items_enc [OF assms(1)])
qed

lemma prefix_free:
  assumes "valid x" "valid y" "enc x @ r = enc y @ r'"
  shows "x = y \<and> r = r'"
proof -
  have "(Inr (x, r) :: ('a \<times> binary_deserializer) expected) = Inr (y, r')"
    by (simp only: get_enc [OF assms(1), of r, symmetric] get_enc [OF assms(2), of r', symmetric] assms(3))
  then show ?thesis by simp
qed

end

text \<open>The fixed width integers: big endian bytes, put back together by \<open>shift_in\<close>.\<close>

lemma shift_in_step:
  fixes v :: "'a::len word"
  assumes "m = n + 8"
  shows "shift_in (drop_bit m v) (ucast (drop_bit n v)) = drop_bit n v"
  using shift_in_drop_bit [of "drop_bit n v"] assms by (simp add: add.commute)

lemma ucast_drop_bit_top:
  fixes v :: "'a::len word"
  assumes "LENGTH('a) = n + 8"
  shows "ucast (ucast (drop_bit n v) :: byte) = drop_bit n v"
  by (rule bit_word_eqI) (use assms in \<open>auto simp: bit_simps dest: bit_imp_le_length\<close>)

lemmas fixed_width_simps = add_byte_def ucast_and_FF shift_in_step shift_in_drop_bit ucast_drop_bit_top

interpretation bool_codec: codec "total_put put_bool" get_bool "\<lambda>v. put_bool v []" "\<lambda>_. True"
  by unfold_locales (simp_all add: total_put_def put_bool_def add_byte_def)

interpretation uint8_codec: codec "total_put put_uint8" get_uint8 "\<lambda>v. put_uint8 v []" "\<lambda>_. True"
  by unfold_locales (simp_all add: total_put_def put_uint8_def add_byte_def)

interpretation uint16_codec: codec "total_put put_uint16" get_uint16 "\<lambda>v. put_uint16 v []" "\<lambda>_. True"
  by unfold_locales (simp_all add: total_put_def put_uint16_def fixed_width_simps)

interpretation uint32_codec: codec "total_put put_uint32" get_uint32 "\<lambda>v. put_uint32 v []" "\<lambda>_. True"
  by unfold_locales (simp_all add: total_put_def put_uint32_def fixed_width_simps)

interpretation uint64_codec: codec "total_put put_uint64" get_uint64 "\<lambda>v. put_uint64 v []" "\<lambda>_. True"
  by unfold_locales (simp_all add: total_put_def put_uint64_def fixed_width_simps)

lemma get_items_uint8: "get_items get_uint8 (length bs) (bs @ rest) = Inr (bs, rest)"
  by (induction bs) auto

interpretation string_codec:
  codec "total_put put_string" get_string "\<lambda>v. put_string v []" "\<lambda>v. length v < 2 ^ 64"
proof
  fix v :: cstring and s rest
  assume len: "length v < 2 ^ 64"
  show "total_put put_string v s = Inr (s @ put_string v [])"
    by (simp add: total_put_def put_string_def add_bytes_def write_number_append [of _ s])
  show "get_string (put_string v [] @ rest) = Inr (v, rest)"
    by (simp only: get_string_def put_string_def add_bytes_def append_assoc read_write_number
        get_expected_simps prod.case unat_word_of_nat_u64 [OF len] get_items_uint8)
qed

text \<open>A buffer of more than 1 GB is written but refused by the reader.\<close>

definition small_buffer :: "const_data_buffer \<Rightarrow> bool" where
  "small_buffer d \<longleftrightarrow> buffer_size d \<le> 1024 * 1024 * 1024"

interpretation buffer_codec:
  codec "total_put put_buffer" get_buffer "\<lambda>v. put_buffer v []" small_buffer
proof
  fix v s rest
  assume small: "small_buffer v"
  show "total_put put_buffer v s = Inr (s @ put_buffer v [])"
    by (simp add: total_put_def put_buffer_def push_data_def add_bytes_def write_number_append [of _ s])
  from small have len: "buffer_size v < 2 ^ 64" and "\<not> 1024 * 1024 * 1024 < buffer_size v"
    by (simp_all add: small_buffer_def)
  then have "\<not> 1024 * 1024 * 1024 < (word_of_nat (buffer_size v) :: u64)"
    by (simp add: word_less_nat_alt unat_word_of_nat_u64)
  then show "get_buffer (put_buffer v [] @ rest) = Inr (v, rest)"
    by (simp only: get_buffer_def put_buffer_def push_data_def add_bytes_def append_assoc
        read_write_number if_True get_expected_simps prod.case unat_word_of_nat_u64 [OF len])
      simp
qed

section \<open>Sets and maps\<close>

lemma fold_set_emplace: "is_set (acc @ xs) \<Longrightarrow> fold set_emplace xs acc = acc @ xs"
proof (induction xs arbitrary: acc)
  case (Cons x xs)
  then have "set_emplace x acc = acc @ [x]"
    by (intro set_emplace_snoc) (auto simp: is_set_def sorted_wrt_append)
  with Cons show ?case by simp
qed simp

lemma map_put_snoc: "\<forall>k' \<in> fst ` set m. k' < k \<Longrightarrow> map_put k v m = m @ [(k, v)]"
  by (induction k v m rule: map_put.induct) auto

lemma fold_map_emplace: "is_set (map fst (acc @ m)) \<Longrightarrow> fold map_emplace m acc = acc @ m"
proof (induction m arbitrary: acc)
  case (Cons p m)
  then have "\<forall>k' \<in> fst ` set acc. k' < fst p"
    by (auto simp: is_set_def sorted_wrt_append)
  then have "map_emplace p acc = acc @ [p]"
    by (auto simp: map_emplace_def map_put_snoc)
  with Cons show ?case by simp
qed simp

lemma get_set_list: "get_set g d = get_expected (get_list g d) (\<lambda>(items, d). Inr (fold set_emplace items [], d))"
  by (simp add: get_set_def get_list_def get_expected_assoc case_prod_unfold)

text \<open>A \<open>std::set\<close> of buffers: the ancestors of a block.\<close>

definition buffer_set_valid :: "const_data_buffer list \<Rightarrow> bool" where
  "buffer_set_valid xs \<longleftrightarrow> is_set xs \<and> list_all small_buffer xs \<and> length xs < 2 ^ 64"

definition buffer_list_valid :: "const_data_buffer list \<Rightarrow> bool" where
  "buffer_list_valid xs \<longleftrightarrow> list_all small_buffer xs \<and> length xs < 2 ^ 64"

definition enc_buffer_list :: "const_data_buffer list \<Rightarrow> byte list" where
  "enc_buffer_list xs =
     write_number (word_of_nat (length xs)) [] @ concat (map (\<lambda>v. put_buffer v []) xs)"

interpretation buffer_list_codec:
  codec "put_list (total_put put_buffer)" "get_list get_buffer" enc_buffer_list buffer_list_valid
  by unfold_locales
    (simp_all only: enc_buffer_list_def buffer_list_valid_def buffer_codec.put_list_enc buffer_codec.get_list_enc)

interpretation buffer_set_codec:
  codec "put_list (total_put put_buffer)" "get_set get_buffer" enc_buffer_list buffer_set_valid
proof
  fix xs s rest
  assume v: "buffer_set_valid xs"
  then show "put_list (total_put put_buffer) xs s = Inr (s @ enc_buffer_list xs)"
    by (simp only: enc_buffer_list_def buffer_set_valid_def buffer_codec.put_list_enc)
  from v have "fold set_emplace xs [] = xs"
    using fold_set_emplace [of "[]" xs] by (simp add: buffer_set_valid_def)
  with v show "get_set get_buffer (enc_buffer_list xs @ rest) = Inr (xs, rest)"
    by (simp only: get_set_list enc_buffer_list_def buffer_set_valid_def buffer_codec.get_list_enc
        get_expected_simps prod.case)
qed

section \<open>Properties\<close>

text \<open>\<open>write_number\<close> and \<open>read_number\<close> are inverse for every 64 bit number, whatever bytes
  follow; the encoding takes at most nine bytes, and one byte exactly below 128.\<close>

theorem number_roundtrip:
  "read_number (write_number v [] @ rest) = Inr (v, rest) \<and> length (write_number v []) \<le> 9
    \<and> (length (write_number v []) = 1 \<longleftrightarrow> v < 128)"
proof -
  have "length (write_number v []) = (if v < 128 then 1 else Suc (length (number_digits (v - 128))))"
    by (simp add: write_number_def Let_def put_uint8_def add_byte_def add_bytes_def)
  with number_digits_length [of "v - 128"] show ?thesis by (auto simp: read_write_number)
qed

text \<open>A list of buffers written by \<open>operator <<\<close> is read back by \<open>get\<close> with the rest of the
  input untouched, as long as no buffer is above the reader's limit of 1 GB.\<close>

theorem buffer_list_roundtrip:
  assumes "\<forall>b \<in> set bs. buffer_size b \<le> 1024 * 1024 * 1024" and "length bs < 2 ^ 64"
  shows "\<exists>e. put_list (total_put put_buffer) bs s = Inr (s @ e)
    \<and> (\<forall>rest. get_list get_buffer (e @ rest) = Inr (bs, rest))"
proof -
  have "list_all small_buffer bs" using assms(1) by (simp add: list_all_iff small_buffer_def)
  with buffer_codec.put_list_enc [of bs s] buffer_codec.get_list_enc [of bs] assms(2) show ?thesis by blast
qed

theorem buffer_list_roundtrip_witness:
  "\<exists>e. put_list (total_put put_buffer) [Data_buffer [1, 2], Data_buffer []] [9] = Inr ([9] @ e)
    \<and> get_list get_buffer (e @ [5]) = Inr ([Data_buffer [1, 2], Data_buffer []], [5])"
  using buffer_list_roundtrip [of "[Data_buffer [1, 2], Data_buffer []]" "[9]"] by auto

end
