(* ===== verification/Chunk.thy ===== *)
theory Chunk
  imports Gf_math Binary_serialize
begin

text \<open>
  \<open>kernel/vds_data/chunk.h\<close>: splitting data into horcruxes and putting \<open>k\<close> of them together
  again. A horcrux \<open>n\<close> holds, for every group of \<open>k\<close> cells of the data, the value at \<open>n\<close> of the
  polynomial with these coefficients; \<open>chunk_restore\<close> inverts the matrix of the powers by Gauss
  elimination. The template parameter \<open>cell_type\<close> is a record of what the code uses of it.
  The loops over cells of a flat array keep the array as a function from positions.
\<close>

section \<open>The cell type and the generator\<close>

record 'w cell_type =
  cell_mul :: "'w \<Rightarrow> 'w \<Rightarrow> 'w"
  cell_div :: "'w \<Rightarrow> 'w \<Rightarrow> 'w"
  cell_add :: "'w \<Rightarrow> 'w \<Rightarrow> 'w"
  cell_sub :: "'w \<Rightarrow> 'w \<Rightarrow> 'w"
  cell_put :: "'w \<Rightarrow> binary_serializer \<Rightarrow> binary_serializer"

text \<open>
  \<open>chunk<cell_type>::math_\<close>, built over the memory it is given (its constructor does not fail,
  \<open>gf_math16_ok\<close>), and the cell with its \<open>operator <<\<close>.
\<close>

definition chunk_math16 :: "(u16 \<Rightarrow> u16) \<Rightarrow> u16 gf_math" where
  "chunk_math16 memory = projr (gf_math16 memory)"

definition chunk_math8 :: "(byte \<Rightarrow> byte) \<Rightarrow> byte gf_math" where
  "chunk_math8 memory = projr (gf_math8 memory)"

definition uint16_cells :: "u16 gf_math \<Rightarrow> u16 cell_type" where
  "uint16_cells t = \<lparr>cell_mul = gf_math16_mul t, cell_div = gf_math16_div t,
     cell_add = gf_math_add, cell_sub = gf_math_sub, cell_put = put_uint16\<rparr>"

definition uint8_cells :: "byte gf_math \<Rightarrow> byte cell_type" where
  "uint8_cells t = \<lparr>cell_mul = gf_math8_mul t, cell_div = gf_math8_div t,
     cell_add = gf_math_add, cell_sub = gf_math_sub, cell_put = put_uint8\<rparr>"

abbreviation cell_sizeof :: "'a::len word itself \<Rightarrow> nat" where
  "cell_sizeof _ \<equiv> LENGTH('a) div 8"

fun multipliers_loop :: "'w cell_type \<Rightarrow> 'w \<Rightarrow> nat \<Rightarrow> 'w \<Rightarrow> 'w list" where
  "multipliers_loop c n 0 val = []"
| "multipliers_loop c n (Suc i) val = val # multipliers_loop c n i (cell_mul c val n)"

definition generate_multipliers :: "'a::len word cell_type \<Rightarrow> 'a word \<Rightarrow> 'a word \<Rightarrow> 'a word list" where
  "generate_multipliers c k n = multipliers_loop c n (unat k) 1"

record 'w chunk_generator =
  generator_k :: 'w
  generator_n :: 'w
  generator_multipliers :: "'w list"

definition new_chunk_generator :: "'a::len word cell_type \<Rightarrow> 'a word \<Rightarrow> 'a word \<Rightarrow> 'a word chunk_generator" where
  "new_chunk_generator c k n =
     \<lparr>generator_k = k, generator_n = n, generator_multipliers = generate_multipliers c k n\<rparr>"

text \<open>The counter values of \<open>for (i = i; i < size; i += step)\<close>.\<close>

function positions :: "nat \<Rightarrow> nat \<Rightarrow> nat \<Rightarrow> nat list" where
  "positions i sz step = (if i < sz \<and> 0 < step then i # positions (i + step) sz step else [])"
  by pat_completeness auto
termination
  by (relation "measure (\<lambda>(i, sz, step). sz - i)") auto

declare positions.simps [simp del]

section \<open>chunk\<close>

record 'w chunk =
  chunk_k :: 'w
  chunk_n :: 'w
  chunk_data :: "'w list"

definition chunk_cell_value :: "'a::len word cell_type \<Rightarrow> 'a word chunk_generator \<Rightarrow> 'a word list \<Rightarrow> nat \<Rightarrow> 'a word" where
  "chunk_cell_value c g data i =
     foldl (\<lambda>val j. if i + j < length data
                    then cell_add c val (cell_mul c (generator_multipliers g ! j) (data ! (i + j)))
                    else val)
       0 [0..<unat (generator_k g)]"

text \<open>With \<open>k = 0\<close> the loop of the constructor does not advance.\<close>

definition chunk_of_data :: "'a::len word cell_type \<Rightarrow> 'a word chunk_generator \<Rightarrow> 'a word list \<Rightarrow> 'a word chunk expected" where
  "chunk_of_data c g data =
     (if generator_k g = 0 \<and> data \<noteq> [] then Inl Not_terminating
      else Inr \<lparr>chunk_k = generator_k g, chunk_n = generator_n g,
             chunk_data = map (chunk_cell_value c g data)
               (positions 0 (length data) (unat (generator_k g)))\<rparr>)"

section \<open>chunk_generator\<close>

text \<open>The cell at byte position \<open>i\<close>: bytes past the end of the data are zero.\<close>

definition data_item :: "byte list \<Rightarrow> nat \<Rightarrow> 'a::len word" where
  "data_item data i =
     foldl (\<lambda>item offset.
         let item = push_bit 8 item
         in if i + offset < length data then item OR ucast (data ! (i + offset)) else item)
       0 [0..<cell_sizeof TYPE('a word)]"

definition generator_cell_value :: "'a::len word cell_type \<Rightarrow> 'a word chunk_generator \<Rightarrow> byte list \<Rightarrow> nat \<Rightarrow> 'a word" where
  "generator_cell_value c g data i =
     foldl (\<lambda>val j. cell_add c val (cell_mul c (generator_multipliers g ! j)
                      (data_item data (i + cell_sizeof TYPE('a word) * j))))
       0 [0..<unat (generator_k g)]"

text \<open>\<open>safe_cast<uint16_t>\<close> (\<open>kernel/vds_core/types.h\<close>) asserts that the value fits.\<close>

definition safe_cast_uint16 :: "nat \<Rightarrow> u16 expected" where
  "safe_cast_uint16 val =
     vds_assert (val = unat (word_of_nat val :: u16)) ''value == (source_type)this->value_''
       (Inr (word_of_nat val))"

definition generator_write :: "'a::len word cell_type \<Rightarrow> 'a word chunk_generator \<Rightarrow>
    binary_serializer \<Rightarrow> byte list \<Rightarrow> bool \<Rightarrow> binary_serializer expected" where
  "generator_write c g s data write_padding =
     (let sizeof = cell_sizeof TYPE('a word); k = unat (generator_k g); sz = length data
      in if k = 0 then Inl (Undefined_behaviour ''division by zero'')
         else
           let expected_size = (sz + sizeof * k - 1) div sizeof div k * sizeof;
               start = length s;
               s = foldl (\<lambda>s i. cell_put c (generator_cell_value c g data i) s) s
                     (positions 0 sz (sizeof * k))
           in vds_assert (expected_size = length s - start) ''expected_size == final_size - start''
                (if write_padding
                 then get_expected (safe_cast_uint16 (sz mod (sizeof * k))) (\<lambda>pad. Inr (put_uint16 pad s))
                 else vds_assert (0 = sz mod (sizeof * k)) ''0 == size % (sizeof(cell_type) * this->k_)''
                   (Inr s)))"

definition generator_write_padding :: "'a::len word chunk_generator \<Rightarrow> binary_serializer \<Rightarrow> nat \<Rightarrow> binary_serializer expected" where
  "generator_write_padding g s sz =
     (let stride = cell_sizeof TYPE('a word) * unat (generator_k g)
      in if stride = 0 then Inl (Undefined_behaviour ''division by zero'')
         else get_expected (safe_cast_uint16 (sz mod stride)) (\<lambda>pad. Inr (put_uint16 pad s)))"

section \<open>chunk_output_async\<close>

text \<open>
  The stream that feeds a generator in blocks of \<open>1024\<close> groups. The target's
  \<open>write_async\<close> is the argument \<open>target\<close>; \<open>output_buffer\<close> is the filled part of the buffer.
\<close>

record 't chunk_output =
  output_size :: nat
  output_buffer :: "byte list"
  output_target :: 't

definition output_capacity :: "'a::len word chunk_generator \<Rightarrow> nat" where
  "output_capacity g = 1024 * unat (generator_k g) * cell_sizeof TYPE('a word)"

definition chunk_output_async :: "'t \<Rightarrow> 't chunk_output" where
  "chunk_output_async t = \<lparr>output_size = 0, output_buffer = [], output_target = t\<rparr>"

function output_loop :: "'a::len word cell_type \<Rightarrow> 'a word chunk_generator \<Rightarrow>
    (byte list \<Rightarrow> 't \<Rightarrow> 't expected) \<Rightarrow> byte list \<Rightarrow> 't chunk_output \<Rightarrow> 't chunk_output expected" where
  "output_loop c g target data o1 =
     (if data = [] then Inr o1
      else if output_capacity g < length (output_buffer o1) then Inl (Undefined_behaviour ''buffer overrun'')
      else
        let l = min (length data) (output_capacity g - length (output_buffer o1));
            buffer = output_buffer o1 @ take l data
        in if output_capacity g = length buffer
           then get_expected (generator_write c g [] buffer False) (\<lambda>s.
                get_expected (target s (output_target o1)) (\<lambda>t.
                if l = 0 \<and> buffer = [] then Inl Not_terminating
                else output_loop c g target (drop l data) (o1\<lparr>output_buffer := [], output_target := t\<rparr>)))
           else output_loop c g target (drop l data) (o1\<lparr>output_buffer := buffer\<rparr>))"
  by pat_completeness auto
termination
proof (relation "measures [\<lambda>(c, g, target, data, o1). length data,
    \<lambda>(c, g, target, data, o1). length (output_buffer o1)]", goal_cases)
  case 1
  show ?case by simp
next
  case (2 c g target data o1 l buffer s t)
  have "data \<noteq> []" by (rule 2(1))
  moreover have "\<not> (l = 0 \<and> buffer = [])" by (rule 2(8))
  moreover have "buffer = output_buffer o1 @ take l data" by (rule 2(4))
  ultimately have "l = 0 \<Longrightarrow> output_buffer o1 \<noteq> []" "data \<noteq> []" by auto
  then show ?case by (cases "l = 0") (simp_all add: diff_less)
next
  case (3 c g target data o1 l buffer)
  have "l \<noteq> 0"
  proof
    assume l: "l = 0"
    with 3(1,2,3) have "output_capacity g = length (output_buffer o1)"
      by (auto simp: min_def split: if_splits)
    with 3(4,5) l show False by simp
  qed
  with 3(1) show ?case by simp
qed

declare output_loop.simps [simp del]

definition output_write_async :: "'a::len word cell_type \<Rightarrow> 'a word chunk_generator \<Rightarrow>
    (byte list \<Rightarrow> 't \<Rightarrow> 't expected) \<Rightarrow> byte list \<Rightarrow> 't chunk_output \<Rightarrow> 't chunk_output expected" where
  "output_write_async c g target data o1 =
     (if data \<noteq> [] then output_loop c g target data (o1\<lparr>output_size := output_size o1 + length data\<rparr>)
      else
        get_expected
          (if output_buffer o1 \<noteq> [] then generator_write c g [] (output_buffer o1) True
           else generator_write_padding g [] (output_size o1)) (\<lambda>s.
        get_expected (target s (output_target o1)) (\<lambda>t.
        get_expected (target [] t) (\<lambda>t. Inr (o1\<lparr>output_target := t\<rparr>)))))"

section \<open>chunk_restore: the elimination\<close>

text \<open>
  The local array \<open>left\<close> and the member \<open>multipliers_\<close> of the constructor, both \<open>k\<close> by \<open>k\<close>
  cells by rows.
\<close>

record 'w restore_state =
  left :: "nat \<Rightarrow> 'w"
  multipliers :: "nat \<Rightarrow> 'w"

definition store_row :: "nat \<Rightarrow> 'w list \<Rightarrow> (nat \<Rightarrow> 'w) \<Rightarrow> nat \<Rightarrow> 'w" where
  "store_row base row a p = (if base \<le> p \<and> p < base + length row then row ! (p - base) else a p)"

definition restore_prepare :: "'a::len word cell_type \<Rightarrow> 'a word \<Rightarrow> 'a word list \<Rightarrow>
    'a word restore_state \<Rightarrow> 'a word restore_state" where
  "restore_prepare c k n st =
     fold (\<lambda>i st. st\<lparr>
             left := store_row (unat k * i) (generate_multipliers c k (n ! i)) (left st),
             multipliers := store_row (unat k * i)
               (map (\<lambda>j. if i = j then 1 else 0) [0..<unat k]) (multipliers st)\<rparr>)
       [0..<unat k] st"

definition eliminate_cell :: "'a::len word cell_type \<Rightarrow> nat \<Rightarrow> nat \<Rightarrow> nat \<Rightarrow> 'a word \<Rightarrow> 'a word \<Rightarrow> nat \<Rightarrow>
    'a word restore_state \<Rightarrow> 'a word restore_state expected" where
  "eliminate_cell cells k i j m1 m2 c st =
     vds_assert (c < i \<longrightarrow> left st (k * j + c) = 0) ''left[k * j + c] == 0''
       (let st = st\<lparr>left := (left st)(k * j + c :=
                   cell_sub cells (cell_mul cells m1 (left st (k * j + c)))
                                  (cell_mul cells m2 (left st (k * i + c))))\<rparr>
        in vds_assert (c \<le> i \<longrightarrow> left st (k * j + c) = 0) ''left[k * j + c] == 0''
             (Inr (st\<lparr>multipliers := (multipliers st)(k * j + c :=
                   cell_sub cells (cell_mul cells m1 (multipliers st (k * j + c)))
                                  (cell_mul cells m2 (multipliers st (k * i + c))))\<rparr>)))"

definition restore_first :: "'a::len word cell_type \<Rightarrow> nat \<Rightarrow>
    'a word restore_state \<Rightarrow> 'a word restore_state expected" where
  "restore_first cells k =
     for_loop [0..<k] (\<lambda>i st.
       let m1 = left st (k * i + i) in
       for_loop [Suc i..<k] (\<lambda>j st.
         let m2 = left st (k * j + i) in
         for_loop [0..<k] (eliminate_cell cells k i j m1 m2) st) st)"

definition normalize_cell :: "'a::len word cell_type \<Rightarrow> nat \<Rightarrow> nat \<Rightarrow> 'a word \<Rightarrow> nat \<Rightarrow>
    'a word restore_state \<Rightarrow> 'a word restore_state expected" where
  "normalize_cell cells k i m1 c st =
     get_expected
       (if c < i then vds_assert (left st (k * i + c) = 0) ''left[k * i + c] == 0'' (Inr st)
        else Inr (st\<lparr>left := (left st)(k * i + c := cell_div cells (left st (k * i + c)) m1)\<rparr>))
       (\<lambda>st. Inr (st\<lparr>multipliers := (multipliers st)(k * i + c :=
                     cell_div cells (multipliers st (k * i + c)) m1)\<rparr>))"

definition restore_normalize :: "'a::len word cell_type \<Rightarrow> nat \<Rightarrow>
    'a word restore_state \<Rightarrow> 'a word restore_state expected" where
  "restore_normalize cells k =
     for_loop [0..<k] (\<lambda>i st.
       let m1 = left st (k * i + i) in
       for_loop [0..<k] (normalize_cell cells k i m1) st)"

definition reverse_cell :: "'a::len word cell_type \<Rightarrow> nat \<Rightarrow> nat \<Rightarrow> nat \<Rightarrow> 'a word \<Rightarrow> nat \<Rightarrow>
    'a word restore_state \<Rightarrow> 'a word restore_state expected" where
  "reverse_cell cells k i j m1 c st =
     (let st = st\<lparr>left := (left st)(k * (j - 1) + c :=
                 cell_sub cells (left st (k * (j - 1) + c))
                                (cell_mul cells (left st (k * (i - 1) + c)) m1))\<rparr>
      in Inr (st\<lparr>multipliers := (multipliers st)(k * (j - 1) + c :=
                 cell_sub cells (multipliers st (k * (j - 1) + c))
                                (cell_mul cells (multipliers st (k * (i - 1) + c)) m1))\<rparr>))"

definition restore_reverse :: "'a::len word cell_type \<Rightarrow> nat \<Rightarrow>
    'a word restore_state \<Rightarrow> 'a word restore_state expected" where
  "restore_reverse cells k =
     for_loop (rev [Suc 0..<Suc k]) (\<lambda>i st.
       for_loop (rev [Suc 0..<i]) (\<lambda>j st.
         let m1 = left st (k * (j - 1) + (i - 1)) in
         for_loop [0..<k] (reverse_cell cells k i j m1) st) st)"

definition restore_validate :: "nat \<Rightarrow> 'a::len word restore_state \<Rightarrow> 'a word restore_state expected" where
  "restore_validate k =
     for_loop [0..<k] (\<lambda>i st.
       for_loop [0..<k] (\<lambda>c st.
         let val = left st (k * i + c) in
         if i = c then vds_assert (1 = val) ''1 == value'' (Inr st)
         else vds_assert (0 = val) ''0 == value'' (Inr st)) st)"

text \<open>
  The constructor; \<open>memory\<close> is what the two new arrays hold. The indices are of type \<open>int\<close>,
  so \<open>k * k\<close> has to fit.
\<close>

definition chunk_restore :: "'a::len word cell_type \<Rightarrow> 'a word restore_state \<Rightarrow> 'a word \<Rightarrow> 'a word list \<Rightarrow>
    (nat \<Rightarrow> 'a word) expected" where
  "chunk_restore cells memory k n =
     (if unat k * unat k \<ge> 2 ^ 31 then Inl (Undefined_behaviour ''signed overflow'')
      else
        get_expected (restore_first cells (unat k) (restore_prepare cells k n memory)) (\<lambda>st.
        get_expected (restore_normalize cells (unat k) st) (\<lambda>st.
        get_expected (restore_reverse cells (unat k) st) (\<lambda>st.
        get_expected (restore_validate (unat k) st) (\<lambda>st. Inr (multipliers st))))))"

section \<open>chunk_restore: restoring\<close>

text \<open>\<open>restore(result, chunks)\<close>; \<open>m\<close> runs over the multipliers once for each index.\<close>

definition restored_cell :: "'a::len word cell_type \<Rightarrow> nat \<Rightarrow> (nat \<Rightarrow> 'a word) \<Rightarrow> nat \<Rightarrow> (nat \<Rightarrow> 'a word) \<Rightarrow> 'a word" where
  "restored_cell cells k m i cell =
     foldl (\<lambda>val j. cell_add cells val (cell_mul cells (m (k * i + j)) (cell j))) 0 [0..<k]"

definition restore_cells :: "'a::len word cell_type \<Rightarrow> 'a word \<Rightarrow> (nat \<Rightarrow> 'a word) \<Rightarrow> 'a word chunk list \<Rightarrow> 'a word list" where
  "restore_cells cells k m chunks =
     concat (map (\<lambda>index. map (\<lambda>i. restored_cell cells (unat k) m i (\<lambda>j. chunk_data (chunks ! j) ! index))
                       [0..<unat k])
               [0..<length (chunk_data (chunks ! 0))])"

text \<open>\<open>restore(chunks)\<close> over serialized chunks.\<close>

definition read_cell :: "byte list \<Rightarrow> nat \<Rightarrow> 'a::len word expected" where
  "read_cell d index =
     (if index + cell_sizeof TYPE('a word) \<le> length d
      then Inr (foldl shift_in 0 (take (cell_sizeof TYPE('a word)) (drop index d)))
      else Inl (Undefined_behaviour ''read past the end of a chunk''))"

definition read_padding :: "byte list \<Rightarrow> u16 expected" where
  "read_padding d =
     (if length d < 2 then Inl (Undefined_behaviour ''read before the start of a chunk'')
      else Inr (shift_in (ucast (d ! (length d - 2))) (d ! (length d - 1))))"

fun restore_row :: "'a::len word cell_type \<Rightarrow> nat \<Rightarrow> (nat \<Rightarrow> 'a word) \<Rightarrow> byte list list \<Rightarrow> nat \<Rightarrow> u64 \<Rightarrow>
    nat list \<Rightarrow> binary_serializer \<Rightarrow> (byte list + binary_serializer) expected" where
  "restore_row cells k m chunks index expected_size [] s = Inr (Inr s)"
| "restore_row cells k m chunks index expected_size (i # is) s =
     get_expected
       (for_loop [0..<k] (\<lambda>j val.
          get_expected (read_cell (chunks ! j) index) (\<lambda>cell.
            Inr (cell_add cells val (cell_mul cells (m (k * i + j)) cell)))) 0)
       (\<lambda>val.
          let s = cell_put cells val s
          in if word_of_nat (length s) \<ge> expected_size then Inr (Inl (take (unat expected_size) s))
             else restore_row cells k m chunks index expected_size is s)"

fun restore_rows :: "'a::len word cell_type \<Rightarrow> nat \<Rightarrow> (nat \<Rightarrow> 'a word) \<Rightarrow> byte list list \<Rightarrow> u64 \<Rightarrow>
    nat list \<Rightarrow> binary_serializer \<Rightarrow> byte list expected" where
  "restore_rows cells k m chunks expected_size [] s =
     Inl (Runtime_error ''Fatal error at chunk_restore::restore'')"
| "restore_rows cells k m chunks expected_size (index # rest) s =
     get_expected (restore_row cells k m chunks index expected_size [0..<k] s) (\<lambda>r.
       case r of Inl data \<Rightarrow> Inr data
       | Inr s \<Rightarrow> restore_rows cells k m chunks expected_size rest s)"

definition restore_size :: "'a::len word itself \<Rightarrow> nat \<Rightarrow> nat \<Rightarrow> u16 \<Rightarrow> u64" where
  "restore_size cell k sz padding =
     (let expected_size = (word_of_nat sz - 2) * word_of_nat k
      in if 0 \<noteq> padding
         then expected_size - word_of_nat (k * cell_sizeof cell) + ucast padding
         else expected_size)"

definition restore_chunks :: "'a::len word cell_type \<Rightarrow> 'a word \<Rightarrow> (nat \<Rightarrow> 'a word) \<Rightarrow> byte list list \<Rightarrow> byte list expected" where
  "restore_chunks cells k m chunks =
     (if length chunks < max 1 (unat k) then Inl (Undefined_behaviour ''read past the end of a vector'')
      else
        let sz = length (chunks ! 0) in
        get_expected (read_padding (chunks ! 0)) (\<lambda>padding.
        get_expected
          (for_loop [1..<unat k] (\<lambda>j _.
             vds_assert (sz = length (chunks ! j)) ''size == chunks[j].size()''
               (get_expected (read_padding (chunks ! j)) (\<lambda>p.
                  vds_assert (padding = p) ''padding'' (Inr ())))) ()) (\<lambda>_.
        restore_rows cells (unat k) m chunks (restore_size TYPE('a word) (unat k) sz padding)
          (positions 0 sz (cell_sizeof TYPE('a word))) [])))"

end
