(* ===== verification/Vandermonde.thy ===== *)
theory Vandermonde
  imports Main
begin

text \<open>
  Gauss elimination on the matrix of powers \<open>x r ^ c\<close> over a field: what the constructor of
  \<open>chunk_restore\<close> relies on. A matrix is a function of row and column; \<open>M\<close> records the row
  operations done on \<open>L\<close>.
\<close>

lemma vandermonde_kernel:
  fixes x :: "nat \<Rightarrow> 'f::field"
  assumes "inj_on x {..m}" and "\<forall>c \<le> m. (\<Sum>s\<le>m. a s * x s ^ c) = 0"
  shows "\<forall>s \<le> m. a s = 0"
  using assms
proof (induction m arbitrary: a)
  case 0
  then show ?case by simp
next
  case (Suc m)
  let ?b = "\<lambda>s. a s * (x s - x (Suc m))"
  have "(\<Sum>s\<le>m. ?b s * x s ^ c) = 0" if "c \<le> m" for c
  proof -
    have "(\<Sum>s\<le>m. ?b s * x s ^ c) = (\<Sum>s\<le>Suc m. ?b s * x s ^ c)" by simp
    also have "\<dots> = (\<Sum>s\<le>Suc m. a s * x s ^ Suc c) - x (Suc m) * (\<Sum>s\<le>Suc m. a s * x s ^ c)"
      unfolding sum_distrib_left sum_subtractf [symmetric]
      by (rule sum.cong) (simp_all add: algebra_simps)
    also have "\<dots> = 0"
      using Suc.prems(2) [rule_format, of c] Suc.prems(2) [rule_format, of "Suc c"] that by simp
    finally show ?thesis .
  qed
  moreover have "inj_on x {..m}" by (rule inj_on_subset [OF Suc.prems(1)]) auto
  ultimately have "\<forall>s \<le> m. ?b s = 0" using Suc.IH [of ?b] by blast
  moreover have "x s \<noteq> x (Suc m)" if "s \<le> m" for s
    using that inj_onD [OF Suc.prems(1), of s "Suc m"] by auto
  ultimately have zero: "a s = 0" if "s \<le> m" for s using that by auto
  have "(\<Sum>s\<le>Suc m. a s * x s ^ 0) = 0" using Suc.prems(2) by blast
  with zero have "a (Suc m) = 0" by simp
  with zero show ?case by (auto simp: le_Suc_eq)
qed

section \<open>The invariants of the elimination\<close>

type_synonym 'f matrix = "nat \<Rightarrow> nat \<Rightarrow> 'f"

definition solves :: "nat \<Rightarrow> (nat \<Rightarrow> 'f::field) \<Rightarrow> 'f matrix \<Rightarrow> 'f matrix \<Rightarrow> bool" where
  "solves k x L M \<longleftrightarrow> (\<forall>r < k. \<forall>c < k. L r c = (\<Sum>s<k. M r s * x s ^ c))"

definition row_op :: "nat \<Rightarrow> nat \<Rightarrow> 'f::field \<Rightarrow> 'f \<Rightarrow> 'f matrix \<Rightarrow> 'f matrix" where
  "row_op i j a b A r c = (if r = j then a * A j c - b * A i c else A r c)"

definition row_div :: "nat \<Rightarrow> 'f::field \<Rightarrow> 'f matrix \<Rightarrow> 'f matrix" where
  "row_div i a A r c = (if r = i then A i c / a else A r c)"

lemma solves_init: "solves k x (\<lambda>r c. x r ^ c) (\<lambda>r s. if r = s then 1 else 0)"
  by (simp add: solves_def if_distrib [where f = "\<lambda>m. m * _"] cong: if_cong)

lemma solves_row_op: "solves k x L M \<Longrightarrow> i < k \<Longrightarrow> solves k x (row_op i j a b L) (row_op i j a b M)"
  by (simp add: solves_def row_op_def sum_distrib_left sum_subtractf [symmetric] left_diff_distrib mult.assoc)

lemma solves_row_div: "solves k x L M \<Longrightarrow> solves k x (row_div i a L) (row_div i a M)"
  by (simp add: solves_def row_div_def sum_divide_distrib)

text \<open>After \<open>i\<close> columns of the first phase.\<close>

definition first_inv :: "nat \<Rightarrow> (nat \<Rightarrow> 'f::field) \<Rightarrow> nat \<Rightarrow> 'f matrix \<Rightarrow> 'f matrix \<Rightarrow> bool" where
  "first_inv k x i L M \<longleftrightarrow> solves k x L M
     \<and> (\<forall>r < k. \<forall>c < i. c < r \<longrightarrow> L r c = 0)
     \<and> (\<forall>r < k. M r r \<noteq> 0 \<and> (\<forall>s < k. r < s \<longrightarrow> M r s = 0))"

text \<open>The pivot is not zero, because the numbers \<open>x\<close> differ.\<close>

lemma pivot_nonzero:
  assumes "first_inv k x n L M" and i: "i < k" "i \<le> n" and inj: "inj_on x {..<k}"
  shows "L i i \<noteq> 0"
proof
  from assms have inv: "first_inv k x i L M" by (auto simp: first_inv_def)
  assume "L i i = 0"
  with inv i have zero: "L i c = 0" if "c \<le> i" for c
    using that by (cases "c = i") (auto simp: first_inv_def)
  have "(\<Sum>s\<le>i. M i s * x s ^ c) = 0" if "c \<le> i" for c
  proof -
    have "(\<Sum>s\<le>i. M i s * x s ^ c) = (\<Sum>s<k. M i s * x s ^ c)"
      using inv i by (intro sum.mono_neutral_left) (auto simp: first_inv_def not_le)
    also have "\<dots> = L i c" using inv i that by (simp add: first_inv_def solves_def)
    finally show ?thesis using zero [OF that] by simp
  qed
  moreover have "inj_on x {..i}" using i by (intro inj_on_subset [OF inj]) auto
  ultimately have "M i i = 0" using vandermonde_kernel [of x i "M i"] by blast
  with inv i show False by (simp add: first_inv_def)
qed

text \<open>Inside the round of column \<open>i\<close>, with the rows below \<open>j\<close> done.\<close>

definition round_inv :: "nat \<Rightarrow> (nat \<Rightarrow> 'f::field) \<Rightarrow> nat \<Rightarrow> nat \<Rightarrow> 'f matrix \<Rightarrow> 'f matrix \<Rightarrow> bool" where
  "round_inv k x i j L M \<longleftrightarrow> first_inv k x i L M \<and> (\<forall>r < j. i < r \<longrightarrow> L r i = 0)"

lemma round_inv_step:
  assumes inv: "round_inv k x i j L M" and "i < j" "j < k" and "L i i \<noteq> 0"
  shows "round_inv k x i (Suc j) (row_op i j (L i i) (L j i) L) (row_op i j (L i i) (L j i) M)"
  using assms solves_row_op [of k x L M i j]
  by (auto simp: round_inv_def first_inv_def row_op_def less_Suc_eq)

lemma round_inv_done: "round_inv k x i k L M \<Longrightarrow> first_inv k x (Suc i) L M"
  by (auto simp: round_inv_def first_inv_def less_Suc_eq)

text \<open>After the first phase and \<open>i\<close> rows of the normalisation.\<close>

definition normal_inv :: "nat \<Rightarrow> (nat \<Rightarrow> 'f::field) \<Rightarrow> nat \<Rightarrow> 'f matrix \<Rightarrow> 'f matrix \<Rightarrow> bool" where
  "normal_inv k x i L M \<longleftrightarrow> solves k x L M
     \<and> (\<forall>r < k. \<forall>c < r. L r c = 0) \<and> (\<forall>r < k. L r r \<noteq> 0) \<and> (\<forall>r < i. L r r = 1)"

lemma normal_inv_init:
  assumes "first_inv k x k L M" and "inj_on x {..<k}"
  shows "normal_inv k x 0 L M"
  using assms pivot_nonzero [OF assms(1) _ _ assms(2)] by (auto simp: normal_inv_def first_inv_def)

lemma normal_inv_step:
  assumes "normal_inv k x i L M" "i < k"
  shows "normal_inv k x (Suc i) (row_div i (L i i) L) (row_div i (L i i) M)"
  using assms solves_row_div [of k x L M i] by (auto simp: normal_inv_def row_div_def less_Suc_eq)

text \<open>In the reverse phase: the columns from \<open>i\<close> on are unit columns, in column \<open>i - 1\<close> the
  rows from \<open>j\<close> on are.\<close>

definition reverse_inv :: "nat \<Rightarrow> (nat \<Rightarrow> 'f::field) \<Rightarrow> nat \<Rightarrow> nat \<Rightarrow> 'f matrix \<Rightarrow> 'f matrix \<Rightarrow> bool" where
  "reverse_inv k x i j L M \<longleftrightarrow> solves k x L M
     \<and> (\<forall>r < k. \<forall>c < r. L r c = 0) \<and> (\<forall>r < k. L r r = 1)
     \<and> (\<forall>r < k. \<forall>c < k. i \<le> c \<and> r \<noteq> c \<longrightarrow> L r c = 0)
     \<and> (\<forall>r < i - 1. j \<le> r \<longrightarrow> L r (i - 1) = 0)"

lemma reverse_inv_init: "normal_inv k x k L M \<Longrightarrow> reverse_inv k x k (k - 1) L M"
  by (auto simp: normal_inv_def reverse_inv_def)

lemma reverse_inv_step:
  assumes "reverse_inv k x i j L M" "0 < j" "j < i" "i \<le> k"
  shows "reverse_inv k x i (j - 1) (row_op (i - 1) (j - 1) 1 (L (j - 1) (i - 1)) L)
           (row_op (i - 1) (j - 1) 1 (L (j - 1) (i - 1)) M)"
proof -
  obtain j' where j: "j = Suc j'" using assms(2) by (cases j) auto
  obtain i' where i: "i = Suc i'" using assms(3) by (cases i) auto
  have inv: "solves k x L M" "\<forall>r < k. \<forall>c < r. L r c = 0" "\<forall>r < k. L r r = 1"
    "\<forall>r < k. \<forall>c < k. i \<le> c \<and> r \<noteq> c \<longrightarrow> L r c = 0" "\<forall>r < i'. j \<le> r \<longrightarrow> L r i' = 0"
    and le: "j' < i'" "i' < k"
    using assms by (simp_all add: reverse_inv_def i j)
  let ?L = "row_op i' j' 1 (L j' i') L" and ?M = "row_op i' j' 1 (L j' i') M"
  have zero: "L i' c = 0" if "c < k" "c \<noteq> i'" for c
    using that inv(2,4) le by (cases "c < i'") (auto simp: i)
  have same: "?L r c = L r c" if "c < k" "c \<noteq> i'" for r c
    using zero [OF that] by (simp add: row_op_def)
  have col: "?L r i' = (if r = j' then 0 else L r i')" for r
    using inv(3) le by (simp add: row_op_def)
  have "solves k x ?L ?M" using inv(1) le(2) by (rule solves_row_op)
  moreover have "?L r c = 0" if "r < k" "c < r" for r c
    using that inv(2) same [of c r] col [of r] by (cases "c = i'") auto
  moreover have "?L r r = 1" if "r < k" for r
    using that inv(3) same [of r r] col [of r] le by (cases "r = i'") auto
  moreover have "?L r c = 0" if "r < k" "c < k" "i \<le> c" "r \<noteq> c" for r c
    using that inv(4) same [of c r] by (simp add: i)
  moreover have "?L r i' = 0" if "r < i'" "j' \<le> r" for r
    using that inv(5) col [of r] by (cases "r = j'") (auto simp: j)
  ultimately show ?thesis by (simp add: reverse_inv_def i j)
qed

lemma reverse_inv_next:
  assumes inv: "reverse_inv k x (Suc i) 0 L M"
  shows "reverse_inv k x i (i - 1) L M"
proof -
  have "L r c = 0" if "r < k" "c < k" "i \<le> c" "r \<noteq> c" for r c
    using inv that by (cases "c = i"; cases "r < c") (auto simp: reverse_inv_def)
  with inv show ?thesis by (auto simp: reverse_inv_def)
qed

text \<open>The invariants look at the \<open>k\<close> by \<open>k\<close> matrices only.\<close>

definition agree :: "nat \<Rightarrow> 'f matrix \<Rightarrow> 'f matrix \<Rightarrow> bool" where
  "agree k A B \<longleftrightarrow> (\<forall>r < k. \<forall>c < k. A r c = B r c)"

lemma agree_at: "agree k A B \<Longrightarrow> r < k \<Longrightarrow> c < k \<Longrightarrow> A r c = B r c"
  by (simp add: agree_def)

lemma agree_solves: "agree k A L \<and> agree k B M \<Longrightarrow> solves k x A B \<longleftrightarrow> solves k x L M"
  by (simp add: agree_def solves_def)

lemma agree_first_inv:
  "agree k A L \<and> agree k B M \<Longrightarrow> i \<le> k \<Longrightarrow> first_inv k x i L M \<Longrightarrow> first_inv k x i A B"
  using agree_solves [of k A L B M x] by (auto simp: first_inv_def agree_def)

lemma agree_round_inv:
  "agree k A L \<and> agree k B M \<Longrightarrow> i < k \<Longrightarrow> j \<le> k \<Longrightarrow> round_inv k x i j L M \<Longrightarrow> round_inv k x i j A B"
  using agree_first_inv [of k A L B M i x] by (auto simp: round_inv_def agree_def)

lemma agree_normal_inv:
  "agree k A L \<and> agree k B M \<Longrightarrow> i \<le> k \<Longrightarrow> normal_inv k x i L M \<Longrightarrow> normal_inv k x i A B"
  using agree_solves [of k A L B M x] by (auto simp: normal_inv_def agree_def)

lemma agree_reverse_inv:
  "agree k A L \<and> agree k B M \<Longrightarrow> i \<le> k \<Longrightarrow> reverse_inv k x i j L M \<Longrightarrow> reverse_inv k x i j A B"
  using agree_solves [of k A L B M x] by (auto simp: reverse_inv_def agree_def)

text \<open>The result of the elimination: \<open>M\<close> is a left inverse.\<close>

lemma reverse_inv_done:
  assumes "reverse_inv k x 0 0 L M" "r < k" "c < k"
  shows "L r c = (if r = c then 1 else 0)" and "(\<Sum>s<k. M r s * x s ^ c) = (if r = c then 1 else 0)"
  using assms by (auto simp: reverse_inv_def solves_def)

end
