(* ===== verification/Chunk_inverse.thy ===== *)
theory Chunk_inverse
  imports Chunk Vandermonde
begin

text \<open>
  The constructor of \<open>chunk_restore\<close> computes the inverse of the matrix of powers, and none of
  its assertions fails. The contract of a cell type is the locale \<open>cell_field\<close>: its
  operations are those of a field, its bytes are read back by the shifts of the code.
\<close>

section \<open>Updating a row\<close>

lemma position_eq_iff:
  assumes "c < k" "c' < (k::nat)"
  shows "k * r + c = k * r' + c' \<longleftrightarrow> r = r' \<and> c = c'"
proof
  assume eq: "k * r + c = k * r' + c'"
  have "(k * r + c) div k = r" "(k * r' + c') div k = r'" using assms by simp_all
  with eq have "r = r'" by simp
  with eq show "r = r' \<and> c = c'" by simp
qed simp

text \<open>Two states that agree on the \<open>k\<close> by \<open>k\<close> matrices, but for row \<open>j\<close>.\<close>

definition row_done :: "nat \<Rightarrow> nat \<Rightarrow> nat \<Rightarrow> (nat \<Rightarrow> 'w) \<Rightarrow> (nat \<Rightarrow> 'w) \<Rightarrow> 'w restore_state \<Rightarrow> 'w restore_state \<Rightarrow> bool" where
  "row_done k j c f g st st' \<longleftrightarrow>
     (\<forall>r < k. \<forall>c' < k.
        left st' (k * r + c') = (if r = j \<and> c' < c then f c' else left st (k * r + c'))
        \<and> multipliers st' (k * r + c') = (if r = j \<and> c' < c then g c' else multipliers st (k * r + c')))"

lemma row_loop:
  assumes "j < k"
    and body: "\<And>c s. c < k \<Longrightarrow> row_done k j c f g st s \<Longrightarrow>
      body c s = Inr (s\<lparr>left := (left s)(k * j + c := f c), multipliers := (multipliers s)(k * j + c := g c)\<rparr>)"
  shows "\<exists>st'. for_loop [0..<k] body st = Inr st' \<and> row_done k j k f g st st'"
proof (rule for_loop_up [where P = "\<lambda>c. row_done k j c f g st"])
  fix c s
  assume c: "c < k" and s: "row_done k j c f g st s"
  have "row_done k j (Suc c) f g st
    (s\<lparr>left := (left s)(k * j + c := f c), multipliers := (multipliers s)(k * j + c := g c)\<rparr>)"
    unfolding row_done_def
  proof (intro allI impI)
    fix r c' assume rc: "r < k" "c' < k"
    then have pos: "k * r + c' = k * j + c \<longleftrightarrow> r = j \<and> c' = c" by (intro position_eq_iff c)
    from s rc show "left (s\<lparr>left := (left s)(k * j + c := f c), multipliers := (multipliers s)(k * j + c := g c)\<rparr>) (k * r + c') =
        (if r = j \<and> c' < Suc c then f c' else left st (k * r + c')) \<and>
      multipliers (s\<lparr>left := (left s)(k * j + c := f c), multipliers := (multipliers s)(k * j + c := g c)\<rparr>) (k * r + c') =
        (if r = j \<and> c' < Suc c then g c' else multipliers st (k * r + c'))"
      by (cases "r = j \<and> c' = c") (auto simp: pos row_done_def)
  qed
  with body [OF c s] show "\<exists>s'. body c s = Inr s' \<and> row_done k j (Suc c) f g st s'" by blast
qed (simp_all add: row_done_def)

lemma row_done_at:
  assumes "row_done k j n f g st s" "r < k" "c < k"
  shows "r \<noteq> j \<or> n \<le> c \<Longrightarrow> left s (k * r + c) = left st (k * r + c)"
    and "r \<noteq> j \<or> n \<le> c \<Longrightarrow> multipliers s (k * r + c) = multipliers st (k * r + c)"
    and "r = j \<Longrightarrow> c < n \<Longrightarrow> left s (k * r + c) = f c"
    and "r = j \<Longrightarrow> c < n \<Longrightarrow> multipliers s (k * r + c) = g c"
  using assms by (auto simp: row_done_def)

section \<open>The contract of a cell type\<close>

locale cell_field =
  fixes cells :: "'a::len word cell_type" and emb :: "'a word \<Rightarrow> 'f::field"
    and bytes :: "'a word \<Rightarrow> byte list"
  assumes emb_eq_iff: "emb x = emb y \<longleftrightarrow> x = y"
    and emb_0: "emb 0 = 0" and emb_1: "emb 1 = 1"
    and emb_mul: "emb (cell_mul cells x y) = emb x * emb y"
    and emb_div: "emb (cell_div cells x y) = emb x / emb y"
    and emb_add: "emb (cell_add cells x y) = emb x + emb y"
    and emb_sub: "emb (cell_sub cells x y) = emb x - emb y"
    and put_bytes: "cell_put cells x s = s @ bytes x"
    and bytes_length: "length (bytes x) = cell_sizeof TYPE('a word)"
    and bytes_value: "foldl shift_in 0 (bytes x) = x"
    and value_bytes: "length d = cell_sizeof TYPE('a word) \<Longrightarrow> bytes (foldl shift_in 0 d) = d"
    and sizeof_pos: "0 < cell_sizeof TYPE('a word)" and sizeof_le: "cell_sizeof TYPE('a word) \<le> 2"
begin

lemma emb_eq_0: "emb x = 0 \<longleftrightarrow> x = 0"
  using emb_eq_iff [of x 0] by (simp add: emb_0)

lemma emb_eq_1: "emb x = 1 \<longleftrightarrow> x = 1"
  using emb_eq_iff [of x 1] by (simp add: emb_1)

lemmas emb_simps = emb_0 emb_1 emb_mul emb_div emb_add emb_sub

text \<open>The two arrays as matrices over the field.\<close>

definition left_matrix :: "nat \<Rightarrow> 'a word restore_state \<Rightarrow> 'f matrix" where
  "left_matrix k st r c = emb (left st (k * r + c))"

definition mult_matrix :: "nat \<Rightarrow> 'a word restore_state \<Rightarrow> 'f matrix" where
  "mult_matrix k st r c = emb (multipliers st (k * r + c))"

text \<open>A finished row loop is a row operation on the matrices.\<close>

lemma row_done_agree:
  assumes "row_done k j k f g st st'"
    and "\<And>c. c < k \<Longrightarrow> emb (f c) = L j c \<and> emb (g c) = M j c"
    and "\<And>r c. r \<noteq> j \<Longrightarrow> L r c = left_matrix k st r c \<and> M r c = mult_matrix k st r c"
  shows "agree k (left_matrix k st') L \<and> agree k (mult_matrix k st') M"
  using assms unfolding agree_def row_done_def left_matrix_def mult_matrix_def by auto

lemma multipliers_power: "map emb (multipliers_loop cells n i val) = map (\<lambda>c. emb val * emb n ^ c) [0..<i]"
proof (induction i arbitrary: val)
  case (Suc i)
  have "map (\<lambda>c. emb val * emb n ^ c) [0..<Suc i] =
    emb val * emb n ^ 0 # map ((\<lambda>c. emb val * emb n ^ c) \<circ> Suc) [0..<i]"
    by (simp only: map_map [symmetric] map_Suc_upt upt_conv_Cons [OF zero_less_Suc] list.map)
  with Suc show ?case by (simp add: emb_mul mult.assoc comp_def)
qed simp

lemma length_multipliers [simp]: "length (multipliers_loop c n i val) = i"
  by (induction i arbitrary: val) simp_all

lemma emb_multiplier: "c < unat k \<Longrightarrow> emb (generate_multipliers cells k n ! c) = emb n ^ c"
  using arg_cong [OF multipliers_power [of n "unat k" 1], of "\<lambda>xs. xs ! c"]
  by (simp add: generate_multipliers_def emb_1)

lemma length_generate [simp]: "length (generate_multipliers cells k n) = unat k"
  by (simp add: generate_multipliers_def)

section \<open>The phases\<close>

lemma eliminate_row:
  fixes k i j :: nat and x
  defines "rinv \<equiv> \<lambda>i j st. round_inv k x i j (left_matrix k st) (mult_matrix k st)"
  assumes inv: "rinv i j st" and ij: "i < j" "j < k" and m1: "emb m1 = left_matrix k st i i" "m1 \<noteq> 0"
  shows "\<exists>st'. for_loop [0..<k] (eliminate_cell cells k i j m1 (left st (k * j + i))) st = Inr st'
    \<and> rinv i (Suc j) st' \<and> left st' (k * i + i) = left st (k * i + i)"
proof -
  let ?m2 = "left st (k * j + i)"
  define f where "f c = cell_sub cells (cell_mul cells m1 (left st (k * j + c))) (cell_mul cells ?m2 (left st (k * i + c)))" for c
  define g where "g c = cell_sub cells (cell_mul cells m1 (multipliers st (k * j + c))) (cell_mul cells ?m2 (multipliers st (k * i + c)))" for c
  let ?L = "left_matrix k st" and ?M = "mult_matrix k st"
  let ?opL = "row_op i j (?L i i) (?L j i) ?L" and ?opM = "row_op i j (?L i i) (?L j i) ?M"
  have emb_f: "emb (f c) = ?opL j c" and emb_g: "emb (g c) = ?opM j c" for c
    by (simp_all add: f_def g_def row_op_def emb_simps m1(1)) (simp_all add: left_matrix_def mult_matrix_def)
  have zero: "left st (k * r + c) = 0" if "r < k" "c < i" "c < r" for r c
    using inv that by (simp add: rinv_def round_inv_def first_inv_def left_matrix_def emb_eq_0)
  have f_zero: "f c = 0" if "c \<le> i" for c
  proof -
    have "emb (f c) = 0"
      using that zero [of j c] zero [of i c] ij emb_f [of c]
      by (cases "c = i") (auto simp: row_op_def left_matrix_def emb_0)
    then show ?thesis by (simp add: emb_eq_0)
  qed
  obtain st' where st': "for_loop [0..<k] (eliminate_cell cells k i j m1 ?m2) st = Inr st'"
    and row: "row_done k j k f g st st'"
  proof -
    have "\<exists>st'. for_loop [0..<k] (eliminate_cell cells k i j m1 ?m2) st = Inr st' \<and> row_done k j k f g st st'"
    proof (rule row_loop [OF ij(2)])
      fix c s assume c: "c < k" and s: "row_done k j c f g st s"
      note at = row_done_at [OF s _ c]
      have "left s (k * j + c) = left st (k * j + c)" "left s (k * i + c) = left st (k * i + c)"
        "multipliers s (k * j + c) = multipliers st (k * j + c)"
        "multipliers s (k * i + c) = multipliers st (k * i + c)"
        using at ij by simp_all
      with f_zero [of c] zero [of j c] ij
      show "eliminate_cell cells k i j m1 ?m2 c s =
        Inr (s\<lparr>left := (left s)(k * j + c := f c), multipliers := (multipliers s)(k * j + c := g c)\<rparr>)"
        using position_eq_iff [of c k c i j] c
        by (simp add: eliminate_cell_def Let_def f_def g_def)
    qed
    with that show thesis by blast
  qed
  have ag: "agree k (left_matrix k st') ?opL \<and> agree k (mult_matrix k st') ?opM"
    by (rule row_done_agree [OF row]) (simp_all add: emb_f emb_g row_op_def)
  have step: "round_inv k x i (Suc j) ?opL ?opM"
    using inv ij m1 by (intro round_inv_step) (auto simp: rinv_def emb_eq_0)
  have "rinv i (Suc j) st'"
    using agree_round_inv [OF ag _ _ step] ij by (simp add: rinv_def)
  moreover have "left st' (k * i + i) = left st (k * i + i)"
    using row_done_at(1) [OF row, of i i] ij by simp
  ultimately show ?thesis using st' by blast
qed

lemma first_phase:
  assumes inv: "first_inv k x 0 (left_matrix k st) (mult_matrix k st)" and inj: "inj_on x {..<k}"
  shows "\<exists>st'. restore_first cells k st = Inr st'
    \<and> normal_inv k x 0 (left_matrix k st') (mult_matrix k st')"
proof -
  let ?P = "\<lambda>i st. first_inv k x i (left_matrix k st) (mult_matrix k st)"
  have "\<exists>st'. restore_first cells k st = Inr st' \<and> ?P k st'"
    unfolding restore_first_def
  proof (rule for_loop_up [where P = ?P])
    fix i s assume i: "i < k" and s: "?P i s"
    define m1 where "m1 = left s (k * i + i)"
    have piv: "m1 \<noteq> 0"
      using pivot_nonzero [OF s i order_refl inj] by (auto simp: m1_def left_matrix_def emb_0)
    let ?Q = "\<lambda>j t. round_inv k x i j (left_matrix k t) (mult_matrix k t) \<and> left t (k * i + i) = m1"
    let ?rows = "for_loop [Suc i..<k] (\<lambda>j st. let m2 = left st (k * j + i) in
        for_loop [0..<k] (eliminate_cell cells k i j m1 m2) st) s"
    have "\<exists>t. ?rows = Inr t \<and> ?Q k t"
    proof (rule for_loop_up [where P = ?Q])
      show "?Q (Suc i) s" using s by (simp add: round_inv_def m1_def)
      show "Suc i \<le> k" using i by simp
      fix j t assume "Suc i \<le> j" "j < k" and t: "?Q j t"
      then have "i < j" and "emb m1 = left_matrix k t i i" by (auto simp: left_matrix_def)
      with t piv eliminate_row [of k x i j t m1] \<open>j < k\<close>
      show "\<exists>t'. (let m2 = left t (k * j + i) in
          for_loop [0..<k] (eliminate_cell cells k i j m1 m2) t) = Inr t' \<and> ?Q (Suc j) t'"
        by auto
    qed
    then show "\<exists>t. (let m1 = left s (k * i + i) in for_loop [Suc i..<k] (\<lambda>j st. let m2 = left st (k * j + i) in
        for_loop [0..<k] (eliminate_cell cells k i j m1 m2) st) s) = Inr t \<and> ?P (Suc i) t"
      using round_inv_done by (auto simp: m1_def)
  qed (use inv in simp_all)
  then show ?thesis using normal_inv_init [OF _ inj] by blast
qed

lemma normalize_phase:
  assumes "normal_inv k x 0 (left_matrix k st) (mult_matrix k st)"
  shows "\<exists>st'. restore_normalize cells k st = Inr st'
    \<and> normal_inv k x k (left_matrix k st') (mult_matrix k st')"
  unfolding restore_normalize_def
proof (rule for_loop_up [where P = "\<lambda>i st. normal_inv k x i (left_matrix k st) (mult_matrix k st)"])
  fix i s assume i: "i < k" and s: "normal_inv k x i (left_matrix k s) (mult_matrix k s)"
  define m1 where "m1 = left s (k * i + i)"
  define f where "f c = (if c < i then left s (k * i + c) else cell_div cells (left s (k * i + c)) m1)" for c
  define g where "g c = cell_div cells (multipliers s (k * i + c)) m1" for c
  have zero: "left s (k * i + c) = 0" if "c < i" for c
    using s i that by (simp add: normal_inv_def left_matrix_def emb_eq_0)
  have "\<exists>t. for_loop [0..<k] (normalize_cell cells k i m1) s = Inr t \<and> row_done k i k f g s t"
  proof (rule row_loop [OF i])
    fix c t assume c: "c < k" and t: "row_done k i c f g s t"
    note at = row_done_at [OF t i c]
    have "left t (k * i + c) = left s (k * i + c)" "multipliers t (k * i + c) = multipliers s (k * i + c)"
      using at by simp_all
    moreover from this have "(left t)(k * i + c := left s (k * i + c)) = left t" by auto
    moreover have "c < i \<Longrightarrow> f c = left s (k * i + c)" by (simp add: f_def)
    ultimately show "normalize_cell cells k i m1 c t =
        Inr (t\<lparr>left := (left t)(k * i + c := f c), multipliers := (multipliers t)(k * i + c := g c)\<rparr>)"
      using zero [of c] by (cases "c < i") (simp_all add: normalize_cell_def f_def g_def)
  qed
  then obtain t where t: "for_loop [0..<k] (normalize_cell cells k i m1) s = Inr t"
    and row: "row_done k i k f g s t" by blast
  let ?L = "left_matrix k s" and ?M = "mult_matrix k s"
  have f: "emb (f c) = row_div i (?L i i) ?L i c" for c
    using zero [of c] by (auto simp: f_def row_div_def left_matrix_def m1_def emb_simps)
  have g: "emb (g c) = row_div i (?L i i) ?M i c" for c
    by (simp add: g_def row_div_def left_matrix_def mult_matrix_def m1_def emb_simps)
  have "agree k (left_matrix k t) (row_div i (?L i i) ?L) \<and> agree k (mult_matrix k t) (row_div i (?L i i) ?M)"
    by (rule row_done_agree [OF row]) (simp_all add: f g row_div_def)
  from this normal_inv_step [OF s i] i have "normal_inv k x (Suc i) (left_matrix k t) (mult_matrix k t)"
    using agree_normal_inv [of k "left_matrix k t"] by auto
  with t show "\<exists>t. (let m1 = left s (k * i + i) in for_loop [0..<k] (normalize_cell cells k i m1) s) = Inr t
      \<and> normal_inv k x (Suc i) (left_matrix k t) (mult_matrix k t)"
    by (simp add: m1_def)
qed (use assms in simp_all)

lemma reverse_row:
  fixes k i j :: nat
  assumes inv: "reverse_inv k x i j (left_matrix k st) (mult_matrix k st)" and ij: "0 < j" "j < i" "i \<le> k"
  defines "m1 \<equiv> left st (k * (j - 1) + (i - 1))"
  shows "\<exists>st'. for_loop [0..<k] (reverse_cell cells k i j m1) st = Inr st'
    \<and> reverse_inv k x i (j - 1) (left_matrix k st') (mult_matrix k st')"
proof -
  define f where "f c = cell_sub cells (left st (k * (j - 1) + c)) (cell_mul cells (left st (k * (i - 1) + c)) m1)" for c
  define g where "g c = cell_sub cells (multipliers st (k * (j - 1) + c)) (cell_mul cells (multipliers st (k * (i - 1) + c)) m1)" for c
  let ?L = "left_matrix k st" and ?M = "mult_matrix k st"
  let ?op = "row_op (i - 1) (j - 1) 1 (?L (j - 1) (i - 1))"
  have j: "j - 1 < k" "i - 1 < k" "j - 1 \<noteq> i - 1" using ij by auto
  have "\<exists>t. for_loop [0..<k] (reverse_cell cells k i j m1) st = Inr t \<and> row_done k (j - 1) k f g st t"
  proof (rule row_loop [OF j(1)])
    fix c s assume c: "c < k" and s: "row_done k (j - 1) c f g st s"
    note at = row_done_at [OF s _ c]
    have "left s (k * (j - 1) + c) = left st (k * (j - 1) + c)" "left s (k * (i - 1) + c) = left st (k * (i - 1) + c)"
      "multipliers s (k * (j - 1) + c) = multipliers st (k * (j - 1) + c)"
      "multipliers s (k * (i - 1) + c) = multipliers st (k * (i - 1) + c)"
      using at(1,2) [OF j(1)] at(1,2) [OF j(2)] j(3) by simp_all
    then show "reverse_cell cells k i j m1 c s = Inr (s\<lparr>left := (left s)(k * (j - 1) + c := f c),
        multipliers := (multipliers s)(k * (j - 1) + c := g c)\<rparr>)"
      by (simp add: reverse_cell_def Let_def f_def g_def)
  qed
  then obtain t where t: "for_loop [0..<k] (reverse_cell cells k i j m1) st = Inr t"
    and row: "row_done k (j - 1) k f g st t" by blast
  have fg: "emb (f c) = ?op ?L (j - 1) c" "emb (g c) = ?op ?M (j - 1) c" for c
    by (simp_all add: f_def g_def row_op_def left_matrix_def mult_matrix_def m1_def emb_simps mult.commute)
  have "agree k (left_matrix k t) (?op ?L) \<and> agree k (mult_matrix k t) (?op ?M)"
    by (rule row_done_agree [OF row]) (use fg in \<open>simp_all add: row_op_def\<close>)
  from this reverse_inv_step [OF inv ij] ij have "reverse_inv k x i (j - 1) (left_matrix k t) (mult_matrix k t)"
    using agree_reverse_inv [of k "left_matrix k t"] by auto
  with t show ?thesis by blast
qed

lemma reverse_phase:
  assumes "normal_inv k x k (left_matrix k st) (mult_matrix k st)"
  shows "\<exists>st'. restore_reverse cells k st = Inr st'
    \<and> reverse_inv k x 0 0 (left_matrix k st') (mult_matrix k st')"
proof -
  let ?P = "\<lambda>i st. reverse_inv k x i (i - 1) (left_matrix k st) (mult_matrix k st)"
  have "\<exists>st'. restore_reverse cells k st = Inr st' \<and> ?P 0 st'"
    unfolding restore_reverse_def
  proof (rule for_loop_down [where P = ?P])
    fix i s assume i: "0 < i" "i \<le> k" and s: "?P i s"
    from i(1) obtain i' where i': "i = Suc i'" by (cases i) auto
    let ?Q = "\<lambda>j t. reverse_inv k x i j (left_matrix k t) (mult_matrix k t)"
    have "\<exists>t. for_loop (rev [Suc 0..<Suc i']) (\<lambda>j st. let m1 = left st (k * (j - 1) + (i - 1)) in
        for_loop [0..<k] (reverse_cell cells k i j m1) st) s = Inr t \<and> ?Q 0 t"
    proof (rule for_loop_down [where P = ?Q])
      show "?Q i' s" using s by (simp add: i')
      fix j t assume "0 < j" "j \<le> i'" and "?Q j t"
      with reverse_row [of k x i j t] i show "\<exists>t'. (let m1 = left t (k * (j - 1) + (i - 1)) in
          for_loop [0..<k] (reverse_cell cells k i j m1) t) = Inr t' \<and> ?Q (j - 1) t'"
        by (simp add: i' Let_def)
    qed simp
    then show "\<exists>t. for_loop (rev [Suc 0..<i]) (\<lambda>j st. let m1 = left st (k * (j - 1) + (i - 1)) in
        for_loop [0..<k] (reverse_cell cells k i j m1) st) s = Inr t \<and> ?P (i - 1) t"
      using reverse_inv_next [of k x i'] by (auto simp: i')
  qed (use reverse_inv_init [OF assms] in simp_all)
  then show ?thesis by simp
qed

lemma validate_phase:
  assumes inv: "reverse_inv k x 0 0 (left_matrix k st) (mult_matrix k st)"
  shows "restore_validate k st = Inr st"
proof -
  have cell: "left st (k * i + c) = (if i = c then 1 else 0)" if "i < k" "c < k" for i c
    using reverse_inv_done(1) [OF inv that] by (auto simp: left_matrix_def emb_eq_0 emb_eq_1 split: if_splits)
  have "\<exists>t. restore_validate k st = Inr t \<and> t = st"
    unfolding restore_validate_def
  proof (rule for_loop_up [where P = "\<lambda>_ t. t = st"])
    fix i s assume i: "i < k" and s: "s = st"
    show "\<exists>t. for_loop [0..<k] (\<lambda>c st. let val = left st (k * i + c) in
        if i = c then vds_assert (1 = val) ''1 == value'' (Inr st)
        else vds_assert (0 = val) ''0 == value'' (Inr st)) s = Inr t \<and> t = st"
      by (rule for_loop_up [where P = "\<lambda>_ t. t = st"]) (use s cell [OF i] in \<open>auto simp: Let_def\<close>)
  qed simp_all
  then show ?thesis by simp
qed

section \<open>The constructor\<close>

lemma prepare_cells:
  assumes "i \<le> unat k" "r < i" "c < unat k"
  shows "left (fold (\<lambda>i st. st\<lparr>
             left := store_row (unat k * i) (generate_multipliers cells k (n ! i)) (left st),
             multipliers := store_row (unat k * i)
               (map (\<lambda>j. if i = j then 1 else 0) [0..<unat k]) (multipliers st)\<rparr>) [0..<i] st) (unat k * r + c)
        = generate_multipliers cells k (n ! r) ! c
    \<and> multipliers (fold (\<lambda>i st. st\<lparr>
             left := store_row (unat k * i) (generate_multipliers cells k (n ! i)) (left st),
             multipliers := store_row (unat k * i)
               (map (\<lambda>j. if i = j then 1 else 0) [0..<unat k]) (multipliers st)\<rparr>) [0..<i] st) (unat k * r + c)
        = (if r = c then 1 else 0)"
  using assms
proof (induction i)
  case (Suc i)
  have "unat k * i \<le> unat k * r + c \<longleftrightarrow> r = i"
  proof
    assume "unat k * i \<le> unat k * r + c"
    then have "unat k * i < unat k * Suc r" using Suc.prems(3) by simp
    then have "i < Suc r" by (rule mult_less_cancel1 [THEN iffD1, THEN conjunct2])
    with Suc.prems(2) show "r = i" by simp
  qed simp
  with Suc show ?case by (auto simp: store_row_def)
qed simp

lemma prepare_ok:
  fixes n :: "'a word list"
  assumes "length n = unat k"
  shows "first_inv (unat k) (\<lambda>s. emb (n ! s)) 0
    (left_matrix (unat k) (restore_prepare cells k n st)) (mult_matrix (unat k) (restore_prepare cells k n st))"
    (is "first_inv ?k ?x 0 ?L ?M")
proof -
  have ag: "agree ?k ?L (\<lambda>r c. ?x r ^ c) \<and> agree ?k ?M (\<lambda>r s. if r = s then 1 else 0)"
    using prepare_cells [of ?k k _ _ n st]
    by (simp add: agree_def left_matrix_def mult_matrix_def restore_prepare_def emb_multiplier emb_simps)
  have "first_inv ?k ?x 0 (\<lambda>r c. ?x r ^ c) (\<lambda>r s. if r = s then 1 else 0)"
    by (simp add: first_inv_def solves_init)
  with agree_first_inv [OF ag] show ?thesis by simp
qed

text \<open>A left inverse of the powers of the numbers \<open>n\<close>.\<close>

definition left_inverse :: "nat \<Rightarrow> (nat \<Rightarrow> 'a word) \<Rightarrow> 'a word list \<Rightarrow> bool" where
  "left_inverse k m n \<longleftrightarrow>
     (\<forall>i < k. \<forall>c < k. (\<Sum>j<k. emb (m (k * i + j)) * emb (n ! j) ^ c) = (if i = c then 1 else 0))"

lemma chunk_restore_ok:
  assumes n: "distinct n" "length n = unat k" and k: "unat k * unat k < 2 ^ 31"
  shows "\<exists>m. chunk_restore cells memory k n = Inr m \<and> left_inverse (unat k) m n"
proof -
  let ?k = "unat k" and ?x = "\<lambda>s. emb (n ! s)"
  have inj: "inj_on ?x {..<?k}"
    using n by (auto simp: inj_on_def emb_eq_iff nth_eq_iff_index_eq)
  obtain s1 where s1: "restore_first cells ?k (restore_prepare cells k n memory) = Inr s1"
    "normal_inv ?k ?x 0 (left_matrix ?k s1) (mult_matrix ?k s1)"
    using first_phase [OF prepare_ok [OF n(2)] inj] by blast
  obtain s2 where s2: "restore_normalize cells ?k s1 = Inr s2"
    "normal_inv ?k ?x ?k (left_matrix ?k s2) (mult_matrix ?k s2)"
    using normalize_phase [OF s1(2)] by blast
  obtain s3 where s3: "restore_reverse cells ?k s2 = Inr s3"
    "reverse_inv ?k ?x 0 0 (left_matrix ?k s3) (mult_matrix ?k s3)"
    using reverse_phase [OF s2(2)] by blast
  have "left_inverse ?k (multipliers s3) n"
    using reverse_inv_done(2) [OF s3(2)] by (simp add: left_inverse_def mult_matrix_def)
  moreover have "chunk_restore cells memory k n = Inr (multipliers s3)"
    using s1(1) s2(1) s3(1) validate_phase [OF s3(2)] k by (simp add: chunk_restore_def)
  ultimately show ?thesis by blast
qed

lemma emb_foldl_add:
  "emb (foldl (\<lambda>val j. cell_add cells val (f j)) val [0..<n]) = emb val + (\<Sum>j<n. emb (f j))"
  by (induction n) (simp_all add: emb_add add.assoc)

text \<open>Multiplying by the inverse takes the values at the numbers \<open>n\<close> back to the coefficients.\<close>

lemma restored_cell_ok:
  assumes m: "left_inverse k m n" and i: "i < k"
    and cell: "\<And>j. j < k \<Longrightarrow> emb (cell j) = (\<Sum>c<k. emb (n ! j) ^ c * emb (d c))"
  shows "restored_cell cells k m i cell = d i"
proof -
  have "emb (restored_cell cells k m i cell) = (\<Sum>j<k. emb (m (k * i + j)) * (\<Sum>c<k. emb (n ! j) ^ c * emb (d c)))"
    by (simp add: restored_cell_def emb_foldl_add emb_0 emb_mul cell)
  also have "\<dots> = (\<Sum>c<k. (\<Sum>j<k. emb (m (k * i + j)) * emb (n ! j) ^ c) * emb (d c))"
    unfolding sum_distrib_left sum_distrib_right by (subst sum.swap) (simp add: mult.assoc)
  also have "\<dots> = (\<Sum>c<k. if i = c then emb (d c) else 0)"
    using m i by (intro sum.cong) (auto simp: left_inverse_def)
  also have "\<dots> = emb (d i)" using i by simp
  finally show ?thesis by (simp add: emb_eq_iff)
qed

end

end
