(* ===== verification/Chunk_stream.thy ===== *)
theory Chunk_stream
  imports Chunk_inverse
begin

text \<open>
  The bytes \<open>chunk_generator\<close> writes and \<open>chunk_restore\<close> reads: the cells of the data as a
  stream, the layout of a serialized chunk, the size computed from the padding.
\<close>

lemma positions_upt:
  "0 < step \<Longrightarrow> positions i sz step = map (\<lambda>q. i + q * step) [0..<(sz - i + step - 1) div step]"
proof (induction i sz step rule: positions.induct)
  case (1 i sz step)
  show ?case
  proof (cases "i < sz")
    case True
    let ?m = "(sz - (i + step) + step - 1) div step"
    have "?m = (sz - i - 1) div step"
      using 1(2) by (cases "i + step \<le> sz") simp_all
    moreover have "(sz - i + step - 1) div step = (sz - i - 1 + step) div step" using True by simp
    ultimately have n: "(sz - i + step - 1) div step = Suc ?m"
      using 1(2) div_add_self2 [of step "sz - i - 1"] by simp
    have "map (\<lambda>q. i + q * step) [0..<Suc ?m] = i # map ((\<lambda>q. i + q * step) \<circ> Suc) [0..<?m]"
      by (simp only: map_map [symmetric] map_Suc_upt upt_conv_Cons [OF zero_less_Suc] list.map mult_0 add_0_right)
    also have "(\<lambda>q. i + q * step) \<circ> Suc = (\<lambda>q. i + step + q * step)" by (simp add: fun_eq_iff)
    finally show ?thesis unfolding n using 1 True by (subst positions.simps) simp
  next
    case False
    with 1(2) show ?thesis by (simp add: positions.simps)
  qed
qed

lemma upt_append: "[0..<a + m] = [0..<a] @ map ((+) a) [0..<m]"
  by (induction m) simp_all

text \<open>The data followed by zeros.\<close>

definition padded :: "byte list \<Rightarrow> nat \<Rightarrow> byte" where
  "padded data i = (if i < length data then data ! i else 0)"

lemma shift_in_0: "shift_in v 0 = push_bit 8 v"
  by (simp add: shift_in_def)

lemma data_item_padded:
  "(data_item data i :: 'a::len word) = foldl shift_in 0 (map (padded data) [i..<i + cell_sizeof TYPE('a word)])"
proof -
  have "foldl (\<lambda>item offset. let item = push_bit 8 item
          in if i + offset < length data then item OR ucast (data ! (i + offset)) else item) v [0..<n]
     = foldl shift_in v (map (padded data) [i..<i + n])" for n and v :: "'a word"
    by (induction n) (simp_all add: padded_def shift_in_def Let_def)
  then show ?thesis by (simp add: data_item_def)
qed

lemma take_padded: "length data \<le> n \<Longrightarrow> take (length data) (map (padded data) [0..<n]) = data"
  by (rule nth_equalityI) (simp_all add: padded_def)

lemma concat_at:
  assumes "\<And>q. length (f q) = b" "q < n"
  shows "take b (drop (q * b) (concat (map f [0..<n]) @ r)) = f q"
proof -
  have len: "length (concat (map f xs)) = length xs * b" for xs
    using assms(1) by (induction xs) simp_all
  have "[0..<n] = [0..<q] @ q # [Suc q..<n]"
    using assms(2) upt_add_eq_append [of 0 q "n - q"] by (simp add: upt_conv_Cons)
  then have "concat (map f [0..<n]) = concat (map f [0..<q]) @ f q @ concat (map f [Suc q..<n])" by simp
  with assms(1) len [of "[0..<q]"] show ?thesis by simp
qed

lemma put_uint16_bytes:
  "\<exists>a b. put_uint16 v [] = [a, b] \<and> shift_in (ucast a) b = v"
proof -
  have "get_uint16 (put_uint16 v [] @ []) = Inr (v, [])" by (rule uint16_codec.get_enc) simp
  then show ?thesis by (simp add: put_uint16_def add_byte_def)
qed

lemma length_put_uint16 [simp]: "length (put_uint16 v []) = 2"
  using put_uint16_bytes [of v] by auto

lemma put_uint16_append: "put_uint16 v s = s @ put_uint16 v []"
  by (simp add: put_uint16_def add_byte_def)

lemma read_padding_chunk: "read_padding (d @ put_uint16 v []) = Inr v"
  using put_uint16_bytes [of v] by (auto simp: read_padding_def nth_append)

lemma safe_cast_uint16_ok: "n < 65536 \<Longrightarrow> safe_cast_uint16 n = Inr (word_of_nat n)"
  by (simp add: safe_cast_uint16_def unsigned_of_nat take_bit_eq_mod)

context cell_field
begin

text \<open>The first \<open>p\<close> cells of the data, serialized.\<close>

definition stream :: "byte list \<Rightarrow> nat \<Rightarrow> byte list" where
  "stream data p = concat (map (\<lambda>i. bytes (data_item data (i * cell_sizeof TYPE('a word)))) [0..<p])"

lemma stream_padded: "stream data p = map (padded data) [0..<p * cell_sizeof TYPE('a word)]"
proof (induction p)
  case (Suc p)
  let ?b = "cell_sizeof TYPE('a word)"
  have "bytes (data_item data (p * ?b)) = map (padded data) [p * ?b..<p * ?b + ?b]"
    by (simp add: data_item_padded value_bytes)
  moreover have "[0..<Suc p * ?b] = [0..<p * ?b] @ [p * ?b..<p * ?b + ?b]"
    by (metis add.commute le0 mult_Suc upt_add_eq_append)
  ultimately show ?case using Suc by (simp add: stream_def del: mult_Suc)
qed (simp add: stream_def)

lemma length_stream [simp]: "length (stream data p) = p * cell_sizeof TYPE('a word)"
  by (simp add: stream_padded)

lemma stream_Suc: "stream data (Suc p) = stream data p @ bytes (data_item data (p * cell_sizeof TYPE('a word)))"
  by (simp add: stream_def)

lemma take_stream:
  "length data \<le> p * cell_sizeof TYPE('a word) \<Longrightarrow> take (length data) (stream data p) = data"
  by (simp add: stream_padded take_padded)

text \<open>A serialized chunk.\<close>

definition groups :: "nat \<Rightarrow> byte list \<Rightarrow> nat" where
  "groups k data = (length data + cell_sizeof TYPE('a word) * k - 1) div (cell_sizeof TYPE('a word) * k)"

definition chunk_body :: "'a word chunk_generator \<Rightarrow> byte list \<Rightarrow> byte list" where
  "chunk_body g data =
     concat (map (\<lambda>q. bytes (generator_cell_value cells g data (q * (cell_sizeof TYPE('a word) * unat (generator_k g)))))
       [0..<groups (unat (generator_k g)) data])"

lemma length_chunk_body [simp]:
  "length (chunk_body g data) = groups (unat (generator_k g)) data * cell_sizeof TYPE('a word)"
proof -
  have "length (concat (map (\<lambda>q. bytes (f q)) xs)) = length xs * cell_sizeof TYPE('a word)" for f and xs :: "nat list"
    by (induction xs) (simp_all add: bytes_length)
  then show ?thesis by (simp add: chunk_body_def)
qed

lemma put_cells:
  "foldl (\<lambda>s i. cell_put cells (f i) s) s xs = s @ concat (map (\<lambda>i. bytes (f i)) xs)"
  by (induction xs arbitrary: s) (simp_all add: put_bytes)

lemma generator_write_body:
  assumes k: "generator_k g \<noteq> 0"
  defines "stride \<equiv> cell_sizeof TYPE('a word) * unat (generator_k g)"
  shows "generator_write cells g s data True =
      get_expected (safe_cast_uint16 (length data mod stride)) (\<lambda>pad. Inr (s @ chunk_body g data @ put_uint16 pad []))"
    and "length data mod stride = 0 \<Longrightarrow> generator_write cells g s data False = Inr (s @ chunk_body g data)"
proof -
  have pos: "0 < stride" using k sizeof_pos by (simp add: stride_def unat_gt_0)
  have k0: "unat (generator_k g) \<noteq> 0" using k by (simp add: unat_eq_zero)
  have cells: "foldl (\<lambda>s i. cell_put cells (generator_cell_value cells g data i) s) s (positions 0 (length data) stride)
    = s @ chunk_body g data" for s
    by (simp add: put_cells positions_upt [OF pos] chunk_body_def groups_def stride_def [symmetric] comp_def)
  have size: "(length data + stride - 1) div cell_sizeof TYPE('a word) div unat (generator_k g) * cell_sizeof TYPE('a word)
    = length (chunk_body g data)"
    by (simp add: groups_def stride_def div_mult2_eq)
  show "generator_write cells g s data True =
      get_expected (safe_cast_uint16 (length data mod stride)) (\<lambda>pad. Inr (s @ chunk_body g data @ put_uint16 pad []))"
    unfolding generator_write_def Let_def stride_def [symmetric] cells size
    by (simp add: k0 put_uint16_append [of _ "s @ _"])
  show "length data mod stride = 0 \<Longrightarrow> generator_write cells g s data False = Inr (s @ chunk_body g data)"
    unfolding generator_write_def Let_def stride_def [symmetric] cells size by (simp add: k0)
qed

lemma read_chunk_body:
  assumes "q < groups (unat (generator_k g)) data"
  shows "read_cell (chunk_body g data @ r) (q * cell_sizeof TYPE('a word)) =
    Inr (generator_cell_value cells g data (q * (cell_sizeof TYPE('a word) * unat (generator_k g))))"
proof -
  let ?b = "cell_sizeof TYPE('a word)"
  have "q * ?b + ?b \<le> groups (unat (generator_k g)) data * ?b"
    using mult_le_mono1 [of "Suc q" "groups (unat (generator_k g)) data" ?b] assms by simp
  then have "q * ?b + ?b \<le> length (chunk_body g data @ r)" by simp
  moreover have "take ?b (drop (q * ?b) (chunk_body g data @ r)) =
      bytes (generator_cell_value cells g data (q * (?b * unat (generator_k g))))"
    unfolding chunk_body_def by (rule concat_at [OF bytes_length assms])
  ultimately show ?thesis by (simp only: read_cell_def if_True bytes_value)
qed

lemma generator_value:
  assumes "g = new_chunk_generator cells k n"
  shows "emb (generator_cell_value cells g data i) =
    (\<Sum>c<unat k. emb n ^ c * emb (data_item data (i + cell_sizeof TYPE('a word) * c) :: 'a word))"
  using assms
  by (simp add: generator_cell_value_def emb_foldl_add emb_0 emb_mul new_chunk_generator_def emb_multiplier)

section \<open>Restoring\<close>

text \<open>
  \<open>k\<close> chunks that generators with the numbers \<open>n\<close> wrote for the same data, and the inverse
  matrix for these numbers.
\<close>

definition chunks_of :: "'a word \<Rightarrow> 'a word list \<Rightarrow> byte list \<Rightarrow> byte list list \<Rightarrow> bool" where
  "chunks_of k n data chunks \<longleftrightarrow>
     length chunks = unat k \<and> (\<forall>j < unat k. chunks ! j =
       chunk_body (new_chunk_generator cells k (n ! j)) data
         @ put_uint16 (word_of_nat (length data mod (cell_sizeof TYPE('a word) * unat k))) [])"

lemma chunk_generator_k [simp]: "generator_k (new_chunk_generator cells k n) = k"
  by (simp add: new_chunk_generator_def)

lemma restore_cell:
  assumes chunks: "chunks_of k n data chunks" and m: "left_inverse (unat k) m n"
    and q: "q < groups (unat k) data" and i: "i < unat k"
  shows "for_loop [0..<unat k] (\<lambda>j val.
      get_expected (read_cell (chunks ! j) (q * cell_sizeof TYPE('a word))) (\<lambda>cell.
        Inr (cell_add cells val (cell_mul cells (m (unat k * i + j)) cell)))) 0
    = Inr (data_item data ((q * unat k + i) * cell_sizeof TYPE('a word)))"
proof -
  let ?b = "cell_sizeof TYPE('a word)"
  let ?cell = "\<lambda>j. generator_cell_value cells (new_chunk_generator cells k (n ! j)) data (q * (?b * unat k))"
  have "for_loop [0..<l] (\<lambda>j val. get_expected (read_cell (chunks ! j) (q * ?b)) (\<lambda>cell.
        Inr (cell_add cells val (cell_mul cells (m (unat k * i + j)) cell)))) v
    = Inr (foldl (\<lambda>val j. cell_add cells val (cell_mul cells (m (unat k * i + j)) (?cell j))) v [0..<l])"
    if "l \<le> unat k" for l v
    using that
  proof (induction l)
    case (Suc l)
    have "read_cell (chunks ! l) (q * ?b) = Inr (?cell l)"
      using chunks Suc.prems read_chunk_body [of q "new_chunk_generator cells k (n ! l)" data] q
      by (simp add: chunks_of_def)
    with Suc show ?case by (simp add: for_loop_append)
  qed simp
  moreover have "restored_cell cells (unat k) m i ?cell = data_item data ((q * unat k + i) * ?b)"
  proof (rule restored_cell_ok [OF m i, where d = "\<lambda>c. data_item data ((q * unat k + c) * ?b)"])
    fix j
    have "q * (?b * unat k) + ?b * c = (q * unat k + c) * ?b" for c
      by (simp add: algebra_simps)
    then show "emb (?cell j) = (\<Sum>c<unat k. emb (n ! j) ^ c * emb (data_item data ((q * unat k + c) * ?b)))"
      by (simp add: generator_value [OF refl])
  qed
  ultimately show ?thesis by (simp add: restored_cell_def)
qed

lemma restore_row_ok:
  assumes chunks: "chunks_of k n data chunks" and m: "left_inverse (unat k) m n"
    and q: "q < groups (unat k) data"
    and small: "groups (unat k) data * (unat k * cell_sizeof TYPE('a word)) < 2 ^ 64" "unat e = length data"
    and i: "i \<le> unat k" "i = unat k \<Longrightarrow> Suc q * unat k * cell_sizeof TYPE('a word) < length data"
  shows "restore_row cells (unat k) m chunks (q * cell_sizeof TYPE('a word)) e [i..<unat k] (stream data (q * unat k + i))
    = Inr (if length data \<le> Suc q * unat k * cell_sizeof TYPE('a word) then Inl data
           else Inr (stream data (Suc q * unat k)))"
  using i
proof (induction rule: inc_induct)
  case base
  then show ?case by (simp add: not_le add.commute)
next
  case (step i)
  let ?b = "cell_sizeof TYPE('a word)" and ?p = "q * unat k + i"
  have s: "cell_put cells (data_item data (?p * ?b)) (stream data ?p) = stream data (Suc ?p)"
    by (simp add: stream_Suc put_bytes)
  have le: "Suc ?p * ?b \<le> Suc q * unat k * ?b"
    using step.hyps by (intro mult_le_mono1) simp
  also have "\<dots> \<le> groups (unat k) data * unat k * ?b"
    using q by (intro mult_le_mono1) simp
  finally have "Suc ?p * ?b < 2 ^ 64" using small(1) by (simp only: mult.assoc)
  then have cmp: "e \<le> word_of_nat (length (stream data (Suc ?p))) \<longleftrightarrow> length data \<le> Suc ?p * ?b"
    by (simp only: length_stream word_le_nat_alt unat_word_of_nat_u64 small(2))
  have unfold: "restore_row cells (unat k) m chunks (q * ?b) e [i..<unat k] (stream data ?p) =
    (if e \<le> word_of_nat (length (stream data (Suc ?p))) then Inr (Inl (take (unat e) (stream data (Suc ?p))))
     else restore_row cells (unat k) m chunks (q * ?b) e [Suc i..<unat k] (stream data (Suc ?p)))"
    by (simp only: upt_conv_Cons [OF step.hyps(2)] restore_row.simps restore_cell [OF chunks m q step.hyps(2)]
        get_expected_simps Let_def s)
  show ?case
  proof (cases "length data \<le> Suc ?p * ?b")
    case True
    then have "take (length data) (stream data (Suc ?p)) = data" by (rule take_stream)
    with True le cmp show ?thesis unfolding unfold small(2) by (simp only: if_True order_trans [OF True le])
  next
    case False
    have "Suc q * unat k * ?b < length data" if "Suc i = unat k"
    proof -
      have "Suc ?p = Suc q * unat k" using that by simp
      with False show ?thesis by (simp only: not_le)
    qed
    then have "restore_row cells (unat k) m chunks (q * ?b) e [Suc i..<unat k] (stream data (Suc ?p))
      = Inr (if length data \<le> Suc q * unat k * ?b then Inl data else Inr (stream data (Suc q * unat k)))"
      using step.IH by (simp only: add_Suc_right)
    with False cmp show ?thesis unfolding unfold by (simp only: if_False)
  qed
qed

text \<open>The number of groups covers the data, and no group is empty.\<close>

lemma groups_cover:
  fixes k :: "'a word"
  assumes k: "k \<noteq> 0"
  shows "length data \<le> groups (unat k) data * unat k * cell_sizeof TYPE('a word)"
    and "q < groups (unat k) data \<longleftrightarrow> q * unat k * cell_sizeof TYPE('a word) < length data"
    and "groups (unat k) data * unat k * cell_sizeof TYPE('a word) < length data + unat k * cell_sizeof TYPE('a word)"
proof -
  let ?s = "cell_sizeof TYPE('a word) * unat k" and ?E = "length data"
  have pos: "0 < ?s" using k sizeof_pos by (simp add: unat_gt_0)
  have eq: "m * unat k * cell_sizeof TYPE('a word) = m * ?s" for m by (simp add: mult.commute mult.left_commute)
  have less: "q < groups (unat k) data \<longleftrightarrow> q * ?s < ?E" for q
  proof -
    have "q < groups (unat k) data \<longleftrightarrow> Suc q * ?s \<le> ?E + ?s - 1"
      using pos by (simp only: groups_def less_eq_div_iff_mult_less_eq Suc_le_eq [symmetric])
    also have "Suc q * t \<le> ?E + t - 1 \<longleftrightarrow> q * t < ?E" if "0 < t" for t
      using that unfolding mult_Suc by arith
    finally show ?thesis using pos by blast
  qed
  from less [of q] show "q < groups (unat k) data \<longleftrightarrow> q * unat k * cell_sizeof TYPE('a word) < length data"
    by (simp only: eq)
  from less [of "groups (unat k) data"] show "?E \<le> groups (unat k) data * unat k * cell_sizeof TYPE('a word)"
    by (simp only: eq less_irrefl not_less simp_thms)
  show "groups (unat k) data * unat k * cell_sizeof TYPE('a word) < ?E + unat k * cell_sizeof TYPE('a word)"
  proof (cases "groups (unat k) data")
    case (Suc q)
    with less [of q] have "q * ?s < ?E" by simp
    then show ?thesis unfolding Suc by (simp add: eq mult.commute) (simp add: algebra_simps)
  qed (use pos in \<open>simp add: mult.commute\<close>)
qed

lemma restore_rows_ok:
  assumes k: "k \<noteq> 0" and chunks: "chunks_of k n data chunks" and m: "left_inverse (unat k) m n"
    and small: "groups (unat k) data * (unat k * cell_sizeof TYPE('a word)) < 2 ^ 64" "unat e = length data"
    and q: "q < groups (unat k) data" "groups (unat k) data \<le> N"
  shows "restore_rows cells (unat k) m chunks e (map (\<lambda>q. q * cell_sizeof TYPE('a word)) [q..<N])
      (stream data (q * unat k)) = Inr data"
  using q(1)
proof (induction "groups (unat k) data - q" arbitrary: q)
  case (Suc d)
  let ?b = "cell_sizeof TYPE('a word)"
  have k0: "0 < unat k" using k by (simp add: unat_gt_0)
  have row: "restore_row cells (unat k) m chunks (q * ?b) e [0..<unat k] (stream data (q * unat k))
    = Inr (if length data \<le> Suc q * unat k * ?b then Inl data else Inr (stream data (Suc q * unat k)))"
    using restore_row_ok [OF chunks m Suc.prems small, of 0] k0 by simp
  have upt: "[q..<N] = q # [Suc q..<N]" using Suc.prems q(2) by (simp add: upt_conv_Cons)
  show ?case
  proof (cases "length data \<le> Suc q * unat k * ?b")
    case True
    then show ?thesis by (simp only: upt list.map restore_rows.simps row if_True get_expected_simps sum.case)
  next
    case False
    then have "Suc q < groups (unat k) data" using groups_cover(2) [OF k, of "Suc q" data] by simp
    moreover from Suc.hyps(2) have "d = groups (unat k) data - Suc q" by simp
    ultimately have "restore_rows cells (unat k) m chunks e (map (\<lambda>q. q * ?b) [Suc q..<N]) (stream data (Suc q * unat k)) = Inr data"
      by (intro Suc.hyps(1))
    with False show ?thesis
      by (simp only: upt list.map restore_rows.simps row if_False get_expected_simps sum.case)
  qed
qed simp

lemma restore_size_ok:
  fixes k :: "'a word"
  defines "stride \<equiv> cell_sizeof TYPE('a word) * unat k"
  assumes k: "k \<noteq> 0" and small: "stride \<le> 65536" "length data < 2 ^ 62"
  shows "unat (restore_size TYPE('a word) (unat k) (groups (unat k) data * cell_sizeof TYPE('a word) + 2)
      (word_of_nat (length data mod stride))) = length data"
proof -
  let ?E = "length data" and ?b = "cell_sizeof TYPE('a word)" and ?G = "groups (unat k) data"
  let ?pad = "word_of_nat (?E mod stride) :: u16"
  have pos: "0 < stride" using k sizeof_pos by (simp add: stride_def unat_gt_0)
  then have "?E mod stride < stride" by simp
  with small(1) have less: "?E mod stride < 65536" by linarith
  then have pad: "unat ?pad = ?E mod stride" by (simp add: unsigned_of_nat take_bit_eq_mod)
  then have pad0: "0 \<noteq> ?pad \<longleftrightarrow> ?E mod stride \<noteq> 0" by (metis unat_eq_zero)
  have cast: "(ucast ?pad :: u64) = word_of_nat (?E mod stride)"
    by (rule word_unat_eq_iff [THEN iffD2])
      (use less in \<open>simp add: unsigned_ucast_eq pad unsigned_of_nat take_bit_eq_mod\<close>)
  have "word_of_nat (?G * ?b + 2) - 2 = (word_of_nat (?G * ?b) :: u64)" by simp
  then have base: "(word_of_nat (?G * ?b + 2) - 2) * word_of_nat (unat k) = (word_of_nat (?G * stride) :: u64)"
    by (simp only: of_nat_mult [symmetric] stride_def mult.assoc)
  have G: "?G = (if ?E mod stride = 0 then ?E div stride else Suc (?E div stride))"
  proof -
    have E: "?E = ?E div stride * stride + ?E mod stride" by simp
    show ?thesis
    proof (cases "?E mod stride")
      case 0
      with E have "?E + stride - 1 = stride - 1 + ?E div stride * stride" using pos by linarith
      moreover have "(stride - 1 + ?E div stride * stride) div stride = ?E div stride"
        using pos by (simp only: div_mult_self1) simp
      ultimately show ?thesis using 0 by (simp only: groups_def stride_def [symmetric]) simp
    next
      case (Suc r)
      with E pos have "?E + stride - 1 = r + Suc (?E div stride) * stride" by simp
      moreover have "r < stride" using Suc mod_less_divisor [OF pos, of ?E] by linarith
      ultimately have "(?E + stride - 1) div stride = Suc (?E div stride)"
        using pos by (simp only: div_mult_self1) simp
      with Suc show ?thesis by (simp add: groups_def stride_def [symmetric])
    qed
  qed
  have "restore_size TYPE('a word) (unat k) (?G * ?b + 2) ?pad = (word_of_nat ?E :: u64)"
  proof (cases "?E mod stride = 0")
    case True
    with G have "?G * stride = ?E" by auto
    moreover from True pad0 have "\<not> 0 \<noteq> ?pad" by simp
    ultimately show ?thesis using base by (simp only: restore_size_def Let_def if_False)
  next
    case False
    have "(word_of_nat (?G * stride) :: u64) - word_of_nat (unat k * ?b) + word_of_nat (?E mod stride)
      = word_of_nat (?E div stride * stride + ?E mod stride)"
      using False by (simp only: G if_False mult_Suc of_nat_add stride_def mult.commute [of "unat k"]) simp
    with False pad0 base cast show ?thesis
      by (simp only: restore_size_def Let_def if_True div_mult_mod_eq not_False_eq_True)
  qed
  moreover have "length data < 2 ^ 64" using small(2) by simp
  ultimately show ?thesis by (simp only: unat_word_of_nat_u64)
qed

lemma length_chunk:
  "chunks_of k n data chunks \<Longrightarrow> j < unat k \<Longrightarrow> length (chunks ! j) = groups (unat k) data * cell_sizeof TYPE('a word) + 2"
  by (simp add: chunks_of_def)

lemma restore_chunks_ok:
  fixes k :: "'a word"
  defines "stride \<equiv> cell_sizeof TYPE('a word) * unat k"
  assumes k: "k \<noteq> 0" and small: "stride \<le> 65536" "length data < 2 ^ 62"
    and chunks: "chunks_of k n data chunks" and m: "left_inverse (unat k) m n"
  shows "restore_chunks cells k m chunks = Inr data"
proof -
  let ?b = "cell_sizeof TYPE('a word)" and ?G = "groups (unat k) data"
  let ?e = "restore_size TYPE('a word) (unat k) (?G * ?b + 2) (word_of_nat (length data mod stride))"
  have k0: "0 < unat k" using k by (simp add: unat_gt_0)
  have e: "unat ?e = length data" using restore_size_ok [OF k, of data] small by (simp add: stride_def)
  have pad: "read_padding (chunks ! j) = Inr (word_of_nat (length data mod stride))" if "j < unat k" for j
    using chunks that by (simp add: chunks_of_def stride_def) (metis append_assoc read_padding_chunk)
  have len: "length (chunks ! j) = ?G * ?b + 2" if "j < unat k" for j by (rule length_chunk [OF chunks that])
  have "\<exists>u. for_loop [1..<unat k] (\<lambda>j _.
             vds_assert (length (chunks ! 0) = length (chunks ! j)) ''size == chunks[j].size()''
               (get_expected (read_padding (chunks ! j)) (\<lambda>p.
                  vds_assert (word_of_nat (length data mod stride) = p) ''padding'' (Inr ())))) () = Inr u \<and> True"
    by (rule for_loop_up) (use k0 pad len in auto)
  then have asserts: "for_loop [1..<unat k] (\<lambda>j _.
             vds_assert (length (chunks ! 0) = length (chunks ! j)) ''size == chunks[j].size()''
               (get_expected (read_padding (chunks ! j)) (\<lambda>p.
                  vds_assert (word_of_nat (length data mod stride) = p) ''padding'' (Inr ())))) () = Inr ()" by simp
  define N where "N = (?G * ?b + 2 + ?b - 1) div ?b"
  have pos: "positions 0 (?G * ?b + 2) ?b = map (\<lambda>q. q * ?b) [0..<N]"
    using positions_upt [OF sizeof_pos, of 0 "?G * ?b + 2"] by (simp add: N_def)
  have N: "?G < N"
    using sizeof_pos by (simp add: N_def less_eq_div_iff_mult_less_eq Suc_le_eq [symmetric])
  have rows: "restore_rows cells (unat k) m chunks ?e (map (\<lambda>q. q * ?b) [0..<N]) [] = Inr data"
  proof (cases "data = []")
    case True
    with groups_cover(2) [OF k, of 0 data] have G: "?G = 0" by simp
    from e True have e0: "?e = 0" by (simp add: unat_eq_zero)
    have "\<exists>val. for_loop [0..<unat k] (\<lambda>j val. get_expected (read_cell (chunks ! j) (0 * ?b)) (\<lambda>cell.
        Inr (cell_add cells val (cell_mul cells (m (unat k * 0 + j)) cell)))) 0 = Inr val \<and> True"
      by (rule for_loop_up) (use len G sizeof_le in \<open>auto simp: read_cell_def\<close>)
    then obtain val where val: "for_loop [0..<unat k] (\<lambda>j val. get_expected (read_cell (chunks ! j) (0 * ?b)) (\<lambda>cell.
        Inr (cell_add cells val (cell_mul cells (m (unat k * 0 + j)) cell)))) 0 = Inr val" by blast
    have "restore_row cells (unat k) m chunks (0 * ?b) ?e (0 # [Suc 0..<unat k]) [] = Inr (Inl [])"
      by (simp only: restore_row.simps val get_expected_simps Let_def e0 unsigned_0 take0 word_zero_le if_True)
    then show ?thesis
      using N k0 by (simp only: upt_conv_Cons list.map restore_rows.simps get_expected_simps sum.case True)
  next
    case False
    with groups_cover(2) [OF k, of 0 data] have G: "0 < ?G" by simp
    have "?G * (unat k * ?b) < length data + stride"
      using groups_cover(3) [OF k, of data] by (simp only: stride_def mult.assoc mult.commute [of ?b])
    with small have "?G * (unat k * ?b) < 2 ^ 64" by simp
    from restore_rows_ok [OF k chunks m this e G] N show ?thesis by (simp add: stream_def)
  qed
  have "\<not> length chunks < max 1 (unat k)" using chunks k0 by (simp add: chunks_of_def)
  then show ?thesis
    unfolding restore_chunks_def Let_def pad [OF k0] get_expected_simps asserts
    by (simp only: if_False len [OF k0] pos rows)
qed

section \<open>Vectors of cells\<close>

definition padded_cell :: "'a word list \<Rightarrow> nat \<Rightarrow> 'a word" where
  "padded_cell data i = (if i < length data then data ! i else 0)"

lemma emb_foldl_add_if:
  "emb (foldl (\<lambda>val j. if P j then cell_add cells val (f j) else val) val [0..<n])
     = emb val + (\<Sum>j<n. if P j then emb (f j) else 0)"
  by (induction n) (simp_all add: emb_add add.assoc)

lemma chunk_value:
  "emb (chunk_cell_value cells (new_chunk_generator cells k n) data i) =
     (\<Sum>c<unat k. emb n ^ c * emb (padded_cell data (i + c)))"
  by (simp add: chunk_cell_value_def emb_foldl_add_if emb_0 emb_mul new_chunk_generator_def padded_cell_def
      emb_multiplier if_distrib [where f = "\<lambda>y. _ * emb y"] cong: if_cong sum.cong)
    (rule sum.cong, simp_all add: emb_multiplier emb_0)

lemma map_padded_cell:
  "length data \<le> n \<Longrightarrow> map (padded_cell data) [0..<n] = data @ replicate (n - length data) 0"
  by (rule nth_equalityI) (auto simp: padded_cell_def nth_append)

lemma restore_cells_ok:
  fixes k :: "'a word"
  assumes k: "k \<noteq> 0" and m: "left_inverse (unat k) m n"
    and chunks: "\<forall>j < unat k. chunk_of_data cells (new_chunk_generator cells k (n ! j)) data = Inr (chunks ! j)"
  shows "restore_cells cells k m chunks =
    data @ replicate ((length data + unat k - 1) div unat k * unat k - length data) 0"
proof -
  let ?Q = "(length data + unat k - 1) div unat k"
  have k0: "0 < unat k" using k by (simp add: unat_gt_0)
  have data_of: "chunk_data (chunks ! j) =
    map (\<lambda>q. chunk_cell_value cells (new_chunk_generator cells k (n ! j)) data (q * unat k)) [0..<?Q]"
    if "j < unat k" for j
  proof -
    have "chunk_data (projr (chunk_of_data cells (new_chunk_generator cells k (n ! j)) data)) =
        map (\<lambda>q. chunk_cell_value cells (new_chunk_generator cells k (n ! j)) data (q * unat k)) [0..<?Q]"
      using k positions_upt [OF k0, of 0 "length data"] by (simp add: chunk_of_data_def comp_def)
    moreover have "projr (chunk_of_data cells (new_chunk_generator cells k (n ! j)) data) = chunks ! j"
      using chunks that by simp
    ultimately show ?thesis by (simp only:)
  qed
  have cell: "restored_cell cells (unat k) m i (\<lambda>j. chunk_data (chunks ! j) ! index) = padded_cell data (index * unat k + i)"
    if i: "i < unat k" and index: "index < ?Q" for i index
    by (rule restored_cell_ok [OF m i, where d = "\<lambda>c. padded_cell data (index * unat k + c)"])
      (use index in \<open>simp add: data_of chunk_value\<close>)
  have rows: "concat (map (\<lambda>index. map (\<lambda>i. padded_cell data (index * unat k + i)) [0..<unat k]) [0..<q])
    = map (padded_cell data) [0..<q * unat k]" for q
  proof (induction q)
    case (Suc q)
    have "[0..<Suc q * unat k] = [0..<q * unat k] @ map ((+) (q * unat k)) [0..<unat k]"
      by (simp only: mult_Suc add.commute [of "unat k"] upt_append)
    with Suc show ?case by (simp del: mult_Suc)
  qed simp
  have "restore_cells cells k m chunks = map (padded_cell data) [0..<?Q * unat k]"
    unfolding restore_cells_def rows [symmetric]
    by (intro arg_cong [where f = concat] map_cong) (use data_of [OF k0] cell in auto)
  also have "length data \<le> ?Q * unat k"
  proof -
    have "length data + unat k - 1 < Suc ?Q * unat k"
      using dividend_less_div_times [OF k0, of "length data + unat k - 1"] by (simp add: mult.commute)
    then show ?thesis by simp
  qed
  then have "map (padded_cell data) [0..<?Q * unat k] = data @ replicate (?Q * unat k - length data) 0"
    by (rule map_padded_cell)
  finally show ?thesis .
qed

end

section \<open>The output stream\<close>

text \<open>A target that keeps what it was given, and a sequence of \<open>write_async\<close> calls.\<close>

definition collect :: "byte list \<Rightarrow> byte list list \<Rightarrow> byte list list expected" where
  "collect d t = Inr (t @ [d])"

fun output_write_all :: "'a::len word cell_type \<Rightarrow> 'a word chunk_generator \<Rightarrow> byte list list \<Rightarrow>
    byte list list chunk_output \<Rightarrow> byte list list chunk_output expected" where
  "output_write_all c g [] o1 = Inr o1"
| "output_write_all c g (d # ds) o1 = get_expected (output_write_async c g collect d o1) (output_write_all c g ds)"

lemma padded_append: "padded (A @ B) (length A + i) = padded B i"
  by (simp add: padded_def nth_append)

lemma data_item_append: "data_item (A @ B) (length A + i) = data_item B i"
proof -
  have "map (padded (A @ B)) [length A + i..<length A + i + n] = map (padded B) [i..<i + n]" for n
    by (induction n) (simp_all add: padded_append add.assoc)
  then show ?thesis by (simp add: data_item_padded)
qed

lemma data_item_prefix:
  "i + cell_sizeof TYPE('a::len word) \<le> length A \<Longrightarrow> (data_item (A @ B) i :: 'a word) = data_item A i"
  unfolding data_item_padded by (intro arg_cong2 [where f = "foldl shift_in"] map_cong refl)
    (auto simp: padded_def nth_append)

context cell_field
begin

lemma chunk_body_append:
  fixes g :: "'a word chunk_generator"
  defines "stride \<equiv> cell_sizeof TYPE('a word) * unat (generator_k g)"
  assumes k: "generator_k g \<noteq> 0" and A: "stride dvd length A"
  shows "chunk_body g (A @ B) = chunk_body g A @ chunk_body g B"
proof -
  let ?k = "unat (generator_k g)" and ?b = "cell_sizeof TYPE('a word)"
  have pos: "0 < stride" using k sizeof_pos by (simp add: stride_def unat_gt_0)
  obtain a where a: "length A = stride * a" using A by (rule dvdE)
  have groups_A: "groups ?k A = a"
  proof -
    have "length A + stride - 1 = stride - 1 + a * stride" using a pos by (simp add: mult.commute)
    then show ?thesis using pos by (simp only: groups_def stride_def [symmetric] div_mult_self1) simp
  qed
  have groups_AB: "groups ?k (A @ B) = a + groups ?k B"
  proof -
    have "length (A @ B) + stride - 1 = length B + stride - 1 + a * stride" using a pos by (simp add: mult.commute)
    then show ?thesis using pos by (simp only: groups_def stride_def [symmetric] div_mult_self1)
  qed
  have prefix: "generator_cell_value cells g (A @ B) (q * stride) = generator_cell_value cells g A (q * stride)"
    if "q < a" for q
  proof -
    have "q * stride + ?b * j + ?b \<le> length A" if "j < ?k" for j
    proof -
      have "q * stride + ?b * j + ?b = q * stride + ?b * Suc j" by simp
      also have "\<dots> \<le> q * stride + stride"
        using that by (simp only: stride_def add_le_cancel_left) (intro mult_le_mono2, simp)
      also have "\<dots> = Suc q * stride" by simp
      also have "\<dots> \<le> a * stride" using \<open>q < a\<close> by (intro mult_le_mono1) simp
      finally show ?thesis by (simp add: a mult.commute)
    qed
    then show ?thesis
      unfolding generator_cell_value_def by (intro foldl_cong refl) (simp add: data_item_prefix)
  qed
  have suffix: "generator_cell_value cells g (A @ B) ((a + q) * stride) = generator_cell_value cells g B (q * stride)" for q
  proof -
    have "(a + q) * stride + ?b * j = length A + (q * stride + ?b * j)" for j
      by (simp add: a algebra_simps)
    then show ?thesis by (simp only: generator_cell_value_def data_item_append)
  qed
  show ?thesis
    unfolding chunk_body_def groups_A groups_AB upt_append stride_def [symmetric] map_append concat_append map_map
    by (intro arg_cong2 [where f = "(@)"] arg_cong [where f = concat] map_cong) (simp_all add: prefix suffix)
qed

text \<open>What is in the stream after the data \<open>D\<close>: whole blocks went to the target, the rest is in the buffer.\<close>

definition output_inv :: "'a word chunk_generator \<Rightarrow> byte list \<Rightarrow> byte list list chunk_output \<Rightarrow> bool" where
  "output_inv g D o1 \<longleftrightarrow> (\<exists>A. D = A @ output_buffer o1 \<and> output_capacity g dvd length A
     \<and> length (output_buffer o1) < output_capacity g \<and> concat (output_target o1) = chunk_body g A)"

lemma capacity_stride:
  "output_capacity (g :: 'a word chunk_generator) = 1024 * (cell_sizeof TYPE('a word) * unat (generator_k g))"
  by (simp add: output_capacity_def mult.commute mult.left_commute)

lemma output_loop_inv:
  assumes k: "generator_k g \<noteq> 0" and "output_inv g D o1"
  shows "\<exists>o2. output_loop cells g collect data o1 = Inr o2 \<and> output_inv g (D @ data) o2 \<and> output_size o2 = output_size o1"
  using assms(2)
proof (induction "length data" arbitrary: data D o1 rule: less_induct)
  case less
  then obtain A where A: "D = A @ output_buffer o1" "output_capacity g dvd length A"
    "length (output_buffer o1) < output_capacity g" "concat (output_target o1) = chunk_body g A"
    by (auto simp: output_inv_def)
  show ?case
  proof (cases "data = []")
    case True
    then have "output_loop cells g collect data o1 = Inr o1" by (simp add: output_loop.simps)
    with less.prems True show ?thesis by simp
  next
    case False
    define l where "l = min (length data) (output_capacity g - length (output_buffer o1))"
    define buffer where "buffer = output_buffer o1 @ take l data"
    have l: "0 < l" "l \<le> length data" using False A(3) by (auto simp: l_def)
    have le: "length buffer \<le> output_capacity g" using A(3) by (auto simp: buffer_def l_def)
    have unfold: "output_loop cells g collect data o1 =
      (if output_capacity g = length buffer
           then get_expected (generator_write cells g [] buffer False) (\<lambda>s.
                get_expected (collect s (output_target o1)) (\<lambda>t.
                if l = 0 \<and> buffer = [] then Inl Not_terminating
                else output_loop cells g collect (drop l data) (o1\<lparr>output_buffer := [], output_target := t\<rparr>)))
           else output_loop cells g collect (drop l data) (o1\<lparr>output_buffer := buffer\<rparr>))"
      using False A(3) by (subst output_loop.simps) (simp only: if_False Let_def l_def [symmetric] buffer_def [symmetric] less_not_sym [of "length (output_buffer o1)"] not_False_eq_True)
    have drop: "length (drop l data) < length data" "take l data @ drop l data = data" using l by auto
    show ?thesis
    proof (cases "output_capacity g = length buffer")
      case True
      have "generator_write cells g [] buffer False = Inr (chunk_body g buffer)"
        using generator_write_body(2) [OF k, of buffer "[]"] by (simp add: True [symmetric] capacity_stride)
      moreover have "output_inv g (D @ take l data)
        (o1\<lparr>output_buffer := [], output_target := output_target o1 @ [chunk_body g buffer]\<rparr>)"
      proof -
        have "cell_sizeof TYPE('a word) * unat (generator_k g) dvd length A"
          using A(2) unfolding capacity_stride by (rule dvd_mult_right)
        with chunk_body_append [OF k] A True show ?thesis
          unfolding output_inv_def by (intro exI [of _ "A @ buffer"]) (auto simp: buffer_def)
      qed
      ultimately show ?thesis
        using less.hyps [OF drop(1)] True l(1) drop(2) unfold by (force simp: collect_def)
    next
      case False
      with le A have "output_inv g (D @ take l data) (o1\<lparr>output_buffer := buffer\<rparr>)"
        unfolding output_inv_def by (intro exI [of _ A]) (auto simp: buffer_def)
      from less.hyps [OF drop(1) this] False drop(2) unfold show ?thesis by auto
    qed
  qed
qed

lemma output_write_inv:
  assumes k: "generator_k g \<noteq> 0" and "output_inv g D o1" "output_size o1 = length D" "[] \<notin> set ds"
  shows "\<exists>o2. output_write_all cells g (ds @ rest) o1 = output_write_all cells g rest o2
    \<and> output_inv g (D @ concat ds) o2 \<and> output_size o2 = length (D @ concat ds)"
  using assms(2-)
proof (induction ds arbitrary: D o1)
  case (Cons d ds)
  have "output_inv g D (o1\<lparr>output_size := output_size o1 + length d\<rparr>)"
    using Cons.prems(1) by (simp add: output_inv_def)
  from output_loop_inv [OF k this, of d] Cons.prems(2,3) obtain o2
    where o2: "output_write_async cells g collect d o1 = Inr o2" "output_inv g (D @ d) o2"
      "output_size o2 = length (D @ d)"
    by (auto simp: output_write_async_def)
  from Cons.IH [OF o2(2,3)] Cons.prems(3) o2(1) show ?case by simp
qed auto

lemma output_write_all_ok:
  assumes k: "generator_k g \<noteq> 0" and "[] \<notin> set ds"
    and pad: "cell_sizeof TYPE('a word) * unat (generator_k g) \<le> 65536"
  shows "\<exists>o1. output_write_all cells g (ds @ [[]]) (chunk_output_async []) = Inr o1
    \<and> generator_write cells g [] (concat ds) True = Inr (concat (output_target o1))"
proof -
  let ?stride = "cell_sizeof TYPE('a word) * unat (generator_k g)" and ?D = "concat ds"
  have pos: "0 < ?stride" using k sizeof_pos by (simp add: unat_gt_0)
  have cast: "safe_cast_uint16 (n mod ?stride) = Inr (word_of_nat (n mod ?stride))" for n
  proof -
    have "n mod ?stride < ?stride" using pos by simp
    with pad show ?thesis by (intro safe_cast_uint16_ok) linarith
  qed
  have "output_inv g [] (chunk_output_async [])"
    using pos by (simp add: output_inv_def chunk_output_async_def capacity_stride chunk_body_def groups_def)
  moreover have "output_size (chunk_output_async [] :: byte list list chunk_output) = length []"
    by (simp add: chunk_output_async_def)
  ultimately obtain o2 where o2: "output_write_all cells g (ds @ [[]]) (chunk_output_async [])
      = output_write_all cells g [[]] o2" "output_inv g ?D o2" "output_size o2 = length ?D"
    using output_write_inv [OF k _ _ assms(2), of "[]" "chunk_output_async []" "[[]]"] by auto
  then obtain A where A: "?D = A @ output_buffer o2" "output_capacity g dvd length A"
    "concat (output_target o2) = chunk_body g A" by (auto simp: output_inv_def)
  from A(2) have dvd: "?stride dvd length A" unfolding capacity_stride by (rule dvd_mult_right)
  then have mod: "length ?D mod ?stride = length (output_buffer o2) mod ?stride"
    by (auto simp: A(1) mod_add_left_eq [symmetric])
  let ?pad = "put_uint16 (word_of_nat (length ?D mod ?stride)) []"
  have whole: "generator_write cells g [] ?D True = Inr (chunk_body g A @ chunk_body g (output_buffer o2) @ ?pad)"
    using generator_write_body(1) [OF k, of "[]" ?D] chunk_body_append [OF k dvd, of "output_buffer o2"]
    by (simp add: cast A(1) [symmetric])
  have last: "output_write_async cells g collect [] o2 = Inr (o2\<lparr>output_target :=
      output_target o2 @ [chunk_body g (output_buffer o2) @ ?pad, []]\<rparr>)"
  proof (cases "output_buffer o2 = []")
    case True
    then have "chunk_body g (output_buffer o2) = []" using pos by (simp add: chunk_body_def groups_def)
    moreover have "generator_write_padding g [] (length ?D) = Inr ?pad"
      using pos by (simp add: generator_write_padding_def Let_def cast del: length_concat)
    ultimately show ?thesis using True o2(3) by (simp add: output_write_async_def collect_def del: length_concat)
  next
    case False
    then show ?thesis
      using generator_write_body(1) [OF k, of "[]" "output_buffer o2"]
      by (simp add: output_write_async_def collect_def cast mod del: length_concat)
  qed
  show ?thesis using o2(1) last whole A(3) by auto
qed

end

end
