(* ===== verification/Chunk_storage.thy ===== *)
theory Chunk_storage
  imports Chunk_stream
begin

text \<open>
  \<open>kernel/vds_data/chunk_storage.cpp\<close>: the two operations the program calls, on \<open>uint16_t\<close>
  cells, and the contract of the cells. A \<open>std::unordered_map\<close> is the list of its pairs in
  iteration order.
\<close>

section \<open>_chunk_storage\<close>

record chunk_storage =
  min_horcrux :: u16
  generators :: "u16 \<rightharpoonup> u16 chunk_generator"

definition new_chunk_storage :: "u16 \<Rightarrow> chunk_storage" where
  "new_chunk_storage n = \<lparr>min_horcrux = n, generators = Map.empty\<rparr>"

definition generate_replica :: "u16 cell_type \<Rightarrow> chunk_storage \<Rightarrow> u16 \<Rightarrow> byte list \<Rightarrow>
    (const_data_buffer \<times> chunk_storage) expected" where
  "generate_replica cells st replica data =
     (let (generator, st) = (case generators st replica of
            None \<Rightarrow> let g = new_chunk_generator cells (min_horcrux st) replica
                     in (g, st\<lparr>generators := (generators st)(replica \<mapsto> g)\<rparr>)
          | Some g \<Rightarrow> (g, st))
      in get_expected (generator_write cells generator [] data True) (\<lambda>s. Inr (Data_buffer s, st)))"

definition restore_data :: "u16 cell_type \<Rightarrow> u16 restore_state \<Rightarrow> chunk_storage \<Rightarrow>
    (u16 \<times> const_data_buffer) list \<Rightarrow> const_data_buffer expected" where
  "restore_data cells memory st horcruxes =
     (if unat (min_horcrux st) \<noteq> length horcruxes then Inl (Runtime_error ''Error at restoring data'')
      else if horcruxes = [] then Inl (Undefined_behaviour ''begin() of an empty map'')
      else if \<exists>p \<in> set horcruxes. buffer_size (snd (hd horcruxes)) \<noteq> buffer_size (snd p)
      then Inl (Runtime_error ''Error at restoring data'')
      else
        get_expected (chunk_restore cells memory (min_horcrux st) (map fst horcruxes)) (\<lambda>m.
        get_expected (restore_chunks cells (min_horcrux st) m (map (buffer_data \<circ> snd) horcruxes)) (\<lambda>d.
          Inr (Data_buffer d))))"

section \<open>The cells are fields\<close>

lemma list2_uint16: "length d = 2 \<Longrightarrow> put_uint16 (foldl shift_in 0 d) [] = d"
proof -
  assume "length d = 2"
  then obtain a b where d: "d = [a, b]" by (rule list2_cases)
  have hi: "(ucast (drop_bit 8 (shift_in (ucast a :: u16) b)) :: byte) = a"
    and lo: "(ucast (shift_in (ucast a :: u16) b) :: byte) = b"
    unfolding shift_in_def by (rule bit_word_eqI; auto simp: bit_simps dest: bit_imp_le_length)+
  have "foldl shift_in (0 :: u16) d = shift_in (ucast a) b" by (simp add: d shift_in_def)
  with hi lo show ?thesis by (simp add: put_uint16_def add_byte_def ucast_and_FF d)
qed

lemma chunk_math16: "gf_math16 memory = Inr (chunk_math16 memory)"
  using gf_math16_ok [of memory] by (auto simp: chunk_math16_def)

lemma chunk_math8: "gf_math8 memory = Inr (chunk_math8 memory)"
  using gf_math8_ok [of memory] by (auto simp: chunk_math8_def)

interpretation u16_cells: cell_field "uint16_cells (chunk_math16 tables)" Gf16 "\<lambda>v. put_uint16 v []"
  for tables
proof
  fix x y :: u16 and s
  show "Gf16 x = Gf16 y \<longleftrightarrow> x = y" by (simp add: cells16.emb_inject)
  show "Gf16 0 = 0" "Gf16 1 = 1" by (simp_all add: zero_gf16_def one_gf16_def)
  show "Gf16 (cell_mul (uint16_cells (chunk_math16 tables)) x y) = Gf16 x * Gf16 y"
    "Gf16 (cell_div (uint16_cells (chunk_math16 tables)) x y) = Gf16 x / Gf16 y"
    by (simp_all add: uint16_cells_def Gf16_math [OF chunk_math16])
  show "Gf16 (cell_add (uint16_cells (chunk_math16 tables)) x y) = Gf16 x + Gf16 y"
    by (simp add: uint16_cells_def gf_math_add_def cells16.emb_add)
  show "Gf16 (cell_sub (uint16_cells (chunk_math16 tables)) x y) = Gf16 x - Gf16 y"
    by (simp add: uint16_cells_def gf_math_sub_def minus_gf16.abs_eq eq_onp_same_args)
  show "cell_put (uint16_cells (chunk_math16 tables)) x s = s @ put_uint16 x []"
    by (simp add: uint16_cells_def put_uint16_append [of x s])
  show "foldl shift_in 0 (put_uint16 x []) = x"
    using put_uint16_bytes [of x] by (auto simp: shift_in_def)
qed (simp_all add: list2_uint16)

lemma list1_uint8: "length d = Suc 0 \<Longrightarrow> [foldl shift_in 0 d] = (d :: byte list)"
  by (cases d) (auto simp: shift_in_def)

interpretation u8_cells: cell_field "uint8_cells (chunk_math8 tables)" Gf8 "\<lambda>v. put_uint8 v []"
  for tables
proof
  fix x y :: byte and s
  show "Gf8 x = Gf8 y \<longleftrightarrow> x = y" by (simp add: cells8.emb_inject)
  show "Gf8 0 = 0" "Gf8 1 = 1" by (simp_all add: zero_gf8_def one_gf8_def)
  show "Gf8 (cell_mul (uint8_cells (chunk_math8 tables)) x y) = Gf8 x * Gf8 y"
    "Gf8 (cell_div (uint8_cells (chunk_math8 tables)) x y) = Gf8 x / Gf8 y"
    by (simp_all add: uint8_cells_def Gf8_math [OF chunk_math8])
  show "Gf8 (cell_add (uint8_cells (chunk_math8 tables)) x y) = Gf8 x + Gf8 y"
    by (simp add: uint8_cells_def gf_math_add_def cells8.emb_add)
  show "Gf8 (cell_sub (uint8_cells (chunk_math8 tables)) x y) = Gf8 x - Gf8 y"
    by (simp add: uint8_cells_def gf_math_sub_def minus_gf8.abs_eq eq_onp_same_args)
  show "cell_put (uint8_cells (chunk_math8 tables)) x s = s @ put_uint8 x []"
    by (simp add: uint8_cells_def put_uint8_def add_byte_def)
  show "foldl shift_in 0 (put_uint8 x []) = x"
    by (simp add: put_uint8_def add_byte_def shift_in_def)
qed (simp_all add: list1_uint8 put_uint8_def add_byte_def)

section \<open>The storage\<close>

text \<open>The generator cache holds what the constructor would build.\<close>

definition storage_inv :: "u16 cell_type \<Rightarrow> chunk_storage \<Rightarrow> bool" where
  "storage_inv cells st \<longleftrightarrow>
     (\<forall>r g. generators st r = Some g \<longrightarrow> g = new_chunk_generator cells (min_horcrux st) r)"

lemma generate_replica_cached:
  assumes "storage_inv cells st"
  shows "generate_replica cells st r data =
     get_expected (generator_write cells (new_chunk_generator cells (min_horcrux st) r) [] data True)
       (\<lambda>s. Inr (Data_buffer s, st\<lparr>generators := (generators st)(r \<mapsto> new_chunk_generator cells (min_horcrux st) r)\<rparr>))"
proof (cases "generators st r")
  case (Some g)
  with assms have "g = new_chunk_generator cells (min_horcrux st) r" by (simp add: storage_inv_def)
  with Some have "(generators st)(r \<mapsto> new_chunk_generator cells (min_horcrux st) r) = generators st" by auto
  with Some \<open>g = _\<close> show ?thesis by (simp add: generate_replica_def)
qed (simp add: generate_replica_def Let_def)

text \<open>The bytes of a replica, and the storage after it.\<close>

definition replica_of :: "(u16 \<Rightarrow> u16) \<Rightarrow> u16 \<Rightarrow> u16 \<Rightarrow> byte list \<Rightarrow> byte list" where
  "replica_of tables k r data =
     u16_cells.chunk_body tables (new_chunk_generator (uint16_cells (chunk_math16 tables)) k r) data
       @ put_uint16 (word_of_nat (length data mod (2 * unat k))) []"

lemma generator_write_replica:
  assumes "k \<noteq> 0" "unat k \<le> 32768"
  shows "generator_write (uint16_cells (chunk_math16 tables)) (new_chunk_generator (uint16_cells (chunk_math16 tables)) k r)
    [] data True = Inr (replica_of tables k r data)"
proof -
  let ?c = "uint16_cells (chunk_math16 tables)"
  have "0 < 2 * unat k" using assms(1) by (simp add: unat_gt_0)
  then have "length data mod (2 * unat k) < 2 * unat k" by simp
  with assms(2) have "safe_cast_uint16 (length data mod (2 * unat k)) = Inr (word_of_nat (length data mod (2 * unat k)))"
    by (intro safe_cast_uint16_ok) linarith
  then show ?thesis
    using u16_cells.generator_write_body(1) [of "new_chunk_generator ?c k r" tables "[]" data] assms(1)
    by (simp add: u16_cells.chunk_generator_k replica_of_def)
qed

lemma generate_replica_bytes:
  assumes "storage_inv (uint16_cells (chunk_math16 tables)) st"
    and k: "1 \<le> min_horcrux st" "min_horcrux st \<le> 32768"
  shows "\<exists>st'. generate_replica (uint16_cells (chunk_math16 tables)) st r data
       = Inr (Data_buffer (replica_of tables (min_horcrux st) r data), st')
    \<and> storage_inv (uint16_cells (chunk_math16 tables)) st' \<and> min_horcrux st' = min_horcrux st"
proof -
  let ?c = "uint16_cells (chunk_math16 tables)" and ?k = "min_horcrux st"
  have k': "?k \<noteq> 0" "unat ?k \<le> 32768" using k by (auto simp: word_le_nat_alt)
  then have "generator_write ?c (new_chunk_generator ?c ?k r) [] data True = Inr (replica_of tables ?k r data)"
    by (rule generator_write_replica)
  with generate_replica_cached [OF assms(1), of r data] assms(1) show ?thesis
    by (auto simp: storage_inv_def)
qed

text \<open>C12: Generating a replica never fails for \<open>1 \<le> k \<le> 32768\<close>: the size assertion and the
  \<open>safe_cast\<close> of the padding hold, the replica is one cell per group of \<open>k\<close> cells and two bytes
  of padding, and the cache of generators stays correct.\<close>

theorem generate_replica_total:
  assumes "storage_inv (uint16_cells (chunk_math16 tables)) st"
    and "1 \<le> min_horcrux st" "min_horcrux st \<le> 32768"
  shows "\<exists>d st'. generate_replica (uint16_cells (chunk_math16 tables)) st r data = Inr (d, st')
    \<and> storage_inv (uint16_cells (chunk_math16 tables)) st' \<and> min_horcrux st' = min_horcrux st
    \<and> buffer_size d = 2 * ((length data + 2 * unat (min_horcrux st) - 1) div (2 * unat (min_horcrux st))) + 2"
  using generate_replica_bytes [OF assms, of r data]
  by (auto simp: replica_of_def u16_cells.groups_def u16_cells.chunk_generator_k)

theorem generate_replica_total_witness:
  "\<exists>d st'. generate_replica (uint16_cells (chunk_math16 (\<lambda>_. 0))) (new_chunk_storage 2) 7 [1, 2, 3] = Inr (d, st')
    \<and> buffer_size d = 4"
  using generate_replica_total [of "\<lambda>_. 0" "new_chunk_storage 2" 7 "[1, 2, 3]"]
  by (auto simp: new_chunk_storage_def storage_inv_def word_le_nat_alt)

text \<open>Any \<open>k\<close> replicas give back the data.\<close>

lemma restore_replicas:
  assumes k: "k \<noteq> 0" "unat k \<le> 32768" and n: "length n = unat k" "distinct n" and len: "length data < 2 ^ 62"
  shows "\<exists>m. chunk_restore (uint16_cells (chunk_math16 tables)) memory k n = Inr m
    \<and> restore_chunks (uint16_cells (chunk_math16 tables)) k m (map (\<lambda>r. replica_of tables k r data) n) = Inr data"
proof -
  let ?c = "uint16_cells (chunk_math16 tables)"
  have chunks: "u16_cells.chunks_of tables k n data (map (\<lambda>r. replica_of tables k r data) n)"
    using n by (simp add: u16_cells.chunks_of_def replica_of_def)
  have "unat k * unat k \<le> 32768 * 32768" using k(2) by (intro mult_le_mono)
  then have "unat k * unat k < 2 ^ 31" by simp
  from u16_cells.chunk_restore_ok [OF n(2) n(1) this] obtain m
    where m: "chunk_restore ?c memory k n = Inr m" "u16_cells.left_inverse (unat k) m n" by blast
  have "restore_chunks ?c k m (map (\<lambda>r. replica_of tables k r data) n) = Inr data"
    by (rule u16_cells.restore_chunks_ok [OF k(1) _ len chunks m(2)]) (use k(2) in simp)
  with m(1) show ?thesis by blast
qed

text \<open>C11: Any \<open>k\<close> replicas with different numbers, generated by any storages for the same \<open>k\<close>,
  restore the data: the elimination of \<open>chunk_restore\<close> passes all its assertions, its
  matrix is the inverse, and the size computed from the padding is the size of the data.\<close>

theorem restore_data_roundtrip:
  assumes k: "1 \<le> min_horcrux st" "min_horcrux st \<le> 32768" and len: "length data < 2 ^ 62"
    and hs: "length hs = unat (min_horcrux st)" "distinct (map fst hs)"
    and gen: "\<forall>(r, d) \<in> set hs. \<exists>st1 st2. storage_inv (uint16_cells (chunk_math16 tables)) st1
      \<and> min_horcrux st1 = min_horcrux st
      \<and> generate_replica (uint16_cells (chunk_math16 tables)) st1 r data = Inr (d, st2)"
  shows "restore_data (uint16_cells (chunk_math16 tables)) memory st hs = Inr (Data_buffer data)"
proof -
  let ?c = "uint16_cells (chunk_math16 tables)" and ?k = "min_horcrux st" and ?n = "map fst hs"
  have k': "?k \<noteq> 0" "unat ?k \<le> 32768" using k by (auto simp: word_le_nat_alt)
  have chunk: "d = Data_buffer (replica_of tables ?k r data)" if rd: "(r, d) \<in> set hs" for r d
  proof -
    from gen rd obtain st1 st2 where st1: "storage_inv ?c st1" "min_horcrux st1 = ?k"
      and g: "generate_replica ?c st1 r data = Inr (d, st2)" by blast
    with generate_replica_bytes [OF st1(1), of r data] k show ?thesis by simp
  qed
  have "buffer_data (snd p) = replica_of tables ?k (fst p) data" if "p \<in> set hs" for p
    using chunk [of "fst p" "snd p"] that by simp
  then have "map (buffer_data \<circ> snd) hs = map (\<lambda>r. replica_of tables ?k r data) ?n" by simp
  with restore_replicas [OF k' _ hs(2) len, of tables memory] hs(1) obtain m
    where m: "chunk_restore ?c memory ?k ?n = Inr m"
      and data: "restore_chunks ?c ?k m (map (buffer_data \<circ> snd) hs) = Inr data"
    by (metis length_map)
  have "buffer_size (snd (hd hs)) = buffer_size (snd p)" if "p \<in> set hs" for p
  proof -
    have sz: "buffer_size (snd q) = u16_cells.groups (unat ?k) data * 2 + 2" if "q \<in> set hs" for q
      using chunk [of "fst q" "snd q"] that by (simp add: replica_of_def u16_cells.chunk_generator_k)
    from that have "hd hs \<in> set hs" by (cases hs) simp_all
    with sz that show ?thesis by simp
  qed
  then have sizes: "\<not> (\<exists>p \<in> set hs. buffer_size (snd (hd hs)) \<noteq> buffer_size (snd p))" by blast
  have "hs \<noteq> []" using hs(1) k'(1) by (auto simp: unat_eq_zero)
  then show ?thesis
    by (simp only: restore_data_def hs(1) sizes m data get_expected_simps if_False not_True_eq_False simp_thms)
qed

text \<open>Two replicas of three bytes.\<close>

theorem restore_data_roundtrip_witness:
  "\<exists>d1 d2 st1 st2.
     generate_replica (uint16_cells (chunk_math16 (\<lambda>_. 0))) (new_chunk_storage 2) 7 [1, 2, 3] = Inr (d1, st1)
   \<and> generate_replica (uint16_cells (chunk_math16 (\<lambda>_. 0))) st1 9 [1, 2, 3] = Inr (d2, st2)
   \<and> restore_data (uint16_cells (chunk_math16 (\<lambda>_. 0))) \<lparr>left = \<lambda>_. 5, multipliers = \<lambda>_. 6\<rparr>
       (new_chunk_storage 2) [(9, d2), (7, d1)] = Inr (Data_buffer [1, 2, 3])"
proof -
  let ?c = "uint16_cells (chunk_math16 (\<lambda>_. 0))"
  let ?pre = "\<lambda>st. storage_inv ?c st \<and> min_horcrux st = 2"
  have gen: "\<exists>d st'. generate_replica ?c st r [1, 2, 3] = Inr (d, st') \<and> ?pre st'" if "?pre st" for st r
    using generate_replica_bytes [of "\<lambda>_. 0" st r "[1, 2, 3]"] that by (auto simp: word_le_nat_alt)
  have s0: "?pre (new_chunk_storage 2)" by (simp add: new_chunk_storage_def storage_inv_def)
  obtain d1 st1 where 1: "generate_replica ?c (new_chunk_storage 2) 7 [1, 2, 3] = Inr (d1, st1)" "?pre st1"
    using gen [OF s0] by blast
  obtain d2 st2 where 2: "generate_replica ?c st1 9 [1, 2, 3] = Inr (d2, st2)"
    using gen [OF 1(2)] by blast
  have "restore_data ?c \<lparr>left = \<lambda>_. 5, multipliers = \<lambda>_. 6\<rparr> (new_chunk_storage 2) [(9, d2), (7, d1)]
    = Inr (Data_buffer [1, 2, 3])"
    by (rule restore_data_roundtrip)
      (use 1 2 s0 in \<open>auto simp: word_le_nat_alt new_chunk_storage_def\<close>)
  with 1(1) 2 show ?thesis by blast
qed

section \<open>Chunks of cells\<close>

text \<open>\<open>chunk\<close> and \<open>chunk_restore\<close> on vectors of cells: the constructor of
  \<open>chunk_restore\<close> succeeds for \<open>k\<close> different numbers, and \<open>restore\<close> gives back the cells of the
  data, followed by zeros up to a multiple of \<open>k\<close>.\<close>

theorem restore_cells_roundtrip:
  assumes "k \<noteq> 0" "k \<le> 32768" "length n = unat k" "distinct n"
    and "\<forall>j < unat k. chunk_of_data (uint16_cells (chunk_math16 tables))
           (new_chunk_generator (uint16_cells (chunk_math16 tables)) k (n ! j)) data = Inr (chunks ! j)"
  shows "\<exists>m. chunk_restore (uint16_cells (chunk_math16 tables)) memory k n = Inr m
    \<and> restore_cells (uint16_cells (chunk_math16 tables)) k m chunks
       = data @ replicate ((length data + unat k - 1) div unat k * unat k - length data) 0"
proof -
  have "unat k * unat k \<le> 32768 * 32768" using assms(2) by (intro mult_le_mono) (simp_all add: word_le_nat_alt)
  then have "unat k * unat k < 2 ^ 31" by simp
  from u16_cells.chunk_restore_ok [OF assms(4,3) this, of tables memory]
    u16_cells.restore_cells_ok [OF assms(1) _ assms(5)]
  show ?thesis by blast
qed

theorem restore_cells_roundtrip_witness:
  "\<exists>c1 c2 m. chunk_of_data (uint16_cells (chunk_math16 (\<lambda>_. 0)))
      (new_chunk_generator (uint16_cells (chunk_math16 (\<lambda>_. 0))) 2 7) [1, 2, 3] = Inr c1
   \<and> chunk_of_data (uint16_cells (chunk_math16 (\<lambda>_. 0)))
      (new_chunk_generator (uint16_cells (chunk_math16 (\<lambda>_. 0))) 2 9) [1, 2, 3] = Inr c2
   \<and> restore_cells (uint16_cells (chunk_math16 (\<lambda>_. 0))) 2 m [c1, c2] = [1, 2, 3, 0]"
proof -
  let ?c = "uint16_cells (chunk_math16 (\<lambda>_. 0))"
  have "\<exists>c. chunk_of_data ?c (new_chunk_generator ?c 2 r) [1, 2, 3] = Inr c" for r
    by (simp add: chunk_of_data_def u16_cells.chunk_generator_k)
  then obtain c1 c2 where c: "chunk_of_data ?c (new_chunk_generator ?c 2 7) [1, 2, 3] = Inr c1"
    "chunk_of_data ?c (new_chunk_generator ?c 2 9) [1, 2, 3] = Inr c2" by blast
  obtain m where "restore_cells ?c 2 m [c1, c2] = [1, 2, 3, 0]"
    using restore_cells_roundtrip [of 2 "[7, 9]" "\<lambda>_. 0" "[1, 2, 3]" "[c1, c2]" "\<lparr>left = \<lambda>_. 0, multipliers = \<lambda>_. 0\<rparr>"] c
    by (auto simp: word_le_nat_alt less_2_cases_iff)
  with c show ?thesis by blast
qed

section \<open>The output stream\<close>

section \<open>The output stream\<close>

text \<open>Whatever the sizes of the pieces in which data is written to \<open>chunk_output_async\<close>, the
  bytes its target receives are those of one \<open>chunk_generator::write\<close> of all the data; no write
  fails.\<close>

theorem chunk_output_equals_write:
  assumes "1 \<le> k" "k \<le> 32768" and "[] \<notin> set pieces"
  shows "\<exists>o1. output_write_all (uint16_cells (chunk_math16 tables))
        (new_chunk_generator (uint16_cells (chunk_math16 tables)) k n) (pieces @ [[]]) (chunk_output_async []) = Inr o1
    \<and> generator_write (uint16_cells (chunk_math16 tables))
        (new_chunk_generator (uint16_cells (chunk_math16 tables)) k n) [] (concat pieces) True
      = Inr (concat (output_target o1))"
  by (rule u16_cells.output_write_all_ok)
    (use assms in \<open>auto simp: word_le_nat_alt u16_cells.chunk_generator_k\<close>)

theorem chunk_output_equals_write_witness:
  "\<exists>o1. output_write_all (uint16_cells (chunk_math16 (\<lambda>_. 0)))
        (new_chunk_generator (uint16_cells (chunk_math16 (\<lambda>_. 0))) 2 7) [[1, 2], [3], []] (chunk_output_async []) = Inr o1
    \<and> generator_write (uint16_cells (chunk_math16 (\<lambda>_. 0)))
        (new_chunk_generator (uint16_cells (chunk_math16 (\<lambda>_. 0))) 2 7) [] [1, 2, 3] True
      = Inr (concat (output_target o1))"
  using chunk_output_equals_write [of 2 "[[1, 2], [3]]" "\<lambda>_. 0" 7] by (simp add: word_le_nat_alt)

end
