(* ===== verification/Transactions.thy ===== *)
theory Transactions
  imports Binary_serialize
begin

text \<open>
  The messages of the transaction log (\<open>libs_common/vds_transactions\<close>), their serialization by the
  visitors of \<open>binary_serialize.h\<close>, the builder that concatenates them and the walker
  (\<open>libs_server/vds_log_sync/include/transaction_messages_walker.h\<close>) that visits them. The
  functions of OpenSSL are the fields of a record the definitions take as argument.
\<close>

section \<open>Cryptography\<close>

record ('pk, 'sk) crypto =
  hash_signature :: "const_data_buffer \<Rightarrow> const_data_buffer expected" \<comment> \<open>hash::signature(sha256)\<close>
  key_der :: "'pk \<Rightarrow> const_data_buffer expected"
  key_parse_der :: "const_data_buffer \<Rightarrow> 'pk expected"
  key_fingerprint :: "'pk \<Rightarrow> const_data_buffer expected"
  sign_verify :: "'pk \<Rightarrow> const_data_buffer \<Rightarrow> const_data_buffer \<Rightarrow> bool expected" \<comment> \<open>key, signature, data\<close>
  sign_data :: "'sk \<Rightarrow> const_data_buffer \<Rightarrow> const_data_buffer expected"

definition put_public_key :: "('pk, 'sk) crypto \<Rightarrow> 'pk put" where
  "put_public_key cr key s = get_expected (key_der cr key) (\<lambda>der. Inr (put_buffer der s))"

definition get_public_key :: "('pk, 'sk) crypto \<Rightarrow> 'pk get" where
  "get_public_key cr d =
     get_expected (get_buffer d) (\<lambda>(key_data, d).
     get_expected (key_parse_der cr key_data) (\<lambda>key. Inr (key, d)))"

section \<open>Messages\<close>

record payment_transaction =
  pt_issuer :: const_data_buffer
  pt_currency :: cstring
  pt_source_transaction :: const_data_buffer
  pt_source_wallet :: const_data_buffer
  pt_target_wallet :: const_data_buffer
  pt_value :: u64
  pt_payment_type :: cstring
  pt_notes :: cstring
  pt_signature :: const_data_buffer

record asset_issue_transaction =
  ai_issuer :: const_data_buffer
  ai_wallet_id :: const_data_buffer
  ai_currency :: cstring
  ai_value :: u64
  ai_signature :: const_data_buffer

record create_wallet_transaction =
  cw_id :: const_data_buffer
  cw_public_key :: const_data_buffer

record channel_message =
  cm_channel_id :: const_data_buffer
  cm_read_id :: const_data_buffer
  cm_write_id :: const_data_buffer
  cm_crypted_key :: const_data_buffer
  cm_crypted_data :: const_data_buffer
  cm_signature :: const_data_buffer

record 'pk create_user_transaction =
  cu_user_email :: cstring
  cu_user_public_key :: 'pk
  cu_user_profile_id :: const_data_buffer
  cu_user_name :: cstring

record 'pk node_add_transaction =
  na_node_public_key :: 'pk

record store_block_transaction =
  sb_owner_id :: const_data_buffer
  sb_object_id :: const_data_buffer
  sb_object_size :: u64
  sb_replica_size :: u32
  sb_replicas :: "const_data_buffer list"
  sb_owner_sig :: const_data_buffer

record host_block_transaction =
  hb_owner_id :: const_data_buffer
  hb_replica_hash :: const_data_buffer

datatype 'pk transaction_message =
    Payment payment_transaction
  | Channel_message channel_message
  | Create_user "'pk create_user_transaction"
  | Node_add "'pk node_add_transaction"
  | Create_wallet create_wallet_transaction
  | Asset_issue asset_issue_transaction
  | Store_block store_block_transaction
  | Host_block host_block_transaction

text \<open>The enumeration \<open>transaction_id\<close>: characters as bytes.\<close>

fun message_id :: "'pk transaction_message \<Rightarrow> byte" where
  "message_id (Payment _) = 0x70"
| "message_id (Channel_message _) = 0x63"
| "message_id (Create_user _) = 0x75"
| "message_id (Node_add _) = 0x6D"
| "message_id (Create_wallet _) = 0x77"
| "message_id (Asset_issue _) = 0x69"
| "message_id (Store_block _) = 0x73"
| "message_id (Host_block _) = 0x68"

section \<open>Serialization\<close>

text \<open>The fields in the order in which each class passes them to the visitor.\<close>

definition put_payment :: "payment_transaction \<Rightarrow> binary_serializer \<Rightarrow> binary_serializer" where
  "put_payment m s =
     put_buffer (pt_signature m) (put_string (pt_notes m) (put_string (pt_payment_type m)
       (put_uint64 (pt_value m) (put_buffer (pt_target_wallet m) (put_buffer (pt_source_wallet m)
         (put_buffer (pt_source_transaction m) (put_string (pt_currency m)
           (put_buffer (pt_issuer m) s))))))))"

definition put_asset_issue :: "asset_issue_transaction \<Rightarrow> binary_serializer \<Rightarrow> binary_serializer" where
  "put_asset_issue m s =
     put_buffer (ai_signature m) (put_uint64 (ai_value m) (put_string (ai_currency m)
       (put_buffer (ai_wallet_id m) (put_buffer (ai_issuer m) s))))"

definition put_create_wallet :: "create_wallet_transaction \<Rightarrow> binary_serializer \<Rightarrow> binary_serializer" where
  "put_create_wallet m s = put_buffer (cw_public_key m) (put_buffer (cw_id m) s)"

definition put_channel_message :: "channel_message \<Rightarrow> binary_serializer \<Rightarrow> binary_serializer" where
  "put_channel_message m s =
     put_buffer (cm_signature m) (put_buffer (cm_crypted_data m) (put_buffer (cm_crypted_key m)
       (put_buffer (cm_write_id m) (put_buffer (cm_read_id m) (put_buffer (cm_channel_id m) s)))))"

definition put_create_user :: "('pk, 'sk) crypto \<Rightarrow> 'pk create_user_transaction put" where
  "put_create_user cr m s =
     get_expected (put_public_key cr (cu_user_public_key m) (put_string (cu_user_email m) s)) (\<lambda>s.
       Inr (put_string (cu_user_name m) (put_buffer (cu_user_profile_id m) s)))"

definition put_node_add :: "('pk, 'sk) crypto \<Rightarrow> 'pk node_add_transaction put" where
  "put_node_add cr m s = put_public_key cr (na_node_public_key m) s"

definition put_store_block :: "store_block_transaction put" where
  "put_store_block m s =
     get_expected (put_list (total_put put_buffer) (sb_replicas m)
       (put_uint32 (sb_replica_size m) (put_uint64 (sb_object_size m)
         (put_buffer (sb_object_id m) (put_buffer (sb_owner_id m) s))))) (\<lambda>s.
       Inr (put_buffer (sb_owner_sig m) s))"

definition put_host_block :: "host_block_transaction \<Rightarrow> binary_serializer \<Rightarrow> binary_serializer" where
  "put_host_block m s = put_buffer (hb_replica_hash m) (put_buffer (hb_owner_id m) s)"

fun put_body :: "('pk, 'sk) crypto \<Rightarrow> 'pk transaction_message put" where
  "put_body cr (Payment m) s = Inr (put_payment m s)"
| "put_body cr (Channel_message m) s = Inr (put_channel_message m s)"
| "put_body cr (Create_user m) s = put_create_user cr m s"
| "put_body cr (Node_add m) s = put_node_add cr m s"
| "put_body cr (Create_wallet m) s = Inr (put_create_wallet m s)"
| "put_body cr (Asset_issue m) s = Inr (put_asset_issue m s)"
| "put_body cr (Store_block m) s = put_store_block m s"
| "put_body cr (Host_block m) s = Inr (put_host_block m s)"

section \<open>transaction_block_builder\<close>

definition add_transaction :: "('pk, 'sk) crypto \<Rightarrow> 'pk transaction_message expected \<Rightarrow>
    binary_serializer \<Rightarrow> binary_serializer expected" where
  "add_transaction cr item s = get_expected item (\<lambda>m. put_body cr m (put_uint8 (message_id m) s))"

fun build_messages :: "('pk, 'sk) crypto \<Rightarrow> 'pk transaction_message list \<Rightarrow> binary_serializer \<Rightarrow>
    const_data_buffer expected" where
  "build_messages cr [] s = Inr (Data_buffer s)"
| "build_messages cr (m # ms) s = get_expected (add_transaction cr (Inr m) s) (build_messages cr ms)"

section \<open>Deserialization\<close>

definition get_payment :: "payment_transaction get" where
  "get_payment d =
     get_expected (get_buffer d) (\<lambda>(issuer, d).
     get_expected (get_string d) (\<lambda>(currency, d).
     get_expected (get_buffer d) (\<lambda>(source_transaction, d).
     get_expected (get_buffer d) (\<lambda>(source_wallet, d).
     get_expected (get_buffer d) (\<lambda>(target_wallet, d).
     get_expected (get_uint64 d) (\<lambda>(val, d).
     get_expected (get_string d) (\<lambda>(payment_type, d).
     get_expected (get_string d) (\<lambda>(notes, d).
     get_expected (get_buffer d) (\<lambda>(signature, d).
       Inr (\<lparr>pt_issuer = issuer, pt_currency = currency, pt_source_transaction = source_transaction,
              pt_source_wallet = source_wallet, pt_target_wallet = target_wallet, pt_value = val,
              pt_payment_type = payment_type, pt_notes = notes, pt_signature = signature\<rparr>, d))))))))))"

definition get_asset_issue :: "asset_issue_transaction get" where
  "get_asset_issue d =
     get_expected (get_buffer d) (\<lambda>(issuer, d).
     get_expected (get_buffer d) (\<lambda>(wallet_id, d).
     get_expected (get_string d) (\<lambda>(currency, d).
     get_expected (get_uint64 d) (\<lambda>(val, d).
     get_expected (get_buffer d) (\<lambda>(signature, d).
       Inr (\<lparr>ai_issuer = issuer, ai_wallet_id = wallet_id, ai_currency = currency,
              ai_value = val, ai_signature = signature\<rparr>, d))))))"

definition get_create_wallet :: "create_wallet_transaction get" where
  "get_create_wallet d =
     get_expected (get_buffer d) (\<lambda>(id, d).
     get_expected (get_buffer d) (\<lambda>(public_key, d).
       Inr (\<lparr>cw_id = id, cw_public_key = public_key\<rparr>, d)))"

definition get_channel_message :: "channel_message get" where
  "get_channel_message d =
     get_expected (get_buffer d) (\<lambda>(channel_id, d).
     get_expected (get_buffer d) (\<lambda>(read_id, d).
     get_expected (get_buffer d) (\<lambda>(write_id, d).
     get_expected (get_buffer d) (\<lambda>(crypted_key, d).
     get_expected (get_buffer d) (\<lambda>(crypted_data, d).
     get_expected (get_buffer d) (\<lambda>(signature, d).
       Inr (\<lparr>cm_channel_id = channel_id, cm_read_id = read_id, cm_write_id = write_id,
              cm_crypted_key = crypted_key, cm_crypted_data = crypted_data, cm_signature = signature\<rparr>, d)))))))"

definition get_create_user :: "('pk, 'sk) crypto \<Rightarrow> 'pk create_user_transaction get" where
  "get_create_user cr d =
     get_expected (get_string d) (\<lambda>(user_email, d).
     get_expected (get_public_key cr d) (\<lambda>(user_public_key, d).
     get_expected (get_buffer d) (\<lambda>(user_profile_id, d).
     get_expected (get_string d) (\<lambda>(user_name, d).
       Inr (\<lparr>cu_user_email = user_email, cu_user_public_key = user_public_key,
              cu_user_profile_id = user_profile_id, cu_user_name = user_name\<rparr>, d)))))"

definition get_node_add :: "('pk, 'sk) crypto \<Rightarrow> 'pk node_add_transaction get" where
  "get_node_add cr d =
     get_expected (get_public_key cr d) (\<lambda>(key, d). Inr (\<lparr>na_node_public_key = key\<rparr>, d))"

definition get_store_block :: "store_block_transaction get" where
  "get_store_block d =
     get_expected (get_buffer d) (\<lambda>(owner_id, d).
     get_expected (get_buffer d) (\<lambda>(object_id, d).
     get_expected (get_uint64 d) (\<lambda>(object_size, d).
     get_expected (get_uint32 d) (\<lambda>(replica_size, d).
     get_expected (get_list get_buffer d) (\<lambda>(replicas, d).
     get_expected (get_buffer d) (\<lambda>(owner_sig, d).
       Inr (\<lparr>sb_owner_id = owner_id, sb_object_id = object_id, sb_object_size = object_size,
              sb_replica_size = replica_size, sb_replicas = replicas, sb_owner_sig = owner_sig\<rparr>, d)))))))"

definition get_host_block :: "host_block_transaction get" where
  "get_host_block d =
     get_expected (get_buffer d) (\<lambda>(owner_id, d).
     get_expected (get_buffer d) (\<lambda>(replica_hash, d).
       Inr (\<lparr>hb_owner_id = owner_id, hb_replica_hash = replica_hash\<rparr>, d)))"

section \<open>transaction_messages_walker\<close>

text \<open>\<open>std::to_string\<close> of a number.\<close>

fun decimal :: "nat \<Rightarrow> string" where
  "decimal n = (if n < 10 then [char_of (48 + n)] else decimal (n div 10) @ [char_of (48 + n mod 10)])"

declare decimal.simps [simp del]

definition get_message :: "('pk, 'sk) crypto \<Rightarrow> byte \<Rightarrow> 'pk transaction_message get" where
  "get_message cr mid d =
     (if mid = 0x70 then get_expected (get_payment d) (\<lambda>(m, d). Inr (Payment m, d))
      else if mid = 0x75 then get_expected (get_create_user cr d) (\<lambda>(m, d). Inr (Create_user m, d))
      else if mid = 0x63 then get_expected (get_channel_message d) (\<lambda>(m, d). Inr (Channel_message m, d))
      else if mid = 0x6D then get_expected (get_node_add cr d) (\<lambda>(m, d). Inr (Node_add m, d))
      else if mid = 0x77 then get_expected (get_create_wallet d) (\<lambda>(m, d). Inr (Create_wallet m, d))
      else if mid = 0x69 then get_expected (get_asset_issue d) (\<lambda>(m, d). Inr (Asset_issue m, d))
      else if mid = 0x73 then get_expected (get_store_block d) (\<lambda>(m, d). Inr (Store_block m, d))
      else if mid = 0x68 then get_expected (get_host_block d) (\<lambda>(m, d). Inr (Host_block m, d))
      else Inl (Runtime_error (''Invalid message '' @ decimal (unat mid))))"

text \<open>A reader that does not lengthen the input.\<close>

definition consumes :: "'a get \<Rightarrow> bool" where
  "consumes g \<longleftrightarrow> (\<forall>d x d'. g d = Inr (x, d') \<longrightarrow> length d' \<le> length d)"

lemma consumes_bind:
  "consumes g \<Longrightarrow> (\<And>x. consumes (k x)) \<Longrightarrow> consumes (\<lambda>d. get_expected (g d) (\<lambda>(x, d). k x d))"
  unfolding consumes_def by (auto simp: get_expected_Inr_iff) (meson order_trans)

lemma consumes_return: "consumes (\<lambda>d. Inr (f, d))"
  by (simp add: consumes_def)

lemma consumes_error: "consumes (\<lambda>d. Inl e)"
  by (simp add: consumes_def)

lemma consumes_map: "consumes g \<Longrightarrow> consumes (\<lambda>d. get_expected (g d) (\<lambda>(x, d). Inr (f x, d)))"
  by (auto simp: consumes_def get_expected_Inr_iff)

lemma consumes_if: "consumes g \<Longrightarrow> consumes h \<Longrightarrow> consumes (\<lambda>d. if b then g d else h d)"
  by (simp add: consumes_def)

lemma consumes_uint8: "consumes get_uint8"
  unfolding consumes_def by (intro allI impI) (erule get_uint8.elims, auto)

lemma consumes_uint32: "consumes get_uint32"
  unfolding consumes_def by (intro allI impI) (erule get_uint32.elims, auto)

lemma consumes_uint64: "consumes get_uint64"
  unfolding consumes_def by (intro allI impI) (erule get_uint64.elims, auto)

lemma consumes_items: "consumes g \<Longrightarrow> consumes (get_items g n)"
proof (induction n)
  case (Suc n)
  then show ?case by (auto simp: consumes_def get_expected_Inr_iff) (meson order_trans)
qed (simp add: consumes_def)

lemma consumes_number: "consumes read_number"
proof -
  have "consumes (read_number_loop n r)" for n r
  proof (induction n arbitrary: r)
    case (Suc n)
    with consumes_bind [OF consumes_uint8, of "\<lambda>val. read_number_loop n (shift_in r val)"]
    show ?case by (simp add: read_number_loop.simps(2) [abs_def])
  qed (simp add: consumes_def)
  then show ?thesis
    unfolding read_number_def [abs_def]
    by (intro consumes_bind consumes_if consumes_uint8 consumes_return)
qed

lemma consumes_list: "consumes g \<Longrightarrow> consumes (get_list g)"
  unfolding get_list_def [abs_def] by (intro consumes_bind consumes_number consumes_items)

lemma consumes_string: "consumes get_string"
  unfolding get_string_def [abs_def] by (intro consumes_bind consumes_number consumes_items consumes_uint8)

lemma consumes_buffer: "consumes get_buffer"
proof -
  have "consumes (\<lambda>d. if 1024 * 1024 * 1024 < len then Inl (Runtime_error ''very big object'')
       else if length d < unat len then Inl invalid_data
       else Inr (Data_buffer (take (unat len) d), drop (unat len) d))" for len :: u64
    by (simp add: consumes_def)
  then show ?thesis unfolding get_buffer_def [abs_def] by (intro consumes_bind consumes_number)
qed

lemma consumes_public_key: "consumes (get_public_key cr)"
proof -
  have "consumes (\<lambda>d. get_expected (key_parse_der cr b) (\<lambda>key. Inr (key, d)))" for b
    by (auto simp: consumes_def get_expected_Inr_iff)
  then show ?thesis unfolding get_public_key_def [abs_def] by (intro consumes_bind consumes_buffer)
qed

lemmas consumes_intros = consumes_bind consumes_return consumes_error consumes_if consumes_uint8
  consumes_uint32 consumes_uint64 consumes_list consumes_string consumes_buffer consumes_public_key

lemma consumes_message: "consumes (get_message cr mid)"
  unfolding get_message_def [abs_def] get_payment_def [abs_def] get_create_user_def [abs_def]
    get_channel_message_def [abs_def] get_node_add_def [abs_def] get_create_wallet_def [abs_def]
    get_asset_issue_def [abs_def] get_store_block_def [abs_def] get_host_block_def [abs_def]
  by (intro consumes_intros)

text \<open>\<open>process\<close>: the state \<open>s\<close> is what the handlers change; a handler that returns \<open>false\<close>
  ends the walk.\<close>

function process_messages :: "('pk, 'sk) crypto \<Rightarrow> ('pk transaction_message \<Rightarrow> 's \<Rightarrow> (bool \<times> 's) expected) \<Rightarrow>
    binary_deserializer \<Rightarrow> 's \<Rightarrow> (bool \<times> 's) expected" where
  "process_messages cr visit d s =
     (if d = [] then Inr (True, s)
      else
        get_expected (get_uint8 d) (\<lambda>(message_id, d).
        get_expected (get_message cr message_id d) (\<lambda>(message, d).
        get_expected (visit message s) (\<lambda>(result, s).
          if \<not> result then Inr (False, s) else process_messages cr visit d s))))"
  by pat_completeness auto
termination
proof (relation "measure (\<lambda>(cr, visit, d, s). length d)", goal_cases)
  case (2 cr visit d s x message_id d1 y message d2 z result s2)
  then have "length d1 < length d" by (cases d) auto
  moreover have "length d2 \<le> length d1"
    using 2 consumes_message [of cr message_id] unfolding consumes_def by blast
  ultimately show ?case by simp
qed simp

declare process_messages.simps [simp del]

section \<open>Round trips\<close>

lemma put_buffer_append: "NO_MATCH [] s \<Longrightarrow> put_buffer v s = s @ put_buffer v []"
  by (simp add: put_buffer_def push_data_def add_bytes_def write_number_append [of _ s])

lemma put_string_append: "NO_MATCH [] s \<Longrightarrow> put_string v s = s @ put_string v []"
  by (simp add: put_string_def add_bytes_def write_number_append [of _ s])

lemma put_uint64_append: "NO_MATCH [] s \<Longrightarrow> put_uint64 v s = s @ put_uint64 v []"
  by (simp add: put_uint64_def add_byte_def)

lemma put_uint32_append: "NO_MATCH [] s \<Longrightarrow> put_uint32 v s = s @ put_uint32 v []"
  by (simp add: put_uint32_def add_byte_def)

lemma put_uint8_append: "put_uint8 v s = s @ [v]"
  by (simp add: put_uint8_def add_byte_def)

lemmas put_append = put_buffer_append put_string_append put_uint64_append put_uint32_append

abbreviation small_string :: "cstring \<Rightarrow> bool" where
  "small_string v \<equiv> length v < 2 ^ 64"

lemma get_put_uint64 [roundtrip]: "get_uint64 (put_uint64 v [] @ rest) = Inr (v, rest)"
  by (rule uint64_codec.get_enc) simp

lemma get_put_uint32 [roundtrip]: "get_uint32 (put_uint32 v [] @ rest) = Inr (v, rest)"
  by (rule uint32_codec.get_enc) simp

lemmas [roundtrip] = buffer_codec.get_enc string_codec.get_enc

text \<open>The contract a message needs from the key type: parsing gives back a key that was exported.\<close>

definition good_key :: "('pk, 'sk) crypto \<Rightarrow> 'pk \<Rightarrow> bool" where
  "good_key cr key \<longleftrightarrow>
     (\<exists>der. key_der cr key = Inr der \<and> small_buffer der \<and> key_parse_der cr der = Inr key)"

definition public_key_bytes :: "('pk, 'sk) crypto \<Rightarrow> 'pk \<Rightarrow> byte list" where
  "public_key_bytes cr key = put_buffer (projr (key_der cr key)) []"

interpretation public_key_codec:
  codec "put_public_key cr" "get_public_key cr" "public_key_bytes cr" "good_key cr" for cr
proof
  fix key s rest
  assume "good_key cr key"
  then obtain der where der: "key_der cr key = Inr der" "small_buffer der" "key_parse_der cr der = Inr key"
    by (auto simp: good_key_def)
  then show "put_public_key cr key s = Inr (s @ public_key_bytes cr key)"
    by (cases "s = []") (simp_all add: put_public_key_def public_key_bytes_def put_append)
  from der show "get_public_key cr (public_key_bytes cr key @ rest) = Inr (key, rest)"
    by (simp add: get_public_key_def public_key_bytes_def roundtrip)
qed

text \<open>What a message has to satisfy to be read back.\<close>

fun message_ok :: "('pk, 'sk) crypto \<Rightarrow> 'pk transaction_message \<Rightarrow> bool" where
  "message_ok cr (Payment m) \<longleftrightarrow>
     small_buffer (pt_issuer m) \<and> small_string (pt_currency m) \<and> small_buffer (pt_source_transaction m)
     \<and> small_buffer (pt_source_wallet m) \<and> small_buffer (pt_target_wallet m)
     \<and> small_string (pt_payment_type m) \<and> small_string (pt_notes m) \<and> small_buffer (pt_signature m)"
| "message_ok cr (Channel_message m) \<longleftrightarrow>
     small_buffer (cm_channel_id m) \<and> small_buffer (cm_read_id m) \<and> small_buffer (cm_write_id m)
     \<and> small_buffer (cm_crypted_key m) \<and> small_buffer (cm_crypted_data m) \<and> small_buffer (cm_signature m)"
| "message_ok cr (Create_user m) \<longleftrightarrow>
     small_string (cu_user_email m) \<and> good_key cr (cu_user_public_key m)
     \<and> small_buffer (cu_user_profile_id m) \<and> small_string (cu_user_name m)"
| "message_ok cr (Node_add m) \<longleftrightarrow> good_key cr (na_node_public_key m)"
| "message_ok cr (Create_wallet m) \<longleftrightarrow> small_buffer (cw_id m) \<and> small_buffer (cw_public_key m)"
| "message_ok cr (Asset_issue m) \<longleftrightarrow>
     small_buffer (ai_issuer m) \<and> small_buffer (ai_wallet_id m) \<and> small_string (ai_currency m)
     \<and> small_buffer (ai_signature m)"
| "message_ok cr (Store_block m) \<longleftrightarrow>
     small_buffer (sb_owner_id m) \<and> small_buffer (sb_object_id m)
     \<and> buffer_list_valid (sb_replicas m) \<and> small_buffer (sb_owner_sig m)"
| "message_ok cr (Host_block m) \<longleftrightarrow> small_buffer (hb_owner_id m) \<and> small_buffer (hb_replica_hash m)"

text \<open>The bytes of the body of a message.\<close>

fun body_bytes :: "('pk, 'sk) crypto \<Rightarrow> 'pk transaction_message \<Rightarrow> byte list" where
  "body_bytes cr (Payment m) = put_payment m []"
| "body_bytes cr (Channel_message m) = put_channel_message m []"
| "body_bytes cr (Create_user m) =
     put_string (cu_user_email m) [] @ public_key_bytes cr (cu_user_public_key m)
       @ put_buffer (cu_user_profile_id m) [] @ put_string (cu_user_name m) []"
| "body_bytes cr (Node_add m) = public_key_bytes cr (na_node_public_key m)"
| "body_bytes cr (Create_wallet m) = put_create_wallet m []"
| "body_bytes cr (Asset_issue m) = put_asset_issue m []"
| "body_bytes cr (Store_block m) =
     put_buffer (sb_owner_id m) [] @ put_buffer (sb_object_id m) [] @ put_uint64 (sb_object_size m) []
       @ put_uint32 (sb_replica_size m) [] @ enc_buffer_list (sb_replicas m) @ put_buffer (sb_owner_sig m) []"
| "body_bytes cr (Host_block m) = put_host_block m []"

definition message_bytes :: "('pk, 'sk) crypto \<Rightarrow> 'pk transaction_message \<Rightarrow> byte list" where
  "message_bytes cr m = message_id m # body_bytes cr m"

lemma put_body_bytes: "message_ok cr m \<Longrightarrow> put_body cr m s = Inr (s @ body_bytes cr m)"
  by (cases "s = []"; cases m)
    (simp_all add: put_create_user_def put_node_add_def put_store_block_def put_payment_def
      put_channel_message_def put_create_wallet_def put_asset_issue_def put_host_block_def put_append
      public_key_codec.put_enc buffer_list_codec.put_enc)

lemma get_message_bytes:
  assumes "message_ok cr m"
  shows "get_message cr (message_id m) (body_bytes cr m @ rest) = Inr (m, rest)"
  using assms
  by (cases m)
    (simp_all add: get_message_def roundtrip public_key_codec.get_enc buffer_list_codec.get_enc
      put_payment_def get_payment_def put_channel_message_def get_channel_message_def
      get_create_user_def get_node_add_def put_create_wallet_def get_create_wallet_def
      put_asset_issue_def get_asset_issue_def get_store_block_def put_host_block_def get_host_block_def
      put_append)

text \<open>A whole message, with its identifier.\<close>

interpretation message_codec:
  codec "\<lambda>m s. add_transaction cr (Inr m) s"
    "\<lambda>d. get_expected (get_uint8 d) (\<lambda>(mid, d). get_message cr mid d)" "message_bytes cr" "message_ok cr" for cr
  by unfold_locales
    (simp_all add: add_transaction_def message_bytes_def put_body_bytes get_message_bytes put_uint8_append)

lemma build_messages_bytes:
  "list_all (message_ok cr) ms \<Longrightarrow> build_messages cr ms s = Inr (Data_buffer (s @ concat (map (message_bytes cr) ms)))"
  by (induction ms arbitrary: s) (simp_all add: message_codec.put_enc)

section \<open>The walker on built messages\<close>

text \<open>The handlers called on a list of messages.\<close>

fun visit_all :: "('m \<Rightarrow> 's \<Rightarrow> (bool \<times> 's) expected) \<Rightarrow> 'm list \<Rightarrow> 's \<Rightarrow> (bool \<times> 's) expected" where
  "visit_all visit [] s = Inr (True, s)"
| "visit_all visit (m # ms) s =
     get_expected (visit m s) (\<lambda>(result, s). if \<not> result then Inr (False, s) else visit_all visit ms s)"

lemma process_message_bytes:
  assumes "message_ok cr m"
  shows "process_messages cr visit (message_bytes cr m @ rest) s =
    get_expected (visit m s) (\<lambda>(result, s). if \<not> result then Inr (False, s) else process_messages cr visit rest s)"
  using get_message_bytes [OF assms, of rest]
  by (subst process_messages.simps) (simp add: message_bytes_def)

lemma process_built:
  "list_all (message_ok cr) ms \<Longrightarrow>
   process_messages cr visit (concat (map (message_bytes cr) ms)) s = visit_all visit ms s"
proof (induction ms arbitrary: s)
  case (Cons m ms)
  then have "process_messages cr visit (concat (map (message_bytes cr) ms)) = visit_all visit ms"
    by (simp add: fun_eq_iff)
  with Cons.prems show ?case by (simp add: process_message_bytes cong: if_cong)
qed (simp add: process_messages.simps)

text \<open>The walker visits exactly the messages the builder was given, in their order: on the
  bytes of the builder, \<open>process\<close> is calling the handlers on the messages one after the other,
  stopping at an error or at the first \<open>false\<close>.\<close>

theorem walker_visits_built_messages:
  assumes "\<forall>m \<in> set ms. message_ok cr m"
  shows "\<exists>data. build_messages cr ms [] = Inr (Data_buffer data)
    \<and> (\<forall>visit s. process_messages cr visit data s = visit_all visit ms s)"
  using assms by (auto simp: list_all_iff build_messages_bytes process_built)

theorem walker_visits_built_messages_witness:
  "\<exists>data. build_messages \<lparr>hash_signature = Inr, key_der = Inr, key_parse_der = Inr, key_fingerprint = Inr,
       sign_verify = (\<lambda>_ _ _. Inr True), sign_data = (\<lambda>_ :: unit. Inr)\<rparr>
     [Host_block \<lparr>hb_owner_id = Data_buffer [1], hb_replica_hash = Data_buffer [2, 3]\<rparr>,
      Node_add \<lparr>na_node_public_key = Data_buffer [4]\<rparr>] [] = Inr (Data_buffer data)
   \<and> process_messages \<lparr>hash_signature = Inr, key_der = Inr, key_parse_der = Inr, key_fingerprint = Inr,
       sign_verify = (\<lambda>_ _ _. Inr True), sign_data = (\<lambda>_ :: unit. Inr)\<rparr>
     (\<lambda>m s. Inr (True, s @ [message_id m])) data [] = Inr (True, [0x68, 0x6D])"
proof -
  let ?cr = "\<lparr>hash_signature = Inr, key_der = Inr, key_parse_der = Inr, key_fingerprint = Inr,
       sign_verify = (\<lambda>_ _ _. Inr True), sign_data = (\<lambda>_ :: unit. Inr)\<rparr>"
  let ?ms = "[Host_block \<lparr>hb_owner_id = Data_buffer [1], hb_replica_hash = Data_buffer [2, 3]\<rparr>,
      Node_add \<lparr>na_node_public_key = Data_buffer [4]\<rparr>]"
  have "\<forall>m \<in> set ?ms. message_ok ?cr m" by (simp add: good_key_def small_buffer_def)
  then have "\<exists>data. build_messages ?cr ?ms [] = Inr (Data_buffer data)
    \<and> (\<forall>visit (s :: byte list). process_messages ?cr visit data s = visit_all visit ?ms s)"
    by (rule walker_visits_built_messages)
  then show ?thesis by (elim ex_forward) (simp only: visit_all.simps get_expected_simps prod.case, simp)
qed

text \<open>No two different lists of messages have the same bytes, so the hash and the signature
  of a block determine the messages in it.\<close>

theorem build_messages_injective:
  assumes "\<forall>m \<in> set ms \<union> set ms'. message_ok cr m"
    and "build_messages cr ms [] = Inr data" and "build_messages cr ms' [] = Inr data"
  shows "ms = ms'"
proof -
  from assms have "concat (map (message_bytes cr) ms) = concat (map (message_bytes cr) ms')"
    by (auto simp: build_messages_bytes list_all_iff)
  with assms(1) show ?thesis
  proof (induction ms arbitrary: ms')
    case Nil
    then show ?case by (cases ms') (auto simp: message_bytes_def)
  next
    case (Cons m ms)
    from Cons.prems(2) obtain m' ms2 where ms': "ms' = m' # ms2"
      by (cases ms') (auto simp: message_bytes_def)
    with Cons.prems message_codec.prefix_free [of cr m m'] have "m = m'"
      "concat (map (message_bytes cr) ms) = concat (map (message_bytes cr) ms2)" by auto
    with Cons.IH [of ms2] Cons.prems(1) ms' show ?case by simp
  qed
qed

theorem build_messages_injective_witness:
  "build_messages \<lparr>hash_signature = Inr, key_der = Inr, key_parse_der = Inr, key_fingerprint = Inr,
       sign_verify = (\<lambda>_ _ _. Inr True), sign_data = (\<lambda>_ :: unit. Inr)\<rparr>
     [Node_add \<lparr>na_node_public_key = Data_buffer [4]\<rparr>] []
   \<noteq> build_messages \<lparr>hash_signature = Inr, key_der = Inr, key_parse_der = Inr, key_fingerprint = Inr,
       sign_verify = (\<lambda>_ _ _. Inr True), sign_data = (\<lambda>_ :: unit. Inr)\<rparr>
     [Node_add \<lparr>na_node_public_key = Data_buffer [5]\<rparr>] []"
proof
  let ?cr = "\<lparr>hash_signature = Inr, key_der = Inr, key_parse_der = Inr, key_fingerprint = Inr,
       sign_verify = (\<lambda>_ _ _. Inr True), sign_data = (\<lambda>_ :: unit. Inr)\<rparr>"
  let ?m = "\<lambda>k. [Node_add \<lparr>na_node_public_key = Data_buffer [k]\<rparr>]"
  have ok: "\<forall>m \<in> set (?m 4) \<union> set (?m 5). message_ok ?cr m" by (simp add: good_key_def small_buffer_def)
  then obtain data where data: "build_messages ?cr (?m 4) [] = Inr data"
    using build_messages_bytes [of ?cr "?m 4" "[]"] by auto
  assume "build_messages ?cr (?m 4) [] = build_messages ?cr (?m 5) []"
  with data have "build_messages ?cr (?m 5) [] = Inr data" by simp
  from build_messages_injective [OF ok data this] show False by simp
qed

end
