(* ===== verification/Db_model.thy ===== *)
theory Db_model
  imports Transactions
begin

text \<open>
  The tables of \<open>libs_server/vds_db_model/db_model.cpp\<close> the transaction log works on. A table is the
  list of its rows in insertion order, each row split into its PRIMARY KEY and the rest; SQLite
  refuses an insert whose key (or UNIQUE column) is taken. Columns of type INTEGER that hold
  \<open>uint64_t\<close> values are 64 bit words; a \<open>time_point\<close> is its number of seconds.
\<close>

section \<open>Tables\<close>

type_synonym ('k, 'v) table = "('k \<times> 'v) list"

definition table_insert :: "string \<Rightarrow> 'k \<Rightarrow> 'v \<Rightarrow> ('k, 'v) table \<Rightarrow> ('k, 'v) table expected" where
  "table_insert name k v t =
     (if k \<in> fst ` set t then Inl (Constraint_violation name) else Inr (t @ [(k, v)]))"

definition table_update :: "('k \<Rightarrow> 'v \<Rightarrow> bool) \<Rightarrow> ('v \<Rightarrow> 'v) \<Rightarrow> ('k, 'v) table \<Rightarrow> ('k, 'v) table" where
  "table_update cond f t = map (\<lambda>(k, v). (k, if cond k v then f v else v)) t"

definition table_delete :: "('k \<Rightarrow> 'v \<Rightarrow> bool) \<Rightarrow> ('k, 'v) table \<Rightarrow> ('k, 'v) table" where
  "table_delete cond t = filter (\<lambda>(k, v). \<not> cond k v) t"

abbreviation table_select :: "('k, 'v) table \<Rightarrow> 'k \<Rightarrow> 'v option" where
  "table_select \<equiv> map_of"

abbreviation update_key :: "'k \<Rightarrow> ('v \<Rightarrow> 'v) \<Rightarrow> ('k, 'v) table \<Rightarrow> ('k, 'v) table" where
  "update_key k f \<equiv> table_update (\<lambda>k' _. k' = k) f"

abbreviation delete_key :: "'k \<Rightarrow> ('k, 'v) table \<Rightarrow> ('k, 'v) table" where
  "delete_key k \<equiv> table_delete (\<lambda>k' _. k' = k)"

abbreviation table_keys :: "('k, 'v) table \<Rightarrow> 'k set" where
  "table_keys t \<equiv> fst ` set t"

definition table_ok :: "('k, 'v) table \<Rightarrow> bool" where
  "table_ok t \<longleftrightarrow> distinct (map fst t)"

section \<open>The schema\<close>

datatype log_state = Validated | Processed | Leaf | Invalid

record log_record =
  lr_data :: const_data_buffer
  lr_state :: log_state
  lr_consensus :: bool
  lr_order_no :: u64
  lr_time_point :: int

record vote_request =
  vr_approved :: bool
  vr_new_member :: bool

record balance_row =
  confirmed_balance :: u64
  proposed_balance :: u64

text \<open>Owner, issuer, currency and source transaction.\<close>

type_synonym balance_key = "const_data_buffer \<times> const_data_buffer \<times> cstring \<times> const_data_buffer"

record node_info =
  ni_public_key :: const_data_buffer
  ni_last_activity :: int

record channel_row =
  cr_block_id :: const_data_buffer
  cr_message :: channel_message

record replica_row =
  rd_replica_hash :: const_data_buffer
  rd_replica_size :: u32
  rd_distance :: nat

record database =
  log_records :: "(const_data_buffer, log_record) table"
  log_hierarchy :: "(const_data_buffer \<times> const_data_buffer, unit) table" \<comment> \<open>id, follower id\<close>
  vote_requests :: "(const_data_buffer \<times> const_data_buffer, vote_request) table" \<comment> \<open>id, owner\<close>
  balances :: "(balance_key, balance_row) table"
  member_users :: "(const_data_buffer, const_data_buffer) table"
  node_infos :: "(const_data_buffer, node_info) table"
  wallets :: "(const_data_buffer, const_data_buffer) table"
  channel_messages :: "(nat, channel_row) table" \<comment> \<open>AUTOINCREMENT key\<close>
  channel_sequence :: nat
  replica_data :: "(const_data_buffer \<times> const_data_buffer \<times> u16, replica_row) table" \<comment> \<open>owner, object, replica\<close>
  replica_map :: "(const_data_buffer \<times> const_data_buffer, int) table" \<comment> \<open>replica hash, node; last access\<close>
  replica_payment :: "(const_data_buffer \<times> const_data_buffer \<times> const_data_buffer, int) table" \<comment> \<open>owner, hash, node; last payment\<close>

text \<open>The database after \<open>db_model::migrate\<close>.\<close>

definition empty_database :: database where
  "empty_database = \<lparr>log_records = [], log_hierarchy = [], vote_requests = [], balances = [],
     member_users = [], node_infos = [], wallets = [], channel_messages = [], channel_sequence = 0,
     replica_data = [], replica_map = [], replica_payment = []\<rparr>"

text \<open>The constraint UNIQUE(replica_hash) of \<open>chunk_replica_data\<close>.\<close>

definition insert_replica_data :: "const_data_buffer \<times> const_data_buffer \<times> u16 \<Rightarrow> replica_row \<Rightarrow>
    (const_data_buffer \<times> const_data_buffer \<times> u16, replica_row) table \<Rightarrow>
    (const_data_buffer \<times> const_data_buffer \<times> u16, replica_row) table expected" where
  "insert_replica_data k row t =
     (if rd_replica_hash row \<in> (rd_replica_hash \<circ> snd) ` set t
      then Inl (Constraint_violation ''chunk_replica_data'')
      else table_insert ''chunk_replica_data'' k row t)"

text \<open>AUTOINCREMENT: a new key is larger than every key ever used.\<close>

definition insert_channel_message :: "channel_row \<Rightarrow> database \<Rightarrow> database" where
  "insert_channel_message row db =
     db\<lparr>channel_messages := channel_messages db @ [(channel_sequence db + 1, row)],
        channel_sequence := channel_sequence db + 1\<rparr>"

section \<open>Lemmas on tables\<close>

lemma table_insert_Inr [expected_simps]:
  "table_insert name k v t = Inr t' \<longleftrightarrow> k \<notin> table_keys t \<and> t' = t @ [(k, v)]"
  by (auto simp: table_insert_def)

lemma table_select_None: "table_select t k = None \<longleftrightarrow> k \<notin> table_keys t"
  by (simp add: map_of_eq_None_iff)

lemma in_table_keys: "(k, v) \<in> set t \<Longrightarrow> k \<in> table_keys t"
  by force

lemma delete_key_insert: "k \<notin> table_keys t \<Longrightarrow> delete_key k (t @ [(k, v)]) = t"
  by (auto simp: table_delete_def filter_id_conv dest: in_table_keys)

lemma delete_missing: "(\<And>k v. (k, v) \<in> set t \<Longrightarrow> \<not> cond k v) \<Longrightarrow> table_delete cond t = t"
  by (auto simp: table_delete_def filter_id_conv)

lemma table_delete_append: "table_delete cond (t @ u) = table_delete cond t @ table_delete cond u"
  by (simp add: table_delete_def)

lemma table_update_append: "table_update cond f (t @ u) = table_update cond f t @ table_update cond f u"
  by (simp add: table_update_def)

lemma keys_update [simp]: "table_keys (table_update cond f t) = table_keys t"
  by (force simp: table_update_def)

lemma map_fst_update [simp]: "map fst (table_update cond f t) = map fst t"
  by (induction t) (auto simp: table_update_def)

lemma update_key_missing: "k \<notin> table_keys t \<Longrightarrow> update_key k f t = t"
  by (auto simp: table_update_def intro!: map_idI dest: in_table_keys)

lemma update_key_undo:
  assumes "table_ok t" "table_select t k = Some v" "g (f v) = v"
  shows "update_key k g (update_key k f t) = t"
proof -
  have "w = v" if "(k, w) \<in> set t" for w
    using assms(1,2) that by (simp add: table_ok_def)
  with assms(3) show ?thesis by (auto simp: table_update_def intro!: map_idI)
qed

lemma select_update_key:
  "table_select (update_key k f t) k' = (if k' = k then map_option f (table_select t k) else table_select t k')"
  by (induction t) (auto simp: table_update_def)

lemma select_insert:
  "k \<notin> table_keys t \<Longrightarrow> table_select (t @ [(k, v)]) k' = (if k' = k then Some v else table_select t k')"
  by (auto simp: map_of_append map_add_def table_select_None [symmetric] split: option.splits)

lemma table_ok_insert: "table_ok t \<Longrightarrow> table_insert name k v t = Inr t' \<Longrightarrow> table_ok t'"
  by (auto simp: table_ok_def expected_simps)

lemma table_ok_update: "table_ok t \<Longrightarrow> table_ok (table_update cond f t)"
  by (simp add: table_ok_def)

lemma table_ok_delete: "table_ok t \<Longrightarrow> table_ok (table_delete cond t)"
  by (simp add: table_ok_def table_delete_def distinct_map_filter)

end
