(* ===== verification/Transaction_block.thy ===== *)
theory Transaction_block
  imports Db_model
begin

text \<open>
  \<open>libs_server/vds_log_sync/impl/transaction_block.cpp\<close>: the signed block that carries the messages.
  Its identifier is the hash of all its bytes. A \<open>time_point\<close> is its number of seconds
  (\<open>from_time_t\<close> and \<open>to_time_t\<close>).
\<close>

section \<open>The block\<close>

record transaction_block =
  tb_version :: u32
  tb_time_point :: int
  tb_id :: const_data_buffer
  tb_order_no :: u64
  tb_write_public_key_id :: const_data_buffer
  tb_ancestors :: "const_data_buffer list" \<comment> \<open>std::set\<close>
  tb_messages :: const_data_buffer
  tb_signature :: const_data_buffer

definition current_version :: u32 where
  "current_version = 0x31564453"

definition from_time_t :: "u64 \<Rightarrow> int" where
  "from_time_t t = sint t"

definition to_time_t :: "int \<Rightarrow> u64" where
  "to_time_t t = word_of_int t"

definition block_create :: "('pk, 'sk) crypto \<Rightarrow> const_data_buffer \<Rightarrow> transaction_block expected" where
  "block_create cr data =
     get_expected (hash_signature cr data) (\<lambda>bid.
     get_expected (get_uint32 (buffer_data data)) (\<lambda>(version, s).
     if version \<noteq> current_version then Inl (Runtime_error ''Invalid block version'')
     else
       get_expected (get_uint64 s) (\<lambda>(time_point, s).
       get_expected (get_uint64 s) (\<lambda>(order_no, s).
       get_expected (get_buffer s) (\<lambda>(write_public_key_id, s).
       get_expected (get_set get_buffer s) (\<lambda>(ancestors, s).
       get_expected (get_buffer s) (\<lambda>(block_messages, s).
       get_expected (get_buffer s) (\<lambda>(signature, s).
         Inr \<lparr>tb_version = version, tb_time_point = from_time_t time_point, tb_id = bid,
              tb_order_no = order_no, tb_write_public_key_id = write_public_key_id,
              tb_ancestors = ancestors, tb_messages = block_messages, tb_signature = signature\<rparr>))))))))"

text \<open>The bytes that are signed.\<close>

definition block_data :: "u32 \<Rightarrow> u64 \<Rightarrow> u64 \<Rightarrow> const_data_buffer \<Rightarrow> const_data_buffer list \<Rightarrow> const_data_buffer \<Rightarrow>
    binary_serializer expected" where
  "block_data version time_point order_no write_public_key_id ancestors messages =
     get_expected (put_list (total_put put_buffer) ancestors
       (put_buffer write_public_key_id (put_uint64 order_no (put_uint64 time_point (put_uint32 version [])))))
       (\<lambda>s. Inr (put_buffer messages s))"

definition block_validate :: "('pk, 'sk) crypto \<Rightarrow> 'pk \<Rightarrow> transaction_block \<Rightarrow> bool expected" where
  "block_validate cr write_public_key b =
     get_expected (block_data (tb_version b) (to_time_t (tb_time_point b)) (tb_order_no b)
         (tb_write_public_key_id b) (tb_ancestors b) (tb_messages b)) (\<lambda>s.
       sign_verify cr write_public_key (tb_signature b) (Data_buffer s))"

definition block_exists :: "transaction_block \<Rightarrow> database \<Rightarrow> bool" where
  "block_exists b db \<longleftrightarrow> table_select (log_records db) (tb_id b) \<noteq> None"

text \<open>The loop over the leaves of the log: their ids and the largest order number.\<close>

fun build_leafs :: "(const_data_buffer, log_record) table \<Rightarrow> const_data_buffer list \<times> u64 \<Rightarrow> const_data_buffer list \<times> u64" where
  "build_leafs [] acc = acc"
| "build_leafs ((rid, r) # rs) (ancestors, order_no) =
     build_leafs rs (set_emplace rid ancestors, if order_no < lr_order_no r then lr_order_no r else order_no)"

text \<open>\<open>now\<close> is the clock.\<close>

definition block_build :: "('pk, 'sk) crypto \<Rightarrow> int \<Rightarrow> database \<Rightarrow> const_data_buffer \<Rightarrow> 'pk \<Rightarrow> 'sk \<Rightarrow>
    const_data_buffer expected" where
  "block_build cr now db messages node_public_key node_key =
     vds_assert (0 \<noteq> buffer_size messages) ''0 != messages.size()''
       (let (ancestors, order_no) =
              build_leafs (filter (\<lambda>(rid, r). lr_state r = Leaf) (log_records db)) ([], 0)
        in get_expected (key_fingerprint cr node_public_key) (\<lambda>fingerprint.
           get_expected (block_data current_version (to_time_t now) (order_no + 1) fingerprint ancestors messages) (\<lambda>s.
           get_expected (sign_data cr node_key (Data_buffer s)) (\<lambda>sig_data.
             Inr (Data_buffer (put_buffer sig_data s))))))"

section \<open>Building, parsing, validating\<close>

lemma build_leafs_spec:
  "is_set anc \<Longrightarrow> build_leafs rs (anc, n) = (anc', n') \<Longrightarrow>
     is_set anc' \<and> set anc' = set anc \<union> fst ` set rs \<and> n \<le> n' \<and> (\<forall>(rid, r) \<in> set rs. lr_order_no r \<le> n')
     \<and> (n' = n \<or> (\<exists>(rid, r) \<in> set rs. lr_order_no r = n'))"
proof (induction rs "(anc, n)" arbitrary: anc n rule: build_leafs.induct)
  case (2 rid r rs anc n)
  let ?n = "if n < lr_order_no r then lr_order_no r else n"
  have "is_set (set_emplace rid anc)" using 2(2) by (simp add: is_set_emplace)
  from 2(1) [OF this] 2(3) have IH: "is_set anc'" "set anc' = set (set_emplace rid anc) \<union> fst ` set rs" "?n \<le> n'"
    "\<forall>(rid, r) \<in> set rs. lr_order_no r \<le> n'" "n' = ?n \<or> (\<exists>(rid, r) \<in> set rs. lr_order_no r = n')" by auto
  then show ?case by (auto simp: set_insort_insert split: if_splits)
qed auto

lemma block_data_bytes:
  assumes "buffer_list_valid ancestors"
  shows "block_data version time_point order_no key ancestors messages =
    Inr (put_uint32 version [] @ put_uint64 time_point [] @ put_uint64 order_no [] @ put_buffer key []
       @ enc_buffer_list ancestors @ put_buffer messages [])"
  by (simp add: block_data_def put_append buffer_list_codec.put_enc [OF assms])

lemma to_from_time_t [simp]: "to_time_t (from_time_t t) = t"
  by (simp add: to_time_t_def from_time_t_def)

lemma from_to_time_t: "- (2 ^ 63) \<le> t \<Longrightarrow> t < 2 ^ 63 \<Longrightarrow> from_time_t (to_time_t t) = t"
  by (simp add: to_time_t_def from_time_t_def signed_of_int signed_take_bit_int_eq_self)

text \<open>What limits of the reader a block has to stay within.\<close>

definition block_ok :: "const_data_buffer \<Rightarrow> const_data_buffer list \<Rightarrow> const_data_buffer \<Rightarrow> const_data_buffer \<Rightarrow> bool" where
  "block_ok key ancestors messages sig_data \<longleftrightarrow>
     small_buffer key \<and> buffer_set_valid ancestors \<and> small_buffer messages \<and> small_buffer sig_data"

lemma block_create_bytes:
  assumes "block_ok key ancestors messages sig_data" "hash_signature cr data = Inr bid"
    and "data = Data_buffer (put_uint32 current_version [] @ put_uint64 time_point [] @ put_uint64 order_no []
       @ put_buffer key [] @ enc_buffer_list ancestors @ put_buffer messages [] @ put_buffer sig_data [] @ rest)"
  shows "block_create cr data = Inr \<lparr>tb_version = current_version, tb_time_point = from_time_t time_point, tb_id = bid,
     tb_order_no = order_no, tb_write_public_key_id = key, tb_ancestors = ancestors, tb_messages = messages,
     tb_signature = sig_data\<rparr>"
  using assms by (simp add: block_create_def block_ok_def roundtrip buffer_set_codec.get_enc)

section \<open>Properties\<close>

text \<open>The record keys of the leaves.\<close>

definition leaf_ids :: "database \<Rightarrow> const_data_buffer set" where
  "leaf_ids db = {i. \<exists>r. (i, r) \<in> set (log_records db) \<and> lr_state r = Leaf}"

lemma build_leafs_db:
  assumes "build_leafs (filter (\<lambda>(i, r). lr_state r = Leaf) (log_records db)) ([], 0) = (ancestors, n)"
  shows "is_set ancestors" "set ancestors = leaf_ids db"
    and "(i, r) \<in> set (log_records db) \<Longrightarrow> lr_state r = Leaf \<Longrightarrow> lr_order_no r \<le> n"
  using build_leafs_spec [OF _ assms] by (force simp: leaf_ids_def)+

lemma less_next: "x \<le> n \<Longrightarrow> n + 1 = 0 \<or> x < n + (1 :: u64)"
  using unatSuc [of n] by (cases "1 + n = 0") (simp_all add: word_less_nat_alt word_le_nat_alt add.commute)

text \<open>C34: A block that \<open>build\<close> makes is parsed by \<open>create\<close> and accepted by \<open>validate\<close> under the
  key of its author; its ancestors are the leaves of the log, its messages and author are the given
  ones and its order number is above that of every leaf (while the numbers do not wrap). What is
  asked of OpenSSL: a signature verifies, and a hash can be computed.\<close>

theorem build_create_validate:
  assumes build: "block_build cr now db messages pk sk = Inr data"
    and sign: "\<And>d s. sign_data cr sk d = Inr s \<Longrightarrow> sign_verify cr pk s d = Inr True \<and> small_buffer s"
    and hash: "\<And>d. \<exists>h. hash_signature cr d = Inr h"
    and fp: "\<And>f. key_fingerprint cr pk = Inr f \<Longrightarrow> small_buffer f"
    and small: "small_buffer messages" "\<forall>i \<in> table_keys (log_records db). small_buffer i"
      "length (log_records db) < 2 ^ 64" "- (2 ^ 63) \<le> now" "now < 2 ^ 63"
  shows "\<exists>b. block_create cr data = Inr b \<and> block_validate cr pk b = Inr True
    \<and> set (tb_ancestors b) = leaf_ids db \<and> tb_messages b = messages
    \<and> key_fingerprint cr pk = Inr (tb_write_public_key_id b) \<and> tb_time_point b = now
    \<and> (\<forall>(i, r) \<in> set (log_records db). lr_state r = Leaf \<longrightarrow> tb_order_no b = 0 \<or> lr_order_no r < tb_order_no b)"
proof -
  obtain ancestors n where leafs: "build_leafs (filter (\<lambda>(i, r). lr_state r = Leaf) (log_records db)) ([], 0) = (ancestors, n)"
    by (cases "build_leafs (filter (\<lambda>(i, r). lr_state r = Leaf) (log_records db)) ([], 0)")
  note anc = build_leafs_db [OF leafs]
  have sub: "set ancestors \<subseteq> table_keys (log_records db)" by (force simp: anc(2) leaf_ids_def)
  have "length ancestors \<le> length (log_records db)"
  proof -
    have "length ancestors = card (set ancestors)" using anc(1) by (simp add: distinct_card is_set_sorted)
    also have "\<dots> \<le> card (table_keys (log_records db))" using sub by (intro card_mono) simp_all
    also have "\<dots> \<le> length (log_records db)" using card_image_le card_length le_trans by blast
    finally show ?thesis .
  qed
  with anc(1) sub small(2,3) have valid: "buffer_set_valid ancestors" "buffer_list_valid ancestors"
    by (auto simp: buffer_set_valid_def buffer_list_valid_def list_all_iff)
  from build obtain f s sig_data where f: "key_fingerprint cr pk = Inr f"
    and s: "block_data current_version (to_time_t now) (n + 1) f ancestors messages = Inr s"
    and sig: "sign_data cr sk (Data_buffer s) = Inr sig_data" and data: "data = Data_buffer (put_buffer sig_data s)"
    by (auto simp: block_build_def leafs vds_assert_Inr_iff get_expected_Inr_iff)
  obtain h where h: "hash_signature cr data = Inr h" using hash by blast
  let ?b = "\<lparr>tb_version = current_version, tb_time_point = from_time_t (to_time_t now), tb_id = h,
     tb_order_no = n + 1, tb_write_public_key_id = f, tb_ancestors = ancestors, tb_messages = messages,
     tb_signature = sig_data\<rparr>"
  have "block_create cr data = Inr ?b"
    by (rule block_create_bytes [where rest = "[]"])
      (use s data h sign [OF sig] fp [OF f] small(1) valid in \<open>auto simp: block_ok_def block_data_bytes put_append\<close>)
  moreover have "block_validate cr pk ?b = Inr True"
    using s sign [OF sig] by (simp add: block_validate_def)
  moreover have "n + 1 = 0 \<or> lr_order_no r < n + 1" if "(i, r) \<in> set (log_records db)" "lr_state r = Leaf" for i r
    using anc(3) [OF that] by (rule less_next)
  ultimately show ?thesis
    using anc(2) f small(4,5) by (intro exI [of _ ?b]) (auto simp: from_to_time_t)
qed

theorem build_create_validate_witness:
  "\<exists>data b. block_build \<lparr>hash_signature = Inr, key_der = Inr, key_parse_der = Inr, key_fingerprint = Inr,
       sign_verify = (\<lambda>_ s _. Inr (s = Data_buffer [7])), sign_data = (\<lambda>_ :: unit. \<lambda>_. Inr (Data_buffer [7]))\<rparr>
     5 empty_database (Data_buffer [1]) (Data_buffer [2]) () = Inr data
   \<and> block_create \<lparr>hash_signature = Inr, key_der = Inr, key_parse_der = Inr, key_fingerprint = Inr,
       sign_verify = (\<lambda>_ s _. Inr (s = Data_buffer [7])), sign_data = (\<lambda>_ :: unit. \<lambda>_. Inr (Data_buffer [7]))\<rparr> data = Inr b
   \<and> tb_messages b = Data_buffer [1] \<and> tb_time_point b = 5"
proof -
  let ?cr = "\<lparr>hash_signature = Inr, key_der = Inr, key_parse_der = Inr, key_fingerprint = Inr,
       sign_verify = (\<lambda>_ s _. Inr (s = Data_buffer [7])), sign_data = (\<lambda>_ :: unit. \<lambda>_. Inr (Data_buffer [7]))\<rparr>"
  have "buffer_list_valid []" by (simp add: buffer_list_valid_def)
  then obtain data where data: "block_build ?cr 5 empty_database (Data_buffer [1]) (Data_buffer [2]) () = Inr data"
    by (auto simp: block_build_def empty_database_def block_data_bytes)
  then have "\<exists>b. block_create ?cr data = Inr b \<and> block_validate ?cr (Data_buffer [2]) b = Inr True
    \<and> set (tb_ancestors b) = leaf_ids empty_database \<and> tb_messages b = Data_buffer [1]
    \<and> key_fingerprint ?cr (Data_buffer [2]) = Inr (tb_write_public_key_id b) \<and> tb_time_point b = 5
    \<and> (\<forall>(i, r) \<in> set (log_records empty_database).
         lr_state r = Leaf \<longrightarrow> tb_order_no b = 0 \<or> lr_order_no r < tb_order_no b)"
    by (rule build_create_validate) (auto simp: small_buffer_def empty_database_def)
  with data show ?thesis by blast
qed

text \<open>The signed bytes determine every field of the block: version, time, order number, author,
  ancestors and messages, so a valid signature cannot be moved to a block with other contents.\<close>

theorem signed_bytes_injective:
  assumes "block_ok k a m sg" "block_ok k' a' m' sg'"
    and "block_data v t o1 k a m = block_data v' t' o1' k' a' m'"
  shows "v = v' \<and> t = t' \<and> o1 = o1' \<and> k = k' \<and> a = a' \<and> m = m'"
proof -
  from assms(1,2) have ok: "buffer_list_valid a" "buffer_list_valid a'" "small_buffer k" "small_buffer k'"
    "small_buffer m" "small_buffer m'"
    by (auto simp: block_ok_def buffer_set_valid_def buffer_list_valid_def)
  have "put_uint32 v [] @ put_uint64 t [] @ put_uint64 o1 [] @ put_buffer k [] @ enc_buffer_list a @ put_buffer m [] @ []
    = put_uint32 v' [] @ put_uint64 t' [] @ put_uint64 o1' [] @ put_buffer k' [] @ enc_buffer_list a' @ put_buffer m' [] @ []"
    using assms(3) by (simp add: block_data_bytes ok)
  from uint32_codec.prefix_free [OF TrueI TrueI this] have v: "v = v'"
    and "put_uint64 t [] @ put_uint64 o1 [] @ put_buffer k [] @ enc_buffer_list a @ put_buffer m [] @ []
      = put_uint64 t' [] @ put_uint64 o1' [] @ put_buffer k' [] @ enc_buffer_list a' @ put_buffer m' [] @ []"
    by blast+
  from uint64_codec.prefix_free [OF TrueI TrueI this(2)] have t: "t = t'"
    and "put_uint64 o1 [] @ put_buffer k [] @ enc_buffer_list a @ put_buffer m [] @ []
      = put_uint64 o1' [] @ put_buffer k' [] @ enc_buffer_list a' @ put_buffer m' [] @ []"
    by blast+
  from uint64_codec.prefix_free [OF TrueI TrueI this(2)] have o1: "o1 = o1'"
    and "put_buffer k [] @ enc_buffer_list a @ put_buffer m [] @ []
      = put_buffer k' [] @ enc_buffer_list a' @ put_buffer m' [] @ []"
    by blast+
  from buffer_codec.prefix_free [OF ok(3,4) this(2)] have k: "k = k'"
    and "enc_buffer_list a @ put_buffer m [] @ [] = enc_buffer_list a' @ put_buffer m' [] @ []"
    by blast+
  from buffer_list_codec.prefix_free [OF ok(1,2) this(2)] have a: "a = a'"
    and "put_buffer m [] @ [] = put_buffer m' [] @ []"
    by blast+
  from buffer_codec.prefix_free [OF ok(5,6) this(2)] v t o1 k a show ?thesis by blast
qed

theorem signed_bytes_injective_witness:
  "block_data 1 2 3 (Data_buffer [4]) [Data_buffer [5]] (Data_buffer [6])
    \<noteq> block_data 1 2 3 (Data_buffer [4]) [Data_buffer [5]] (Data_buffer [7])"
  using signed_bytes_injective [of "Data_buffer [4]" "[Data_buffer [5]]" "Data_buffer [6]" "Data_buffer []"
      "Data_buffer [4]" "[Data_buffer [5]]" "Data_buffer [7]" "Data_buffer []" 1 2 3 1 2 3]
  by (auto simp: block_ok_def small_buffer_def buffer_set_valid_def)

end
