(* ===== verification/Dht_object_id.thy ===== *)
theory Dht_object_id
  imports VDS_Prelude
begin

text \<open>
  \<open>libs_server/vds_dht_network/include/dht_object_id.h\<close>: the metric of the distributed hash
  table. Identifiers are byte buffers; their distance is the bitwise exclusive or, and
  \<open>distance_exp\<close> the position of the first bit in which they differ.
\<close>

definition dht_distance :: "const_data_buffer \<Rightarrow> const_data_buffer \<Rightarrow> const_data_buffer" where
  "dht_distance left right =
     (let (pleft, pright) = (if buffer_size left < buffer_size right then (buffer_data left, buffer_data right)
                             else (buffer_data right, buffer_data left))
      in Data_buffer (map2 (XOR) pleft pright @ drop (length pleft) pright))"

text \<open>The loop over \<open>mask\<close>; \<open>result\<close> counts.\<close>

function distance_mask_loop :: "byte \<Rightarrow> byte \<Rightarrow> nat \<Rightarrow> nat" where
  "distance_mask_loop b msk result =
     (if msk \<noteq> 0 then (if b \<ge> msk then result else distance_mask_loop b (drop_bit 1 msk) (result + 1))
      else result)"
  by pat_completeness auto
termination
proof (relation "measure (\<lambda>(b, msk, result). unat msk)", goal_cases)
  case (2 b msk result)
  then have "unat msk div 2 < unat msk" by (simp add: unat_gt_0)
  then show ?case by (simp add: unat_drop_bit_eq drop_bit_eq_div unat_div)
qed simp

declare distance_mask_loop.simps [simp del]

text \<open>The loop over the common length; \<open>None\<close> when it ends without a difference.\<close>

fun distance_exp_loop :: "nat \<Rightarrow> byte list \<Rightarrow> byte list \<Rightarrow> nat option" where
  "distance_exp_loop i (x # xs) (y # ys) =
     (let b = x XOR y
      in if b = 0 then distance_exp_loop (i + 1) xs ys else Some (distance_mask_loop b 0x80 (8 * i)))"
| "distance_exp_loop i _ _ = None"

definition distance_exp :: "const_data_buffer \<Rightarrow> const_data_buffer \<Rightarrow> nat" where
  "distance_exp left right =
     (case distance_exp_loop 0 (buffer_data left) (buffer_data right) of
        Some result \<Rightarrow> result
      | None \<Rightarrow> if buffer_size left = buffer_size right then 0
                else 8 * min (buffer_size left) (buffer_size right))"

text \<open>\<open>generate_random_id(original, exp_index)\<close>; \<open>rand\<close> gives the values of \<open>std::rand()\<close>.\<close>

definition generate_random_id :: "(nat \<Rightarrow> byte) \<Rightarrow> const_data_buffer \<Rightarrow> nat \<Rightarrow> const_data_buffer expected" where
  "generate_random_id rand original exp_index =
     (if buffer_size original \<le> exp_index div 8 then Inl (Undefined_behaviour ''index out of range'')
      else
        let i = exp_index div 8;
            msk = drop_bit (exp_index mod 8) (0x80 :: byte);
            b = (buffer_data original ! i XOR msk) XOR ((msk - 1) AND rand i);
            result = take i (buffer_data original) @ [b]
                       @ map rand [Suc i..<buffer_size original]
        in vds_assert (exp_index = distance_exp original (Data_buffer result))
             ''exp_index == distance_exp(original, result)'' (Inr (Data_buffer result)))"

section \<open>The metric\<close>

text \<open>Bits numbered from the most significant bit of the first byte, as \<open>distance_exp\<close> counts.\<close>

definition id_bit :: "byte list \<Rightarrow> nat \<Rightarrow> bool" where
  "id_bit d n \<longleftrightarrow> bit (d ! (n div 8)) (7 - n mod 8)"

lemma mask_loop_unfold:
  "distance_mask_loop b 0x80 r =
     (if b \<ge> 0x80 then r else if b \<ge> 0x40 then r + 1 else if b \<ge> 0x20 then r + 2 else if b \<ge> 0x10 then r + 3
      else if b \<ge> 8 then r + 4 else if b \<ge> 4 then r + 5 else if b \<ge> 2 then r + 6 else if b \<ge> 1 then r + 7 else r + 8)"
proof -
  have step: "distance_mask_loop b m r = (if b \<ge> m then r else distance_mask_loop b m' (r + 1))"
    if "m \<noteq> 0" "drop_bit 1 m = m'" for m m' r
    using that by (subst distance_mask_loop.simps) simp
  have drop: "drop_bit 1 (0x80 :: byte) = 0x40" "drop_bit 1 (0x40 :: byte) = 0x20" "drop_bit 1 (0x20 :: byte) = 0x10"
    "drop_bit 1 (0x10 :: byte) = 8" "drop_bit 1 (8 :: byte) = 4" "drop_bit 1 (4 :: byte) = 2"
    "drop_bit 1 (2 :: byte) = 1" "drop_bit 1 (1 :: byte) = 0"
    by code_simp+
  have last: "distance_mask_loop b 0 r = r" for r
    by (subst distance_mask_loop.simps) simp
  show ?thesis
    by (simp add: step [OF _ drop(1)] step [OF _ drop(2)] step [OF _ drop(3)] step [OF _ drop(4)]
        step [OF _ drop(5)] step [OF _ drop(6)] step [OF _ drop(7)] step [OF _ drop(8)] last)
qed

text \<open>The loop finds the leading bit of a byte that is not zero.\<close>

lemma mask_loop_leading:
  assumes "b \<noteq> 0"
  shows "\<exists>n < 8. distance_mask_loop b 0x80 r = r + n \<and> bit b (7 - n) \<and> (\<forall>m < n. \<not> bit b (7 - m))"
proof -
  have lead: "bit b k \<and> (\<forall>j > k. \<not> bit b j)" if "2 ^ k \<le> unat b" "unat b < 2 ^ Suc k" for k
  proof -
    have "unat b div 2 ^ k = 1" using that by (simp add: div_nat_eqI)
    then have "bit (unat b) k" by (simp add: bit_iff_odd)
    moreover have "\<not> bit (unat b) j" if "j > k" for j
    proof -
      have "(2::nat) ^ Suc k \<le> 2 ^ j" using that by (intro power_increasing) auto
      with \<open>unat b < 2 ^ Suc k\<close> have "unat b div 2 ^ j = 0" by simp
      then show ?thesis by (simp add: bit_iff_odd)
    qed
    ultimately show ?thesis by (auto simp: bit_unsigned_iff bit_imp_le_length)
  qed
  have goal: ?thesis
    if "distance_mask_loop b 0x80 r = r + n" "n < 8" "2 ^ (7 - n) \<le> unat b" "unat b < 2 ^ Suc (7 - n)" for n
    using lead [OF that(3,4)] that(1,2) by (intro exI [of _ n]) auto
  have "0 < unat b" "unat b < 256" using assms unsigned_less [of b, where ?'a = nat] by (auto simp: unat_gt_0)
  then consider "128 \<le> unat b" "unat b < 256" | "64 \<le> unat b" "unat b < 128" | "32 \<le> unat b" "unat b < 64"
    | "16 \<le> unat b" "unat b < 32" | "8 \<le> unat b" "unat b < 16" | "4 \<le> unat b" "unat b < 8"
    | "2 \<le> unat b" "unat b < 4" | "1 \<le> unat b" "unat b < 2" by linarith
  then show ?thesis
  proof cases
    case 1 then show ?thesis by (intro goal [of 0]) (simp_all add: mask_loop_unfold word_le_nat_alt)
  next
    case 2 then show ?thesis by (intro goal [of 1]) (simp_all add: mask_loop_unfold word_le_nat_alt)
  next
    case 3 then show ?thesis by (intro goal [of 2]) (simp_all add: mask_loop_unfold word_le_nat_alt)
  next
    case 4 then show ?thesis by (intro goal [of 3]) (simp_all add: mask_loop_unfold word_le_nat_alt)
  next
    case 5 then show ?thesis by (intro goal [of 4]) (simp_all add: mask_loop_unfold word_le_nat_alt)
  next
    case 6 then show ?thesis by (intro goal [of 5]) (simp_all add: mask_loop_unfold word_le_nat_alt)
  next
    case 7 then show ?thesis by (intro goal [of 6]) (simp_all add: mask_loop_unfold word_le_nat_alt)
  next
    case 8 then show ?thesis by (intro goal [of 7]) (simp_all add: mask_loop_unfold word_le_nat_alt)
  qed
qed

lemma mask_loop_eq:
  assumes "n < 8" "bit b (7 - n)" "\<forall>m < n. \<not> bit b (7 - m)"
  shows "distance_mask_loop b 0x80 r = r + n"
proof -
  from assms(2) have "b \<noteq> 0" by auto
  from mask_loop_leading [OF this] obtain k where k: "k < 8" "distance_mask_loop b 0x80 r = r + k"
    "bit b (7 - k)" "\<forall>m < k. \<not> bit b (7 - m)" by blast
  with assms have "\<not> k < n" "\<not> n < k" by auto
  with k show ?thesis by simp
qed

lemma buffer_data_inject: "buffer_data a = buffer_data b \<longleftrightarrow> a = b"
  by (cases a; cases b) simp

lemma xor_eq_0: "x XOR y = 0 \<longleftrightarrow> x = (y :: 'a::len word)"
proof
  assume "x XOR y = 0"
  then have "bit (x XOR y) n = False" for n by simp
  then show "x = y" by (intro bit_word_eqI) (auto simp: bit_xor_iff)
qed simp

lemma exp_loop_prefix:
  "distance_exp_loop i (ps @ xs) (ps @ ys) = distance_exp_loop (i + length ps) xs ys"
  by (induction ps arbitrary: i) (simp_all add: Let_def)

lemma exp_loop_None: "length xs = length ys \<Longrightarrow> distance_exp_loop i xs ys = None \<longleftrightarrow> xs = ys"
  by (induction xs ys arbitrary: i rule: list_induct2) (auto simp: Let_def xor_eq_0)

lemma exp_loop_Some:
  "length xs = length ys \<Longrightarrow> distance_exp_loop i xs ys = Some e \<Longrightarrow>
   \<exists>n. e = 8 * i + n \<and> n < 8 * length xs \<and> id_bit xs n \<noteq> id_bit ys n \<and> (\<forall>m < n. id_bit xs m = id_bit ys m)"
proof (induction xs ys arbitrary: i rule: list_induct2)
  case (Cons x xs y ys)
  show ?case
  proof (cases "x = y")
    case True
    with Cons.prems have "distance_exp_loop (i + 1) xs ys = Some e" by (simp add: Let_def)
    from Cons.IH [OF this] obtain n where n: "e = 8 * (i + 1) + n" "n < 8 * length xs"
      "id_bit xs n \<noteq> id_bit ys n" "\<forall>m < n. id_bit xs m = id_bit ys m" by blast
    have shift: "id_bit (z # zs) (8 + m) = id_bit zs m" for z zs m
    proof -
      have "(8 + m) div 8 = Suc (m div 8)" by simp
      then show ?thesis by (simp add: id_bit_def)
    qed
    have "id_bit (x # xs) m = id_bit (y # ys) m" if "m < 8 + n" for m
      using that n(4) True shift [of x xs "m - 8"] shift [of y ys "m - 8"]
      by (cases "m < 8") (auto simp: id_bit_def)
    with n show ?thesis by (intro exI [of _ "8 + n"]) (simp add: shift)
  next
    case False
    then have ne: "x XOR y \<noteq> 0" by (simp add: xor_eq_0)
    with Cons.prems have "e = distance_mask_loop (x XOR y) 0x80 (8 * i)" by (simp add: Let_def)
    with mask_loop_leading [OF ne] obtain n where "n < 8" "e = 8 * i + n" "bit (x XOR y) (7 - n)"
      "\<forall>m < n. \<not> bit (x XOR y) (7 - m)" by blast
    then show ?thesis by (intro exI [of _ n]) (auto simp: id_bit_def bit_xor_iff)
  qed
qed simp

section \<open>Properties\<close>

text \<open>For different identifiers of the same length \<open>distance_exp\<close> is the position of the first
  bit in which they differ, counted from the most significant bit of the first byte; it is
  symmetric and below the number of bits.\<close>

theorem distance_exp_first_difference:
  assumes "buffer_size left = buffer_size right" "left \<noteq> right"
  shows "distance_exp left right < 8 * buffer_size left
    \<and> id_bit (buffer_data left) (distance_exp left right) \<noteq> id_bit (buffer_data right) (distance_exp left right)
    \<and> (\<forall>m < distance_exp left right. id_bit (buffer_data left) m = id_bit (buffer_data right) m)
    \<and> distance_exp right left = distance_exp left right"
proof -
  have ne: "buffer_data left \<noteq> buffer_data right" using assms(2) by (simp add: buffer_data_inject)
  with exp_loop_None [OF assms(1)] obtain e where e: "distance_exp_loop 0 (buffer_data left) (buffer_data right) = Some e"
    by blast
  have "distance_exp_loop i ys xs = distance_exp_loop i xs ys" for i xs ys
    by (induction i xs ys rule: distance_exp_loop.induct) (simp_all add: Let_def xor.commute)
  with e exp_loop_Some [OF assms(1) e] show ?thesis by (auto simp: distance_exp_def)
qed

theorem distance_exp_first_difference_witness:
  "distance_exp (Data_buffer [0xF0, 0x12]) (Data_buffer [0xF0, 0x16]) < 16"
  using distance_exp_first_difference [of "Data_buffer [0xF0, 0x12]" "Data_buffer [0xF0, 0x16]"] by simp

lemma random_byte:
  assumes "n < 8"
  shows "distance_mask_loop (x XOR ((x XOR drop_bit n 0x80) XOR ((drop_bit n 0x80 - 1) AND r))) 0x80 s = s + n"
proof -
  have "(0x80 :: byte) = 2 ^ 7" by simp
  then have pow: "drop_bit n (0x80 :: byte) = 2 ^ (7 - n)"
    using assms by (simp only: drop_bit_exp_eq) simp
  have bits: "bit ((2 ^ (7 - n) - 1) AND r) m \<Longrightarrow> m < 7 - n" for m
    by (simp add: mask_eq_exp_minus_1 [symmetric] bit_simps)
  show ?thesis
    unfolding pow using assms bits
    by (intro mask_loop_eq) (auto simp: bit_xor_iff bit_exp_iff dest!: bits)
qed

text \<open>The assertion of \<open>generate_random_id\<close> never fails, whatever the random bytes are: the
  new identifier has the size of the original and exactly the asked for distance from it.\<close>

theorem generate_random_id_total:
  assumes "exp_index < 8 * buffer_size original"
  shows "\<exists>d. generate_random_id rand original exp_index = Inr d
    \<and> buffer_size d = buffer_size original \<and> distance_exp original d = exp_index"
proof -
  let ?xs = "buffer_data original" and ?i = "exp_index div 8" and ?n = "exp_index mod 8"
  let ?msk = "drop_bit ?n (0x80 :: byte)"
  let ?b = "(?xs ! ?i XOR ?msk) XOR ((?msk - 1) AND rand ?i)"
  let ?d = "take ?i ?xs @ [?b] @ map rand [Suc ?i..<buffer_size original]"
  have i: "?i < length ?xs" using assms by simp
  have loop: "distance_mask_loop (?xs ! ?i XOR ?b) 0x80 (8 * ?i) = exp_index"
    by (subst random_byte) simp_all
  have ne: "?xs ! ?i XOR ?b \<noteq> 0"
  proof
    assume "?xs ! ?i XOR ?b = 0"
    then have "distance_mask_loop (?xs ! ?i XOR ?b) 0x80 (8 * ?i) = 8 * ?i + 8"
      by (simp add: mask_loop_unfold)
    moreover have "8 * ?i + ?n = exp_index" by simp
    moreover have "?n < 8" by simp
    ultimately show False using loop by linarith
  qed
  have "distance_exp_loop 0 (take ?i ?xs @ ?xs ! ?i # drop (Suc ?i) ?xs) ?d
    = distance_exp_loop (0 + length (take ?i ?xs)) (?xs ! ?i # drop (Suc ?i) ?xs) ([?b] @ map rand [Suc ?i..<buffer_size original])"
    by (rule exp_loop_prefix)
  also have "\<dots> = Some exp_index" using i ne loop by (simp add: Let_def)
  finally have "distance_exp_loop 0 ?xs ?d = Some exp_index" by (simp only: id_take_nth_drop [OF i, symmetric])
  then have "distance_exp original (Data_buffer ?d) = exp_index" by (simp add: distance_exp_def)
  with i show ?thesis unfolding generate_random_id_def Let_def by simp
qed

theorem generate_random_id_total_witness:
  "\<exists>d. generate_random_id (\<lambda>_. 0x55) (Data_buffer [1, 2, 3]) 13 = Inr d \<and> distance_exp (Data_buffer [1, 2, 3]) d = 13"
  using generate_random_id_total [of 13 "Data_buffer [1, 2, 3]" "\<lambda>_. 0x55"] by auto

text \<open>The distance is a metric of the exclusive or: it is symmetric, zero exactly between equal
  identifiers, and for identifiers of one length \<open>d(a, c) = d(a, b) XOR d(b, c)\<close> byte by byte, so
  an identifier is determined by its distance from another.\<close>

theorem dht_distance_xor:
  "dht_distance a b = dht_distance b a
   \<and> (buffer_size a = buffer_size b \<longrightarrow> (set (buffer_data (dht_distance a b)) \<subseteq> {0}) = (a = b))
   \<and> (buffer_size a = buffer_size b \<longrightarrow> buffer_size b = buffer_size c \<longrightarrow>
       buffer_data (dht_distance a c) = map2 (XOR) (buffer_data (dht_distance a b)) (buffer_data (dht_distance b c)))"
proof -
  have comm: "map2 (XOR) xs ys = map2 (XOR) ys (xs :: byte list)" for xs ys
    by (induction xs ys rule: list_induct2') (simp_all add: xor.commute)
  have eq: "buffer_data (dht_distance x y) = map2 (XOR) (buffer_data x) (buffer_data y)"
    if "buffer_size x = buffer_size y" for x y
    using that comm by (simp add: dht_distance_def)
  have zero: "length xs = length ys \<Longrightarrow> set (map2 (XOR) xs ys) \<subseteq> {0} \<longleftrightarrow> xs = (ys :: byte list)" for xs ys
    by (induction xs ys rule: list_induct2) (auto simp: xor_eq_0)
  have trans: "length xs = length ys \<Longrightarrow> length ys = length zs \<Longrightarrow>
    map2 (XOR) xs (zs :: byte list) = map2 (XOR) (map2 (XOR) xs ys) (map2 (XOR) ys zs)" for xs ys zs
    by (induction xs ys zs rule: list_induct3) (simp_all add: xor.assoc xor.left_commute)
  have "dht_distance a b = dht_distance b a"
    using comm by (cases "buffer_size a" "buffer_size b" rule: linorder_cases) (auto simp: dht_distance_def)
  moreover have "buffer_size a = buffer_size b \<Longrightarrow> (set (buffer_data (dht_distance a b)) \<subseteq> {0}) = (a = b)"
    by (simp only: eq zero buffer_data_inject)
  moreover have "buffer_data (dht_distance a c) = map2 (XOR) (buffer_data (dht_distance a b)) (buffer_data (dht_distance b c))"
    if "buffer_size a = buffer_size b" "buffer_size b = buffer_size c"
    unfolding eq [OF that(1)] eq [OF that(2)] eq [OF HOL.trans [OF that]] by (rule trans [OF that])
  ultimately show ?thesis by blast
qed

theorem dht_distance_xor_witness:
  "buffer_data (dht_distance (Data_buffer [1, 2]) (Data_buffer [7, 8]))
     = map2 (XOR) (buffer_data (dht_distance (Data_buffer [1, 2]) (Data_buffer [5, 5])))
         (buffer_data (dht_distance (Data_buffer [5, 5]) (Data_buffer [7, 8])))"
  using dht_distance_xor [of "Data_buffer [1, 2]" "Data_buffer [5, 5]" "Data_buffer [7, 8]"] by simp

end
