(* ===== verification/Transaction_records.thy ===== *)
theory Transaction_records
  imports Transaction_block Dht_object_id
begin

text \<open>
  \<open>libs_server/vds_log_sync/impl/transaction_log.cpp\<close>, the record part: for each kind of message
  what \<open>apply_record\<close>, \<open>undo_record\<close> and \<open>consensus_record\<close> do to the tables. An error of a
  statement leaves the function at once (the caller's database transaction is rolled back), so it
  carries no database. Balances are compared and added as \<open>uint64_t\<close>.
\<close>

section \<open>Environment\<close>

record ('pk, 'sk) log_env =
  env_crypto :: "('pk, 'sk) crypto"
  env_node_id :: const_data_buffer \<comment> \<open>client->current_node_id()\<close>
  env_now :: int \<comment> \<open>system_clock::now()\<close>

section \<open>payment_transaction\<close>

definition payment_signature_data :: "payment_transaction \<Rightarrow> const_data_buffer" where
  "payment_signature_data m = Data_buffer
     (put_string (pt_notes m) (put_string (pt_payment_type m) (put_uint64 (pt_value m)
       (put_buffer (pt_target_wallet m) (put_buffer (pt_source_wallet m)
         (put_buffer (pt_source_transaction m) (put_string (pt_currency m)
           (put_buffer (pt_issuer m) (put_uint8 0x70 [])))))))))"

definition payment_source :: "payment_transaction \<Rightarrow> balance_key" where
  "payment_source m = (pt_source_wallet m, pt_issuer m, pt_currency m, pt_source_transaction m)"

definition payment_target :: "payment_transaction \<Rightarrow> transaction_block \<Rightarrow> balance_key" where
  "payment_target m b = (pt_target_wallet m, pt_issuer m, pt_currency m, tb_id b)"

definition apply_payment :: "('pk, 'sk) log_env \<Rightarrow> transaction_block \<Rightarrow> payment_transaction \<Rightarrow> database \<Rightarrow>
    (bool \<times> database) expected" where
  "apply_payment env b m db =
     (case table_select (wallets db) (pt_source_wallet m) of
        None \<Rightarrow> Inr (False, db)
      | Some public_key \<Rightarrow>
          get_expected (key_parse_der (env_crypto env) public_key) (\<lambda>key.
          get_expected (sign_verify (env_crypto env) key (pt_signature m) (payment_signature_data m)) (\<lambda>signature_ok.
          if \<not> signature_ok then Inr (False, db)
          else
            (case table_select (balances db) (payment_source m) of
               None \<Rightarrow> Inr (False, db)
             | Some row \<Rightarrow>
                 if proposed_balance row < pt_value m then Inr (False, db)
                 else
                   let t1 = update_key (payment_source m)
                              (\<lambda>r. r\<lparr>proposed_balance := proposed_balance row - pt_value m\<rparr>) (balances db)
                   in get_expected (table_insert ''datacoin_balance_dbo'' (payment_target m b)
                        \<lparr>confirmed_balance = 0, proposed_balance = pt_value m\<rparr> t1) (\<lambda>t1.
                      Inr (True, db\<lparr>balances := t1\<rparr>))))))"

definition database_corrupted :: error where
  "database_corrupted = Runtime_error ''Database state is corrupted''"

definition consensus_payment :: "transaction_block \<Rightarrow> payment_transaction \<Rightarrow> database \<Rightarrow> database expected" where
  "consensus_payment b m db =
     (case table_select (balances db) (payment_source m) of
        None \<Rightarrow> Inl database_corrupted
      | Some row \<Rightarrow>
          if confirmed_balance row < pt_value m then Inl database_corrupted
          else
            let t1 = update_key (payment_source m)
                       (\<lambda>r. r\<lparr>confirmed_balance := confirmed_balance row - pt_value m\<rparr>) (balances db)
            in (case table_select t1 (payment_target m b) of
                  None \<Rightarrow> Inl database_corrupted
                | Some row \<Rightarrow>
                    Inr (db\<lparr>balances := update_key (payment_target m b)
                      (\<lambda>r. r\<lparr>confirmed_balance := confirmed_balance row + pt_value m\<rparr>) t1\<rparr>)))"

text \<open>The insert of \<open>undo_record\<close> gives no \<open>confirmed_balance\<close>, which is NOT NULL.\<close>

definition undo_payment :: "transaction_block \<Rightarrow> payment_transaction \<Rightarrow> database \<Rightarrow> database expected" where
  "undo_payment b m db =
     (case table_select (balances db) (payment_source m) of
        None \<Rightarrow> Inl (Constraint_violation ''datacoin_balance_dbo'')
      | Some row \<Rightarrow>
          let t1 = update_key (payment_source m)
                     (\<lambda>r. r\<lparr>proposed_balance := proposed_balance row + pt_value m\<rparr>) (balances db)
          in Inr (db\<lparr>balances := delete_key (payment_target m b) t1\<rparr>))"

section \<open>channel_message\<close>

definition apply_channel_message :: "transaction_block \<Rightarrow> channel_message \<Rightarrow> database \<Rightarrow> (bool \<times> database) expected" where
  "apply_channel_message b m db =
     Inr (True, insert_channel_message \<lparr>cr_block_id = tb_id b, cr_message = m\<rparr> db)"

definition consensus_channel_message :: "transaction_block \<Rightarrow> channel_message \<Rightarrow> database \<Rightarrow> database expected" where
  "consensus_channel_message b m db = Inr db"

definition undo_channel_message :: "transaction_block \<Rightarrow> channel_message \<Rightarrow> database \<Rightarrow> database expected" where
  "undo_channel_message b m db =
     Inr (db\<lparr>channel_messages := table_delete (\<lambda>_ row.
            cr_block_id row = tb_id b
            \<and> cm_channel_id (cr_message row) = cm_channel_id m
            \<and> cm_read_id (cr_message row) = cm_read_id m
            \<and> cm_write_id (cr_message row) = cm_write_id m
            \<and> cm_crypted_key (cr_message row) = cm_crypted_key m
            \<and> cm_signature (cr_message row) = cm_signature m) (channel_messages db)\<rparr>)"

section \<open>create_user_transaction\<close>

definition apply_create_user :: "('pk, 'sk) log_env \<Rightarrow> 'pk create_user_transaction \<Rightarrow> database \<Rightarrow>
    (bool \<times> database) expected" where
  "apply_create_user env m db =
     get_expected (key_fingerprint (env_crypto env) (cu_user_public_key m)) (\<lambda>uid.
     get_expected (key_der (env_crypto env) (cu_user_public_key m)) (\<lambda>public_key.
     get_expected (table_insert ''member_user_dbo'' uid public_key (member_users db)) (\<lambda>t1.
       Inr (True, db\<lparr>member_users := t1\<rparr>))))"

definition consensus_create_user :: "transaction_block \<Rightarrow> 'pk create_user_transaction \<Rightarrow> database \<Rightarrow> database expected" where
  "consensus_create_user b m db = Inr db"

definition undo_create_user :: "'pk create_user_transaction \<Rightarrow> database \<Rightarrow> database expected" where
  "undo_create_user m db = Inr db"

section \<open>node_add_transaction\<close>

definition apply_node_add :: "('pk, 'sk) log_env \<Rightarrow> transaction_block \<Rightarrow> 'pk node_add_transaction \<Rightarrow> database \<Rightarrow>
    (bool \<times> database) expected" where
  "apply_node_add env b m db =
     get_expected (key_fingerprint (env_crypto env) (na_node_public_key m)) (\<lambda>node_id.
     get_expected (key_der (env_crypto env) (na_node_public_key m)) (\<lambda>public_key.
     get_expected
       (case table_select (node_infos db) node_id of
          Some row \<Rightarrow>
            if ni_last_activity row < tb_time_point b
            then Inr (update_key node_id (\<lambda>r. r\<lparr>ni_last_activity := tb_time_point b\<rparr>) (node_infos db))
            else Inr (node_infos db)
        | None \<Rightarrow> table_insert ''node_info_dbo'' node_id
            \<lparr>ni_public_key = public_key, ni_last_activity = tb_time_point b\<rparr> (node_infos db)) (\<lambda>t1.
     get_expected (table_insert ''transaction_log_vote_request'' (tb_id b, node_id)
         \<lparr>vr_approved = False, vr_new_member = True\<rparr> (vote_requests db)) (\<lambda>t2.
       Inr (True, db\<lparr>node_infos := t1, vote_requests := t2\<rparr>)))))"

definition consensus_node_add :: "transaction_block \<Rightarrow> 'pk node_add_transaction \<Rightarrow> database \<Rightarrow> database expected" where
  "consensus_node_add b m db = Inr db"

definition undo_node_add :: "('pk, 'sk) log_env \<Rightarrow> 'pk node_add_transaction \<Rightarrow> database \<Rightarrow> database expected" where
  "undo_node_add env m db =
     get_expected (key_fingerprint (env_crypto env) (na_node_public_key m)) (\<lambda>node_id.
       Inr (db\<lparr>node_infos := delete_key node_id (node_infos db)\<rparr>))"

section \<open>create_wallet_transaction\<close>

definition apply_create_wallet :: "('pk, 'sk) log_env \<Rightarrow> create_wallet_transaction \<Rightarrow> database \<Rightarrow>
    (bool \<times> database) expected" where
  "apply_create_wallet env m db =
     get_expected (key_parse_der (env_crypto env) (cw_public_key m)) (\<lambda>public_key.
     get_expected (key_fingerprint (env_crypto env) public_key) (\<lambda>wallet_id.
     get_expected (table_insert ''wallet_dbo'' wallet_id (cw_public_key m) (wallets db)) (\<lambda>t1.
       Inr (True, db\<lparr>wallets := t1\<rparr>))))"

definition consensus_create_wallet :: "transaction_block \<Rightarrow> create_wallet_transaction \<Rightarrow> database \<Rightarrow> database expected" where
  "consensus_create_wallet b m db = Inr db"

definition undo_create_wallet :: "('pk, 'sk) log_env \<Rightarrow> create_wallet_transaction \<Rightarrow> database \<Rightarrow> database expected" where
  "undo_create_wallet env m db =
     get_expected (key_parse_der (env_crypto env) (cw_public_key m)) (\<lambda>public_key.
     get_expected (key_fingerprint (env_crypto env) public_key) (\<lambda>wallet_id.
       Inr (db\<lparr>wallets := delete_key wallet_id (wallets db)\<rparr>)))"

section \<open>asset_issue_transaction\<close>

definition asset_issue_signature_data :: "asset_issue_transaction \<Rightarrow> const_data_buffer" where
  "asset_issue_signature_data m = Data_buffer
     (put_uint64 (ai_value m) (put_string (ai_currency m) (put_buffer (ai_wallet_id m)
       (put_buffer (ai_issuer m) (put_uint8 0x69 [])))))"

definition asset_issue_key :: "asset_issue_transaction \<Rightarrow> transaction_block \<Rightarrow> balance_key" where
  "asset_issue_key m b = (ai_wallet_id m, ai_issuer m, ai_currency m, tb_id b)"

definition apply_asset_issue :: "('pk, 'sk) log_env \<Rightarrow> transaction_block \<Rightarrow> asset_issue_transaction \<Rightarrow> database \<Rightarrow>
    (bool \<times> database) expected" where
  "apply_asset_issue env b m db =
     (case table_select (member_users db) (ai_issuer m) of
        None \<Rightarrow> Inr (False, db)
      | Some public_key \<Rightarrow>
          get_expected (key_parse_der (env_crypto env) public_key) (\<lambda>key.
          get_expected (sign_verify (env_crypto env) key (ai_signature m) (asset_issue_signature_data m)) (\<lambda>signature_ok.
          if \<not> signature_ok then Inr (False, db)
          else
            get_expected (table_insert ''datacoin_balance_dbo'' (asset_issue_key m b)
              \<lparr>confirmed_balance = 0, proposed_balance = ai_value m\<rparr> (balances db)) (\<lambda>t1.
            Inr (True, db\<lparr>balances := t1\<rparr>)))))"

definition consensus_asset_issue :: "transaction_block \<Rightarrow> asset_issue_transaction \<Rightarrow> database \<Rightarrow> database expected" where
  "consensus_asset_issue b m db =
     (case table_select (balances db) (asset_issue_key m b) of
        None \<Rightarrow> Inl database_corrupted
      | Some row \<Rightarrow>
          if proposed_balance row \<noteq> ai_value m \<or> confirmed_balance row \<noteq> 0 then Inl database_corrupted
          else Inr (db\<lparr>balances := update_key (asset_issue_key m b)
                 (\<lambda>r. \<lparr>confirmed_balance = ai_value m, proposed_balance = ai_value m\<rparr>) (balances db)\<rparr>))"

definition undo_asset_issue :: "transaction_block \<Rightarrow> asset_issue_transaction \<Rightarrow> database \<Rightarrow> database expected" where
  "undo_asset_issue b m db = Inr (db\<lparr>balances := delete_key (asset_issue_key m b) (balances db)\<rparr>)"

section \<open>store_block_transaction and host_block_transaction\<close>

text \<open>The insert of the location of a replica and of the payment for it.\<close>

definition insert_replica_location :: "('pk, 'sk) log_env \<Rightarrow> transaction_block \<Rightarrow> const_data_buffer \<Rightarrow> const_data_buffer \<Rightarrow>
    database \<Rightarrow> database expected" where
  "insert_replica_location env b owner replica_hash db =
     get_expected (table_insert ''chunk_replica_map'' (replica_hash, tb_write_public_key_id b) (env_now env)
       (replica_map db)) (\<lambda>t2.
     get_expected (table_insert ''chunk_replica_payment'' (owner, replica_hash, tb_write_public_key_id b)
       (tb_time_point b) (replica_payment db)) (\<lambda>t3.
       Inr (db\<lparr>replica_map := t2, replica_payment := t3\<rparr>)))"

definition delete_replica_location :: "transaction_block \<Rightarrow> const_data_buffer \<Rightarrow> const_data_buffer \<Rightarrow> database \<Rightarrow> database" where
  "delete_replica_location b owner replica_hash db =
     db\<lparr>replica_map := delete_key (replica_hash, tb_write_public_key_id b) (replica_map db),
        replica_payment := delete_key (owner, replica_hash, tb_write_public_key_id b) (replica_payment db)\<rparr>"

text \<open>One round of the loop. Its counter is a \<open>uint16_t\<close>: with 65536 replicas or more the
  comparison with \<open>replicas.size()\<close> never fails, and the loop ends only by an error.\<close>

definition apply_replica :: "('pk, 'sk) log_env \<Rightarrow> transaction_block \<Rightarrow> store_block_transaction \<Rightarrow> nat \<Rightarrow>
    database \<Rightarrow> database expected" where
  "apply_replica env b m index db =
     get_expected (insert_replica_data (sb_owner_id m, sb_object_id m, word_of_nat index)
       \<lparr>rd_replica_hash = sb_replicas m ! index, rd_replica_size = sb_replica_size m,
        rd_distance = distance_exp (env_node_id env) (sb_replicas m ! index)\<rparr> (replica_data db)) (\<lambda>t1.
     insert_replica_location env b (sb_owner_id m) (sb_replicas m ! index) (db\<lparr>replica_data := t1\<rparr>))"

definition replica_indices :: "nat \<Rightarrow> nat list" where
  "replica_indices n = (if n < 65536 then [0..<n] else [0..<65536] @ [0])"

definition apply_store_block :: "('pk, 'sk) log_env \<Rightarrow> transaction_block \<Rightarrow> store_block_transaction \<Rightarrow> database \<Rightarrow>
    (bool \<times> database) expected" where
  "apply_store_block env b m db =
     get_expected (for_loop (replica_indices (length (sb_replicas m))) (apply_replica env b m) db) (\<lambda>db.
       if length (sb_replicas m) < 65536 then Inr (True, db) else Inl Not_terminating)"

definition consensus_store_block :: "transaction_block \<Rightarrow> store_block_transaction \<Rightarrow> database \<Rightarrow> database expected" where
  "consensus_store_block b m db = Inr db"

definition undo_replica :: "transaction_block \<Rightarrow> store_block_transaction \<Rightarrow> nat \<Rightarrow> database \<Rightarrow> database expected" where
  "undo_replica b m index db =
     Inr (delete_replica_location b (sb_owner_id m) (sb_replicas m ! index)
       (db\<lparr>replica_data := table_delete (\<lambda>(_, obj, replica) row.
              obj = sb_object_id m \<and> replica = word_of_nat index
              \<and> rd_replica_hash row = sb_replicas m ! index) (replica_data db)\<rparr>))"

definition undo_store_block :: "transaction_block \<Rightarrow> store_block_transaction \<Rightarrow> database \<Rightarrow> database expected" where
  "undo_store_block b m db =
     (if length (sb_replicas m) < 65536
      then for_loop [0..<length (sb_replicas m)] (undo_replica b m) db
      else Inl Not_terminating)"

definition apply_host_block :: "('pk, 'sk) log_env \<Rightarrow> transaction_block \<Rightarrow> host_block_transaction \<Rightarrow> database \<Rightarrow>
    (bool \<times> database) expected" where
  "apply_host_block env b m db =
     get_expected (insert_replica_location env b (hb_owner_id m) (hb_replica_hash m) db) (\<lambda>db. Inr (True, db))"

definition consensus_host_block :: "transaction_block \<Rightarrow> host_block_transaction \<Rightarrow> database \<Rightarrow> database expected" where
  "consensus_host_block b m db = Inr db"

definition undo_host_block :: "transaction_block \<Rightarrow> host_block_transaction \<Rightarrow> database \<Rightarrow> database expected" where
  "undo_host_block b m db = Inr (delete_replica_location b (hb_owner_id m) (hb_replica_hash m) db)"

section \<open>All kinds\<close>

fun apply_record :: "('pk, 'sk) log_env \<Rightarrow> transaction_block \<Rightarrow> 'pk transaction_message \<Rightarrow> database \<Rightarrow>
    (bool \<times> database) expected" where
  "apply_record env b (Payment m) db = apply_payment env b m db"
| "apply_record env b (Channel_message m) db = apply_channel_message b m db"
| "apply_record env b (Create_user m) db = apply_create_user env m db"
| "apply_record env b (Node_add m) db = apply_node_add env b m db"
| "apply_record env b (Create_wallet m) db = apply_create_wallet env m db"
| "apply_record env b (Asset_issue m) db = apply_asset_issue env b m db"
| "apply_record env b (Store_block m) db = apply_store_block env b m db"
| "apply_record env b (Host_block m) db = apply_host_block env b m db"

fun undo_record :: "('pk, 'sk) log_env \<Rightarrow> transaction_block \<Rightarrow> 'pk transaction_message \<Rightarrow> database \<Rightarrow> database expected" where
  "undo_record env b (Payment m) db = undo_payment b m db"
| "undo_record env b (Channel_message m) db = undo_channel_message b m db"
| "undo_record env b (Create_user m) db = undo_create_user m db"
| "undo_record env b (Node_add m) db = undo_node_add env m db"
| "undo_record env b (Create_wallet m) db = undo_create_wallet env m db"
| "undo_record env b (Asset_issue m) db = undo_asset_issue b m db"
| "undo_record env b (Store_block m) db = undo_store_block b m db"
| "undo_record env b (Host_block m) db = undo_host_block b m db"

text \<open>Only payments and asset issues have something to confirm.\<close>

fun consensus_record :: "transaction_block \<Rightarrow> 'pk transaction_message \<Rightarrow> database \<Rightarrow> database expected" where
  "consensus_record b (Payment m) db = consensus_payment b m db"
| "consensus_record b (Channel_message m) db = consensus_channel_message b m db"
| "consensus_record b (Create_user m) db = consensus_create_user b m db"
| "consensus_record b (Node_add m) db = consensus_node_add b m db"
| "consensus_record b (Create_wallet m) db = consensus_create_wallet b m db"
| "consensus_record b (Asset_issue m) db = consensus_asset_issue b m db"
| "consensus_record b (Store_block m) db = consensus_store_block b m db"
| "consensus_record b (Host_block m) db = consensus_host_block b m db"

lemmas consensus_nothing = consensus_channel_message_def consensus_create_user_def consensus_node_add_def
  consensus_create_wallet_def consensus_store_block_def consensus_host_block_def

section \<open>Undoing what was applied\<close>

lemma apply_payment_True:
  assumes "apply_payment env b m db = Inr (True, db')"
  obtains public_key key row where
    "table_select (wallets db) (pt_source_wallet m) = Some public_key"
    "key_parse_der (env_crypto env) public_key = Inr key"
    "sign_verify (env_crypto env) key (pt_signature m) (payment_signature_data m) = Inr True"
    "table_select (balances db) (payment_source m) = Some row" "pt_value m \<le> proposed_balance row"
    "payment_target m b \<notin> table_keys (balances db)"
    "db' = db\<lparr>balances := update_key (payment_source m)
        (\<lambda>r. r\<lparr>proposed_balance := proposed_balance row - pt_value m\<rparr>) (balances db)
      @ [(payment_target m b, \<lparr>confirmed_balance = 0, proposed_balance = pt_value m\<rparr>)]\<rparr>"
  using assms
  by (auto simp: apply_payment_def expected_simps Let_def not_less split: option.splits if_splits)

lemma undo_apply_payment:
  assumes "table_ok (balances db)" "apply_payment env b m db = Inr (True, db')"
  shows "undo_payment b m db' = Inr db"
proof -
  obtain row where row: "table_select (balances db) (payment_source m) = Some row"
    and new: "payment_target m b \<notin> table_keys (balances db)"
    and db': "db' = db\<lparr>balances := update_key (payment_source m)
        (\<lambda>r. r\<lparr>proposed_balance := proposed_balance row - pt_value m\<rparr>) (balances db)
      @ [(payment_target m b, \<lparr>confirmed_balance = 0, proposed_balance = pt_value m\<rparr>)]\<rparr>"
    using apply_payment_True [OF assms(2)] by metis
  let ?f = "\<lambda>r. r\<lparr>proposed_balance := proposed_balance row - pt_value m\<rparr>"
  let ?g = "\<lambda>r. r\<lparr>proposed_balance := proposed_balance row\<rparr>"
  let ?t = "update_key (payment_source m) ?f (balances db)"
  have ne: "payment_target m b \<noteq> payment_source m"
    using row new by (metis option.distinct(1) table_select_None)
  have "table_select (balances db') (payment_source m) = Some (?f row)"
    using row new ne by (simp add: db' select_insert select_update_key)
  moreover have "update_key (payment_source m) ?g (balances db')
    = balances db @ [(payment_target m b, \<lparr>confirmed_balance = 0, proposed_balance = pt_value m\<rparr>)]"
    using update_key_undo [OF assms(1) row, of ?g ?f] ne
    by (simp add: db' table_update_append) (simp add: table_update_def)
  ultimately show ?thesis
    using new by (simp add: undo_payment_def Let_def delete_key_insert) (simp add: db')
qed

lemma undo_apply_asset_issue:
  "apply_asset_issue env b m db = Inr (True, db') \<Longrightarrow> undo_asset_issue b m db' = Inr db"
  by (auto simp: apply_asset_issue_def undo_asset_issue_def expected_simps delete_key_insert split: option.splits if_splits)

lemma undo_apply_create_wallet:
  "apply_create_wallet env m db = Inr (True, db') \<Longrightarrow> undo_create_wallet env m db' = Inr db"
  by (auto simp: apply_create_wallet_def undo_create_wallet_def expected_simps delete_key_insert)

lemma delete_insert_replica_location:
  "insert_replica_location env b owner rh db = Inr db' \<Longrightarrow> delete_replica_location b owner rh db' = db"
  by (auto simp: insert_replica_location_def delete_replica_location_def expected_simps delete_key_insert)

lemma undo_apply_host_block:
  "apply_host_block env b m db = Inr (True, db') \<Longrightarrow> undo_host_block b m db' = Inr db"
  by (auto simp: apply_host_block_def undo_host_block_def expected_simps delete_insert_replica_location)

text \<open>The loop of the undo runs in the order of the apply, so it commutes the removals: each removes
  the rows of its own replica, and no other row has its hash.\<close>

lemma insert_replica_data_Inr [expected_simps]:
  "insert_replica_data k row t = Inr t' \<longleftrightarrow>
     k \<notin> table_keys t \<and> rd_replica_hash row \<notin> (rd_replica_hash \<circ> snd) ` set t \<and> t' = t @ [(k, row)]"
  by (auto simp: insert_replica_data_def expected_simps)

text \<open>The rows of the replicas with the given indices.\<close>

definition with_replicas :: "('pk, 'sk) log_env \<Rightarrow> transaction_block \<Rightarrow> store_block_transaction \<Rightarrow> nat list \<Rightarrow>
    database \<Rightarrow> database" where
  "with_replicas env b m is db =
     db\<lparr>replica_data := replica_data db @ map (\<lambda>i. ((sb_owner_id m, sb_object_id m, word_of_nat i),
          \<lparr>rd_replica_hash = sb_replicas m ! i, rd_replica_size = sb_replica_size m,
           rd_distance = distance_exp (env_node_id env) (sb_replicas m ! i)\<rparr>)) is,
        replica_map := replica_map db @ map (\<lambda>i. ((sb_replicas m ! i, tb_write_public_key_id b), env_now env)) is,
        replica_payment := replica_payment db
          @ map (\<lambda>i. ((sb_owner_id m, sb_replicas m ! i, tb_write_public_key_id b), tb_time_point b)) is\<rparr>"

definition replicas_new :: "transaction_block \<Rightarrow> store_block_transaction \<Rightarrow> nat \<Rightarrow> database \<Rightarrow> bool" where
  "replicas_new b m n db \<longleftrightarrow>
     (\<forall>i < n. (\<forall>j < i. sb_replicas m ! j \<noteq> sb_replicas m ! i)
         \<and> sb_replicas m ! i \<notin> (rd_replica_hash \<circ> snd) ` set (replica_data db)
         \<and> (sb_replicas m ! i, tb_write_public_key_id b) \<notin> table_keys (replica_map db)
         \<and> (sb_owner_id m, sb_replicas m ! i, tb_write_public_key_id b) \<notin> table_keys (replica_payment db))"

lemma replica_data_hashes:
  "(rd_replica_hash \<circ> snd) ` set (replica_data (with_replicas env b m is db))
     = (rd_replica_hash \<circ> snd) ` set (replica_data db) \<union> (\<lambda>i. sb_replicas m ! i) ` set is"
  by (simp add: with_replicas_def image_Un image_image comp_def)

lemma replica_map_keys:
  "table_keys (replica_map (with_replicas env b m is db))
     = table_keys (replica_map db) \<union> (\<lambda>i. (sb_replicas m ! i, tb_write_public_key_id b)) ` set is"
  by (simp add: with_replicas_def image_Un image_image)

lemma replica_payment_keys:
  "table_keys (replica_payment (with_replicas env b m is db))
     = table_keys (replica_payment db) \<union> (\<lambda>i. (sb_owner_id m, sb_replicas m ! i, tb_write_public_key_id b)) ` set is"
  by (simp add: with_replicas_def image_Un image_image)

lemma apply_replicas:
  "for_loop [0..<n] (apply_replica env b m) db = Inr db' \<Longrightarrow>
     db' = with_replicas env b m [0..<n] db \<and> replicas_new b m n db"
proof (induction n arbitrary: db')
  case 0
  then show ?case by (simp add: with_replicas_def replicas_new_def)
next
  case (Suc n)
  then obtain d where "for_loop [0..<n] (apply_replica env b m) db = Inr d"
    and step: "apply_replica env b m n d = Inr db'"
    by (auto simp: for_loop_append expected_simps)
  with Suc.IH have d: "d = with_replicas env b m [0..<n] db" and new: "replicas_new b m n db" by auto
  let ?h = "sb_replicas m ! n"
  from step have "?h \<notin> (rd_replica_hash \<circ> snd) ` set (replica_data d)"
    "(?h, tb_write_public_key_id b) \<notin> table_keys (replica_map d)"
    "(sb_owner_id m, ?h, tb_write_public_key_id b) \<notin> table_keys (replica_payment d)"
    and db': "db' = with_replicas env b m [n] d"
    by (auto simp: apply_replica_def insert_replica_location_def expected_simps with_replicas_def)
  then have "?h \<notin> (rd_replica_hash \<circ> snd) ` set (replica_data db)" "?h \<notin> (\<lambda>i. sb_replicas m ! i) ` {..<n}"
    "(?h, tb_write_public_key_id b) \<notin> table_keys (replica_map db)"
    "(sb_owner_id m, ?h, tb_write_public_key_id b) \<notin> table_keys (replica_payment db)"
    unfolding d replica_data_hashes replica_map_keys replica_payment_keys by (simp_all add: atLeast0LessThan)
  with new have "replicas_new b m (Suc n) db"
    unfolding replicas_new_def less_Suc_eq by (metis imageI lessThan_iff)
  moreover have "db' = with_replicas env b m [0..<Suc n] db"
    by (simp add: db' d with_replicas_def)
  ultimately show ?case by blast
qed

lemma undo_replicas_step:
  assumes new: "replicas_new b m n db" and j: "j < n"
  shows "undo_replica b m j (with_replicas env b m [j..<n] db) = Inr (with_replicas env b m [Suc j..<n] db)"
proof -
  have upt: "[j..<n] = j # [Suc j..<n]" using j by (simp add: upt_conv_Cons)
  have other: "sb_replicas m ! i \<noteq> sb_replicas m ! j" if "i \<in> set [Suc j..<n]" for i
  proof -
    from that have "j < i" "i < n" by auto
    with new show ?thesis unfolding replicas_new_def by metis
  qed
  have fresh: "sb_replicas m ! j \<notin> (rd_replica_hash \<circ> snd) ` set (replica_data db)"
    "(sb_replicas m ! j, tb_write_public_key_id b) \<notin> table_keys (replica_map db)"
    "(sb_owner_id m, sb_replicas m ! j, tb_write_public_key_id b) \<notin> table_keys (replica_payment db)"
    using new j by (auto simp: replicas_new_def)
  have del: "table_delete c (t @ map f [j..<n]) = t @ map f [Suc j..<n]"
    if "\<And>k v. (k, v) \<in> set t \<Longrightarrow> \<not> c k v" "case f j of (k, v) \<Rightarrow> c k v"
      "\<And>i k v. i \<in> set [Suc j..<n] \<Longrightarrow> f i = (k, v) \<Longrightarrow> \<not> c k v"
    for c t and f :: "nat \<Rightarrow> 'x \<times> 'y"
  proof -
    have "table_delete c t = t" using that(1) by (rule delete_missing)
    moreover have "table_delete c (map f [Suc j..<n]) = map f [Suc j..<n]"
      using that(3) by (intro delete_missing) (metis (no_types, lifting) image_iff list.set_map)
    ultimately show ?thesis using that(2)
      by (cases "f j") (simp add: upt table_delete_def del: upt_Suc)
  qed
  let ?d = "\<lambda>i. ((sb_owner_id m, sb_object_id m, word_of_nat i :: u16),
    \<lparr>rd_replica_hash = sb_replicas m ! i, rd_replica_size = sb_replica_size m,
     rd_distance = distance_exp (env_node_id env) (sb_replicas m ! i)\<rparr>)"
  let ?l = "\<lambda>i. ((sb_replicas m ! i, tb_write_public_key_id b), env_now env)"
  let ?p = "\<lambda>i. ((sb_owner_id m, sb_replicas m ! i, tb_write_public_key_id b), tb_time_point b)"
  have "table_delete (\<lambda>(_, obj, replica) row. obj = sb_object_id m \<and> replica = word_of_nat j
      \<and> rd_replica_hash row = sb_replicas m ! j) (replica_data db @ map ?d [j..<n])
    = replica_data db @ map ?d [Suc j..<n]"
    by (rule del) (use fresh(1) other in \<open>force+\<close>)
  moreover have "delete_key (sb_replicas m ! j, tb_write_public_key_id b) (replica_map db @ map ?l [j..<n])
    = replica_map db @ map ?l [Suc j..<n]"
    by (rule del) (use fresh(2) other in \<open>force+\<close>)
  moreover have "delete_key (sb_owner_id m, sb_replicas m ! j, tb_write_public_key_id b)
      (replica_payment db @ map ?p [j..<n]) = replica_payment db @ map ?p [Suc j..<n]"
    by (rule del) (use fresh(3) other in \<open>force+\<close>)
  ultimately show ?thesis
    by (simp add: undo_replica_def delete_replica_location_def with_replicas_def del: upt_Suc)
qed

lemma undo_apply_store_block:
  assumes "apply_store_block env b m db = Inr (True, db')"
  shows "undo_store_block b m db' = Inr db"
proof -
  let ?n = "length (sb_replicas m)"
  from assms have small: "?n < 65536" and "for_loop [0..<?n] (apply_replica env b m) db = Inr db'"
    by (auto simp: apply_store_block_def replica_indices_def expected_simps split: if_splits)
  with apply_replicas have db': "db' = with_replicas env b m [0..<?n] db" and new: "replicas_new b m ?n db"
    by blast+
  have "\<exists>t. for_loop [0..<?n] (undo_replica b m) db' = Inr t \<and> t = with_replicas env b m [?n..<?n] db"
    by (rule for_loop_up [where P = "\<lambda>j t. t = with_replicas env b m [j..<?n] db"])
      (use db' undo_replicas_step [OF new] in auto)
  with small show ?thesis by (simp add: undo_store_block_def with_replicas_def)
qed

section \<open>The contract of reversible records\<close>

text \<open>
  What the rollback of a block relies on: an applied message can be undone to the very state before
  it, a message that is refused changes nothing.
\<close>

locale undo_log =
  fixes apply_m :: "'m \<Rightarrow> 's \<Rightarrow> (bool \<times> 's) expected" and undo_m :: "'m \<Rightarrow> 's \<Rightarrow> 's expected"
    and inv :: "'s \<Rightarrow> bool" and reversible :: "'m \<Rightarrow> bool"
  assumes apply_inv: "reversible m \<Longrightarrow> inv s \<Longrightarrow> apply_m m s = Inr (r, s') \<Longrightarrow> inv s'"
    and undo_apply: "reversible m \<Longrightarrow> inv s \<Longrightarrow> apply_m m s = Inr (True, s') \<Longrightarrow> undo_m m s' = Inr s"
    and apply_refused: "reversible m \<Longrightarrow> apply_m m s = Inr (False, s') \<Longrightarrow> s' = s"
begin

text \<open>Undoing a stack of messages, and applying a list while pushing on the stack.\<close>

fun undo_stack :: "'m list \<Rightarrow> 's \<Rightarrow> 's expected" where
  "undo_stack [] s = Inr s"
| "undo_stack (m # ms) s = get_expected (undo_m m s) (undo_stack ms)"

definition push_visit :: "'m \<Rightarrow> 's \<times> 'm list \<Rightarrow> (bool \<times> 's \<times> 'm list) expected" where
  "push_visit m su = get_expected (apply_m m (fst su)) (\<lambda>(r, s).
     Inr (r, s, if r then m # snd su else snd su))"

lemma push_visit_apply:
  "apply_m m s = Inr (r, s1) \<Longrightarrow> push_visit m (s, us) = Inr (r, s1, if r then m # us else us)"
  by (simp add: push_visit_def)

lemma visit_inv:
  "list_all reversible ms \<Longrightarrow> inv s \<Longrightarrow> visit_all push_visit ms (s, us) = Inr (r, s', us') \<Longrightarrow>
     inv s' \<and> (\<exists>done. us' = done @ us \<and> undo_stack (done @ ws) s' = undo_stack ws s \<and> (r \<longrightarrow> done = rev ms))"
proof (induction ms arbitrary: s us ws)
  case (Cons m ms)
  then obtain r1 s1 where a: "apply_m m s = Inr (r1, s1)" by (auto simp: push_visit_def expected_simps)
  show ?case
  proof (cases r1)
    case True
    with Cons.prems a have rest: "visit_all push_visit ms (s1, m # us) = Inr (r, s', us')"
      by (simp add: push_visit_apply [OF a])
    have "inv s1" using apply_inv [OF _ Cons.prems(2) a] Cons.prems(1) by simp
    from Cons.IH [OF _ this rest, of "m # ws"] Cons.prems(1) obtain dn where "inv s'" "us' = dn @ m # us"
      "undo_stack (dn @ m # ws) s' = undo_stack (m # ws) s1" "r \<longrightarrow> dn = rev ms" by auto
    moreover have "undo_m m s1 = Inr s" using undo_apply [OF _ Cons.prems(2)] a True Cons.prems(1) by simp
    ultimately show ?thesis by (intro conjI exI [of _ "dn @ [m]"]) auto
  next
    case False
    with Cons.prems a have "r = False" "s' = s1" "us' = us" by (auto simp: push_visit_apply [OF a])
    moreover have "s1 = s"
    proof (rule apply_refused)
      show "reversible m" using Cons.prems(1) by simp
      show "apply_m m s = Inr (False, s1)" using a False by simp
    qed
    ultimately show ?thesis using Cons.prems(2) by auto
  qed
qed auto

text \<open>The stack of a walk takes the state back to where it began.\<close>

lemma undo_visited:
  assumes "list_all reversible ms" "inv s" "visit_all push_visit ms (s, []) = Inr (r, s', us)"
  shows "undo_stack us s' = Inr s" and "r \<Longrightarrow> us = rev ms" and "inv s'"
  using visit_inv [OF assms, of "[]"] by auto

end

fun reversible_message :: "'pk transaction_message \<Rightarrow> bool" where
  "reversible_message (Channel_message _) = False"
| "reversible_message (Create_user _) = False"
| "reversible_message (Node_add _) = False"
| "reversible_message _ = True"

abbreviation balances_ok :: "database \<Rightarrow> bool" where
  "balances_ok db \<equiv> table_ok (balances db)"

lemma apply_record_balances_ok:
  assumes "balances_ok db" "apply_record env b m db = Inr (r, db')"
  shows "balances_ok db'"
proof (cases m)
  case (Payment p)
  with assms show ?thesis
    by (auto simp: apply_payment_def expected_simps Let_def table_ok_def split: option.splits if_splits)
next
  case (Asset_issue a)
  with assms show ?thesis
    by (auto simp: apply_asset_issue_def expected_simps Let_def table_ok_def split: option.splits if_splits)
next
  case (Store_block s)
  with assms show ?thesis
    by (auto simp: apply_store_block_def replica_indices_def expected_simps with_replicas_def
        dest!: apply_replicas split: if_splits)
qed (use assms in \<open>auto simp: apply_channel_message_def insert_channel_message_def apply_create_user_def
  apply_node_add_def apply_create_wallet_def apply_host_block_def insert_replica_location_def expected_simps
  split: option.splits if_splits\<close>)

interpretation record_undo:
  undo_log "apply_record env b" "undo_record env b" balances_ok reversible_message for env b
proof
  fix m :: "'a transaction_message" and s s' :: database and r
  show "balances_ok s \<Longrightarrow> apply_record env b m s = Inr (r, s') \<Longrightarrow> balances_ok s'"
    by (rule apply_record_balances_ok)
  show "reversible_message m \<Longrightarrow> balances_ok s \<Longrightarrow> apply_record env b m s = Inr (True, s') \<Longrightarrow>
      undo_record env b m s' = Inr s"
    by (cases m) (simp_all add: undo_apply_payment undo_apply_create_wallet undo_apply_asset_issue
        undo_apply_store_block undo_apply_host_block)
  show "reversible_message m \<Longrightarrow> apply_record env b m s = Inr (False, s') \<Longrightarrow> s' = s"
    by (cases m) (auto simp: apply_payment_def apply_asset_issue_def apply_create_wallet_def apply_store_block_def
        apply_host_block_def expected_simps Let_def split: option.splits if_splits)
qed

end
