(* ===== verification/Transaction_log.thy ===== *)
theory Transaction_log
  imports Transaction_records
begin

text \<open>
  \<open>libs_server/vds_log_sync/impl/transaction_log.cpp\<close>, the log itself: applying the messages of a
  block, checking its ancestors, collecting votes, rolling back blocks that lose against a block
  that gained consensus. Every function takes the database and returns it. The worklists of the C++
  code are maps ordered by block id; loops whose end depends on the stored blocks take fuel.
\<close>

section \<open>The messages of a block\<close>

definition process_visit :: "('pk, 'sk) log_env \<Rightarrow> transaction_block \<Rightarrow> 'pk transaction_message \<Rightarrow>
    database \<times> 'pk transaction_message list \<Rightarrow> (bool \<times> database \<times> 'pk transaction_message list) expected" where
  "process_visit env b m su =
     get_expected (apply_record env b m (fst su)) (\<lambda>(result, db).
       Inr (result, db, if result then m # snd su else snd su))"

fun undo_actions :: "('pk, 'sk) log_env \<Rightarrow> transaction_block \<Rightarrow> 'pk transaction_message list \<Rightarrow> database \<Rightarrow>
    database expected" where
  "undo_actions env b [] db = Inr db"
| "undo_actions env b (m # ms) db = get_expected (undo_record env b m db) (undo_actions env b ms)"

definition process_records :: "('pk, 'sk) log_env \<Rightarrow> transaction_block \<Rightarrow> database \<Rightarrow> (bool \<times> database) expected" where
  "process_records env b db =
     get_expected (process_messages (env_crypto env) (process_visit env b) (buffer_data (tb_messages b)) (db, []))
       (\<lambda>(completed, db, undo).
          if \<not> completed then get_expected (undo_actions env b undo db) (\<lambda>db. Inr (False, db))
          else Inr (True, db))"

definition consensus_records :: "('pk, 'sk) log_env \<Rightarrow> transaction_block \<Rightarrow> database \<Rightarrow> database expected" where
  "consensus_records env b db =
     get_expected (process_messages (env_crypto env)
         (\<lambda>m db. get_expected (consensus_record b m db) (\<lambda>db. Inr (True, db))) (buffer_data (tb_messages b)) db)
       (\<lambda>(_, db). Inr db)"

definition undo_records :: "('pk, 'sk) log_env \<Rightarrow> transaction_block \<Rightarrow> database \<Rightarrow> database expected" where
  "undo_records env b db =
     get_expected (process_messages (env_crypto env) (\<lambda>m us. Inr (True, m # us)) (buffer_data (tb_messages b)) [])
       (\<lambda>(_, to_process). undo_actions env b to_process db)"

section \<open>process_block\<close>

definition set_state :: "log_state \<Rightarrow> const_data_buffer \<Rightarrow> database \<Rightarrow> database" where
  "set_state st bid db = db\<lparr>log_records := update_key bid (\<lambda>r. r\<lparr>lr_state := st\<rparr>) (log_records db)\<rparr>"

text \<open>The owners of the vote requests of a block, in the order of the rows.\<close>

definition vote_owners :: "const_data_buffer \<Rightarrow> database \<Rightarrow> const_data_buffer list" where
  "vote_owners bid db = map (snd \<circ> fst) (filter (\<lambda>((i, _), _). i = bid) (vote_requests db))"

text \<open>The loop over the ancestors: the new state, the leaves to remove, the owners who vote.
  \<open>None\<close> when an ancestor is missing or not processed yet.\<close>

fun check_ancestors :: "transaction_block \<Rightarrow> database \<Rightarrow> const_data_buffer list \<Rightarrow>
    log_state \<times> const_data_buffer list \<times> const_data_buffer list \<Rightarrow>
    (log_state \<times> const_data_buffer list \<times> const_data_buffer list) option expected" where
  "check_ancestors b db [] acc = Inr (Some acc)"
| "check_ancestors b db (ancestor # as) (state, remove_leaf, votes) =
     (let votes = fold set_emplace (vote_owners ancestor db) votes
      in case table_select (log_records db) ancestor of
           None \<Rightarrow> Inr None
         | Some r \<Rightarrow>
             if lr_order_no r \<ge> tb_order_no b \<or> lr_time_point r > tb_time_point b
             then Inl (Assertion_failed ''false'')
             else (case lr_state r of
                 Leaf \<Rightarrow> check_ancestors b db as (state, set_emplace ancestor remove_leaf, votes)
               | Processed \<Rightarrow> check_ancestors b db as (state, remove_leaf, votes)
               | Validated \<Rightarrow> Inr None
               | Invalid \<Rightarrow> check_ancestors b db as (Invalid, remove_leaf, votes)))"

definition insert_vote_request :: "const_data_buffer \<Rightarrow> const_data_buffer \<Rightarrow> database \<Rightarrow> database expected" where
  "insert_vote_request bid owner db =
     get_expected (table_insert ''transaction_log_vote_request'' (bid, owner)
         \<lparr>vr_approved = False, vr_new_member = False\<rparr> (vote_requests db)) (\<lambda>t2.
       Inr (db\<lparr>vote_requests := t2\<rparr>))"

definition process_block :: "('pk, 'sk) log_env \<Rightarrow> transaction_block \<Rightarrow> database \<Rightarrow> (log_state \<times> database) expected" where
  "process_block env b db =
     get_expected (check_ancestors b db (tb_ancestors b) (Leaf, [], [])) (\<lambda>r.
       case r of
         None \<Rightarrow> Inr (Validated, db)
       | Some (state, remove_leaf, votes) \<Rightarrow>
           let votes = filter (\<lambda>w. w \<notin> set (vote_owners (tb_id b) db)) votes
           in get_expected (for_loop votes (insert_vote_request (tb_id b)) db) (\<lambda>db.
              get_expected
                (if state = Leaf \<or> state = Processed
                 then get_expected (process_records env b db) (\<lambda>(is_processed, db).
                        Inr (if is_processed then state else Invalid, db))
                 else Inr (state, db)) (\<lambda>(state, db).
                let db = set_state state (tb_id b) db
                in Inr (state, if state = Leaf then fold (set_state Processed) remove_leaf db else db))))"

section \<open>Votes\<close>

definition vote_count :: "(vote_request \<Rightarrow> bool) \<Rightarrow> const_data_buffer \<Rightarrow> database \<Rightarrow> nat" where
  "vote_count cond bid db = length (filter (\<lambda>((i, _), v). i = bid \<and> cond v) (vote_requests db))"

definition check_consensus :: "const_data_buffer \<Rightarrow> database \<Rightarrow> bool" where
  "check_consensus bid db =
     (let tc = vote_count (\<lambda>v. \<not> vr_new_member v) bid db
      in if tc = 0 then True
         else vote_count (\<lambda>v. vr_approved v \<and> \<not> vr_new_member v) bid db > tc div 2)"

section \<open>Followers and rollback\<close>

text \<open>\<open>if (follower_id)\<close>: an id without bytes is passed over.\<close>

abbreviation not_empty :: "const_data_buffer \<Rightarrow> bool" where
  "not_empty d \<equiv> buffer_size d \<noteq> 0"

definition followers_of :: "const_data_buffer \<Rightarrow> database \<Rightarrow> const_data_buffer list" where
  "followers_of bid db =
     fold set_emplace (filter not_empty (map (snd \<circ> fst) (filter (\<lambda>((i, _), _). i = bid) (log_hierarchy db)))) []"

abbreviation invalid_data_error :: error where
  "invalid_data_error \<equiv> Runtime_error ''Invalid data''"

text \<open>The recursion goes down the hierarchy; \<open>fuel\<close> bounds its depth.\<close>

fun invalid_block :: "nat \<Rightarrow> const_data_buffer \<Rightarrow> bool \<Rightarrow> database \<Rightarrow> database expected" where
  "invalid_block 0 bid val db = Inl Not_terminating"
| "invalid_block (Suc fuel) bid val db =
     (let db = set_state (if val then Invalid else Validated) bid db
      in for_loop (followers_of bid db) (\<lambda>p db.
           case table_select (log_records db) p of
             None \<Rightarrow> Inl invalid_data_error
           | Some r \<Rightarrow>
               if lr_state r = Leaf \<or> lr_state r = Processed \<or> lr_consensus r then Inl invalid_data_error
               else invalid_block fuel p val db) db)"

text \<open>\<open>rollback_all\<close>: the loop over the ancestors of a block that was undone.\<close>

fun rollback_ancestors :: "u64 \<Rightarrow> const_data_buffer list \<Rightarrow>
    (const_data_buffer \<times> const_data_buffer) list \<times> const_data_buffer set \<times> database \<Rightarrow>
    ((const_data_buffer \<times> const_data_buffer) list \<times> const_data_buffer set \<times> database) expected" where
  "rollback_ancestors min_order [] acc = Inr acc"
| "rollback_ancestors min_order (ancestor # as) (not_processed, processed, db) =
     (if ancestor \<in> processed \<or> ancestor \<in> fst ` set not_processed
      then rollback_ancestors min_order as (not_processed, processed, db)
      else case table_select (log_records db) ancestor of
          None \<Rightarrow> Inl invalid_data_error
        | Some r \<Rightarrow>
            if lr_state r \<noteq> Processed then Inl invalid_data_error
            else if lr_order_no r < min_order \<or> lr_consensus r
            then rollback_ancestors min_order as
                   (not_processed, insert ancestor processed, set_state Leaf ancestor db)
            else rollback_ancestors min_order as (map_put ancestor (lr_data r) not_processed, processed, db))"

fun rollback_loop :: "nat \<Rightarrow> ('pk, 'sk) log_env \<Rightarrow> u64 \<Rightarrow> (const_data_buffer \<times> const_data_buffer) list \<Rightarrow>
    const_data_buffer set \<Rightarrow> database \<Rightarrow> database expected" where
  "rollback_loop fuel env min_order [] processed db = Inr db"
| "rollback_loop 0 env min_order (p # not_processed) processed db = Inl Not_terminating"
| "rollback_loop (Suc fuel) env min_order ((_, data) # not_processed) processed db =
     get_expected (block_create (env_crypto env) data) (\<lambda>current_block.
     get_expected (undo_records env current_block db) (\<lambda>db.
     get_expected (rollback_ancestors min_order (tb_ancestors current_block)
         (not_processed, insert (tb_id current_block) processed, set_state Validated (tb_id current_block) db))
       (\<lambda>(not_processed, processed, db). rollback_loop fuel env min_order not_processed processed db)))"

text \<open>SQL compares \<open>order_no\<close> as a signed number.\<close>

definition rollback_all :: "nat \<Rightarrow> ('pk, 'sk) log_env \<Rightarrow> u64 \<Rightarrow> database \<Rightarrow> database expected" where
  "rollback_all fuel env min_order db =
     rollback_loop fuel env min_order
       (fold (\<lambda>(bid, r). map_put bid (lr_data r))
          (filter (\<lambda>(_, r). lr_state r = Leaf \<and> sint min_order \<le> sint (lr_order_no r) \<and> \<not> lr_consensus r)
            (log_records db)) [])
       {} db"

section \<open>update_consensus\<close>

text \<open>The worklists: block id, then data, state and consensus as they were read.\<close>

type_synonym log_work = "(const_data_buffer \<times> const_data_buffer \<times> log_state \<times> bool) list"

abbreviation work_item :: "log_record \<Rightarrow> const_data_buffer \<times> log_state \<times> bool" where
  "work_item r \<equiv> (lr_data r, lr_state r, lr_consensus r)"

text \<open>The vote of the author of \<open>b\<close> for \<open>current_block\<close>: \<open>None\<close> when it was given before, else whether
  the voter is a new member.\<close>

definition record_vote :: "transaction_block \<Rightarrow> transaction_block \<Rightarrow> bool \<Rightarrow> database \<Rightarrow>
    (bool option \<times> database) expected" where
  "record_vote b current_block in_consensus db =
     (let key = (tb_id current_block, tb_write_public_key_id b)
      in case table_select (vote_requests db) key of
           None \<Rightarrow>
             if in_consensus
             then get_expected (table_insert ''transaction_log_vote_request'' key
                    \<lparr>vr_approved = True, vr_new_member = True\<rparr> (vote_requests db)) (\<lambda>t2.
                  Inr (Some True, db\<lparr>vote_requests := t2\<rparr>))
             else Inl invalid_data_error
         | Some v \<Rightarrow>
             if vr_approved v then Inr (None, db)
             else Inr (Some (vr_new_member v),
               db\<lparr>vote_requests := update_key key (\<lambda>v. v\<lparr>vr_approved := True\<rparr>) (vote_requests db)\<rparr>))"

fun add_ancestors :: "database \<Rightarrow> const_data_buffer set \<Rightarrow> const_data_buffer list \<Rightarrow> log_work \<Rightarrow> log_work expected" where
  "add_ancestors db processed [] not_processed = Inr not_processed"
| "add_ancestors db processed (ancestor # as) not_processed =
     (if ancestor \<in> processed \<or> ancestor \<in> fst ` set not_processed
      then add_ancestors db processed as not_processed
      else case table_select (log_records db) ancestor of
          None \<Rightarrow> Inl invalid_data_error
        | Some r \<Rightarrow> add_ancestors db processed as (map_put ancestor (work_item r) not_processed))"

text \<open>The blocks that gained consensus, newest first, the smallest order number of them (\<open>0\<close>
  stands for the uninitialised variable) and whether one of them is invalid.\<close>

record candidates =
  consensus_candidate :: log_work
  min_order :: u64
  have_invalid_consensus :: bool

definition add_candidate :: "transaction_block \<Rightarrow> const_data_buffer \<Rightarrow> log_state \<Rightarrow> candidates \<Rightarrow> candidates" where
  "add_candidate current_block data state c =
     \<lparr>consensus_candidate = (tb_id current_block, data, state, False) # consensus_candidate c,
      min_order = (if consensus_candidate c = [] \<or> min_order c > tb_order_no current_block
                   then tb_order_no current_block else min_order c),
      have_invalid_consensus = (have_invalid_consensus c \<or> state = Invalid)\<rparr>"

fun vote_loop :: "nat \<Rightarrow> ('pk, 'sk) log_env \<Rightarrow> transaction_block \<Rightarrow> log_work \<Rightarrow> const_data_buffer set \<Rightarrow>
    candidates \<Rightarrow> database \<Rightarrow> (candidates \<times> database) expected" where
  "vote_loop fuel env b [] processed c db = Inr (c, db)"
| "vote_loop 0 env b (p # not_processed) processed c db = Inl Not_terminating"
| "vote_loop (Suc fuel) env b ((_, data, state, in_consensus) # not_processed) processed c db =
     get_expected (block_create (env_crypto env) data) (\<lambda>current_block.
     let processed = insert (tb_id current_block) processed
     in get_expected (record_vote b current_block in_consensus db) (\<lambda>(vote, db).
        case vote of
          None \<Rightarrow> vote_loop fuel env b not_processed processed c db
        | Some is_new \<Rightarrow>
            let c = (if check_consensus (tb_id current_block) db \<and> \<not> in_consensus
                     then add_candidate current_block data state c else c)
            in get_expected
                 (if (tb_write_public_key_id current_block \<noteq> tb_write_public_key_id b \<or> tb_id current_block = tb_id b)
                     \<and> \<not> is_new
                  then add_ancestors db processed (tb_ancestors current_block) not_processed
                  else Inr not_processed) (\<lambda>not_processed.
               vote_loop fuel env b not_processed processed c db)))"

definition confirm_candidate :: "('pk, 'sk) log_env \<Rightarrow> bool \<Rightarrow> const_data_buffer \<times> const_data_buffer \<times> log_state \<times> bool \<Rightarrow>
    database \<Rightarrow> database expected" where
  "confirm_candidate env have_invalid = (\<lambda>(bid, data, state, _) db.
     let db = db\<lparr>log_records := update_key bid (\<lambda>r. r\<lparr>lr_consensus := True\<rparr>) (log_records db)\<rparr>
     in if state = Processed \<or> state = Leaf
        then get_expected (block_create (env_crypto env) data) (\<lambda>b. consensus_records env b db)
        else if \<not> have_invalid then Inl (Runtime_error ''Invalid program'')
        else Inr db)"

definition reprocess_candidate :: "nat \<Rightarrow> ('pk, 'sk) log_env \<Rightarrow> const_data_buffer \<times> const_data_buffer \<times> log_state \<times> bool \<Rightarrow>
    database \<Rightarrow> database expected" where
  "reprocess_candidate fuel env = (\<lambda>(bid, data, state, _) db.
     get_expected (block_create (env_crypto env) data) (\<lambda>b.
     if state = Invalid
     then get_expected (invalid_block fuel bid False db) (\<lambda>db.
          get_expected (process_block env b db) (\<lambda>(state, db).
          if state \<noteq> Leaf then Inl (Runtime_error ''Invalid program'')
          else consensus_records env b db))
     else Inr db))"

text \<open>The followers of the leaves (the join of \<open>transaction_log_hierarchy\<close> and \<open>transaction_log_record\<close>).\<close>

definition leaf_followers :: "database \<Rightarrow> const_data_buffer list" where
  "leaf_followers db =
     fold set_emplace (filter not_empty (map (snd \<circ> fst) (filter (\<lambda>((i, _), _).
       case table_select (log_records db) i of None \<Rightarrow> False | Some r \<Rightarrow> lr_state r = Leaf) (log_hierarchy db)))) []"

text \<open>The loop over the followers of a block that is done: put on the worklist, or marked invalid.\<close>

definition visit_follower :: "nat \<Rightarrow> const_data_buffer set \<Rightarrow> log_state \<Rightarrow> const_data_buffer \<Rightarrow>
    log_work \<times> database \<Rightarrow> (log_work \<times> database) expected" where
  "visit_follower fuel processed result p = (\<lambda>(not_processed, db).
     if p \<in> processed \<or> p \<in> fst ` set not_processed then Inr (not_processed, db)
     else case table_select (log_records db) p of
         None \<Rightarrow> Inl invalid_data_error
       | Some r \<Rightarrow>
           if result = Leaf then Inr (map_put p (work_item r) not_processed, db)
           else get_expected (invalid_block fuel p True db) (\<lambda>db. Inr (not_processed, db)))"

text \<open>
  \<open>process_block_with_followers\<close> (its loop is \<open>follow_loop\<close>) and \<open>update_consensus\<close> call each other;
  \<open>fuel\<close> bounds the rounds of the loop and the depth of the calls.
\<close>

fun follow_loop :: "nat \<Rightarrow> ('pk, 'sk) log_env \<Rightarrow> log_work \<Rightarrow> const_data_buffer set \<Rightarrow> database \<Rightarrow> database expected"
  and update_consensus :: "nat \<Rightarrow> ('pk, 'sk) log_env \<Rightarrow> transaction_block \<Rightarrow> const_data_buffer \<Rightarrow> log_state \<Rightarrow> bool \<Rightarrow>
    database \<Rightarrow> (bool \<times> database) expected" where
  "follow_loop fuel env [] processed db = Inr db"
| "follow_loop 0 env (p # not_processed) processed db = Inl Not_terminating"
| "follow_loop (Suc fuel) env ((_, data, _, in_consensus) # not_processed) processed db =
     get_expected (block_create (env_crypto env) data) (\<lambda>current_block.
     let processed = insert (tb_id current_block) processed
     in get_expected (process_block env current_block db) (\<lambda>(result, db).
        if result = Validated then follow_loop fuel env not_processed processed db
        else get_expected (update_consensus fuel env current_block data result in_consensus db)
          (\<lambda>(go_on, db).
             if \<not> go_on then Inr db
             else get_expected (for_loop (followers_of (tb_id current_block) db)
                      (visit_follower fuel processed result) (not_processed, db)) (\<lambda>(not_processed, db).
                  follow_loop fuel env not_processed processed db))))"
| "update_consensus 0 env b data state in_consensus db = Inl Not_terminating"
| "update_consensus (Suc fuel) env b data state in_consensus db =
     get_expected (vote_loop fuel env b [(tb_id b, data, state, in_consensus)] {}
         \<lparr>consensus_candidate = [], min_order = 0, have_invalid_consensus = False\<rparr> db) (\<lambda>(c, db).
     if consensus_candidate c = [] then Inr (True, db)
     else get_expected (for_loop (consensus_candidate c) (confirm_candidate env (have_invalid_consensus c)) db) (\<lambda>db.
          if \<not> have_invalid_consensus c then Inr (True, db)
          else get_expected (rollback_all fuel env (min_order c) db) (\<lambda>db.
               get_expected (for_loop (consensus_candidate c) (reprocess_candidate fuel env) db) (\<lambda>db.
               get_expected (for_loop (leaf_followers db) (\<lambda>p db.
                   case table_select (log_records db) p of
                     None \<Rightarrow> Inl invalid_data_error
                   | Some r \<Rightarrow>
                       if lr_state r \<noteq> Validated then Inr db
                       else follow_loop fuel env [(p, work_item r)] {} db) db) (\<lambda>db.
               Inr (False, db))))))"

definition process_block_with_followers :: "nat \<Rightarrow> ('pk, 'sk) log_env \<Rightarrow> const_data_buffer \<Rightarrow> const_data_buffer \<Rightarrow>
    log_state \<Rightarrow> bool \<Rightarrow> database \<Rightarrow> database expected" where
  "process_block_with_followers fuel env bid data state in_consensus db =
     follow_loop fuel env [(bid, data, state, in_consensus)] {} db"

text \<open>\<open>process_followers\<close>: the same loop from all the leaves, which hands the state it read to
  \<open>update_consensus\<close>.\<close>

fun process_followers_loop :: "nat \<Rightarrow> ('pk, 'sk) log_env \<Rightarrow> log_work \<Rightarrow> const_data_buffer set \<Rightarrow> database \<Rightarrow>
    database expected" where
  "process_followers_loop fuel env [] processed db = Inr db"
| "process_followers_loop 0 env (p # not_processed) processed db = Inl Not_terminating"
| "process_followers_loop (Suc fuel) env ((_, data, state, in_consensus) # not_processed) processed db =
     get_expected (block_create (env_crypto env) data) (\<lambda>current_block.
     let processed = insert (tb_id current_block) processed
     in get_expected (process_block env current_block db) (\<lambda>(result, db).
        get_expected (update_consensus fuel env current_block data state in_consensus db) (\<lambda>(go_on, db).
        if \<not> go_on then Inr db
        else get_expected (for_loop (followers_of (tb_id current_block) db)
                 (visit_follower fuel processed result) (not_processed, db)) (\<lambda>(not_processed, db).
             process_followers_loop fuel env not_processed processed db))))"

definition process_followers :: "nat \<Rightarrow> ('pk, 'sk) log_env \<Rightarrow> database \<Rightarrow> database expected" where
  "process_followers fuel env db =
     process_followers_loop fuel env
       (fold (\<lambda>(bid, r). map_put bid (lr_data r, Leaf, lr_consensus r))
          (filter (\<lambda>(_, r). lr_state r = Leaf) (log_records db)) []) {} db"

section \<open>save\<close>

definition insert_block :: "transaction_block \<Rightarrow> const_data_buffer \<Rightarrow> database \<Rightarrow> database expected" where
  "insert_block b data db =
     get_expected (table_insert ''transaction_log_record'' (tb_id b)
         \<lparr>lr_data = data, lr_state = Validated, lr_consensus = False, lr_order_no = tb_order_no b,
          lr_time_point = tb_time_point b\<rparr> (log_records db)) (\<lambda>t1.
     for_loop (tb_ancestors b) (\<lambda>ancestor db.
       get_expected (table_insert ''transaction_log_hierarchy'' (ancestor, tb_id b) () (log_hierarchy db)) (\<lambda>t2.
         Inr (db\<lparr>log_hierarchy := t2\<rparr>))) (db\<lparr>log_records := t1\<rparr>))"

definition save_block :: "nat \<Rightarrow> ('pk, 'sk) log_env \<Rightarrow> const_data_buffer \<Rightarrow> bool \<Rightarrow> database \<Rightarrow>
    (const_data_buffer \<times> database) expected" where
  "save_block fuel env data allow_root db =
     get_expected (block_create (env_crypto env) data) (\<lambda>b.
     if tb_ancestors b = [] \<and> \<not> allow_root then Inl (Runtime_error ''Root block is not allowed'')
     else vds_assert (\<not> block_exists b db) ''!block_exists''
       (get_expected (insert_block b data db) (\<lambda>db.
        get_expected (process_block_with_followers fuel env (tb_id b) data Validated False db) (\<lambda>db.
          Inr (tb_id b, db)))))"

end
