(* ===== verification/Log_monotone.thy ===== *)
theory Log_monotone
  imports Transaction_log
begin

text \<open>
  What no operation of \<open>transaction_log.cpp\<close> takes back: the stored blocks with their data, order
  and time, the hierarchy, consensus once it was reached, a vote once it was given. A locale for
  relations that hold between the states before and after an effect carries the proofs through the
  loops and the message walker.
\<close>

section \<open>Effects\<close>

locale effect =
  fixes le :: "'s \<Rightarrow> 's \<Rightarrow> bool"
  assumes le_refl: "le s s" and le_trans: "le s t \<Longrightarrow> le t u \<Longrightarrow> le s u"
begin

lemma for_loop_le:
  assumes "\<And>i s s'. i \<in> set is \<Longrightarrow> body i s = Inr s' \<Longrightarrow> le s s'"
  shows "for_loop is body s = Inr s' \<Longrightarrow> le s s'"
  using assms
proof (induction "is" arbitrary: s)
  case Nil
  then show ?case by (simp add: le_refl)
next
  case (Cons i "is")
  then obtain t where "body i s = Inr t" "for_loop is body t = Inr s'" by (auto simp: expected_simps)
  with Cons show ?case by (meson le_trans list.set_intros)
qed

lemma walk_le:
  assumes "\<And>m s r s'. visit m s = Inr (r, s') \<Longrightarrow> le s s'"
  shows "process_messages cr visit d s = Inr (r, s') \<Longrightarrow> le s s'"
proof (induction d arbitrary: s rule: length_induct)
  case (1 d)
  show ?case
  proof (cases "d = []")
    case True
    with 1(2) show ?thesis by (simp add: process_messages.simps le_refl)
  next
    case False
    with 1(2) obtain i d1 m d2 r1 s1 where i: "get_uint8 d = Inr (i, d1)" and m: "get_message cr i d1 = Inr (m, d2)"
      and v: "visit m s = Inr (r1, s1)"
      and rest: "(if \<not> r1 then Inr (False, s1) else process_messages cr visit d2 s1) = Inr (r, s')"
      by (subst (asm) process_messages.simps) (auto simp: expected_simps)
    from i False have "length d1 < length d" by (cases d) auto
    moreover have "length d2 \<le> length d1"
      using consumes_message [of cr i] m unfolding consumes_def by blast
    ultimately have "length d2 < length d" by simp
    moreover have "le s s1" using assms v by blast
    ultimately show ?thesis using 1(1) rest by (auto split: if_splits intro: le_trans)
  qed
qed

end

section \<open>The order on databases\<close>

definition votes_le :: "(const_data_buffer \<times> const_data_buffer, vote_request) table \<Rightarrow>
    (const_data_buffer \<times> const_data_buffer, vote_request) table \<Rightarrow> bool" where
  "votes_le t t' \<longleftrightarrow> (\<forall>k v. table_select t k = Some v \<longrightarrow>
     (\<exists>v'. table_select t' k = Some v' \<and> vr_new_member v' = vr_new_member v \<and> (vr_approved v \<longrightarrow> vr_approved v')))"

definition record_le :: "log_record \<Rightarrow> log_record \<Rightarrow> bool" where
  "record_le r r' \<longleftrightarrow> lr_data r' = lr_data r \<and> lr_order_no r' = lr_order_no r \<and> lr_time_point r' = lr_time_point r
     \<and> (lr_consensus r \<longrightarrow> lr_consensus r')"

definition records_le :: "(const_data_buffer, log_record) table \<Rightarrow> (const_data_buffer, log_record) table \<Rightarrow> bool" where
  "records_le t t' \<longleftrightarrow> list_all2 (\<lambda>(i, r) (i', r'). i' = i \<and> record_le r r') t t'"

definition log_le :: "database \<Rightarrow> database \<Rightarrow> bool" where
  "log_le db db' \<longleftrightarrow> records_le (log_records db) (log_records db')
     \<and> log_hierarchy db' = log_hierarchy db \<and> votes_le (vote_requests db) (vote_requests db')"

text \<open>Messages do not touch the log at all, except for the vote requests.\<close>

definition rows_le :: "database \<Rightarrow> database \<Rightarrow> bool" where
  "rows_le db db' \<longleftrightarrow> log_records db' = log_records db
     \<and> log_hierarchy db' = log_hierarchy db \<and> votes_le (vote_requests db) (vote_requests db')"

lemma votes_le_refl [simp]: "votes_le t t"
  by (simp add: votes_le_def)

lemma votes_le_trans: "votes_le t u \<Longrightarrow> votes_le u v \<Longrightarrow> votes_le t v"
  unfolding votes_le_def by metis

lemma record_le_refl [simp]: "record_le r r"
  by (simp add: record_le_def)

lemma records_le_refl [simp]: "records_le t t"
  by (auto simp: records_le_def intro!: list.rel_refl_strong)

lemma records_le_trans: "records_le t u \<Longrightarrow> records_le u v \<Longrightarrow> records_le t v"
  unfolding records_le_def
  by (erule list_all2_trans [rotated -2], assumption) (auto simp: record_le_def)

lemma votes_le_insert: "k \<notin> table_keys t \<Longrightarrow> votes_le t (t @ [(k, v)])"
  by (auto simp: votes_le_def select_insert dest: map_of_SomeD in_table_keys)

lemma votes_le_approve: "votes_le t (update_key k (\<lambda>v. v\<lparr>vr_approved := True\<rparr>) t)"
  by (auto simp: votes_le_def select_update_key)

lemma records_le_update: "(\<And>r. record_le r (f r)) \<Longrightarrow> records_le t (table_update c f t)"
  by (auto simp: records_le_def table_update_def list_all2_map2 intro!: list.rel_refl_strong)

lemma records_le_select:
  "records_le t t' \<Longrightarrow> table_select t i = Some r \<Longrightarrow> \<exists>r'. table_select t' i = Some r' \<and> record_le r r'"
  unfolding records_le_def by (induction rule: list_all2_induct) (auto split: if_splits)

lemma records_le_keys: "records_le t t' \<Longrightarrow> map fst t' = map fst t"
  unfolding records_le_def by (induction rule: list_all2_induct) auto

interpretation log_effect: effect log_le
  by unfold_locales (auto simp: log_le_def intro: records_le_trans votes_le_trans)

interpretation rows_effect: effect rows_le
  by unfold_locales (auto simp: rows_le_def intro: votes_le_trans)

interpretation work_effect: effect "\<lambda>x y. log_le (snd (x :: 'x \<times> database)) (snd y)"
  by unfold_locales (auto intro: log_effect.le_refl log_effect.le_trans)

interpretation undo_effect: effect "\<lambda>x y. rows_le (fst (x :: database \<times> 'u)) (fst y)"
  by unfold_locales (auto intro: rows_effect.le_refl rows_effect.le_trans)

section \<open>Every operation\<close>

lemma rows_le_frame:
  "log_records db' = log_records db \<Longrightarrow> log_hierarchy db' = log_hierarchy db \<Longrightarrow>
   votes_le (vote_requests db) (vote_requests db') \<Longrightarrow> rows_le db db'"
  by (simp add: rows_le_def)

lemma rows_log_le: "rows_le db db' \<Longrightarrow> log_le db db'"
  by (simp add: rows_le_def log_le_def)

lemma log_le_records: "records_le (log_records db) t \<Longrightarrow> log_le db (db\<lparr>log_records := t\<rparr>)"
  by (simp add: log_le_def)

lemma apply_replica_rows: "apply_replica env b m i db = Inr db' \<Longrightarrow> rows_le db db'"
  by (auto simp: apply_replica_def insert_replica_location_def expected_simps intro!: rows_le_frame)

lemma undo_replica_rows: "undo_replica b m i db = Inr db' \<Longrightarrow> rows_le db db'"
  by (auto simp: undo_replica_def delete_replica_location_def intro!: rows_le_frame)

lemma apply_payment_rows: "apply_payment env b m db = Inr (r, db') \<Longrightarrow> rows_le db db'"
  by (auto simp: apply_payment_def expected_simps Let_def intro!: rows_le_frame split: option.splits if_splits)

lemma apply_asset_issue_rows: "apply_asset_issue env b m db = Inr (r, db') \<Longrightarrow> rows_le db db'"
  by (auto simp: apply_asset_issue_def expected_simps intro!: rows_le_frame split: option.splits if_splits)

lemma apply_node_add_rows: "apply_node_add env b m db = Inr (r, db') \<Longrightarrow> rows_le db db'"
  unfolding apply_node_add_def get_expected_Inr_iff
  by (elim exE conjE) (simp only: sum.inject prod.inject table_insert_Inr, elim conjE, hypsubst,
    rule rows_le_frame, simp_all add: votes_le_insert)

lemma apply_record_rows: "apply_record env b m db = Inr (r, db') \<Longrightarrow> rows_le db db'"
proof (cases m)
  case (Store_block s)
  assume "apply_record env b m db = Inr (r, db')"
  with Store_block have "for_loop (replica_indices (length (sb_replicas s))) (apply_replica env b s) db = Inr db'"
    by (auto simp: apply_store_block_def expected_simps split: if_splits)
  then show ?thesis by (rule rows_effect.for_loop_le [rotated]) (rule apply_replica_rows)
qed (auto simp: apply_channel_message_def insert_channel_message_def apply_create_user_def
    apply_create_wallet_def apply_host_block_def insert_replica_location_def expected_simps
    dest: apply_payment_rows apply_asset_issue_rows apply_node_add_rows intro: rows_le_frame)

lemma undo_record_rows: "undo_record env b m db = Inr db' \<Longrightarrow> rows_le db db'"
proof (cases m)
  case (Store_block s)
  assume "undo_record env b m db = Inr db'"
  with Store_block have "for_loop [0..<length (sb_replicas s)] (undo_replica b s) db = Inr db'"
    by (auto simp: undo_store_block_def split: if_splits)
  then show ?thesis by (rule rows_effect.for_loop_le [rotated]) (rule undo_replica_rows)
qed (auto simp: undo_payment_def undo_asset_issue_def undo_channel_message_def undo_create_user_def
    undo_node_add_def undo_create_wallet_def undo_host_block_def delete_replica_location_def
    expected_simps Let_def intro!: rows_le_frame split: option.splits)

lemma consensus_record_rows: "consensus_record b m db = Inr db' \<Longrightarrow> rows_le db db'"
  by (cases m) (auto simp: consensus_payment_def consensus_asset_issue_def consensus_nothing Let_def intro!: rows_le_frame
      split: option.splits if_splits)

lemma undo_actions_rows: "undo_actions env b us db = Inr db' \<Longrightarrow> rows_le db db'"
proof (induction us arbitrary: db)
  case (Cons m us)
  then show ?case by (auto simp: expected_simps dest!: undo_record_rows intro: rows_effect.le_trans)
qed (simp add: rows_effect.le_refl)

lemma process_records_rows:
  assumes "process_records env b db = Inr (r, db')"
  shows "rows_le db db'"
proof -
  from assms obtain c db1 us where
    walk: "process_messages (env_crypto env) (process_visit env b) (buffer_data (tb_messages b)) (db, []) = Inr (c, db1, us)"
    and rest: "c \<and> db1 = db' \<or> undo_actions env b us db1 = Inr db'"
    by (auto simp: process_records_def expected_simps split: if_splits)
  have "rows_le db db1"
  proof -
    have "rows_le (fst x) (fst y)" if "process_visit env b m x = Inr (r, y)" for m x r and y :: "database \<times> 'a transaction_message list"
      using that by (auto simp: process_visit_def expected_simps dest: apply_record_rows)
    from undo_effect.walk_le [OF this walk] show ?thesis by simp
  qed
  with rest show ?thesis by (auto dest: undo_actions_rows intro: rows_effect.le_trans)
qed

lemma consensus_records_rows:
  assumes "consensus_records env b db = Inr db'"
  shows "rows_le db db'"
proof -
  from assms obtain r where "process_messages (env_crypto env)
      (\<lambda>m db. get_expected (consensus_record b m db) (\<lambda>db. Inr (True, db))) (buffer_data (tb_messages b)) db = Inr (r, db')"
    by (auto simp: consensus_records_def expected_simps)
  then show ?thesis
    by (rule rows_effect.walk_le [rotated]) (auto simp: expected_simps dest: consensus_record_rows)
qed

lemma undo_records_rows: "undo_records env b db = Inr db' \<Longrightarrow> rows_le db db'"
  by (auto simp: undo_records_def expected_simps dest: undo_actions_rows)

lemmas process_records_le = process_records_rows [THEN rows_log_le]
  and consensus_records_le = consensus_records_rows [THEN rows_log_le]
  and undo_records_le = undo_records_rows [THEN rows_log_le]

lemma set_state_le: "log_le db (set_state st i db)"
  unfolding set_state_def by (rule log_le_records, rule records_le_update) (simp add: record_le_def)

lemma fold_set_state_le: "log_le db (fold (set_state st) is db)"
  by (induction "is" arbitrary: db) (auto intro: log_effect.le_refl log_effect.le_trans set_state_le)

lemma insert_vote_request_rows: "insert_vote_request i w db = Inr db' \<Longrightarrow> rows_le db db'"
  by (auto simp: insert_vote_request_def expected_simps intro!: rows_le_frame votes_le_insert)

text \<open>The outcomes of \<open>process_block\<close>: not ready, or ready with the votes added, the messages applied
  and the states set.\<close>

lemma process_block_outcome:
  assumes "process_block env b db = Inr (st, db')"
  obtains "check_ancestors b db (tb_ancestors b) (Leaf, [], []) = Inr None" "st = Validated" "db' = db"
  | state remove_leaf votes db1 db2 where
      "check_ancestors b db (tb_ancestors b) (Leaf, [], []) = Inr (Some (state, remove_leaf, votes))"
      "for_loop (filter (\<lambda>w. w \<notin> set (vote_owners (tb_id b) db)) votes) (insert_vote_request (tb_id b)) db = Inr db1"
      "if state = Leaf \<or> state = Processed
       then \<exists>ok. process_records env b db1 = Inr (ok, db2) \<and> st = (if ok then state else Invalid)
       else db2 = db1 \<and> st = state"
      "db' = (let db = set_state st (tb_id b) db2
              in if st = Leaf then fold (set_state Processed) remove_leaf db else db)"
proof -
  from assms obtain r where r: "check_ancestors b db (tb_ancestors b) (Leaf, [], []) = Inr r"
    by (auto simp: process_block_def expected_simps)
  show thesis
  proof (cases r)
    case None
    with assms r have "st = Validated" "db' = db" by (simp_all add: process_block_def)
    with None r show ?thesis by (intro that(1)) simp_all
  next
    case (Some a)
    then obtain state remove_leaf votes where a: "r = Some (state, remove_leaf, votes)" by (cases a) auto
    from assms obtain db1 where db1: "for_loop (filter (\<lambda>w. w \<notin> set (vote_owners (tb_id b) db)) votes)
        (insert_vote_request (tb_id b)) db = Inr db1"
      by (auto simp: process_block_def r a Let_def expected_simps)
    show ?thesis
    proof (cases "state = Leaf \<or> state = Processed")
      case True
      with assms r a db1 obtain ok db2 where "process_records env b db1 = Inr (ok, db2)"
        "st = (if ok then state else Invalid)" "db' = (let db = set_state st (tb_id b) db2
              in if st = Leaf then fold (set_state Processed) remove_leaf db else db)"
        by (auto simp: process_block_def Let_def expected_simps)
      with True r a db1 show ?thesis by (intro that(2) [of state remove_leaf votes db1 db2]) auto
    next
      case False
      with assms r a db1 have "st = state" "db' = set_state st (tb_id b) db1"
        by (auto simp: process_block_def Let_def)
      with False r a db1 show ?thesis by (intro that(2) [of state remove_leaf votes db1 db1]) (auto simp: Let_def)
    qed
  qed
qed

lemma process_block_le:
  assumes "process_block env b db = Inr (st, db')"
  shows "log_le db db'"
  using assms
proof (cases rule: process_block_outcome)
  case (2 state remove_leaf votes db1 db2)
  have "rows_le db db1" by (rule rows_effect.for_loop_le [OF _ 2(2)]) (rule insert_vote_request_rows)
  then have "log_le db db1" by (rule rows_log_le)
  moreover have "log_le db1 db2"
    using 2(3) by (auto split: if_splits dest: process_records_le intro: log_effect.le_refl)
  moreover have "log_le db2 db'"
    unfolding 2(4) Let_def using set_state_le [of db2 st "tb_id b"]
    by (cases "st = Leaf") (auto intro: log_effect.le_trans [OF _ fold_set_state_le])
  ultimately show ?thesis by (blast intro: log_effect.le_trans)
qed (simp add: log_effect.le_refl)

lemma invalid_block_le: "invalid_block fuel i val db = Inr db' \<Longrightarrow> log_le db db'"
proof (induction fuel arbitrary: i db db')
  case (Suc fuel)
  from Suc.prems have "log_le (set_state (if val then Invalid else Validated) i db) db'"
    unfolding invalid_block.simps Let_def
    by (rule log_effect.for_loop_le [rotated]) (auto split: option.splits if_splits intro: Suc.IH)
  then show ?case using set_state_le log_effect.le_trans by blast
qed simp

lemma rollback_ancestors_le:
  "rollback_ancestors mo as (np, pr, db) = Inr (np', pr', db') \<Longrightarrow> log_le db db'"
proof (induction "as" arbitrary: np pr db)
  case (Cons a as)
  have "\<exists>np1 pr1 db1. rollback_ancestors mo as (np1, pr1, db1) = Inr (np', pr', db')
      \<and> (db1 = db \<or> db1 = set_state Leaf a db)"
  proof (cases "a \<in> pr \<or> a \<in> fst ` set np")
    case True
    with Cons.prems show ?thesis by auto
  next
    case False
    with Cons.prems obtain r where "table_select (log_records db) a = Some r" by (auto split: option.splits)
    with False Cons.prems show ?thesis by (simp split: if_splits) blast+
  qed
  then obtain np1 pr1 db1 where "rollback_ancestors mo as (np1, pr1, db1) = Inr (np', pr', db')"
    "db1 = db \<or> db1 = set_state Leaf a db" by blast
  then have "log_le db1 db'" "log_le db db1"
    using Cons.IH set_state_le log_effect.le_refl by auto
  then show ?case by (blast intro: log_effect.le_trans)
qed (simp add: log_effect.le_refl)

lemma rollback_loop_le: "rollback_loop fuel env mo np pr db = Inr db' \<Longrightarrow> log_le db db'"
proof (induction fuel env mo np pr db rule: rollback_loop.induct)
  case (3 fuel env mo i data np pr db)
  from 3(2) obtain b db1 np2 pr2 db2 where "undo_records env b db = Inr db1"
    "rollback_ancestors mo (tb_ancestors b) (np, insert (tb_id b) pr, set_state Validated (tb_id b) db1) = Inr (np2, pr2, db2)"
    "rollback_loop fuel env mo np2 pr2 db2 = Inr db'" "block_create (env_crypto env) data = Inr b"
    by (auto simp: expected_simps)
  then have "log_le db db1" "log_le (set_state Validated (tb_id b) db1) db2" "log_le db2 db'"
    using 3(1) by (auto dest: undo_records_le rollback_ancestors_le)
  then show ?case using set_state_le [of db1 Validated "tb_id b"] log_effect.le_trans by blast
qed (auto intro: log_effect.le_refl)

lemma rollback_all_le: "rollback_all fuel env mo db = Inr db' \<Longrightarrow> log_le db db'"
  unfolding rollback_all_def by (rule rollback_loop_le)

lemma record_vote_rows: "record_vote b cur cons db = Inr (v, db') \<Longrightarrow> rows_le db db'"
  by (auto simp: record_vote_def Let_def expected_simps split: option.splits if_splits
      intro!: rows_le_frame votes_le_insert votes_le_approve)

lemmas record_vote_le = record_vote_rows [THEN rows_log_le]

lemma vote_loop_le: "vote_loop fuel env b np pr c db = Inr (c', db') \<Longrightarrow> log_le db db'"
proof (induction fuel arbitrary: np pr c db)
  case 0
  then show ?case by (cases np) (auto intro: log_effect.le_refl)
next
  case (Suc fuel)
  show ?case
  proof (cases np)
    case Nil
    with Suc.prems show ?thesis by (simp add: log_effect.le_refl)
  next
    case (Cons p np1)
    with Suc.prems obtain cur v db1 np2 pr2 c2 where "record_vote b cur (snd (snd (snd p))) db = Inr (v, db1)"
      "vote_loop fuel env b np2 pr2 c2 db1 = Inr (c', db')"
      by (cases p) (auto simp: expected_simps Let_def split: option.splits)
    then show ?thesis by (blast intro: log_effect.le_trans dest: record_vote_le Suc.IH)
  qed
qed

lemma confirm_candidate_le: "confirm_candidate env hi p db = Inr db' \<Longrightarrow> log_le db db'"
  apply (cases p)
  apply (clarsimp simp: confirm_candidate_def Let_def)
  apply (rule log_effect.le_trans [OF log_le_records [OF records_le_update [where f = "\<lambda>r. r\<lparr>lr_consensus := True\<rparr>"]]])
   apply (simp add: record_le_def)
  apply (auto simp: expected_simps split: if_splits dest: consensus_records_le intro: log_effect.le_refl)
  done

lemma reprocess_candidate_le: "reprocess_candidate fuel env p db = Inr db' \<Longrightarrow> log_le db db'"
  by (cases p) (auto simp: reprocess_candidate_def expected_simps split: if_splits
      dest!: consensus_records_le process_block_le invalid_block_le intro: log_effect.le_refl log_effect.le_trans)

lemma visit_follower_le:
  "visit_follower fuel pr st p (np, db) = Inr (np', db') \<Longrightarrow> log_le db db'"
  by (auto simp: visit_follower_def expected_simps split: if_splits option.splits
      dest: invalid_block_le intro: log_effect.le_refl)

lemma visit_followers_le:
  assumes "for_loop ps (visit_follower fuel pr st) (np, db) = Inr (np', db')"
  shows "log_le db db'"
proof -
  have "log_le (snd x) (snd y)" if "visit_follower fuel pr st p x = Inr y" for p x y
    using that by (cases x, cases y) (auto dest: visit_follower_le)
  from work_effect.for_loop_le [OF this assms] show ?thesis by simp
qed

end
