(* ===== verification/Log_save.thy ===== *)
theory Log_save
  imports Log_monotone
begin

text \<open>The log as a whole: \<open>follow_loop\<close>, \<open>update_consensus\<close>, \<open>save\<close>.\<close>

definition follow_keeps :: "nat \<Rightarrow> ('pk, 'sk) log_env \<Rightarrow> bool" where
  "follow_keeps fuel env \<longleftrightarrow> (\<forall>np pr db db'. follow_loop fuel env np pr db = Inr db' \<longrightarrow> log_le db db')"

definition update_keeps :: "nat \<Rightarrow> ('pk, 'sk) log_env \<Rightarrow> bool" where
  "update_keeps fuel env \<longleftrightarrow>
     (\<forall>b data st cons db r db'. update_consensus fuel env b data st cons db = Inr (r, db') \<longrightarrow> log_le db db')"

lemma update_keeps_Suc:
  assumes "follow_keeps fuel env"
  shows "update_keeps (Suc fuel) env"
  unfolding update_keeps_def
proof (intro allI impI)
  fix b data st cons db r db'
  assume run: "update_consensus (Suc fuel) env b data st cons db = Inr (r, db')"
  then obtain c db1 where votes: "vote_loop fuel env b [(tb_id b, data, st, cons)] {}
        \<lparr>consensus_candidate = [], min_order = 0, have_invalid_consensus = False\<rparr> db = Inr (c, db1)"
    by (auto simp: expected_simps)
  then have le1: "log_le db db1" by (rule vote_loop_le)
  show "log_le db db'"
  proof (cases "consensus_candidate c = []")
    case True
    with run votes le1 show ?thesis by simp
  next
    case False
    with run votes obtain db2 where "for_loop (consensus_candidate c) (confirm_candidate env (have_invalid_consensus c)) db1 = Inr db2"
      by (auto simp: expected_simps)
    note db2 = this
    have le2: "log_le db1 db2" using log_effect.for_loop_le [OF confirm_candidate_le db2] .
    show ?thesis
    proof (cases "have_invalid_consensus c")
      case False
      with run votes db2 \<open>consensus_candidate c \<noteq> []\<close> le1 le2 show ?thesis
        by (auto intro: log_effect.le_trans)
    next
      case True
      with run votes db2 \<open>consensus_candidate c \<noteq> []\<close> obtain db3 db4 where
        db3: "rollback_all fuel env (min_order c) db2 = Inr db3"
        and db4: "for_loop (consensus_candidate c) (reprocess_candidate fuel env) db3 = Inr db4"
        and db5: "for_loop (leaf_followers db4) (\<lambda>p db.
              case table_select (log_records db) p of None \<Rightarrow> Inl invalid_data_error
              | Some r \<Rightarrow> if lr_state r \<noteq> Validated then Inr db
                  else follow_loop fuel env [(p, work_item r)] {} db) db4 = Inr db'"
        by (auto simp: expected_simps)
      have "log_le db2 db3" using db3 by (rule rollback_all_le)
      moreover have "log_le db3 db4" using log_effect.for_loop_le [OF reprocess_candidate_le db4] .
      moreover have "log_le db4 db'"
        by (rule log_effect.for_loop_le [OF _ db5])
          (use assms in \<open>auto simp: follow_keeps_def split: option.splits if_splits intro: log_effect.le_refl\<close>)
      ultimately show ?thesis using le1 le2 by (blast intro: log_effect.le_trans)
    qed
  qed
qed

lemma follow_keeps_Suc:
  assumes "follow_keeps fuel env" "update_keeps fuel env"
  shows "follow_keeps (Suc fuel) env"
  unfolding follow_keeps_def
proof (intro allI impI)
  fix np pr db db'
  assume run: "follow_loop (Suc fuel) env np pr db = Inr db'"
  show "log_le db db'"
  proof (cases np)
    case Nil
    with run show ?thesis by (simp add: log_effect.le_refl)
  next
    case (Cons p np1)
    obtain i data s cons where p: "p = (i, data, s, cons)" by (cases p)
    from run Cons p obtain b st db1 where "block_create (env_crypto env) data = Inr b"
      and pb: "process_block env b db = Inr (st, db1)"
      and rest: "if st = Validated then follow_loop fuel env np1 (insert (tb_id b) pr) db1 = Inr db'
         else \<exists>go_on db2. update_consensus fuel env b data st cons db1 = Inr (go_on, db2)
          \<and> (if \<not> go_on then db2 = db' else \<exists>np3 db3. for_loop (followers_of (tb_id b) db2)
               (visit_follower fuel (insert (tb_id b) pr) st) (np1, db2) = Inr (np3, db3)
             \<and> follow_loop fuel env np3 (insert (tb_id b) pr) db3 = Inr db')"
      by (force simp: expected_simps Let_def split: if_splits)
    have "log_le db db1" using pb by (rule process_block_le)
    moreover have "log_le db1 db'"
    proof (cases "st = Validated")
      case True
      with rest assms(1) show ?thesis by (auto simp: follow_keeps_def)
    next
      case False
      with rest obtain go_on db2 where up: "update_consensus fuel env b data st cons db1 = Inr (go_on, db2)"
        and r2: "if \<not> go_on then db2 = db' else \<exists>np3 db3. for_loop (followers_of (tb_id b) db2)
               (visit_follower fuel (insert (tb_id b) pr) st) (np1, db2) = Inr (np3, db3)
             \<and> follow_loop fuel env np3 (insert (tb_id b) pr) db3 = Inr db'" by auto
      have "log_le db1 db2" using up assms(2) unfolding update_keeps_def by blast
      moreover have "log_le db2 db'"
      proof (cases go_on)
        case True
        with r2 obtain np3 db3 where "for_loop (followers_of (tb_id b) db2)
            (visit_follower fuel (insert (tb_id b) pr) st) (np1, db2) = Inr (np3, db3)"
          "follow_loop fuel env np3 (insert (tb_id b) pr) db3 = Inr db'" by auto
        with assms(1) show ?thesis
          unfolding follow_keeps_def by (blast dest: visit_followers_le intro: log_effect.le_trans)
      next
        case False
        with r2 show ?thesis by (simp add: log_effect.le_refl)
      qed
      ultimately show ?thesis by (rule log_effect.le_trans)
    qed
    ultimately show ?thesis by (rule log_effect.le_trans)
  qed
qed

lemma follow_update_keeps: "follow_keeps fuel env \<and> update_keeps fuel env"
proof (induction fuel)
  case 0
  have "follow_loop 0 env np pr db = Inr db' \<Longrightarrow> log_le db db'" for np pr db db'
    by (cases np) (auto intro: log_effect.le_refl)
  then show ?case by (auto simp: follow_keeps_def update_keeps_def)
qed (simp add: update_keeps_Suc follow_keeps_Suc)

end
