(* ===== verification/Log_properties.thy ===== *)
theory Log_properties
  imports Log_save
begin

text \<open>The properties of the log as a whole.\<close>

section \<open>save\<close>

lemma insert_ancestors:
  "for_loop as (\<lambda>a db. get_expected (table_insert name (a, i) () (log_hierarchy db)) (\<lambda>t2.
      Inr (db\<lparr>log_hierarchy := t2\<rparr>))) db = Inr db' \<Longrightarrow>
   db' = db\<lparr>log_hierarchy := log_hierarchy db @ map (\<lambda>a. ((a, i), ())) as\<rparr>"
proof (induction "as" arbitrary: db)
  case (Cons a "as")
  then have "for_loop as (\<lambda>a db. get_expected (table_insert name (a, i) () (log_hierarchy db)) (\<lambda>t2.
      Inr (db\<lparr>log_hierarchy := t2\<rparr>))) (db\<lparr>log_hierarchy := log_hierarchy db @ [((a, i), ())]\<rparr>) = Inr db'"
    by (auto simp: expected_simps)
  from Cons.IH [OF this] show ?case by simp
qed simp

lemma insert_block_Inr:
  assumes "insert_block b data db = Inr db'"
  shows "tb_id b \<notin> table_keys (log_records db)
    \<and> db' = db\<lparr>log_records := log_records db @ [(tb_id b, \<lparr>lr_data = data, lr_state = Validated,
         lr_consensus = False, lr_order_no = tb_order_no b, lr_time_point = tb_time_point b\<rparr>)],
       log_hierarchy := log_hierarchy db @ map (\<lambda>a. ((a, tb_id b), ())) (tb_ancestors b)\<rparr>"
  using assms by (auto simp: insert_block_def expected_simps dest!: insert_ancestors)

lemma process_block_with_followers_le:
  "process_block_with_followers fuel env i data st cons db = Inr db' \<Longrightarrow> log_le db db'"
  using follow_update_keeps [of fuel env] unfolding process_block_with_followers_def follow_keeps_def by blast

lemma save_block_steps:
  assumes "save_block fuel env data allow_root db = Inr (i, db')"
  obtains b db1 where "block_create (env_crypto env) data = Inr b" "i = tb_id b" "i \<notin> table_keys (log_records db)"
    "db1 = db\<lparr>log_records := log_records db @ [(i, \<lparr>lr_data = data, lr_state = Validated,
         lr_consensus = False, lr_order_no = tb_order_no b, lr_time_point = tb_time_point b\<rparr>)],
       log_hierarchy := log_hierarchy db @ map (\<lambda>a. ((a, i), ())) (tb_ancestors b)\<rparr>"
    "log_le db1 db'" "tb_ancestors b \<noteq> [] \<or> allow_root"
proof -
  from assms obtain b db1 where b: "block_create (env_crypto env) data = Inr b" "i = tb_id b"
    "tb_ancestors b \<noteq> [] \<or> allow_root"
    and db1: "insert_block b data db = Inr db1"
    and db': "process_block_with_followers fuel env i data Validated False db1 = Inr db'"
    by (auto simp: save_block_def expected_simps split: if_splits)
  from that [OF b(1,2)] b(3) insert_block_Inr [OF db1] process_block_with_followers_le [OF db'] show thesis
    unfolding b(2) by blast
qed

text \<open>C27: Saving a block (with all that follows from it: votes, consensus, rollback of losing
  branches, processing of followers) adds one record with the given bytes and takes nothing back:
  every stored block keeps its data, order number and time, consensus once reached stays, a vote
  once given stays, and the hierarchy grows by the ancestors of the new block.\<close>

theorem save_keeps_log:
  assumes "save_block fuel env data allow_root db = Inr (i, db')"
  shows "map fst (log_records db') = map fst (log_records db) @ [i]
    \<and> i \<notin> table_keys (log_records db) \<and> (\<exists>r. table_select (log_records db') i = Some r \<and> lr_data r = data)
    \<and> (\<forall>j r. table_select (log_records db) j = Some r \<longrightarrow>
        (\<exists>r'. table_select (log_records db') j = Some r' \<and> lr_data r' = lr_data r \<and> lr_order_no r' = lr_order_no r
          \<and> lr_time_point r' = lr_time_point r \<and> (lr_consensus r \<longrightarrow> lr_consensus r')))
    \<and> (\<forall>k v. table_select (vote_requests db) k = Some v \<longrightarrow>
        (\<exists>v'. table_select (vote_requests db') k = Some v' \<and> (vr_approved v \<longrightarrow> vr_approved v')))
    \<and> (\<exists>b. block_create (env_crypto env) data = Inr b \<and> i = tb_id b
        \<and> log_hierarchy db' = log_hierarchy db @ map (\<lambda>a. ((a, i), ())) (tb_ancestors b))"
proof -
  from save_block_steps [OF assms] obtain b db1 where b: "block_create (env_crypto env) data = Inr b" "i = tb_id b"
    and new: "i \<notin> table_keys (log_records db)"
    and db1: "db1 = db\<lparr>log_records := log_records db @ [(i, \<lparr>lr_data = data, lr_state = Validated,
         lr_consensus = False, lr_order_no = tb_order_no b, lr_time_point = tb_time_point b\<rparr>)],
       log_hierarchy := log_hierarchy db @ map (\<lambda>a. ((a, i), ())) (tb_ancestors b)\<rparr>"
    and le: "records_le (log_records db1) (log_records db')" "log_hierarchy db' = log_hierarchy db1"
      "votes_le (vote_requests db1) (vote_requests db')"
    unfolding log_le_def by metis
  have sel: "table_select (log_records db1) j = (if j = i then Some \<lparr>lr_data = data, lr_state = Validated,
      lr_consensus = False, lr_order_no = tb_order_no b, lr_time_point = tb_time_point b\<rparr>
      else table_select (log_records db) j)" for j
    using select_insert [OF new] by (simp add: db1)
  have keys: "map fst (log_records db') = map fst (log_records db) @ [i]"
    using records_le_keys [OF le(1)] by (simp add: db1)
  have this_block: "\<exists>r. table_select (log_records db') i = Some r \<and> lr_data r = data"
    using records_le_select [OF le(1), of i] by (auto simp: sel record_le_def)
  have old: "\<exists>r'. table_select (log_records db') j = Some r' \<and> lr_data r' = lr_data r \<and> lr_order_no r' = lr_order_no r
        \<and> lr_time_point r' = lr_time_point r \<and> (lr_consensus r \<longrightarrow> lr_consensus r')"
    if j: "table_select (log_records db) j = Some r" for j r
  proof -
    have "j \<noteq> i" using j new by (metis option.distinct(1) table_select_None)
    with j have "table_select (log_records db1) j = Some r" by (simp add: sel)
    from records_le_select [OF le(1) this] show ?thesis by (auto simp: record_le_def)
  qed
  have votes: "\<exists>v'. table_select (vote_requests db') k = Some v' \<and> (vr_approved v \<longrightarrow> vr_approved v')"
    if "table_select (vote_requests db) k = Some v" for k v
    using le(3) that unfolding votes_le_def db1 by fastforce
  have "log_hierarchy db' = log_hierarchy db @ map (\<lambda>a. ((a, i), ())) (tb_ancestors b)"
    using le(2) by (simp add: db1)
  with b new keys this_block old votes show ?thesis by blast
qed

text \<open>A root block that adds its author, signed with a stand-in for OpenSSL.\<close>

definition sample_env :: "(const_data_buffer, unit) log_env" where
  "sample_env = \<lparr>env_crypto = \<lparr>hash_signature = \<lambda>d. Inr (Data_buffer [of_nat (buffer_size d)]), key_der = Inr,
     key_parse_der = Inr, key_fingerprint = Inr, sign_verify = \<lambda>_ _ _. Inr True,
     sign_data = \<lambda>_ _. Inr (Data_buffer [7])\<rparr>, env_node_id = Data_buffer [4], env_now = 5\<rparr>"

definition sample_root :: const_data_buffer where
  "sample_root = Data_buffer [0x31, 0x56, 0x44, 0x53, 0, 0, 0, 0, 0, 0, 0, 5, 0, 0, 0, 0, 0, 0, 0, 1, 1, 4, 0,
     3, 0x6D, 1, 4, 1, 7]"

theorem save_keeps_log_witness:
  "\<exists>db'. save_block 3 sample_env sample_root True empty_database = Inr (Data_buffer [29], db')
     \<and> map fst (log_records db') = [Data_buffer [29]]
     \<and> (\<exists>r. table_select (log_records db') (Data_buffer [29]) = Some r \<and> lr_data r = sample_root)"
proof -
  have "case save_block 3 sample_env sample_root True empty_database of Inr (i, _) \<Rightarrow> i = Data_buffer [29] | _ \<Rightarrow> False"
    by code_simp
  then obtain db' where run: "save_block 3 sample_env sample_root True empty_database = Inr (Data_buffer [29], db')"
    by (auto split: sum.splits)
  from save_keeps_log [OF run] run show ?thesis by (auto simp: empty_database_def)
qed

section \<open>The log stays well formed\<close>

text \<open>
  Keys are unique; every record holds the bytes of the block it is filed under, with the order
  number and time of the block; the hierarchy lists exactly the ancestors of the stored blocks.
\<close>

definition log_ok :: "('pk, 'sk) log_env \<Rightarrow> database \<Rightarrow> bool" where
  "log_ok env db \<longleftrightarrow> table_ok (log_records db)
     \<and> (\<forall>i r. table_select (log_records db) i = Some r \<longrightarrow>
          (\<exists>b. block_create (env_crypto env) (lr_data r) = Inr b \<and> tb_id b = i \<and> tb_order_no b = lr_order_no r
             \<and> tb_time_point b = lr_time_point r \<and> (\<forall>a. (a, i) \<in> table_keys (log_hierarchy db) \<longleftrightarrow> a \<in> set (tb_ancestors b))))
     \<and> (\<forall>a i. (a, i) \<in> table_keys (log_hierarchy db) \<longrightarrow> i \<in> table_keys (log_records db))"

lemma log_ok_le:
  assumes "log_ok env db" "log_le db db'"
  shows "log_ok env db'"
proof -
  have keys: "map fst (log_records db') = map fst (log_records db)" and h: "log_hierarchy db' = log_hierarchy db"
    using assms(2) by (auto simp: log_le_def records_le_keys)
  have "\<exists>r0. table_select (log_records db) i = Some r0 \<and> record_le r0 r"
    if r: "table_select (log_records db') i = Some r" for i r
  proof -
    from r have "i \<in> table_keys (log_records db')" by (auto dest: map_of_SomeD in_table_keys)
    then have "i \<in> table_keys (log_records db)" using keys by (metis list.set_map)
    then obtain r0 where r0: "table_select (log_records db) i = Some r0" by (metis not_None_eq table_select_None)
    have "records_le (log_records db) (log_records db')" using assms(2) by (simp add: log_le_def)
    from records_le_select [OF this r0] r r0 show ?thesis by auto
  qed
  then show ?thesis
    using assms(1) keys unfolding log_ok_def h table_ok_def record_le_def
    by (metis (no_types, lifting) list.set_map)
qed

lemma save_block_log_ok:
  assumes "log_ok env db" and "save_block fuel env data allow_root db = Inr (i, db')"
  shows "log_ok env db'"
proof -
  from save_block_steps [OF assms(2)] obtain b db1 where b: "block_create (env_crypto env) data = Inr b" "i = tb_id b"
    and new: "i \<notin> table_keys (log_records db)"
    and db1: "db1 = db\<lparr>log_records := log_records db @ [(i, \<lparr>lr_data = data, lr_state = Validated,
         lr_consensus = False, lr_order_no = tb_order_no b, lr_time_point = tb_time_point b\<rparr>)],
       log_hierarchy := log_hierarchy db @ map (\<lambda>a. ((a, i), ())) (tb_ancestors b)\<rparr>"
    and le: "log_le db1 db'"
    by metis
  have hier: "(a, j) \<in> table_keys (log_hierarchy db1) \<longleftrightarrow>
      (a, j) \<in> table_keys (log_hierarchy db) \<or> j = i \<and> a \<in> set (tb_ancestors b)" for a j
    by (simp add: db1 image_Un image_image) (auto simp: image_iff)
  have no: "(a, i) \<notin> table_keys (log_hierarchy db)" for a
    using assms(1) new unfolding log_ok_def by blast
  have "log_ok env db1"
    unfolding log_ok_def
  proof (intro conjI allI impI)
    show "table_ok (log_records db1)"
      using assms(1) new by (simp add: log_ok_def table_ok_def db1)
  next
    fix j r
    assume r: "table_select (log_records db1) j = Some r"
    show "\<exists>b. block_create (env_crypto env) (lr_data r) = Inr b \<and> tb_id b = j \<and> tb_order_no b = lr_order_no r
        \<and> tb_time_point b = lr_time_point r
        \<and> (\<forall>a. (a, j) \<in> table_keys (log_hierarchy db1) \<longleftrightarrow> a \<in> set (tb_ancestors b))"
    proof (cases "j = i")
      case True
      with r new b no show ?thesis by (auto simp: hier) (auto simp: db1 select_insert simp del: map_of_append)
    next
      case False
      with r new have "table_select (log_records db) j = Some r" by (simp add: db1 select_insert del: map_of_append)
      with assms(1) False show ?thesis unfolding log_ok_def hier by metis
    qed
  next
    fix a j
    assume "(a, j) \<in> table_keys (log_hierarchy db1)"
    then have "j = i \<or> j \<in> table_keys (log_records db)"
      unfolding hier using assms(1) log_ok_def by blast
    then show "j \<in> table_keys (log_records db1)" by (auto simp: db1)
  qed
  then show ?thesis using le by (rule log_ok_le)
qed

text \<open>Saving a block keeps the log well formed: every record is filed under the hash of its bytes,
  once, with the order number and time the bytes say, and the hierarchy table holds exactly the
  ancestor relation of the stored blocks. It holds for the empty log, hence for every log.\<close>

theorem save_log_ok:
  assumes "log_ok env db" and "save_block fuel env data allow_root db = Inr (i, db')"
  shows "log_ok env db'"
  using assms by (rule save_block_log_ok)

theorem save_log_ok_witness:
  "\<exists>db'. save_block 3 sample_env sample_root True empty_database = Inr (Data_buffer [29], db') \<and> log_ok sample_env db'"
proof -
  have "case save_block 3 sample_env sample_root True empty_database of Inr (i, _) \<Rightarrow> i = Data_buffer [29] | _ \<Rightarrow> False"
    by code_simp
  then obtain db' where run: "save_block 3 sample_env sample_root True empty_database = Inr (Data_buffer [29], db')"
    by (auto split: sum.splits)
  moreover have "log_ok sample_env empty_database" by (simp add: log_ok_def table_ok_def empty_database_def)
  ultimately show ?thesis using save_log_ok by blast
qed

section \<open>A block is applied as a whole or not at all\<close>

lemma undo_actions_stack: "undo_actions env b us = undo_log.undo_stack (undo_record env b) us"
proof (induction us)
  case (Cons m us)
  show ?case by (rule ext) (simp add: record_undo.undo_stack.simps Cons.IH)
qed (simp add: fun_eq_iff record_undo.undo_stack.simps)

lemma process_visit_push: "process_visit env b = undo_log.push_visit (apply_record env b)"
  by (simp add: fun_eq_iff process_visit_def record_undo.push_visit_def)

lemma process_records_all_or_nothing:
  assumes "build_messages (env_crypto env) ms [] = Inr (tb_messages b)"
    and "\<forall>m \<in> set ms. message_ok (env_crypto env) m \<and> reversible_message m"
    and "balances_ok db" and "process_records env b db = Inr (applied, db')"
  shows "if applied then undo_records env b db' = Inr db else db' = db"
proof -
  let ?cr = "env_crypto env"
  have ok: "list_all (message_ok ?cr) ms" "list_all reversible_message ms" using assms(2) by (auto simp: list_all_iff)
  from build_messages_bytes [OF ok(1), of "[]"] assms(1)
  have data: "buffer_data (tb_messages b) = concat (map (message_bytes ?cr) ms)" by auto
  note walk = process_built [OF ok(1)]
  from assms(4) obtain c db1 us where v: "visit_all (undo_log.push_visit (apply_record env b)) ms (db, []) = Inr (c, db1, us)"
    and rest: "if c then applied \<and> db' = db1 else \<not> applied \<and> undo_actions env b us db1 = Inr db'"
    by (auto simp: process_records_def data walk process_visit_push expected_simps split: if_splits)
  note undone = record_undo.undo_visited [OF ok(2) assms(3) v]
  show ?thesis
  proof (cases c)
    case True
    have "visit_all (\<lambda>m us. Inr (True, m # us)) ms us0 = Inr (True, rev ms @ us0)" for us0
      by (induction ms arbitrary: us0) simp_all
    then have "undo_records env b db1 = undo_actions env b (rev ms) db1"
      by (simp add: undo_records_def data walk)
    with True rest undone(1,2) show ?thesis by (simp add: undo_actions_stack)
  next
    case False
    with rest undone(1) show ?thesis by (simp add: undo_actions_stack)
  qed
qed

text \<open>Three kinds of message are not taken back as they were: a channel message leaves its number, a user
  stays, a node leaves its vote request. The tables of the coins, the wallets and the replicas do not know
  of these kinds.\<close>

definition same_ledger :: "database \<Rightarrow> database \<Rightarrow> bool" where
  "same_ledger db db' \<longleftrightarrow> balances db' = balances db \<and> wallets db' = wallets db
     \<and> replica_data db' = replica_data db \<and> replica_map db' = replica_map db \<and> replica_payment db' = replica_payment db"

lemma same_ledger_refl: "same_ledger db db"
  by (simp add: same_ledger_def)

lemma same_ledger_trans: "same_ledger a b \<Longrightarrow> same_ledger b c \<Longrightarrow> same_ledger a c"
  by (simp add: same_ledger_def)

lemma same_ledger_sym: "same_ledger a b \<Longrightarrow> same_ledger b a"
  by (simp add: same_ledger_def)

lemma undo_replicas_ledger:
  "for_loop is (undo_replica b m) d = Inr d' \<Longrightarrow> for_loop is (undo_replica b m) x = Inr x' \<Longrightarrow> same_ledger d x \<Longrightarrow>
   same_ledger d' x'"
proof (induction "is" arbitrary: d x)
  case (Cons i "is")
  from Cons.prems(1,2) obtain d1 x1 where first: "undo_replica b m i d = Inr d1" "undo_replica b m i x = Inr x1"
    and rest: "for_loop is (undo_replica b m) d1 = Inr d'" "for_loop is (undo_replica b m) x1 = Inr x'"
    by (auto simp: expected_simps)
  from first Cons.prems(3) have "same_ledger d1 x1"
    by (auto simp: undo_replica_def same_ledger_def delete_replica_location_def)
  from Cons.IH [OF rest this] show ?case .
qed simp

text \<open>On the same ledger the undo does the same, whatever the other tables hold.\<close>

lemma undo_record_ledger:
  assumes "reversible_message m" "undo_record env b m d = Inr d'" "undo_record env b m x = Inr x'" "same_ledger d x"
  shows "same_ledger d' x'"
proof (cases m)
  case (Store_block s)
  with assms undo_replicas_ledger show ?thesis by (auto simp: undo_store_block_def split: if_splits)
qed (use assms in \<open>auto simp: undo_payment_def undo_create_wallet_def undo_asset_issue_def undo_host_block_def
  delete_replica_location_def same_ledger_def expected_simps Let_def split: option.splits\<close>)

lemma irreversible_ledger:
  assumes "\<not> reversible_message m"
  shows "apply_record env b m d = Inr (r, d') \<Longrightarrow> same_ledger d d'" "undo_record env b m d = Inr d' \<Longrightarrow> same_ledger d d'"
  using assms
  by (cases m; auto simp: apply_channel_message_def insert_channel_message_def apply_create_user_def apply_node_add_def
      undo_channel_message_def undo_create_user_def undo_node_add_def same_ledger_def expected_simps)+

lemma undo_applied_ledger:
  assumes "balances_ok d" "apply_record env b m d = Inr (True, d')" "undo_record env b m x = Inr x'" "same_ledger d' x"
  shows "same_ledger d x'"
proof (cases "reversible_message m")
  case True
  from undo_record_ledger [OF True record_undo.undo_apply [OF True assms(1,2)] assms(3,4)] show ?thesis .
next
  case False
  from irreversible_ledger [OF False] assms(2-4) show ?thesis by (blast intro: same_ledger_trans)
qed

lemma undo_actions_append:
  "undo_actions env b (us @ vs) x = get_expected (undo_actions env b us x) (undo_actions env b vs)"
  by (induction us arbitrary: x) (simp_all add: get_expected_assoc cong: get_expected_cong)

lemma process_visit_cases:
  assumes "process_visit env b m (d, us) = Inr (r, d', us')"
  shows "apply_record env b m d = Inr (r, d')" "us' = (if r then m # us else us)"
  using assms by (auto simp: process_visit_def expected_simps)

lemma visited_ledger:
  "visit_all (process_visit env b) ms (d, us) = Inr (r, d', us') \<Longrightarrow> balances_ok d \<Longrightarrow>
     \<exists>dn. us' = dn @ us \<and> (r \<longrightarrow> dn = rev ms)
       \<and> (\<forall>x x'. same_ledger d' x \<longrightarrow> undo_actions env b dn x = Inr x' \<longrightarrow> same_ledger d x')"
proof (induction ms arbitrary: d us)
  case (Cons m ms)
  from Cons.prems(1) obtain r1 d1 us1 where v: "process_visit env b m (d, us) = Inr (r1, d1, us1)"
    and rest: "if r1 then visit_all (process_visit env b) ms (d1, us1) = Inr (r, d', us') else r = False \<and> d' = d1 \<and> us' = us1"
    by (auto simp: expected_simps split: if_splits)
  note m = process_visit_cases [OF v]
  show ?case
  proof (cases r1)
    case True
    with m(1) have a: "apply_record env b m d = Inr (True, d1)" by simp
    from True m(2) rest obtain dn where dn: "us' = dn @ m # us" "r \<longrightarrow> dn = rev ms"
      and undo: "\<And>x x'. same_ledger d' x \<Longrightarrow> undo_actions env b dn x = Inr x' \<Longrightarrow> same_ledger d1 x'"
      using Cons.IH [of d1 us1] apply_record_balances_ok [OF Cons.prems(2) a] by auto
    have "same_ledger d x'" if x: "same_ledger d' x" "undo_actions env b (dn @ [m]) x = Inr x'" for x x'
    proof -
      from x(2) obtain y where "undo_actions env b dn x = Inr y" "undo_record env b m y = Inr x'"
        by (auto simp: undo_actions_append expected_simps)
      with undo [OF x(1)] undo_applied_ledger [OF Cons.prems(2) a] show ?thesis by blast
    qed
    with dn show ?thesis by (intro exI [of _ "dn @ [m]"]) simp
  next
    case False
    with m(1) have "apply_record env b m d = Inr (False, d1)" by simp
    then have "same_ledger d d1"
      using record_undo.apply_refused [of m env b d d1] irreversible_ledger(1) [of m env b d False d1] same_ledger_refl by metis
    with False rest m(2) show ?thesis by (auto intro: same_ledger_trans)
  qed
qed (auto simp: same_ledger_def)

lemma process_records_ledger:
  assumes "build_messages (env_crypto env) ms [] = Inr (tb_messages b)" and "\<forall>m \<in> set ms. message_ok (env_crypto env) m"
    and "balances_ok db" and "process_records env b db = Inr (applied, db')"
  shows "if applied then \<forall>db''. undo_records env b db' = Inr db'' \<longrightarrow> same_ledger db db'' else same_ledger db db'"
proof -
  have ok: "list_all (message_ok (env_crypto env)) ms" using assms(2) by (auto simp: list_all_iff)
  from build_messages_bytes [OF ok, of "[]"] assms(1)
  have data: "buffer_data (tb_messages b) = concat (map (message_bytes (env_crypto env)) ms)" by auto
  note walk = process_built [OF ok]
  from assms(4) obtain c db1 us where v: "visit_all (process_visit env b) ms (db, []) = Inr (c, db1, us)"
    and rest: "if c then applied \<and> db' = db1 else \<not> applied \<and> undo_actions env b us db1 = Inr db'"
    by (auto simp: process_records_def data walk expected_simps split: if_splits)
  from visited_ledger [OF v assms(3)] obtain dn where dn: "us = dn" "c \<longrightarrow> dn = rev ms"
    and undo: "\<And>x x'. same_ledger db1 x \<Longrightarrow> undo_actions env b dn x = Inr x' \<Longrightarrow> same_ledger db x'" by auto
  show ?thesis
  proof (cases c)
    case True
    have "visit_all (\<lambda>m us. Inr (True, m # us)) ms us0 = Inr (True, rev ms @ us0)" for us0
      by (induction ms arbitrary: us0) simp_all
    then have "undo_records env b db1 = undo_actions env b (rev ms) db1"
      by (simp add: undo_records_def data walk)
    with True rest dn undo [OF same_ledger_refl] show ?thesis by simp
  next
    case False
    with rest dn undo [OF same_ledger_refl] show ?thesis by simp
  qed
qed

text \<open>C29: The messages of a block are applied as a whole or not at all. When all of them are of the kinds
  whose undo is an inverse (payments, wallets, asset issues, stored and hosted blocks; not channel messages,
  new users and nodes) and one is refused, the messages before it are undone and the database is the one
  before the block; when all are applied, \<open>undo_records\<close> (which \<open>rollback_all\<close> calls) gives that database
  back. For messages of any kind the same holds of the tables of balances, wallets and replicas, whenever
  the undo succeeds.\<close>

theorem process_records_transactional:
  assumes "build_messages (env_crypto env) ms [] = Inr (tb_messages b)" and "\<forall>m \<in> set ms. message_ok (env_crypto env) m"
    and "balances_ok db" and "process_records env b db = Inr (applied, db')"
  shows "((\<forall>m \<in> set ms. reversible_message m) \<longrightarrow> (if applied then undo_records env b db' = Inr db else db' = db))
    \<and> (if applied then \<forall>db''. undo_records env b db' = Inr db'' \<longrightarrow> same_ledger db db'' else same_ledger db db')"
  using process_records_all_or_nothing [OF assms(1) _ assms(3,4)] process_records_ledger [OF assms] assms(2) by blast

text \<open>A block with one wallet, on the empty database.\<close>

definition sample_block :: transaction_block where
  "sample_block = \<lparr>tb_version = current_version, tb_time_point = 5, tb_id = Data_buffer [1], tb_order_no = 1,
     tb_write_public_key_id = Data_buffer [4], tb_ancestors = [], tb_messages = Data_buffer [0x77, 0, 1, 8],
     tb_signature = Data_buffer [7]\<rparr>"

definition sample_messages :: "const_data_buffer transaction_message list" where
  "sample_messages = [Create_wallet \<lparr>cw_id = Data_buffer [], cw_public_key = Data_buffer [8]\<rparr>]"

lemma sample_messages_ok:
  "build_messages (env_crypto sample_env) sample_messages [] = Inr (tb_messages sample_block)"
  "\<forall>m \<in> set sample_messages. message_ok (env_crypto sample_env) m"
  by code_simp (simp add: sample_messages_def small_buffer_def)

theorem process_records_transactional_witness:
  "\<exists>db'. process_records sample_env sample_block empty_database = Inr (True, db')
     \<and> undo_records sample_env sample_block db' = Inr empty_database"
proof -
  have "case process_records sample_env sample_block empty_database of Inr (r, _) \<Rightarrow> r | _ \<Rightarrow> False"
    by code_simp
  then obtain db' where run: "process_records sample_env sample_block empty_database = Inr (True, db')"
    by (auto split: sum.splits)
  moreover have "balances_ok empty_database" by (simp add: empty_database_def table_ok_def)
  moreover have "\<forall>m \<in> set sample_messages. reversible_message m" by (simp add: sample_messages_def)
  ultimately show ?thesis
    using process_records_transactional [OF sample_messages_ok, of empty_database True db'] by simp
qed

end
