(* ===== verification/Coin_properties.thy ===== *)
theory Coin_properties
  imports Log_properties
begin

text \<open>
  The coins: what a payment requires and moves, that no block creates coins except by an asset issue,
  and what the consensus of an issue requires of the row it made.
\<close>

lemma applied_then:
  "(case v of Inr (r, x) \<Rightarrow> r \<and> P x | Inl _ \<Rightarrow> False) \<Longrightarrow> \<exists>x. v = Inr (True, x) \<and> P x"
  by (auto split: sum.splits)

section \<open>The coins of a currency\<close>

definition coins :: "const_data_buffer \<Rightarrow> cstring \<Rightarrow> (balance_key, balance_row) table \<Rightarrow> nat" where
  "coins issuer currency t =
     sum_list (map (\<lambda>((_, i, c, _), r). if i = issuer \<and> c = currency then unat (proposed_balance r) else 0) t)"

fun issued :: "const_data_buffer \<Rightarrow> cstring \<Rightarrow> 'pk transaction_message \<Rightarrow> nat" where
  "issued issuer currency (Asset_issue m) =
     (if ai_issuer m = issuer \<and> ai_currency m = currency then unat (ai_value m) else 0)"
| "issued issuer currency _ = 0"

lemma sum_update_key:
  fixes w :: "'k \<Rightarrow> 'v \<Rightarrow> nat"
  assumes "table_ok t" "table_select t k = Some v"
  shows "sum_list (map (\<lambda>(k, v). w k v) (update_key k f t)) + w k v = sum_list (map (\<lambda>(k, v). w k v) t) + w k (f v)"
  using assms
proof (induction t)
  case (Cons p t)
  obtain k1 v1 where p: "p = (k1, v1)" by (cases p)
  show ?case
  proof (cases "k1 = k")
    case True
    with Cons.prems p have "k \<notin> table_keys t" "v1 = v" by (auto simp: table_ok_def)
    with True p show ?thesis
      using update_key_missing [of k t f] by (simp add: table_update_def)
  next
    case False
    with Cons p show ?thesis by (simp add: table_update_def table_ok_def)
  qed
qed simp

lemma coins_append: "coins i c (t @ u) = coins i c t + coins i c u"
  by (simp add: coins_def)

lemma coins_update_key:
  assumes "table_ok t" "table_select t (w, i, c, s) = Some v"
  shows "coins i' c' (update_key (w, i, c, s) f t) + (if i = i' \<and> c = c' then unat (proposed_balance v) else 0)
    = coins i' c' t + (if i = i' \<and> c = c' then unat (proposed_balance (f v)) else 0)"
  using sum_update_key [OF assms, where w = "\<lambda>(_, i, c, _) r. if i = i' \<and> c = c' then unat (proposed_balance r) else 0"]
  by (simp add: coins_def case_prod_unfold)

lemma apply_payment_coins:
  assumes "balances_ok db" "apply_payment env b m db = Inr (True, db')"
  shows "coins i c (balances db') = coins i c (balances db)"
proof -
  obtain row where row: "table_select (balances db) (payment_source m) = Some row" "pt_value m \<le> proposed_balance row"
    and db': "db' = db\<lparr>balances := update_key (payment_source m)
        (\<lambda>r. r\<lparr>proposed_balance := proposed_balance row - pt_value m\<rparr>) (balances db)
      @ [(payment_target m b, \<lparr>confirmed_balance = 0, proposed_balance = pt_value m\<rparr>)]\<rparr>"
    using apply_payment_True [OF assms(2)] by metis
  have "unat (proposed_balance row - pt_value m) + unat (pt_value m) = unat (proposed_balance row)"
    using row(2) by (simp add: unat_sub word_le_nat_alt)
  then show ?thesis
    using coins_update_key [OF assms(1) row(1) [unfolded payment_source_def], of i c
        "\<lambda>r. r\<lparr>proposed_balance := proposed_balance row - pt_value m\<rparr>"]
    by (auto simp: db' coins_append payment_source_def payment_target_def coins_def split: if_splits)
qed

lemma apply_record_coins:
  assumes "balances_ok db" "apply_record env b m db = Inr (True, db')"
  shows "coins i c (balances db') = coins i c (balances db) + issued i c m"
proof (cases m)
  case (Payment p)
  with assms apply_payment_coins show ?thesis by simp
next
  case (Asset_issue a)
  with assms show ?thesis
    by (auto simp: apply_asset_issue_def expected_simps coins_append coins_def asset_issue_key_def split: option.splits if_splits)
next
  case (Store_block s)
  with assms show ?thesis
    by (auto simp: apply_store_block_def replica_indices_def expected_simps with_replicas_def
        dest!: apply_replicas split: if_splits)
qed (use assms in \<open>auto simp: apply_channel_message_def insert_channel_message_def apply_create_user_def
  apply_node_add_def apply_create_wallet_def apply_host_block_def insert_replica_location_def expected_simps\<close>)

lemma process_visit_True:
  "process_visit env b m (db, us) = Inr (True, su) \<longleftrightarrow>
     (\<exists>db1. apply_record env b m db = Inr (True, db1) \<and> su = (db1, m # us))"
  by (auto simp: process_visit_def expected_simps)

lemma process_visit_False:
  "process_visit env b m (db, us) = Inr (r, su) \<Longrightarrow> \<exists>db1. apply_record env b m db = Inr (r, db1)"
  by (auto simp: process_visit_def expected_simps)

lemma visit_coins:
  "visit_all (process_visit env b) ms (db, us) = Inr (True, db', us') \<Longrightarrow> balances_ok db \<Longrightarrow>
   coins i c (balances db') = coins i c (balances db) + sum_list (map (issued i c) ms)"
proof (induction ms arbitrary: db us)
  case (Cons m ms)
  from Cons.prems(1) obtain db1 where m: "apply_record env b m db = Inr (True, db1)"
    and rest: "visit_all (process_visit env b) ms (db1, m # us) = Inr (True, db', us')"
    by (auto simp: process_visit_True expected_simps split: if_splits)
  from Cons.IH [OF rest] apply_record_balances_ok [OF Cons.prems(2) m] apply_record_coins [OF Cons.prems(2) m]
  show ?case by simp
qed simp

text \<open>C30: A block of messages of any kind conserves the coins of every currency: applied as a whole it adds
  exactly what its asset issues issue, and refused it adds nothing; no other message creates or destroys a
  coin. Amounts are summed as integers, so no wrap of a \<open>uint64_t\<close> is hidden.\<close>

theorem process_records_conserve_coins:
  assumes "build_messages (env_crypto env) ms [] = Inr (tb_messages b)"
    and "\<forall>m \<in> set ms. message_ok (env_crypto env) m"
    and "balances_ok db" and "process_records env b db = Inr (applied, db')"
  shows "coins i c (balances db')
    = coins i c (balances db) + (if applied then sum_list (map (issued i c) ms) else 0)"
proof -
  let ?cr = "env_crypto env"
  have ok: "list_all (message_ok ?cr) ms" using assms(2) by (auto simp: list_all_iff)
  from build_messages_bytes [OF ok, of "[]"] assms(1)
  have data: "buffer_data (tb_messages b) = concat (map (message_bytes ?cr) ms)" by auto
  show ?thesis
  proof (cases applied)
    case True
    with assms(4) obtain us where "visit_all (process_visit env b) ms (db, []) = Inr (True, db', us)"
      by (auto simp: process_records_def data process_built [OF ok] expected_simps split: if_splits)
    from visit_coins [OF this assms(3)] True show ?thesis by simp
  next
    case False
    with assms(4) have "process_records env b db = Inr (False, db')" by simp
    from process_records_ledger [OF assms(1-3) this] False show ?thesis by (simp add: same_ledger_def)
  qed
qed

text \<open>A block that issues ten coins.\<close>

definition sample_issue_db :: database where
  "sample_issue_db = empty_database\<lparr>member_users := [(Data_buffer [5], Data_buffer [5])]\<rparr>"

definition sample_issue :: asset_issue_transaction where
  "sample_issue = \<lparr>ai_issuer = Data_buffer [5], ai_wallet_id = Data_buffer [8], ai_currency = [1], ai_value = 10,
     ai_signature = Data_buffer [7]\<rparr>"

definition sample_issue_block :: transaction_block where
  "sample_issue_block = sample_block\<lparr>tb_messages :=
     Data_buffer [0x69, 1, 5, 1, 8, 1, 1, 0, 0, 0, 0, 0, 0, 0, 10, 1, 7]\<rparr>"

theorem process_records_conserve_coins_witness:
  "\<exists>db'. process_records sample_env sample_issue_block sample_issue_db = Inr (True, db')
     \<and> coins (Data_buffer [5]) [1] (balances db') = 10"
proof -
  have "case process_records sample_env sample_issue_block sample_issue_db of Inr (r, _) \<Rightarrow> r | _ \<Rightarrow> False"
    by code_simp
  then obtain db' where run: "process_records sample_env sample_issue_block sample_issue_db = Inr (True, db')"
    by (auto split: sum.splits)
  have "build_messages (env_crypto sample_env) [Asset_issue sample_issue] [] = Inr (tb_messages sample_issue_block)"
    by code_simp
  moreover have "\<forall>m \<in> set [Asset_issue sample_issue]. message_ok (env_crypto sample_env) m"
    by (simp add: sample_issue_def small_buffer_def)
  moreover have "balances_ok sample_issue_db"
    by (simp add: sample_issue_db_def empty_database_def table_ok_def)
  ultimately have "coins (Data_buffer [5]) [1] (balances db')
      = coins (Data_buffer [5]) [1] (balances sample_issue_db)
        + (if True then sum_list (map (issued (Data_buffer [5]) [1])
            [Asset_issue sample_issue :: const_data_buffer transaction_message]) else 0)"
    using run by (rule process_records_conserve_coins)
  then show ?thesis
    using run by (simp add: coins_def sample_issue_db_def empty_database_def sample_issue_def)
qed

section \<open>A payment\<close>

text \<open>C31: A payment that is applied was signed by the key of the source wallet over all its fields and
  is covered by the balance it names; it lowers that balance by its value, makes a new balance of
  that value for the target under the id of the block, and touches nothing else.\<close>

theorem payment_effect:
  assumes "balances_ok db" and "apply_record env b (Payment m) db = Inr (True, db')"
  shows "(\<exists>public_key key. table_select (wallets db) (pt_source_wallet m) = Some public_key
      \<and> key_parse_der (env_crypto env) public_key = Inr key
      \<and> sign_verify (env_crypto env) key (pt_signature m) (payment_signature_data m) = Inr True)
    \<and> (\<exists>row. table_select (balances db) (payment_source m) = Some row \<and> pt_value m \<le> proposed_balance row
        \<and> table_select (balances db') (payment_source m)
            = Some (row\<lparr>proposed_balance := proposed_balance row - pt_value m\<rparr>))
    \<and> table_select (balances db) (payment_target m b) = None
    \<and> table_select (balances db') (payment_target m b) = Some \<lparr>confirmed_balance = 0, proposed_balance = pt_value m\<rparr>
    \<and> (\<forall>k. k \<noteq> payment_source m \<and> k \<noteq> payment_target m b \<longrightarrow>
         table_select (balances db') k = table_select (balances db) k)
    \<and> db' = db\<lparr>balances := balances db'\<rparr>"
proof -
  from assms(2) obtain public_key key row where
    key: "table_select (wallets db) (pt_source_wallet m) = Some public_key"
      "key_parse_der (env_crypto env) public_key = Inr key"
      "sign_verify (env_crypto env) key (pt_signature m) (payment_signature_data m) = Inr True"
    and row: "table_select (balances db) (payment_source m) = Some row" "pt_value m \<le> proposed_balance row"
    and new: "payment_target m b \<notin> table_keys (balances db)"
    and db': "db' = db\<lparr>balances := update_key (payment_source m)
        (\<lambda>r. r\<lparr>proposed_balance := proposed_balance row - pt_value m\<rparr>) (balances db)
      @ [(payment_target m b, \<lparr>confirmed_balance = 0, proposed_balance = pt_value m\<rparr>)]\<rparr>"
    by (auto elim: apply_payment_True)
  have ne: "payment_target m b \<noteq> payment_source m"
    using row new by (metis option.distinct(1) table_select_None)
  have sel: "table_select (balances db') k = (if k = payment_target m b
      then Some \<lparr>confirmed_balance = 0, proposed_balance = pt_value m\<rparr>
      else if k = payment_source m then Some (row\<lparr>proposed_balance := proposed_balance row - pt_value m\<rparr>)
      else table_select (balances db) k)" for k
    using new row by (simp add: db' select_insert select_update_key del: map_of_append)
  moreover have "db' = db\<lparr>balances := balances db'\<rparr>" unfolding db' by simp
  moreover have "table_select (balances db) (payment_target m b) = None"
    using new by (simp add: table_select_None)
  ultimately show ?thesis using key row ne by auto
qed

definition sample_payment :: payment_transaction where
  "sample_payment = \<lparr>pt_issuer = Data_buffer [5], pt_currency = [1], pt_source_transaction = Data_buffer [1],
     pt_source_wallet = Data_buffer [8], pt_target_wallet = Data_buffer [9], pt_value = 4, pt_payment_type = [],
     pt_notes = [], pt_signature = Data_buffer [7]\<rparr>"

definition sample_wallet_db :: database where
  "sample_wallet_db = sample_issue_db\<lparr>wallets := [(Data_buffer [8], Data_buffer [8])],
     balances := [((Data_buffer [8], Data_buffer [5], [1], Data_buffer [1]),
       \<lparr>confirmed_balance = 0, proposed_balance = 10\<rparr>)]\<rparr>"

theorem payment_effect_witness:
  "\<exists>db'. apply_record sample_env (sample_block\<lparr>tb_id := Data_buffer [2]\<rparr>) (Payment sample_payment) sample_wallet_db = Inr (True, db')
     \<and> table_select (balances db') (Data_buffer [9], Data_buffer [5], [1], Data_buffer [2])
       = Some \<lparr>confirmed_balance = 0, proposed_balance = 4\<rparr>"
proof -
  let ?b = "sample_block\<lparr>tb_id := Data_buffer [2]\<rparr>"
  have "case apply_record sample_env ?b (Payment sample_payment) sample_wallet_db of Inr (r, _) \<Rightarrow> r | _ \<Rightarrow> False"
    by code_simp
  then obtain db' where run: "apply_record sample_env ?b (Payment sample_payment) sample_wallet_db = Inr (True, db')"
    by (auto split: sum.splits)
  have "balances_ok sample_wallet_db" by (simp add: sample_wallet_db_def table_ok_def)
  from payment_effect [OF this run] run show ?thesis
    by (simp add: payment_target_def sample_payment_def)
qed

section \<open>Consensus on an issue, undo of a user\<close>

text \<open>C32: Once a coin of an issue has been spent in a later block, consensus on the block of the issue
  fails: \<open>consensus_record\<close> asks that the proposed balance still is the value of the issue, and the
  payment lowered it.\<close>

theorem issue_consensus_fails_after_payment:
  assumes "balances_ok db" and "apply_record env b (Asset_issue a) db = Inr (True, db1)"
    and "apply_record env b2 (Payment p) db1 = Inr (True, db2)"
    and "payment_source p = asset_issue_key a b" and "pt_value p \<noteq> 0"
  shows "consensus_record b (Asset_issue a) db2 = Inl database_corrupted"
proof -
  let ?k = "asset_issue_key a b"
  from assms(2) have new: "?k \<notin> table_keys (balances db)"
    and db1: "db1 = db\<lparr>balances := balances db @ [(?k, \<lparr>confirmed_balance = 0, proposed_balance = ai_value a\<rparr>)]\<rparr>"
    by (auto simp: apply_asset_issue_def expected_simps split: option.splits if_splits)
  from assms(3) obtain row where
    row: "table_select (balances db1) ?k = Some row" "pt_value p \<le> proposed_balance row"
    and new2: "payment_target p b2 \<notin> table_keys (balances db1)"
    and db2: "db2 = db1\<lparr>balances := update_key ?k
        (\<lambda>r. r\<lparr>proposed_balance := proposed_balance row - pt_value p\<rparr>) (balances db1)
      @ [(payment_target p b2, \<lparr>confirmed_balance = 0, proposed_balance = pt_value p\<rparr>)]\<rparr>"
    unfolding assms(4) [symmetric] by (auto elim: apply_payment_True)
  have "payment_target p b2 \<noteq> ?k" using new2 by (auto simp: db1)
  then have "table_select (balances db2) ?k = Some (row\<lparr>proposed_balance := proposed_balance row - pt_value p\<rparr>)"
    using row(1) new2 by (simp add: db2 select_insert select_update_key del: map_of_append)
  moreover have "proposed_balance row = ai_value a"
    using row(1) new by (simp add: db1 select_insert del: map_of_append) auto
  moreover have "ai_value a - pt_value p \<noteq> ai_value a" using assms(5) by simp
  ultimately show ?thesis by (simp add: consensus_asset_issue_def)
qed

theorem issue_consensus_fails_after_payment_witness:
  "\<exists>db1 db2. apply_record sample_env sample_block (Asset_issue sample_issue)
        (sample_wallet_db\<lparr>balances := []\<rparr>) = Inr (True, db1)
     \<and> apply_record sample_env (sample_block\<lparr>tb_id := Data_buffer [2]\<rparr>) (Payment sample_payment) db1 = Inr (True, db2)
     \<and> consensus_record sample_block (Asset_issue sample_issue :: const_data_buffer transaction_message) db2
         = Inl database_corrupted"
proof -
  let ?b2 = "sample_block\<lparr>tb_id := Data_buffer [2]\<rparr>" and ?db = "sample_wallet_db\<lparr>balances := []\<rparr>"
  have "case apply_record sample_env sample_block (Asset_issue sample_issue) ?db of
      Inr (r, db1) \<Rightarrow> r \<and> (case apply_record sample_env ?b2 (Payment sample_payment) db1 of
        Inr (r2, _) \<Rightarrow> r2 \<and> True | Inl _ \<Rightarrow> False) | Inl _ \<Rightarrow> False"
    by code_simp
  from applied_then [OF this] obtain db1 where db1: "apply_record sample_env sample_block (Asset_issue sample_issue) ?db = Inr (True, db1)"
    and "case apply_record sample_env ?b2 (Payment sample_payment) db1 of Inr (r2, _) \<Rightarrow> r2 \<and> True | Inl _ \<Rightarrow> False"
    by blast
  from db1 applied_then [OF this(2)] obtain db2 where run:
    "apply_record sample_env sample_block (Asset_issue sample_issue) ?db = Inr (True, db1)"
    "apply_record sample_env ?b2 (Payment sample_payment) db1 = Inr (True, db2)"
    by blast
  have "balances_ok ?db" by (simp add: table_ok_def)
  moreover have "payment_source sample_payment = asset_issue_key sample_issue sample_block" "pt_value sample_payment \<noteq> 0"
    by (simp_all add: payment_source_def asset_issue_key_def sample_payment_def sample_issue_def sample_block_def)
  ultimately have "consensus_record sample_block (Asset_issue sample_issue :: const_data_buffer transaction_message) db2
      = Inl database_corrupted"
    using run issue_consensus_fails_after_payment by blast
  with run show ?thesis by blast
qed

text \<open>C33: \<open>undo_record\<close> of a \<open>create_user_transaction\<close> leaves the user in the database: a block that
  was rolled back cannot be applied again, its insert breaks the primary key.\<close>

theorem create_user_not_undone:
  assumes "apply_record env b (Create_user m) db = Inr (True, db')"
  shows "undo_record env b (Create_user m) db' = Inr db' \<and> db' \<noteq> db
    \<and> apply_record env b2 (Create_user m) db' = Inl (Constraint_violation ''member_user_dbo'')"
proof -
  from assms obtain uid public_key where k: "key_fingerprint (env_crypto env) (cu_user_public_key m) = Inr uid"
    "key_der (env_crypto env) (cu_user_public_key m) = Inr public_key"
    and db': "db' = db\<lparr>member_users := member_users db @ [(uid, public_key)]\<rparr>"
    by (auto simp: apply_create_user_def expected_simps)
  have "member_users db' \<noteq> member_users db" by (simp add: db')
  then have "db' \<noteq> db" by auto
  with k show ?thesis by (simp add: undo_create_user_def apply_create_user_def db' table_insert_def)
qed

theorem create_user_not_undone_witness:
  "\<exists>m db'. apply_record sample_env sample_block (Create_user m) empty_database = Inr (True, db')
     \<and> undo_record sample_env sample_block (Create_user m) db' \<noteq> Inr empty_database"
proof -
  let ?m = "\<lparr>cu_user_email = [1], cu_user_public_key = Data_buffer [5], cu_user_profile_id = Data_buffer [],
    cu_user_name = [1]\<rparr>"
  obtain db' where run: "apply_record sample_env sample_block (Create_user ?m) empty_database = Inr (True, db')"
    by (simp add: apply_create_user_def sample_env_def empty_database_def table_insert_def)
  from create_user_not_undone [OF this] have "undo_record sample_env sample_block (Create_user ?m) db' \<noteq> Inr empty_database"
    by simp
  with run show ?thesis by blast
qed

end
