(* ===== verification/Consensus_properties.thy ===== *)
theory Consensus_properties
  imports Log_properties
begin

text \<open>
  When a block becomes a leaf, when it has consensus, what a rollback may touch and why the loops
  over the stored blocks end.
\<close>

section \<open>process_block\<close>

definition ancestor_ready :: "transaction_block \<Rightarrow> database \<Rightarrow> const_data_buffer \<Rightarrow> log_record \<Rightarrow> bool" where
  "ancestor_ready b db a r \<longleftrightarrow> table_select (log_records db) a = Some r
     \<and> lr_order_no r < tb_order_no b \<and> lr_time_point r \<le> tb_time_point b"

lemma check_ancestors_Some:
  "check_ancestors b db as (st, rl, vs) = Inr (Some (st', rl', vs')) \<Longrightarrow>
     (\<forall>a \<in> set as. \<exists>r. ancestor_ready b db a r \<and> lr_state r \<noteq> Validated
        \<and> (lr_state r = Leaf \<longrightarrow> a \<in> set rl') \<and> (lr_state r = Invalid \<longrightarrow> st' = Invalid))
     \<and> set rl \<subseteq> set rl' \<and> set rl' \<subseteq> set rl \<union> set as \<and> (st = Invalid \<longrightarrow> st' = Invalid)
     \<and> (st' = st \<or> st' = Invalid)"
proof (induction "as" arbitrary: st rl vs)
  case (Cons a "as")
  from Cons.prems obtain r where r: "table_select (log_records db) a = Some r"
    and ok: "lr_order_no r < tb_order_no b" "lr_time_point r \<le> tb_time_point b"
    by (auto simp: not_le not_less Let_def split: option.splits if_splits)
  then have a: "ancestor_ready b db a r" by (simp add: ancestor_ready_def)
  let ?vs = "fold set_emplace (vote_owners a db) vs"
  have step: "check_ancestors b db as (if lr_state r = Invalid then Invalid else st,
      if lr_state r = Leaf then set_emplace a rl else rl, ?vs) = Inr (Some (st', rl', vs'))"
    and nv: "lr_state r \<noteq> Validated"
    using Cons.prems r ok by (auto simp: Let_def not_le not_less split: log_state.splits if_splits)
  from Cons.IH [OF step] a nv show ?case
    by (cases "lr_state r") (auto simp: set_insort_insert)
qed simp

lemma select_set_state:
  "table_select (log_records (set_state st i db)) j =
     (if j = i then map_option (\<lambda>r. r\<lparr>lr_state := st\<rparr>) (table_select (log_records db) i)
      else table_select (log_records db) j)"
  by (simp add: set_state_def select_update_key)

lemma select_fold_set_state:
  "table_select (log_records (fold (set_state st) is db)) j =
     (if j \<in> set is then map_option (\<lambda>r. r\<lparr>lr_state := st\<rparr>) (table_select (log_records db) j)
      else table_select (log_records db) j)"
  by (induction "is" arbitrary: db) (auto simp: select_set_state option.map_comp comp_def)

lemma process_block_records:
  assumes "process_block env b db = Inr (st, db')" "st \<noteq> Validated"
  obtains remove_leaf where
    "\<forall>a \<in> set (tb_ancestors b). \<exists>r. ancestor_ready b db a r \<and> lr_state r \<noteq> Validated
        \<and> (lr_state r = Leaf \<longrightarrow> a \<in> set remove_leaf) \<and> (lr_state r = Invalid \<longrightarrow> st = Invalid)"
    "set remove_leaf \<subseteq> set (tb_ancestors b)" "st = Leaf \<or> st = Invalid"
    "\<And>j. table_select (log_records db') j =
       (if st = Leaf \<and> j \<in> set remove_leaf then map_option (\<lambda>r. r\<lparr>lr_state := Processed\<rparr>) (table_select (log_records db) j)
        else if j = tb_id b then map_option (\<lambda>r. r\<lparr>lr_state := st\<rparr>) (table_select (log_records db) j)
        else table_select (log_records db) j)"
  using assms(1)
proof (cases rule: process_block_outcome)
  case 1
  with assms(2) show ?thesis by simp
next
  case (2 state remove_leaf votes db1 db2)
  note c = check_ancestors_Some [OF 2(1)]
  have "rows_le db db1" by (rule rows_effect.for_loop_le [OF insert_vote_request_rows 2(2)])
  moreover have "rows_le db1 db2"
    using 2(3) by (auto split: if_splits dest: process_records_rows intro: rows_effect.le_refl)
  ultimately have same: "log_records db2 = log_records db" by (simp add: rows_le_def)
  have st: "st = Leaf \<or> st = Invalid" "state = Invalid \<longrightarrow> st = Invalid"
    using 2(3) c by (auto split: if_splits)
  show ?thesis
  proof (rule that [of remove_leaf])
    show "\<forall>a \<in> set (tb_ancestors b). \<exists>r. ancestor_ready b db a r \<and> lr_state r \<noteq> Validated
        \<and> (lr_state r = Leaf \<longrightarrow> a \<in> set remove_leaf) \<and> (lr_state r = Invalid \<longrightarrow> st = Invalid)"
      using c st(2) by blast
    show "set remove_leaf \<subseteq> set (tb_ancestors b)" using c by auto
    show "st = Leaf \<or> st = Invalid" by (rule st)
    show "table_select (log_records db') j =
       (if st = Leaf \<and> j \<in> set remove_leaf then map_option (\<lambda>r. r\<lparr>lr_state := Processed\<rparr>) (table_select (log_records db) j)
        else if j = tb_id b then map_option (\<lambda>r. r\<lparr>lr_state := st\<rparr>) (table_select (log_records db) j)
        else table_select (log_records db) j)" for j
      by (auto simp: 2(4) Let_def select_fold_set_state select_set_state same option.map_comp comp_def)
  qed
qed

text \<open>C28: A block becomes a leaf only on ground that carries it: every ancestor is stored, is a leaf or
  processed, and is strictly earlier in order and not later in time. Afterwards the block is a leaf
  and none of its ancestors is: the leaves stay the ends of the applied part of the log.\<close>

theorem process_block_leaf:
  assumes "process_block env b db = Inr (Leaf, db')" and "tb_id b \<notin> set (tb_ancestors b)"
    and "tb_id b \<in> table_keys (log_records db)"
  shows "(\<forall>a \<in> set (tb_ancestors b). \<exists>r r'. table_select (log_records db) a = Some r
        \<and> (lr_state r = Leaf \<or> lr_state r = Processed) \<and> lr_order_no r < tb_order_no b
        \<and> lr_time_point r \<le> tb_time_point b
        \<and> table_select (log_records db') a = Some r' \<and> lr_state r' = Processed)
    \<and> (\<exists>r. table_select (log_records db') (tb_id b) = Some r \<and> lr_state r = Leaf)
    \<and> (\<forall>j. j \<noteq> tb_id b \<and> j \<notin> set (tb_ancestors b) \<longrightarrow>
        table_select (log_records db') j = table_select (log_records db) j)"
proof -
  obtain remove_leaf where anc: "\<forall>a \<in> set (tb_ancestors b). \<exists>r. ancestor_ready b db a r \<and> lr_state r \<noteq> Validated
        \<and> (lr_state r = Leaf \<longrightarrow> a \<in> set remove_leaf) \<and> (lr_state r = Invalid \<longrightarrow> Leaf = Invalid)"
    and sub: "set remove_leaf \<subseteq> set (tb_ancestors b)"
    and sel: "\<And>j. table_select (log_records db') j =
       (if Leaf = Leaf \<and> j \<in> set remove_leaf then map_option (\<lambda>r. r\<lparr>lr_state := Processed\<rparr>) (table_select (log_records db) j)
        else if j = tb_id b then map_option (\<lambda>r. r\<lparr>lr_state := Leaf\<rparr>) (table_select (log_records db) j)
        else table_select (log_records db) j)"
    by (rule process_block_records [OF assms(1)]) auto
  obtain rb where rb: "table_select (log_records db) (tb_id b) = Some rb"
    using assms(3) by (metis not_None_eq table_select_None)
  have a: "\<exists>r r'. table_select (log_records db) a = Some r
        \<and> (lr_state r = Leaf \<or> lr_state r = Processed) \<and> lr_order_no r < tb_order_no b
        \<and> lr_time_point r \<le> tb_time_point b
        \<and> table_select (log_records db') a = Some r' \<and> lr_state r' = Processed" if "a \<in> set (tb_ancestors b)" for a
  proof -
    from anc that obtain r where r: "ancestor_ready b db a r" "lr_state r = Leaf \<or> lr_state r = Processed"
      "lr_state r = Leaf \<longrightarrow> a \<in> set remove_leaf"
      by (metis log_state.distinct(11) log_state.exhaust)
    moreover have "a \<noteq> tb_id b" using assms(2) that by auto
    ultimately show ?thesis by (auto simp: ancestor_ready_def sel)
  qed
  with rb assms(2) sub show ?thesis by (auto simp: sel)
qed

text \<open>A log of two records: a leaf and its follower, not yet processed.\<close>

definition sample_log :: database where
  "sample_log = empty_database\<lparr>log_records :=
     [(Data_buffer [1], \<lparr>lr_data = Data_buffer [], lr_state = Leaf, lr_consensus = True, lr_order_no = 1, lr_time_point = 5\<rparr>),
      (Data_buffer [2], \<lparr>lr_data = Data_buffer [], lr_state = Validated, lr_consensus = False, lr_order_no = 2, lr_time_point = 6\<rparr>)],
     log_hierarchy := [((Data_buffer [1], Data_buffer [2]), ())],
     vote_requests := [((Data_buffer [1], Data_buffer [4]), \<lparr>vr_approved = True, vr_new_member = True\<rparr>)]\<rparr>"

definition sample_follower :: transaction_block where
  "sample_follower = sample_block\<lparr>tb_id := Data_buffer [2], tb_order_no := 2, tb_time_point := 6,
     tb_ancestors := [Data_buffer [1]]\<rparr>"

theorem process_block_leaf_witness:
  "\<exists>db' r. process_block sample_env sample_follower sample_log = Inr (Leaf, db')
     \<and> table_select (log_records db') (Data_buffer [1]) = Some r \<and> lr_state r = Processed"
proof -
  have "case process_block sample_env sample_follower sample_log of Inr (st, _) \<Rightarrow> st = Leaf | _ \<Rightarrow> False"
    by code_simp
  then obtain db' where run: "process_block sample_env sample_follower sample_log = Inr (Leaf, db')"
    by (auto split: sum.splits)
  have "tb_id sample_follower \<notin> set (tb_ancestors sample_follower)" "tb_id sample_follower \<in> table_keys (log_records sample_log)"
    by (simp_all add: sample_follower_def sample_log_def)
  from process_block_leaf [OF run this] run show ?thesis by (auto simp: sample_follower_def)
qed

end
