(* ===== verification/Vote_properties.thy ===== *)
theory Vote_properties
  imports Consensus_properties
begin

text \<open>What \<open>check_consensus\<close> counts: a strict majority of the voters of a block.\<close>

definition voters :: "const_data_buffer \<Rightarrow> database \<Rightarrow> const_data_buffer set" where
  "voters bid db = {w. \<exists>v. table_select (vote_requests db) (bid, w) = Some v \<and> \<not> vr_new_member v}"

definition approvers :: "const_data_buffer \<Rightarrow> database \<Rightarrow> const_data_buffer set" where
  "approvers bid db =
     {w. \<exists>v. table_select (vote_requests db) (bid, w) = Some v \<and> \<not> vr_new_member v \<and> vr_approved v}"

lemma vote_count_card:
  assumes "table_ok (vote_requests db)"
  shows "vote_count c bid db = card {w. \<exists>v. table_select (vote_requests db) (bid, w) = Some v \<and> c v}"
proof -
  let ?rows = "filter (\<lambda>((i, _), v). i = bid \<and> c v) (vote_requests db)"
  have sel: "table_select (vote_requests db) k = Some v \<longleftrightarrow> (k, v) \<in> set (vote_requests db)" for k v
    using assms by (simp add: table_ok_def)
  have set_eq: "{w. \<exists>v. table_select (vote_requests db) (bid, w) = Some v \<and> c v} = set (map (snd \<circ> fst) ?rows)"
    by (force simp: sel)
  have "distinct (map fst ?rows)"
    using assms by (simp add: table_ok_def distinct_map_filter)
  moreover have "inj_on snd (set (map fst ?rows))"
    by (auto intro!: inj_onI)
  ultimately have "distinct (map snd (map fst ?rows))" by (simp only: distinct_map)
  then have "distinct (map (snd \<circ> fst) ?rows)" by (simp add: comp_def)
  from distinct_card [OF this] show ?thesis unfolding set_eq by (simp add: vote_count_def)
qed

lemma voters_finite: "finite (voters bid db)" "approvers bid db \<subseteq> voters bid db"
proof -
  have "voters bid db \<subseteq> snd ` table_keys (vote_requests db)"
    by (force simp: voters_def dest: map_of_SomeD)
  then show "finite (voters bid db)" by (rule finite_subset) simp
  show "approvers bid db \<subseteq> voters bid db" by (auto simp: voters_def approvers_def)
qed

lemma consensus_majority:
  assumes "table_ok (vote_requests db)"
  shows "check_consensus bid db \<longleftrightarrow> voters bid db = {} \<or> card (voters bid db) < 2 * card (approvers bid db)"
proof -
  have "vote_count (\<lambda>v. \<not> vr_new_member v) bid db = card (voters bid db)"
    "vote_count (\<lambda>v. vr_approved v \<and> \<not> vr_new_member v) bid db = card (approvers bid db)"
    unfolding vote_count_card [OF assms] voters_def approvers_def by (auto intro: arg_cong [where f = card])
  then show ?thesis
    using voters_finite(1) [of bid db] by (auto simp: check_consensus_def Let_def)
qed

text \<open>C38: \<open>check_consensus\<close> decides by a strict majority: a block has consensus exactly when nobody was
  asked to vote on it or when more than half of the asked owners approved; new members count on
  neither side.\<close>

theorem check_consensus_majority:
  assumes "table_ok (vote_requests db)"
  shows "check_consensus bid db \<longleftrightarrow> voters bid db = {} \<or> card (voters bid db) < 2 * card (approvers bid db)"
  using assms by (rule consensus_majority)

theorem check_consensus_majority_witness:
  "check_consensus (Data_buffer [1]) (empty_database\<lparr>vote_requests :=
     [((Data_buffer [1], Data_buffer [4]), \<lparr>vr_approved = True, vr_new_member = False\<rparr>),
      ((Data_buffer [1], Data_buffer [5]), \<lparr>vr_approved = False, vr_new_member = True\<rparr>)]\<rparr>)"
proof -
  let ?db = "empty_database\<lparr>vote_requests :=
     [((Data_buffer [1], Data_buffer [4]), \<lparr>vr_approved = True, vr_new_member = False\<rparr>),
      ((Data_buffer [1], Data_buffer [5]), \<lparr>vr_approved = False, vr_new_member = True\<rparr>)]\<rparr>"
  have "voters (Data_buffer [1]) ?db = {Data_buffer [4]}" "approvers (Data_buffer [1]) ?db = {Data_buffer [4]}"
    by (auto simp: voters_def approvers_def split: if_splits)
  moreover have "table_ok (vote_requests ?db)" by (simp add: table_ok_def)
  ultimately show ?thesis using check_consensus_majority [of ?db] by simp
qed

end
