(* ===== verification/Rollback_properties.thy ===== *)
theory Rollback_properties
  imports Consensus_properties
begin

text \<open>
  \<open>rollback_all\<close> and the vote loop: what they leave alone, and that they end. That a loop ends is stated
  as: with the fuel that is enough the result is not \<open>Not_terminating\<close>.
\<close>

section \<open>The work that is left\<close>

text \<open>Every round of the loops takes a stored block that was not processed before.\<close>

definition unprocessed :: "database \<Rightarrow> const_data_buffer set \<Rightarrow> nat" where
  "unprocessed db processed = card (table_keys (log_records db) - processed)"

lemma unprocessed_insert:
  assumes "i \<in> table_keys (log_records db)" "i \<notin> processed"
  shows "unprocessed db processed = Suc (unprocessed db (insert i processed))"
proof -
  have "table_keys (log_records db) - insert i processed = (table_keys (log_records db) - processed) - {i}" by auto
  moreover have "Suc (card ((table_keys (log_records db) - processed) - {i})) = card (table_keys (log_records db) - processed)"
    using assms by (intro card_Suc_Diff1) auto
  ultimately show ?thesis by (simp add: unprocessed_def)
qed

lemma unprocessed_mono: "p \<subseteq> q \<Longrightarrow> unprocessed db q \<le> unprocessed db p"
  unfolding unprocessed_def by (intro card_mono) auto

text \<open>A worklist holds stored blocks with their own data, none of them processed.\<close>

definition work_ok :: "('v \<Rightarrow> const_data_buffer) \<Rightarrow> database \<Rightarrow> const_data_buffer set \<Rightarrow> (const_data_buffer \<times> 'v) list \<Rightarrow> bool" where
  "work_ok data db processed work \<longleftrightarrow> is_set (map fst work)
     \<and> (\<forall>(i, x) \<in> set work. i \<notin> processed \<and> (\<exists>r. table_select (log_records db) i = Some r \<and> data x = lr_data r))"

lemma set_map_put_items: "set (map_put k v m) \<subseteq> insert (k, v) (set m)"
  by (induction k v m rule: map_put.induct) auto

lemma work_ok_put:
  assumes "work_ok data db processed work" "i \<notin> processed"
    and "table_select (log_records db) i = Some r" "data x = lr_data r"
  shows "work_ok data db processed (map_put i x work)"
  unfolding work_ok_def
proof (intro conjI ballI)
  show "is_set (map fst (map_put i x work))" using assms(1) by (simp add: work_ok_def is_set_map_put)
next
  fix p
  assume "p \<in> set (map_put i x work)"
  then have "p = (i, x) \<or> p \<in> set work" using set_map_put_items [of i x work] by blast
  then show "case p of (j, y) \<Rightarrow> j \<notin> processed \<and> (\<exists>r. table_select (log_records db) j = Some r \<and> data y = lr_data r)"
    using assms unfolding work_ok_def by auto
qed

lemma work_ok_step:
  assumes "work_ok data db processed ((i, x) # work)"
  shows "work_ok data db (insert i processed) work" "i \<notin> processed"
    and "\<exists>r. table_select (log_records db) i = Some r \<and> data x = lr_data r"
  using assms unfolding work_ok_def by auto

lemma select_in_keys: "table_select t i = Some r \<Longrightarrow> i \<in> table_keys t"
  by (metis option.distinct(1) table_select_None)

lemma work_block:
  assumes "log_ok env db" "work_ok data db processed ((i, x) # work)"
  shows "\<exists>b. block_create (env_crypto env) (data x) = Inr b \<and> tb_id b = i"
    and "unprocessed db processed = Suc (unprocessed db (insert i processed))"
  using work_ok_step(2,3) [OF assms(2)] assms(1) unprocessed_insert select_in_keys
  unfolding log_ok_def by metis+

section \<open>The votes of a block\<close>

lemma add_ancestors_ok:
  "work_ok fst db processed work \<Longrightarrow> add_ancestors db processed as work = Inr work' \<Longrightarrow> work_ok fst db processed work'"
proof (induction "as" arbitrary: work)
  case (Cons a "as")
  show ?case
  proof (cases "a \<in> processed \<or> a \<in> fst ` set work")
    case True
    with Cons show ?thesis by simp
  next
    case False
    with Cons.prems obtain r where r: "table_select (log_records db) a = Some r"
      and rest: "add_ancestors db processed as (map_put a (work_item r) work) = Inr work'"
      by (auto split: option.splits)
    have "work_ok fst db processed (map_put a (work_item r) work)"
      using Cons.prems(1) False r by (intro work_ok_put [of _ _ _ _ _ r]) simp_all
    with rest Cons.IH show ?thesis by blast
  qed
qed simp

lemma same_records_work: "log_records db' = log_records db \<Longrightarrow> work_ok data db' = work_ok data db"
  by (simp add: fun_eq_iff work_ok_def)

lemma rows_log_ok: "rows_le db db' \<Longrightarrow> log_ok env db \<Longrightarrow> log_ok env db'"
  by (blast intro: log_ok_le rows_log_le)

lemma vote_loop_fuel:
  "log_ok env db \<Longrightarrow> work_ok fst db processed work \<Longrightarrow> unprocessed db processed \<le> fuel \<Longrightarrow>
   vote_loop fuel env b work processed c db \<noteq> Inl Not_terminating"
proof (induction fuel arbitrary: work processed c db)
  case 0
  show ?case
  proof (cases work)
    case (Cons p w)
    obtain i x where "p = (i, x)" by (cases p)
    with 0 Cons work_block(2) [OF 0(1), of fst processed i x w] show ?thesis by simp
  qed simp
next
  case (Suc fuel)
  show ?case
  proof (cases work)
    case (Cons p w)
    obtain i d st cons where p: "p = (i, d, st, cons)" by (cases p)
    with Cons Suc.prems(2) have ok: "work_ok fst db processed ((i, d, st, cons) # w)" by simp
    from work_block(1) [OF Suc.prems(1) ok] obtain cur where
      cur: "block_create (env_crypto env) d = Inr cur" "tb_id cur = i" by auto
    from work_block(2) [OF Suc.prems(1) ok] Suc.prems(3)
    have fuel: "unprocessed db (insert i processed) \<le> fuel" by simp
    have IH: "vote_loop fuel env b w' (insert i processed) c' db' \<noteq> Inl Not_terminating"
      if rows: "rows_le db db'" and w': "work_ok fst db (insert i processed) w'" for w' c' db'
    proof -
      from rows have same: "log_records db' = log_records db" by (simp add: rows_le_def)
      from w' have "work_ok fst db' (insert i processed) w'" unfolding same_records_work [OF same] .
      moreover from fuel have "unprocessed db' (insert i processed) \<le> fuel" by (simp add: unprocessed_def same)
      ultimately show ?thesis using Suc.IH rows_log_ok [OF rows Suc.prems(1)] by blast
    qed
    note ok' = work_ok_step(1) [OF ok]
    show ?thesis
    proof (cases "record_vote b cur cons db")
      case (Inl e)
      then have "e = invalid_data_error \<or> e = Constraint_violation ''transaction_log_vote_request''"
        by (auto simp: record_vote_def Let_def table_insert_def split: option.splits if_splits)
      with Inl show ?thesis by (auto simp: Cons p cur Let_def)
    next
      case (Inr vr)
      obtain vote db1 where vr: "vr = (vote, db1)" by (cases vr)
      with Inr have rows: "rows_le db db1" by (auto dest: record_vote_rows)
      show ?thesis
      proof (cases vote)
        case None
        with Inr vr IH [OF rows ok'] show ?thesis by (simp add: Cons p cur Let_def)
      next
        case (Some is_new)
        let ?c = "if check_consensus (tb_id cur) db1 \<and> \<not> cons then add_candidate cur d st c else c"
        let ?n = "if (tb_write_public_key_id cur \<noteq> tb_write_public_key_id b \<or> tb_id cur = tb_id b) \<and> \<not> is_new
             then add_ancestors db1 (insert i processed) (tb_ancestors cur) w else Inr w"
        have step: "vote_loop (Suc fuel) env b work processed c db
            = get_expected ?n (\<lambda>w'. vote_loop fuel env b w' (insert i processed) ?c db1)"
          using Inr vr Some by (simp only: Cons p cur vote_loop.simps Let_def get_expected_simps prod.case option.case)
        show ?thesis
        proof (cases ?n)
          case (Inl e)
          have "add_ancestors db1 q as v = Inl e \<Longrightarrow> e \<noteq> Not_terminating" for q as v
            by (induction "as" arbitrary: v) (auto split: if_splits option.splits)
          with Inl have "e \<noteq> Not_terminating" by (auto split: if_splits)
          then show ?thesis unfolding step Inl by simp
        next
          case r: (Inr w')
          have "work_ok fst db (insert i processed) w'"
          proof -
            from rows have same: "log_records db1 = log_records db" by (simp add: rows_le_def)
            from ok' have "work_ok fst db1 (insert i processed) w" unfolding same_records_work [OF same] .
            then have "work_ok fst db1 (insert i processed) w'"
              using r add_ancestors_ok by (auto split: if_splits)
            then show ?thesis unfolding same_records_work [OF same] .
          qed
          from IH [OF rows this, of ?c] show ?thesis unfolding step r by simp
        qed
      qed
    qed
  qed simp
qed

text \<open>C35: The vote loop of \<open>update_consensus\<close> ends: it takes each stored block at most once, so as many
  rounds as there are stored blocks are enough, whatever the ancestors of the blocks are.\<close>

theorem vote_loop_terminates:
  assumes "log_ok env db" and "table_select (log_records db) (tb_id b) = Some r" and "length (log_records db) \<le> fuel"
  shows "vote_loop fuel env b [(tb_id b, work_item r)] {} c db \<noteq> Inl Not_terminating"
proof (rule vote_loop_fuel [OF assms(1)])
  show "work_ok fst db {} [(tb_id b, work_item r)]" using assms(2) by (simp add: work_ok_def)
  have "unprocessed db {} \<le> length (log_records db)"
    unfolding unprocessed_def by (simp add: card_length [of "map fst (log_records db)", simplified])
  with assms(3) show "unprocessed db {} \<le> fuel" by simp
qed

definition sample_root_log :: database where
  "sample_root_log = empty_database\<lparr>log_records := [(Data_buffer [29],
     \<lparr>lr_data = sample_root, lr_state = Leaf, lr_consensus = True, lr_order_no = 1, lr_time_point = 5\<rparr>)]\<rparr>"

definition sample_root_block :: transaction_block where
  "sample_root_block = \<lparr>tb_version = current_version, tb_time_point = 5, tb_id = Data_buffer [29], tb_order_no = 1,
     tb_write_public_key_id = Data_buffer [4], tb_ancestors = [], tb_messages = Data_buffer [0x6D, 1, 4],
     tb_signature = Data_buffer [7]\<rparr>"

lemma sample_root_block: "block_create (env_crypto sample_env) sample_root = Inr sample_root_block"
  by code_simp

lemma sample_root_log_ok: "log_ok sample_env sample_root_log"
  using sample_root_block
  by (auto simp: log_ok_def sample_root_log_def table_ok_def empty_database_def sample_root_block_def split: if_splits)

theorem vote_loop_terminates_witness:
  "\<forall>c. \<exists>r. table_select (log_records sample_root_log) (Data_buffer [29]) = Some r
     \<and> vote_loop 1 sample_env sample_root_block [(Data_buffer [29], work_item r)] {} c sample_root_log \<noteq> Inl Not_terminating"
proof
  fix c
  have i: "tb_id sample_root_block = Data_buffer [29]" by (simp add: sample_root_block_def)
  obtain r where r: "table_select (log_records sample_root_log) (tb_id sample_root_block) = Some r"
    by (simp add: sample_root_log_def sample_root_block_def)
  have "length (log_records sample_root_log) \<le> 1" by (simp add: sample_root_log_def)
  from vote_loop_terminates [OF sample_root_log_ok r this, of c] r
  show "\<exists>r. table_select (log_records sample_root_log) (Data_buffer [29]) = Some r
     \<and> vote_loop 1 sample_env sample_root_block [(Data_buffer [29], work_item r)] {} c sample_root_log \<noteq> Inl Not_terminating"
    unfolding i by blast
qed

section \<open>rollback_all\<close>

text \<open>What a rollback may undo, and what it may do to the state of a record.\<close>

definition undoable :: "u64 \<Rightarrow> log_record \<Rightarrow> bool" where
  "undoable mo r \<longleftrightarrow> \<not> lr_consensus r \<and> mo \<le> lr_order_no r"

definition roll_record :: "u64 \<Rightarrow> log_record \<Rightarrow> log_record \<Rightarrow> bool" where
  "roll_record mo r r' \<longleftrightarrow> lr_data r' = lr_data r \<and> lr_consensus r' = lr_consensus r
     \<and> lr_order_no r' = lr_order_no r \<and> lr_time_point r' = lr_time_point r
     \<and> (if undoable mo r then lr_state r' = lr_state r \<or> lr_state r' = Validated
        else lr_state r' = lr_state r \<or> lr_state r = Processed \<and> lr_state r' = Leaf)"

definition roll_le :: "u64 \<Rightarrow> database \<Rightarrow> database \<Rightarrow> bool" where
  "roll_le mo db db' \<longleftrightarrow>
     (\<forall>i. rel_option (roll_record mo) (table_select (log_records db) i) (table_select (log_records db') i))"

lemma roll_record_trans: "roll_record mo r s \<Longrightarrow> roll_record mo s t \<Longrightarrow> roll_record mo r t"
  by (auto simp: roll_record_def undoable_def split: if_splits)

lemma roll_option_trans:
  "rel_option (roll_record mo) x y \<Longrightarrow> rel_option (roll_record mo) y z \<Longrightarrow> rel_option (roll_record mo) x z"
  by (cases x; cases y; cases z) (auto intro: roll_record_trans)

interpretation roll_effect: effect "roll_le mo" for mo
proof
  show "roll_le mo s s" for s
    by (auto simp: roll_le_def roll_record_def intro!: option.rel_refl_strong)
  show "roll_le mo s u" if "roll_le mo s t" "roll_le mo t u" for s t u
    using that roll_option_trans unfolding roll_le_def by blast
qed

text \<open>The worklist of a rollback: applied blocks that may be undone.\<close>

definition roll_work :: "u64 \<Rightarrow> database \<Rightarrow> const_data_buffer set \<Rightarrow> (const_data_buffer \<times> const_data_buffer) list \<Rightarrow> bool" where
  "roll_work mo db processed work \<longleftrightarrow> work_ok (\<lambda>x. x) db processed work
     \<and> (\<forall>i \<in> fst ` set work. \<exists>r. table_select (log_records db) i = Some r \<and> undoable mo r
          \<and> (lr_state r = Leaf \<or> lr_state r = Processed))"

lemma roll_le_set_state:
  assumes "table_select (log_records db) i = Some r"
    and "undoable mo r \<and> st = Validated \<or> \<not> undoable mo r \<and> lr_state r = Processed \<and> st = Leaf"
  shows "roll_le mo db (set_state st i db)"
  using assms by (auto simp: roll_le_def select_set_state roll_record_def intro!: option.rel_refl_strong)

lemma roll_work_other:
  assumes "roll_work mo db processed work" "i \<notin> fst ` set work" "table_select (log_records db) i = Some r"
  shows "roll_work mo (set_state st i db) (insert i processed) work"
proof -
  have "\<exists>r. table_select (log_records (set_state st i db)) j = Some r \<and> x = lr_data r" and "j \<notin> insert i processed"
    if "(j, x) \<in> set work" for j x
    using assms that unfolding roll_work_def work_ok_def by (force simp: select_set_state)+
  moreover have "\<exists>r. table_select (log_records (set_state st i db)) j = Some r \<and> undoable mo r
      \<and> (lr_state r = Leaf \<or> lr_state r = Processed)" if "j \<in> fst ` set work" for j
    using assms that unfolding roll_work_def by (auto simp: select_set_state)
  moreover have "is_set (map fst work)" using assms(1) unfolding roll_work_def work_ok_def by blast
  ultimately show ?thesis unfolding roll_work_def work_ok_def by blast
qed

lemma rollback_ancestors_keeps:
  "log_ok env db \<Longrightarrow> roll_work mo db processed work \<Longrightarrow>
   rollback_ancestors mo as (work, processed, db) = Inr (work', processed', db') \<Longrightarrow>
   log_ok env db' \<and> roll_work mo db' processed' work' \<and> roll_le mo db db' \<and> processed \<subseteq> processed'"
proof (induction "as" arbitrary: work processed db)
  case Nil
  then show ?case by (simp add: roll_effect.le_refl)
next
  case (Cons a "as")
  show ?case
  proof (cases "a \<in> processed \<or> a \<in> fst ` set work")
    case True
    with Cons show ?thesis by simp
  next
    case False
    with Cons.prems(3) obtain r where r: "table_select (log_records db) a = Some r" "lr_state r = Processed"
      by (auto split: option.splits if_splits)
    show ?thesis
    proof (cases "lr_order_no r < mo \<or> lr_consensus r")
      case True
      let ?db = "set_state Leaf a db"
      have "rollback_ancestors mo as (work, insert a processed, ?db) = Inr (work', processed', db')"
        using Cons.prems(3) False r True by simp
      moreover have "roll_work mo ?db (insert a processed) work"
        using Cons.prems(2) False r(1) by (intro roll_work_other) auto
      moreover have "log_ok env ?db" using Cons.prems(1) set_state_le by (rule log_ok_le)
      ultimately have "log_ok env db' \<and> roll_work mo db' processed' work' \<and> roll_le mo ?db db'
          \<and> insert a processed \<subseteq> processed'" using Cons.IH by blast
      moreover have "roll_le mo db ?db"
        using r True by (intro roll_le_set_state [OF r(1)]) (auto simp: undoable_def)
      ultimately show ?thesis by (blast intro: roll_effect.le_trans)
    next
      case undo: False
      let ?work = "map_put a (lr_data r) work"
      have "rollback_ancestors mo as (?work, processed, db) = Inr (work', processed', db')"
        using Cons.prems(3) False r undo by simp
      moreover have "roll_work mo db processed ?work"
        unfolding roll_work_def
      proof (intro conjI ballI)
        show "work_ok (\<lambda>x. x) db processed ?work"
          using Cons.prems(2) False r(1) unfolding roll_work_def by (intro work_ok_put [of _ _ _ _ _ r]) simp_all
        show "\<exists>r. table_select (log_records db) i = Some r \<and> undoable mo r
            \<and> (lr_state r = Leaf \<or> lr_state r = Processed)" if "i \<in> fst ` set ?work" for i
          using that Cons.prems(2) r undo unfolding roll_work_def set_map_put by (auto simp: undoable_def)
      qed
      ultimately show ?thesis using Cons.IH [of db processed ?work] Cons.prems(1) by blast
    qed
  qed
qed

text \<open>One round of the loop.\<close>

lemma rollback_round:
  assumes "log_ok env db" "roll_work mo db processed ((i, data) # work)"
  obtains b where "block_create (env_crypto env) data = Inr b" "tb_id b = i"
    "unprocessed db processed = Suc (unprocessed db (insert i processed))"
    "\<And>db1 work' processed' db2. undo_records env b db = Inr db1 \<Longrightarrow>
       rollback_ancestors mo (tb_ancestors b) (work, insert i processed, set_state Validated i db1)
         = Inr (work', processed', db2) \<Longrightarrow>
       log_ok env db2 \<and> roll_work mo db2 processed' work' \<and> roll_le mo db db2 \<and> insert i processed \<subseteq> processed'"
proof -
  have ok: "work_ok (\<lambda>x. x) db processed ((i, data) # work)" using assms(2) by (simp add: roll_work_def)
  from work_block(1) [OF assms(1) ok] obtain b where b: "block_create (env_crypto env) data = Inr b" "tb_id b = i" by auto
  have "log_ok env db2 \<and> roll_work mo db2 processed' work' \<and> roll_le mo db db2 \<and> insert i processed \<subseteq> processed'"
    if undo: "undo_records env b db = Inr db1" and anc: "rollback_ancestors mo (tb_ancestors b)
        (work, insert i processed, set_state Validated i db1) = Inr (work', processed', db2)"
    for db1 work' processed' db2
  proof -
    have rows: "rows_le db db1" using undo by (rule undo_records_rows)
    then have same: "log_records db1 = log_records db" by (simp add: rows_le_def)
    let ?db = "set_state Validated i db1"
    from assms(2) obtain r where r: "table_select (log_records db) i = Some r" "undoable mo r"
      unfolding roll_work_def by auto
    have "roll_work mo db1 processed work"
      using assms(2) work_ok_step(1) [OF ok] unfolding roll_work_def work_ok_def same by auto
    moreover have "i \<notin> fst ` set work"
      using ok unfolding work_ok_def by auto
    ultimately have "roll_work mo ?db (insert i processed) work"
      using r(1) same by (intro roll_work_other) auto
    moreover have "log_ok env ?db" using rows_log_ok [OF rows assms(1)] set_state_le by (rule log_ok_le)
    ultimately have *: "log_ok env db2 \<and> roll_work mo db2 processed' work' \<and> roll_le mo ?db db2 \<and> insert i processed \<subseteq> processed'"
      using anc by (intro rollback_ancestors_keeps)
    have "roll_le mo db1 ?db" using r same by (intro roll_le_set_state) auto
    moreover have "roll_le mo db db1" unfolding roll_le_def same
      by (auto simp: roll_record_def intro!: option.rel_refl_strong)
    ultimately show ?thesis using * by (blast intro: roll_effect.le_trans)
  qed
  from that [OF b work_block(2) [OF assms(1) ok] this] show thesis .
qed


section \<open>What a rollback calls returns\<close>

definition returns :: "'a expected \<Rightarrow> bool" where
  "returns e \<longleftrightarrow> e \<noteq> Inl Not_terminating"

lemma returns_basic [simp]: "returns (Inr x)" "returns (Inl e) \<longleftrightarrow> e \<noteq> Not_terminating"
  by (auto simp: returns_def)

lemma returns_bind: "returns v \<Longrightarrow> (\<And>x. v = Inr x \<Longrightarrow> returns (k x)) \<Longrightarrow> returns (get_expected v k)"
  by (cases v) auto

text \<open>A reader that returns on every input.\<close>

definition reads :: "'a get \<Rightarrow> bool" where
  "reads g \<longleftrightarrow> (\<forall>d. returns (g d))"

lemma reads_bind: "reads g \<Longrightarrow> (\<And>x. reads (k x)) \<Longrightarrow> reads (\<lambda>d. get_expected (g d) (\<lambda>(x, d). k x d))"
  unfolding reads_def by (auto intro!: returns_bind)

lemma reads_return: "reads (\<lambda>d. Inr (f, d))"
  by (simp add: reads_def)

lemma reads_if: "reads g \<Longrightarrow> reads h \<Longrightarrow> reads (\<lambda>d. if b then g d else h d)"
  by (simp add: reads_def)

lemma reads_numbers: "reads get_uint8" "reads get_uint32" "reads get_uint64"
proof -
  show "reads get_uint8" unfolding reads_def
  proof
    show "returns (get_uint8 d)" for d by (cases d) simp_all
  qed
  show "reads get_uint32" unfolding reads_def
  proof
    show "returns (get_uint32 d)" for d by (cases d rule: get_uint32.cases) simp_all
  qed
  show "reads get_uint64" unfolding reads_def
  proof
    show "returns (get_uint64 d)" for d by (cases d rule: get_uint64.cases) simp_all
  qed
qed

lemma reads_items: "reads g \<Longrightarrow> reads (get_items g n)"
proof (induction n)
  case (Suc n)
  then have "reads (get_items g n)" by blast
  with Suc.prems show ?case unfolding reads_def by (auto intro!: returns_bind)
qed (simp add: reads_def)

lemma reads_number: "reads read_number"
proof -
  have "reads (read_number_loop n r)" for n r
  proof (induction n arbitrary: r)
    case (Suc n)
    with reads_bind [OF reads_numbers(1), of "\<lambda>val. read_number_loop n (shift_in r val)"]
    show ?case by (simp add: read_number_loop.simps(2) [abs_def])
  qed (simp add: reads_def)
  then show ?thesis
    unfolding read_number_def [abs_def] by (intro reads_bind reads_if reads_numbers reads_return)
qed

lemma reads_list: "reads g \<Longrightarrow> reads (get_list g)"
  unfolding get_list_def [abs_def] by (intro reads_bind reads_number reads_items)

lemma reads_string: "reads get_string"
  unfolding get_string_def [abs_def] by (intro reads_bind reads_number reads_items reads_numbers)

lemma reads_buffer: "reads get_buffer"
proof -
  have "reads (\<lambda>d. if 1024 * 1024 * 1024 < len then Inl (Runtime_error ''very big object'')
       else if length d < unat len then Inl invalid_data
       else Inr (Data_buffer (take (unat len) d), drop (unat len) d))" for len :: u64
    by (simp add: reads_def)
  then show ?thesis unfolding get_buffer_def [abs_def] by (intro reads_bind reads_number)
qed

text \<open>What is relied on of the keys: parsing one and taking its fingerprint do not run for ever.\<close>

definition keys_return :: "('pk, 'sk) crypto \<Rightarrow> bool" where
  "keys_return cr \<longleftrightarrow> (\<forall>d. returns (key_parse_der cr d)) \<and> (\<forall>k. returns (key_fingerprint cr k))"

lemma reads_public_key:
  assumes "keys_return cr"
  shows "reads (get_public_key cr)"
proof -
  have "reads (\<lambda>d. get_expected (key_parse_der cr b) (\<lambda>key. Inr (key, d)))" for b
    using assms by (auto simp: reads_def keys_return_def intro!: returns_bind)
  then show ?thesis unfolding get_public_key_def [abs_def] by (intro reads_bind reads_buffer)
qed

lemma reads_message:
  assumes "keys_return cr"
  shows "reads (get_message cr mid)"
proof -
  have invalid: "reads (\<lambda>d. Inl (Runtime_error x))" for x by (simp add: reads_def)
  show ?thesis
    unfolding get_message_def [abs_def] get_payment_def [abs_def] get_create_user_def [abs_def]
      get_channel_message_def [abs_def] get_node_add_def [abs_def] get_create_wallet_def [abs_def]
      get_asset_issue_def [abs_def] get_store_block_def [abs_def] get_host_block_def [abs_def]
    by (intro reads_bind reads_return reads_if reads_numbers reads_list reads_string reads_buffer invalid
        reads_public_key [OF assms])
qed

lemma process_messages_returns:
  assumes "keys_return cr" and visit: "\<And>m s. returns (visit m s)"
  shows "returns (process_messages cr visit d s)"
proof (induction d arbitrary: s rule: length_induct)
  case (1 d)
  show ?case
  proof (cases "d = []")
    case False
    have rest: "returns (process_messages cr visit d2 s)"
      if "get_uint8 d = Inr (i, d1)" "get_message cr i d1 = Inr (m, d2)" for i d1 m d2 s
    proof -
      from that(1) False have "length d1 < length d" by (cases d) auto
      moreover have "length d2 \<le> length d1" using consumes_message [of cr i] that(2) unfolding consumes_def by blast
      ultimately show ?thesis using 1 by simp
    qed
    have "returns (get_uint8 d)" "\<And>i d1. returns (get_message cr i d1)"
      using reads_numbers(1) reads_message [OF assms(1)] by (simp_all add: reads_def)
    then show ?thesis
      using False rest visit by (subst process_messages.simps) (auto intro!: returns_bind)
  qed (simp add: process_messages.simps)
qed

text \<open>The counter of the undo of a stored block has 16 bits: with 65536 replicas or more it does not end.\<close>

fun few_replicas :: "'pk transaction_message \<Rightarrow> bool" where
  "few_replicas (Store_block m) = (length (sb_replicas m) < 65536)"
| "few_replicas _ = True"

definition undo_ends :: "('pk, 'sk) crypto \<Rightarrow> const_data_buffer \<Rightarrow> bool" where
  "undo_ends cr data = (case block_create cr data of
     Inl _ \<Rightarrow> True
   | Inr b \<Rightarrow> (case process_messages cr (\<lambda>m us. Inr (True, m # us)) (buffer_data (tb_messages b)) [] of
         Inl _ \<Rightarrow> True | Inr (_, ms) \<Rightarrow> list_all few_replicas ms))"

lemma undo_replicas_returns: "returns (for_loop is (undo_replica b m) db)"
  by (induction "is" arbitrary: db) (auto simp: undo_replica_def)

lemma undo_record_returns:
  assumes "keys_return (env_crypto env)" "few_replicas m"
  shows "returns (undo_record env b m db)"
  using assms undo_replicas_returns
  by (cases m) (auto simp: keys_return_def undo_payment_def undo_channel_message_def undo_create_user_def undo_node_add_def
      undo_create_wallet_def undo_asset_issue_def undo_store_block_def undo_host_block_def Let_def
      intro!: returns_bind split: option.split)

lemma undo_records_returns:
  assumes "keys_return (env_crypto env)" "undo_ends (env_crypto env) data" "block_create (env_crypto env) data = Inr b"
  shows "returns (undo_records env b db)"
  unfolding undo_records_def
proof (rule returns_bind)
  show "returns (process_messages (env_crypto env) (\<lambda>m us. Inr (True, m # us)) (buffer_data (tb_messages b)) [])"
    by (rule process_messages_returns [OF assms(1)]) simp
next
  fix x
  assume "process_messages (env_crypto env) (\<lambda>m us. Inr (True, m # us)) (buffer_data (tb_messages b)) [] = Inr x"
  moreover obtain ok ms where x: "x = (ok, ms)" by (cases x)
  ultimately have "list_all few_replicas ms" using assms(2,3) by (simp add: undo_ends_def)
  then have "returns (undo_actions env b ms db)"
    by (induction ms arbitrary: db) (auto intro!: returns_bind undo_record_returns [OF assms(1)])
  then show "returns (case x of (_, to_process) \<Rightarrow> undo_actions env b to_process db)" by (simp add: x)
qed

lemma rollback_ancestors_returns: "returns (rollback_ancestors mo as acc)"
  by (induction mo "as" acc rule: rollback_ancestors.induct) (auto split: option.split)

lemma roll_le_data:
  assumes "roll_le mo db db'" "table_select (log_records db') i = Some r'"
  shows "\<exists>r. table_select (log_records db) i = Some r \<and> lr_data r = lr_data r'"
  using assms unfolding roll_le_def by (metis option_rel_Some2 roll_record_def)

lemma rollback_loop_returns:
  assumes keys: "keys_return (env_crypto env)"
  shows "log_ok env db \<Longrightarrow> roll_work mo db processed work \<Longrightarrow> unprocessed db processed \<le> fuel \<Longrightarrow>
    \<forall>i r. table_select (log_records db) i = Some r \<longrightarrow> undo_ends (env_crypto env) (lr_data r) \<Longrightarrow>
    returns (rollback_loop fuel env mo work processed db)"
proof (induction fuel arbitrary: work processed db)
  case 0
  show ?case
  proof (cases work)
    case (Cons p w)
    obtain i x where "p = (i, x)" by (cases p)
    with 0 Cons show ?thesis using work_block(2) [of env db "\<lambda>x. x" processed i x w] by (simp add: roll_work_def)
  qed simp
next
  case (Suc fuel)
  show ?case
  proof (cases work)
    case (Cons p w)
    obtain i data where p: "p = (i, data)" by (cases p)
    obtain b where b: "block_create (env_crypto env) data = Inr b" "tb_id b = i"
      and less: "unprocessed db processed = Suc (unprocessed db (insert i processed))"
      and round: "\<And>db1 work' processed' db2. undo_records env b db = Inr db1 \<Longrightarrow>
       rollback_ancestors mo (tb_ancestors b) (w, insert i processed, set_state Validated i db1)
         = Inr (work', processed', db2) \<Longrightarrow>
       log_ok env db2 \<and> roll_work mo db2 processed' work' \<and> roll_le mo db db2 \<and> insert i processed \<subseteq> processed'"
      using rollback_round [OF Suc.prems(1)] Suc.prems(2) Cons p by metis
    have "undo_ends (env_crypto env) data"
      using Suc.prems(2,4) unfolding Cons p roll_work_def work_ok_def by auto
    note undo = undo_records_returns [OF keys this b(1), of db]
    have rest: "returns (rollback_loop fuel env mo w2 pr2 db2)"
      if "undo_records env b db = Inr db1"
        "rollback_ancestors mo (tb_ancestors b) (w, insert i processed, set_state Validated i db1) = Inr (w2, pr2, db2)"
      for db1 w2 pr2 db2
    proof -
      note ok = round [OF that]
      have "table_keys (log_records db2) = table_keys (log_records db)"
      proof -
        have "(table_select (log_records db2) j = None) = (table_select (log_records db) j = None)" for j
          using ok unfolding roll_le_def by (metis option.rel_sel option.rel_distinct(1,2))
        then show ?thesis by (auto simp: table_select_None)
      qed
      then have "unprocessed db2 pr2 \<le> fuel"
        using less Suc.prems(3) ok unprocessed_mono [of "insert i processed" pr2 db2] by (simp add: unprocessed_def)
      moreover have "\<forall>j r. table_select (log_records db2) j = Some r \<longrightarrow> undo_ends (env_crypto env) (lr_data r)"
        using ok roll_le_data Suc.prems(4) by metis
      ultimately show ?thesis using Suc.IH ok by blast
    qed
    show ?thesis
      unfolding Cons p using undo rest rollback_ancestors_returns by (auto simp: b intro!: returns_bind)
  qed simp
qed

section \<open>The blocks a rollback starts from\<close>

lemma rollback_start:
  assumes "log_ok env db" "0 \<le> sint mo"
  shows "roll_work mo db {} (fold (\<lambda>(bid, r). map_put bid (lr_data r))
    (filter (\<lambda>(_, r). lr_state r = Leaf \<and> sint mo \<le> sint (lr_order_no r) \<and> \<not> lr_consensus r) (log_records db)) [])"
proof -
  have undo: "undoable mo r" if "sint mo \<le> sint (lr_order_no r)" "\<not> lr_consensus r" for r
  proof -
    have signed: "sint w = uint w" if "0 \<le> sint w" for w :: u64
    proof -
      have "sint w = uint w - 2 ^ 64 * of_bool (bit (uint w) 63)"
        using take_bit_int_eq_self [of "uint w" 64] uint_lt2p [of w]
        by (simp add: sint_uint signed_take_bit_eq_take_bit_minus)
      moreover have "uint w < 2 ^ 64" using uint_lt2p [of w] by simp
      ultimately show ?thesis using that by (auto split: if_splits)
    qed
    have "0 \<le> sint (lr_order_no r)" using that assms(2) by linarith
    then have "uint mo \<le> uint (lr_order_no r)" using that(1) signed assms(2) by simp
    then show ?thesis using that(2) by (simp add: undoable_def word_le_def)
  qed
  have "roll_work mo db {} (fold (\<lambda>(bid, r). map_put bid (lr_data r)) rs w)"
    if "roll_work mo db {} w" and "\<forall>(i, r) \<in> set rs. table_select (log_records db) i = Some r \<and> lr_state r = Leaf \<and> undoable mo r"
    for rs w using that
  proof (induction rs arbitrary: w)
    case (Cons p rs)
    obtain i r where p: "p = (i, r)" by (cases p)
    have r: "table_select (log_records db) i = Some r" "lr_state r = Leaf" "undoable mo r" using Cons.prems(2) p by auto
    have "work_ok (\<lambda>x. x) db {} (map_put i (lr_data r) w)"
      using Cons.prems(1) r unfolding roll_work_def by (intro work_ok_put) auto
    then have "roll_work mo db {} (map_put i (lr_data r) w)"
      using Cons.prems(1) r unfolding roll_work_def set_map_put by auto
    with Cons p show ?case by simp
  qed simp
  moreover have "roll_work mo db {} []" by (simp add: roll_work_def work_ok_def)
  moreover have "\<forall>(i, r) \<in> set (filter (\<lambda>(_, r). lr_state r = Leaf \<and> sint mo \<le> sint (lr_order_no r) \<and> \<not> lr_consensus r)
      (log_records db)). table_select (log_records db) i = Some r \<and> lr_state r = Leaf \<and> undoable mo r"
    using assms(1) undo by (auto simp: log_ok_def table_ok_def)
  ultimately show ?thesis by blast
qed


text \<open>C36: A rollback ends: it undoes each stored block at most once, so as many rounds as there are stored
  blocks are enough, whatever the ancestors of the blocks are and whether or not an undo fails. What can
  run for ever is the undo of a single message, a stored block with 65536 replicas or more; it is excluded.\<close>

theorem rollback_all_terminates:
  assumes "log_ok env db" and "0 \<le> sint mo" and "length (log_records db) \<le> fuel"
    and "keys_return (env_crypto env)" and "\<forall>(i, r) \<in> set (log_records db). undo_ends (env_crypto env) (lr_data r)"
  shows "rollback_all fuel env mo db \<noteq> Inl Not_terminating"
proof -
  have "unprocessed db {} \<le> length (log_records db)"
    unfolding unprocessed_def by (simp add: card_length [of "map fst (log_records db)", simplified])
  with assms(3) have "unprocessed db {} \<le> fuel" by simp
  moreover have "\<forall>i r. table_select (log_records db) i = Some r \<longrightarrow> undo_ends (env_crypto env) (lr_data r)"
    using assms(5) by (auto dest: map_of_SomeD)
  ultimately have "returns (rollback_all fuel env mo db)"
    unfolding rollback_all_def by (intro rollback_loop_returns [OF assms(4,1) rollback_start [OF assms(1,2)]])
  then show ?thesis by (simp add: returns_def)
qed


text \<open>A log whose root is not in consensus yet: the rollback undoes it.\<close>

definition sample_open_log :: database where
  "sample_open_log = empty_database\<lparr>log_records := [(Data_buffer [29],
     \<lparr>lr_data = sample_root, lr_state = Leaf, lr_consensus = False, lr_order_no = 1, lr_time_point = 5\<rparr>)]\<rparr>"

theorem rollback_all_terminates_witness:
  "rollback_all 1 sample_env 1 sample_open_log \<noteq> Inl Not_terminating
   \<and> (\<exists>db' r. rollback_all 1 sample_env 1 sample_open_log = Inr db'
        \<and> table_select (log_records db') (Data_buffer [29]) = Some r \<and> lr_state r = Validated)"
proof
  have "log_ok sample_env sample_open_log"
    using sample_root_block
    by (auto simp: log_ok_def sample_open_log_def table_ok_def empty_database_def sample_root_block_def split: if_splits)
  moreover have "keys_return (env_crypto sample_env)" by (simp add: keys_return_def sample_env_def)
  moreover have "undo_ends (env_crypto sample_env) sample_root" by code_simp
  ultimately show "rollback_all 1 sample_env 1 sample_open_log \<noteq> Inl Not_terminating"
    by (intro rollback_all_terminates) (simp_all add: sample_open_log_def)
  have "case rollback_all 1 sample_env 1 sample_open_log of
      Inr db' \<Rightarrow> (case table_select (log_records db') (Data_buffer [29]) of Some r \<Rightarrow> lr_state r = Validated | None \<Rightarrow> False)
    | _ \<Rightarrow> False" by code_simp
  then show "\<exists>db' r. rollback_all 1 sample_env 1 sample_open_log = Inr db'
        \<and> table_select (log_records db') (Data_buffer [29]) = Some r \<and> lr_state r = Validated"
    by (auto split: sum.splits option.splits)
qed

end
