(* ===== verification/Invalid_properties.thy ===== *)
theory Invalid_properties
  imports Rollback_properties
begin

text \<open>\<open>invalid_block\<close> marks a block and everything that was built on it.\<close>

lemma set_fold_emplace: "set (fold set_emplace xs acc) = set acc \<union> set xs"
  by (induction xs arbitrary: acc) (auto simp: set_insort_insert)

text \<open>The hierarchy as a relation; rows whose follower has no bytes are passed over.\<close>

definition follows :: "database \<Rightarrow> (const_data_buffer \<times> const_data_buffer) set" where
  "follows db = {(i, f) \<in> table_keys (log_hierarchy db). not_empty f}"

lemma set_followers_of: "set (followers_of i db) = {f. (i, f) \<in> follows db}"
  by (force simp: followers_of_def follows_def set_fold_emplace)

definition marks :: "log_state \<Rightarrow> const_data_buffer set \<Rightarrow> database \<Rightarrow> database \<Rightarrow> bool" where
  "marks st S db db' \<longleftrightarrow> log_hierarchy db' = log_hierarchy db
     \<and> (\<forall>j. table_select (log_records db') j =
          (if j \<in> S then map_option (\<lambda>r. r\<lparr>lr_state := st\<rparr>) (table_select (log_records db) j)
           else table_select (log_records db) j))"

lemma marks_empty: "marks st {} db db"
  by (simp add: marks_def)

lemma marks_trans: "marks st S db db1 \<Longrightarrow> marks st T db1 db2 \<Longrightarrow> marks st (S \<union> T) db db2"
  by (auto simp: marks_def option.map_comp comp_def)

lemma marks_set_state: "marks st {i} db (set_state st i db)"
  unfolding marks_def select_set_state by (simp add: set_state_def)

text \<open>No block of \<open>S\<close> is applied.\<close>

definition not_applied :: "const_data_buffer set \<Rightarrow> database \<Rightarrow> bool" where
  "not_applied S db \<longleftrightarrow> (\<forall>j \<in> S. \<exists>r. table_select (log_records db) j = Some r
     \<and> lr_state r \<noteq> Leaf \<and> lr_state r \<noteq> Processed \<and> \<not> lr_consensus r)"

lemma not_applied_marks:
  assumes "marks st T db db'" "st = Invalid \<or> st = Validated" "not_applied S db"
  shows "not_applied S db'"
  unfolding not_applied_def
proof
  fix j assume "j \<in> S"
  with assms(3) obtain r where r: "table_select (log_records db) j = Some r"
    "lr_state r \<noteq> Leaf" "lr_state r \<noteq> Processed" "\<not> lr_consensus r" by (auto simp: not_applied_def)
  with assms(1,2) show "\<exists>r. table_select (log_records db') j = Some r
     \<and> lr_state r \<noteq> Leaf \<and> lr_state r \<noteq> Processed \<and> \<not> lr_consensus r"
    by (auto simp: marks_def)
qed

definition descendants :: "database \<Rightarrow> const_data_buffer \<Rightarrow> const_data_buffer set" where
  "descendants db i = {j. (i, j) \<in> (follows db)\<^sup>+}"

lemma descendants_followers:
  "descendants db i = (\<Union>f \<in> set (followers_of i db). insert f (descendants db f))"
  unfolding descendants_def set_followers_of
proof (intro set_eqI iffI)
  fix j assume "j \<in> {j. (i, j) \<in> (follows db)\<^sup>+}"
  then have "(i, j) \<in> (follows db)\<^sup>+" by simp
  then show "j \<in> (\<Union>f \<in> {f. (i, f) \<in> follows db}.
      insert f {j. (f, j) \<in> (follows db)\<^sup>+})"
    by (rule converse_tranclE) auto
qed (auto intro: trancl_into_trancl2)

text \<open>The body of the loop over the followers.\<close>

lemma invalid_followers:
  assumes step: "\<And>f db. f \<in> set fs \<Longrightarrow> log_hierarchy db = H \<Longrightarrow> not_applied (insert f (D f)) db \<Longrightarrow>
      \<exists>db'. invalid_block fuel f val db = Inr db' \<and> marks st (insert f (D f)) db db'"
    and "st = Invalid \<or> st = Validated" and "log_hierarchy db = H"
    and "not_applied (\<Union>f \<in> set fs. insert f (D f)) db"
  shows "\<exists>db'. for_loop fs (\<lambda>p db. case table_select (log_records db) p of
           None \<Rightarrow> Inl invalid_data_error
         | Some r \<Rightarrow> if lr_state r = Leaf \<or> lr_state r = Processed \<or> lr_consensus r then Inl invalid_data_error
               else invalid_block fuel p val db) db = Inr db'
     \<and> marks st (\<Union>f \<in> set fs. insert f (D f)) db db'"
  using assms
proof (induction fs arbitrary: db)
  case Nil
  then show ?case by (simp add: marks_empty)
next
  case (Cons f fs)
  have na: "not_applied (insert f (D f)) db" "not_applied (\<Union>f \<in> set fs. insert f (D f)) db"
    using Cons.prems(4) by (auto simp: not_applied_def)
  then obtain r where r: "table_select (log_records db) f = Some r" "lr_state r \<noteq> Leaf" "lr_state r \<noteq> Processed"
    "\<not> lr_consensus r" by (auto simp: not_applied_def)
  from Cons.prems(1) [of f db] Cons.prems(3) na(1) obtain db1 where
    db1: "invalid_block fuel f val db = Inr db1" "marks st (insert f (D f)) db db1" by auto
  have "log_hierarchy db1 = H" using db1(2) Cons.prems(3) by (simp add: marks_def)
  moreover have "not_applied (\<Union>f \<in> set fs. insert f (D f)) db1"
    using not_applied_marks [OF db1(2) Cons.prems(2) na(2)] .
  ultimately obtain db2 where "for_loop fs (\<lambda>p db. case table_select (log_records db) p of
           None \<Rightarrow> Inl invalid_data_error
         | Some r \<Rightarrow> if lr_state r = Leaf \<or> lr_state r = Processed \<or> lr_consensus r then Inl invalid_data_error
               else invalid_block fuel p val db) db1 = Inr db2" "marks st (\<Union>f \<in> set fs. insert f (D f)) db1 db2"
    using Cons.IH [OF Cons.prems(1,2), of db1] by auto
  with db1 r marks_trans show ?case by fastforce
qed

lemma invalid_block_ranked:
  assumes rank: "\<And>i f. (i, f) \<in> H \<Longrightarrow> rank i < rank f \<and> rank f \<le> N"
  shows "N < fuel + rank bid \<Longrightarrow> rank bid \<le> N \<Longrightarrow> follows db = H \<Longrightarrow>
    not_applied (descendants db bid) db \<Longrightarrow>
    \<exists>db'. invalid_block fuel bid val db = Inr db'
      \<and> marks (if val then Invalid else Validated) (insert bid (descendants db bid)) db db'"
proof (induction fuel arbitrary: bid db)
  case (Suc fuel)
  let ?st = "if val then Invalid else Validated" and ?db = "set_state (if val then Invalid else Validated) bid db"
  have m: "marks ?st {bid} db ?db" by (rule marks_set_state)
  then have h: "log_hierarchy ?db = log_hierarchy db" by (simp add: marks_def)
  then have D: "descendants ?db = descendants db" "followers_of bid ?db = followers_of bid db"
    by (simp_all add: descendants_def follows_def followers_of_def fun_eq_iff)
  have na: "not_applied (\<Union>f \<in> set (followers_of bid ?db). insert f (descendants db f)) ?db"
    using not_applied_marks [OF m _ Suc.prems(4)] descendants_followers [of db bid] by (simp add: D)
  have step: "\<exists>db'. invalid_block fuel f val d = Inr db' \<and> marks ?st (insert f (descendants db f)) d db'"
    if f: "f \<in> set (followers_of bid ?db)" and d: "log_hierarchy d = log_hierarchy db"
      and nd: "not_applied (insert f (descendants db f)) d" for f d
  proof -
    have "rank bid < rank f" "rank f \<le> N"
      using f rank [of bid f] Suc.prems(3) by (auto simp: D set_followers_of)
    moreover have "follows d = follows db" using d by (simp add: follows_def)
    moreover from this have "descendants d = descendants db" by (simp add: descendants_def fun_eq_iff)
    moreover have "not_applied (descendants db f) d" using nd by (auto simp: not_applied_def)
    ultimately show ?thesis using Suc.IH [of f d] Suc.prems d by auto
  qed
  have "\<exists>db'. for_loop (followers_of bid ?db) (\<lambda>p db. case table_select (log_records db) p of
           None \<Rightarrow> Inl invalid_data_error
         | Some r \<Rightarrow> if lr_state r = Leaf \<or> lr_state r = Processed \<or> lr_consensus r then Inl invalid_data_error
               else invalid_block fuel p val db) ?db = Inr db'
    \<and> marks ?st (\<Union>f \<in> set (followers_of bid ?db). insert f (descendants db f)) ?db db'"
    by (rule invalid_followers [OF step _ h na]) simp_all
  then obtain db' where run: "invalid_block (Suc fuel) bid val db = Inr db'"
    and "marks ?st (\<Union>f \<in> set (followers_of bid ?db). insert f (descendants db f)) ?db db'"
    by (auto simp: Let_def)
  then have "marks ?st (insert bid (descendants db bid)) db db'"
    using marks_trans [OF m] descendants_followers [of db bid] by (fastforce simp: D)
  with run show ?case by blast
qed simp

text \<open>C40: \<open>invalid_block\<close> ends and marks exactly the block and all blocks built on it, directly or
  through others, provided none of these is applied: on a hierarchy without cycles (a rank grows
  along it and is at most \<open>N\<close>) a recursion depth of \<open>N + 1\<close> is enough. No other record changes. Rows of the
  hierarchy whose follower has an empty id lead nowhere.\<close>

theorem invalid_block_marks:
  assumes "\<forall>(i, f) \<in> follows db. rank i < rank f \<and> rank f \<le> N" and "rank bid \<le> N"
    and "\<forall>j. (bid, j) \<in> (follows db)\<^sup>+ \<longrightarrow> (\<exists>r. table_select (log_records db) j = Some r
           \<and> lr_state r \<noteq> Leaf \<and> lr_state r \<noteq> Processed \<and> \<not> lr_consensus r)"
  shows "\<exists>db'. invalid_block (Suc N) bid val db = Inr db'
    \<and> (\<forall>j. table_select (log_records db') j =
         (if (bid, j) \<in> (follows db)\<^sup>*
          then map_option (\<lambda>r. r\<lparr>lr_state := if val then Invalid else Validated\<rparr>) (table_select (log_records db) j)
          else table_select (log_records db) j))"
proof -
  have "not_applied (descendants db bid) db" using assms(3) by (auto simp: not_applied_def descendants_def)
  then have "\<exists>db'. invalid_block (Suc N) bid val db = Inr db'
      \<and> marks (if val then Invalid else Validated) (insert bid (descendants db bid)) db db'"
    using assms(1,2) by (intro invalid_block_ranked [where H = "follows db" and rank = rank and N = N]) auto
  then obtain db' where "invalid_block (Suc N) bid val db = Inr db'"
    "marks (if val then Invalid else Validated) (insert bid (descendants db bid)) db db'" by auto
  moreover have "insert bid (descendants db bid) = {j. (bid, j) \<in> (follows db)\<^sup>*}"
    by (auto simp: descendants_def rtrancl_eq_or_trancl)
  ultimately show ?thesis by (auto simp: marks_def)
qed

text \<open>The leaf of the sample log has one follower.\<close>

theorem invalid_block_marks_witness:
  "\<exists>db' r. invalid_block 3 (Data_buffer [1]) True sample_log = Inr db'
     \<and> table_select (log_records db') (Data_buffer [2]) = Some r \<and> lr_state r = Invalid"
proof -
  let ?H = "follows sample_log" and ?rank = "\<lambda>d. if d = Data_buffer [1] then 1 else (2::nat)"
  have H: "?H = {(Data_buffer [1], Data_buffer [2])}" by (auto simp: follows_def sample_log_def)
  have j: "j = Data_buffer [2]" if "(Data_buffer [1], j) \<in> ?H\<^sup>+" for j
    using that [unfolded H] by (induction rule: trancl_induct) auto
  have "\<exists>db'. invalid_block (Suc 2) (Data_buffer [1]) True sample_log = Inr db'
    \<and> (\<forall>j. table_select (log_records db') j =
         (if (Data_buffer [1], j) \<in> ?H\<^sup>*
          then map_option (\<lambda>r. r\<lparr>lr_state := if True then Invalid else Validated\<rparr>) (table_select (log_records sample_log) j)
          else table_select (log_records sample_log) j))"
  proof (rule invalid_block_marks [where rank = ?rank])
    show "\<forall>(i, f) \<in> ?H. ?rank i < ?rank f \<and> ?rank f \<le> 2" unfolding H by simp
    show "\<forall>j. (Data_buffer [1], j) \<in> ?H\<^sup>+ \<longrightarrow> (\<exists>r. table_select (log_records sample_log) j = Some r
           \<and> lr_state r \<noteq> Leaf \<and> lr_state r \<noteq> Processed \<and> \<not> lr_consensus r)"
      by (intro allI impI, drule j) (simp add: sample_log_def)
  qed simp
  moreover have "(Data_buffer [1], Data_buffer [2]) \<in> ?H\<^sup>*" unfolding H by auto
  moreover have "table_select (log_records sample_log) (Data_buffer [2]) \<noteq> None" by (simp add: sample_log_def)
  ultimately show ?thesis by (force simp: numeral_3_eq_3)
qed

end
