(* ===== verification/Encoding.thy ===== *)
theory Encoding
  imports VDS_Prelude
begin

text \<open>
  \<open>kernel/vds_core/encoding.cpp\<close>: UTF-8, base64, URL escapes and hexadecimal. \<open>char\<close> is signed and
  \<open>wchar_t\<close> a signed 32 bit integer, as on Linux.
\<close>

abbreviation invalid_utf8 :: error where
  "invalid_utf8 \<equiv> Runtime_error ''Invalid UTF8 string''"

section \<open>UTF-8\<close>

type_synonym wchar = "32 word"

definition utf8_char_size :: "byte \<Rightarrow> nat expected" where
  "utf8_char_size first_utf8_symbol =
     (if 0x80 AND first_utf8_symbol = 0 then Inr 1
      else if 0xE0 AND first_utf8_symbol = 0xC0 then Inr 2
      else if 0xF0 AND first_utf8_symbol = 0xE0 then Inr 3
      else if 0xF8 AND first_utf8_symbol = 0xF0 then Inr 4
      else Inl invalid_utf8)"

definition utf8_continues :: "byte \<Rightarrow> bool" where
  "utf8_continues b \<longleftrightarrow> 0xC0 AND b = 0x80"

text \<open>A character and the rest of the string.\<close>

definition utf8_next_char :: "cstring \<Rightarrow> (wchar \<times> cstring) expected" where
  "utf8_next_char s =
     (if s = [] then Inr (0, s)
      else if 0x80 AND s ! 0 = 0 then Inr (ucast (s ! 0), drop 1 s)
      else if 0xE0 AND s ! 0 = 0xC0 then
        (if length s < 2 \<or> \<not> utf8_continues (s ! 1) then Inl invalid_utf8
         else Inr (push_bit 6 (0x1F AND ucast (s ! 0)) OR (0x3F AND ucast (s ! 1)), drop 2 s))
      else if 0xF0 AND s ! 0 = 0xE0 then
        (if length s < 3 \<or> \<not> utf8_continues (s ! 1) \<or> \<not> utf8_continues (s ! 2) then Inl invalid_utf8
         else Inr (push_bit 12 (0x1F AND ucast (s ! 0)) OR push_bit 6 (0x3F AND ucast (s ! 1))
             OR (0x3F AND ucast (s ! 2)), drop 3 s))
      else if 0xF8 AND s ! 0 = 0xF0 then
        (if length s < 4 \<or> \<not> utf8_continues (s ! 1) \<or> \<not> utf8_continues (s ! 2) \<or> \<not> utf8_continues (s ! 3)
         then Inl invalid_utf8
         else Inr (push_bit 18 (0x1F AND ucast (s ! 0)) OR push_bit 12 (0x3F AND ucast (s ! 1))
             OR push_bit 6 (0x3F AND ucast (s ! 2)) OR (0x3F AND ucast (s ! 3)), drop 4 s))
      else Inl invalid_utf8)"

definition utf8_add :: "cstring \<Rightarrow> wchar \<Rightarrow> cstring expected" where
  "utf8_add result ch =
     (if sint ch < 0x80 then Inr (result @ [ucast ch])
      else if sint ch < 0x800 then
        Inr (result @ [ucast (0xC0 OR signed_drop_bit 6 ch), ucast (0x80 OR (0x3F AND ch))])
      else if sint ch < 0x10000 then
        Inr (result @ [ucast (0xC0 OR signed_drop_bit 12 ch), ucast (0x80 OR (0x3F AND signed_drop_bit 6 ch)),
          ucast (0x80 OR (0x3F AND ch))])
      else if sint ch < 0x110000 then
        Inr (result @ [ucast (0xC0 OR signed_drop_bit 18 ch), ucast (0x80 OR (0x3F AND signed_drop_bit 12 ch)),
          ucast (0x80 OR (0x3F AND signed_drop_bit 6 ch)), ucast (0x80 OR (0x3F AND ch))])
      else Inl (Runtime_error ''Invalid UTF16 string''))"

fun utf16_to_utf8_loop :: "cstring \<Rightarrow> wchar list \<Rightarrow> cstring expected" where
  "utf16_to_utf8_loop result [] = Inr result"
| "utf16_to_utf8_loop result (ch # original) =
     get_expected (utf8_add result ch) (\<lambda>result. utf16_to_utf8_loop result original)"

definition utf16_to_utf8 :: "wchar list \<Rightarrow> cstring expected" where
  "utf16_to_utf8 original = utf16_to_utf8_loop [] original"

section \<open>base64\<close>

definition encode_lookup :: cstring where
  "encode_lookup = map of_char
     ''ABCDEFGHIJKLMNOPQRSTUVWXYZabcdefghijklmnopqrstuvwxyz0123456789+/''"

abbreviation pad_character :: byte where
  "pad_character \<equiv> 0x3D"

definition lookup_char :: "u32 \<Rightarrow> byte" where
  "lookup_char v = encode_lookup ! unat v"

fun base64_from_bytes :: "byte list \<Rightarrow> cstring" where
  "base64_from_bytes (a # b # c # data) =
     (let temp = push_bit 16 (ucast a) + push_bit 8 (ucast b) + ucast c
      in [lookup_char (drop_bit 18 (temp AND 0x00FC0000)), lookup_char (drop_bit 12 (temp AND 0x0003F000)),
          lookup_char (drop_bit 6 (temp AND 0x00000FC0)), lookup_char (temp AND 0x0000003F)]
         @ base64_from_bytes data)"
| "base64_from_bytes [a, b] =
     (let temp = push_bit 16 (ucast a) + push_bit 8 (ucast b)
      in [lookup_char (drop_bit 18 (temp AND 0x00FC0000)), lookup_char (drop_bit 12 (temp AND 0x0003F000)),
          lookup_char (drop_bit 6 (temp AND 0x00000FC0)), pad_character])"
| "base64_from_bytes [a] =
     (let temp = push_bit 16 (ucast a)
      in [lookup_char (drop_bit 18 (temp AND 0x00FC0000)), lookup_char (drop_bit 12 (temp AND 0x0003F000)),
          pad_character, pad_character])"
| "base64_from_bytes [] = []"

definition base64_value :: "byte \<Rightarrow> u32 option" where
  "base64_value ch =
     (if 0x41 \<le> ch \<and> ch \<le> 0x5A then Some (ucast ch - 0x41)
      else if 0x61 \<le> ch \<and> ch \<le> 0x7A then Some (ucast ch - 0x47)
      else if 0x30 \<le> ch \<and> ch \<le> 0x39 then Some (ucast ch + 0x04)
      else if ch = 0x2B then Some 0x3E
      else if ch = 0x2F then Some 0x3F
      else None)"

text \<open>\<open>result[i] = v\<close>.\<close>

definition put_at :: "nat \<Rightarrow> byte \<Rightarrow> byte list \<Rightarrow> byte list expected" where
  "put_at i v result = (if i < length result then Inr (result[i := v]) else Inl (Undefined_behaviour ''result''))"

text \<open>The loop over the characters. It returns at the first pad character (\<open>None\<close>), or ends with
  the offset.\<close>

fun base64_loop :: "nat \<Rightarrow> cstring \<Rightarrow> u32 \<Rightarrow> nat \<Rightarrow> nat \<Rightarrow> byte list \<Rightarrow> (nat option \<times> byte list) expected" where
  "base64_loop padding [] temp offset quantum_position result = Inr (Some offset, result)"
| "base64_loop padding (ch # data) temp offset quantum_position result =
     (let temp = push_bit 6 temp
      in case base64_value ch of
          Some v \<Rightarrow>
            let temp = temp OR v
            in if Suc quantum_position = 4 then
                 get_expected (put_at offset (ucast (drop_bit 16 temp AND 0xFF)) result) (\<lambda>result.
                 get_expected (put_at (offset + 1) (ucast (drop_bit 8 temp AND 0xFF)) result) (\<lambda>result.
                 get_expected (put_at (offset + 2) (ucast (temp AND 0xFF)) result) (\<lambda>result.
                   base64_loop padding data temp (offset + 3) 0 result)))
               else base64_loop padding data temp offset (Suc quantum_position) result
        | None \<Rightarrow>
            if ch = pad_character then
              if padding = 1 then
                get_expected (put_at offset (ucast (drop_bit 16 temp AND 0xFF)) result) (\<lambda>result.
                get_expected (put_at (offset + 1) (ucast (drop_bit 8 temp AND 0xFF)) result) (\<lambda>result.
                  Inr (None, result)))
              else if padding = 2 then
                get_expected (put_at offset (ucast (drop_bit 10 temp AND 0xFF)) result) (\<lambda>result.
                  Inr (None, result))
              else Inl (Runtime_error ''Invalid Padding in Base 64!'')
            else Inl (Runtime_error ''Non-Valid Character in Base 64!''))"

definition base64_padding :: "cstring \<Rightarrow> nat" where
  "base64_padding data =
     (if 0 < length data \<and> data ! (length data - 1) = pad_character
      then if 1 < length data \<and> data ! (length data - 2) = pad_character then 2 else 1
      else 0)"

text \<open>\<open>fresh\<close> is what the memory that \<open>resize\<close> takes from \<open>malloc\<close> holds.\<close>

definition base64_to_bytes :: "(nat \<Rightarrow> byte) \<Rightarrow> cstring \<Rightarrow> const_data_buffer expected" where
  "base64_to_bytes fresh data =
     (if length data mod 4 \<noteq> 0 then Inl (Runtime_error ''Non-Valid base64!'')
      else
        let padding = base64_padding data; size = length data div 4 * 3 - padding
        in get_expected (base64_loop padding data 0 0 0 (map fresh [0..<size])) (\<lambda>(offset, result).
           case offset of
             None \<Rightarrow> Inr (Data_buffer result)
           | Some offset \<Rightarrow>
               vds_assert (offset = size) ''offset'' (vds_assert (length result = size) ''result.size()''
                 (Inr (Data_buffer result)))))"

section \<open>URL escapes\<close>

definition isalnum :: "byte \<Rightarrow> bool" where
  "isalnum ch \<longleftrightarrow> 0x30 \<le> ch \<and> ch \<le> 0x39 \<or> 0x41 \<le> ch \<and> ch \<le> 0x5A \<or> 0x61 \<le> ch \<and> ch \<le> 0x7A"

text \<open>\<open>ch >> 4\<close> of a signed \<open>char\<close> keeps the sign.\<close>

definition url_escape :: "byte \<Rightarrow> cstring" where
  "url_escape ch =
     (if isalnum ch \<or> ch \<in> {0x2D, 0x5F, 0x2E, 0x7E} then [ch]
      else [0x25,
        if 10 \<le> sint (signed_drop_bit 4 ch) then 0x41 + signed_drop_bit 4 ch - 10 else 0x30 + signed_drop_bit 4 ch,
        if 10 \<le> ch AND 0x0F then 0x41 + (ch AND 0x0F) - 10 else 0x30 + (ch AND 0x0F)])"

definition url_encode :: "cstring \<Rightarrow> cstring" where
  "url_encode original = concat (map url_escape original)"

definition hex_digit :: "byte \<Rightarrow> byte option" where
  "hex_digit ch =
     (if 0x30 \<le> ch \<and> ch \<le> 0x39 then Some (ch - 0x30)
      else if 0x61 \<le> ch \<and> ch \<le> 0x66 then Some (ch - 0x61 + 10)
      else if 0x41 \<le> ch \<and> ch \<le> 0x46 then Some (ch - 0x41 + 10)
      else None)"

text \<open>The three states of the loop: outside, after \<open>%\<close>, after the first digit.\<close>

datatype url_state = Url_text | Url_percent | Url_digit byte

fun url_decode_loop :: "url_state \<Rightarrow> cstring \<Rightarrow> cstring \<Rightarrow> cstring" where
  "url_decode_loop state decoded [] = decoded"
| "url_decode_loop Url_text decoded (ch # s) =
     (if ch = 0x25 then url_decode_loop Url_percent decoded s else url_decode_loop Url_text (decoded @ [ch]) s)"
| "url_decode_loop Url_percent decoded (ch # s) =
     (case hex_digit ch of
        Some val \<Rightarrow> url_decode_loop (Url_digit val) decoded s
      | None \<Rightarrow> url_decode_loop Url_text (decoded @ [0x25, ch]) s)"
| "url_decode_loop (Url_digit val) decoded (ch # s) =
     (case hex_digit ch of
        Some v \<Rightarrow> url_decode_loop Url_text (decoded @ [push_bit 4 val OR v]) s
      | None \<Rightarrow> url_decode_loop Url_text (decoded @ [0x25, ch]) s)"

definition url_decode :: "cstring \<Rightarrow> cstring" where
  "url_decode original = url_decode_loop Url_text [] original"

section \<open>hex\<close>

definition hex_chars :: cstring where
  "hex_chars = map of_char ''0123456789abcdef''"

definition hex_from_bytes :: "byte list \<Rightarrow> cstring" where
  "hex_from_bytes data = concat (map (\<lambda>b.
     [hex_chars ! unat (drop_bit 4 (b AND 0xF0)), hex_chars ! unat (b AND 0x0F)]) data)"

fun hex_loop :: "byte option \<Rightarrow> byte list \<Rightarrow> cstring \<Rightarrow> byte list expected" where
  "hex_loop None result [] = Inr result"
| "hex_loop (Some _) result [] = Inl (Runtime_error ''Invalid hex string'')"
| "hex_loop first result (ch # data) =
     (case hex_digit ch of
        None \<Rightarrow> Inl (Runtime_error ''Invalid hex string'')
      | Some v \<Rightarrow>
          (case first of
             None \<Rightarrow> hex_loop (Some v) result data
           | Some value \<Rightarrow> hex_loop None (result @ [push_bit 4 value OR v]) data))"

definition hex_to_bytes :: "cstring \<Rightarrow> const_data_buffer expected" where
  "hex_to_bytes data = get_expected (hex_loop None [] data) (\<lambda>result. Inr (Data_buffer result))"

end
