(* ===== verification/Encoding_properties.thy ===== *)
theory Encoding_properties
  imports Encoding
begin

text \<open>Round trips of the encodings, and where they fail.\<close>

text \<open>A fact about every byte is a check of 256 cases.\<close>

lemma byte_all: "(\<forall>b :: byte. P b) \<longleftrightarrow> (\<forall>n \<in> set [0..<256]. P (of_nat n))"
proof (intro iffI allI)
  fix b :: byte
  assume all: "\<forall>n \<in> set [0..<256]. P (of_nat n)"
  have "unat b \<in> set [0..<256]" using unsigned_less [of b] by simp
  with all have "P (of_nat (unat b))" by blast
  then show "P b" by simp
qed simp

lemma byte_bits: "(x :: byte) = y \<longleftrightarrow> (\<forall>n \<in> set [0..<8]. bit x n = bit y n)"
  by (auto intro: bit_word_eqI)

section \<open>hex\<close>

lemma hex_digit_char: "n < 16 \<Longrightarrow> hex_digit (hex_chars ! n) = Some (of_nat n)"
proof -
  have "\<forall>n \<in> set [0..<16]. hex_digit (hex_chars ! n) = Some (of_nat n)" by code_simp
  then show "n < 16 \<Longrightarrow> ?thesis" by simp
qed

lemma hex_digit_nibble: "unat v < 16 \<Longrightarrow> hex_digit (hex_chars ! unat v) = Some v"
  by (simp add: hex_digit_char)

lemma all_nibbles:
  "\<forall>b :: byte. unat (b AND 0x0F) < 16 \<and> unat (drop_bit 4 b) < 16 \<and> drop_bit 4 b AND 0x0F = drop_bit 4 b
     \<and> push_bit 4 (drop_bit 4 b) OR (b AND 0x0F) = b"
  unfolding byte_all by code_simp

lemmas nibbles = all_nibbles [rule_format]

lemma hex_loop_from_bytes:
  "hex_loop None result (hex_from_bytes data @ rest) = hex_loop None (result @ data) rest"
proof (induction data arbitrary: result)
  case (Cons b data)
  have "hex_from_bytes (b # data)
      = hex_chars ! unat (drop_bit 4 b) # hex_chars ! unat (b AND 0x0F) # hex_from_bytes data"
    by (simp add: hex_from_bytes_def nibbles)
  with Cons.IH [of "result @ [b]"] show ?case
    by (simp add: hex_digit_nibble nibbles)
qed (simp add: hex_from_bytes_def)

text \<open>Hexadecimal text is read back to the bytes it was made from.\<close>

theorem hex_roundtrip: "hex_to_bytes (hex_from_bytes data) = Inr (Data_buffer data)"
  using hex_loop_from_bytes [of "[]" data "[]"] by (simp add: hex_to_bytes_def)

section \<open>URL escapes\<close>

definition escapes_as :: "byte \<Rightarrow> cstring \<Rightarrow> bool" where
  "escapes_as b s \<longleftrightarrow> (case s of
       [c] \<Rightarrow> c = b \<and> c \<noteq> 0x25
     | [p, h, l] \<Rightarrow> p = 0x25 \<and> (case hex_digit h of None \<Rightarrow> False
         | Some x \<Rightarrow> (case hex_digit l of None \<Rightarrow> False | Some y \<Rightarrow> push_bit 4 x OR y = b))
     | _ \<Rightarrow> False)"

lemma url_escape_ascii: "b < 0x80 \<Longrightarrow> escapes_as b (url_escape b)"
proof -
  have "\<forall>b < (0x80 :: byte). escapes_as b (url_escape b)" unfolding byte_all by code_simp
  then show "b < 0x80 \<Longrightarrow> ?thesis" by simp
qed

lemma url_decode_escape:
  "escapes_as b e \<Longrightarrow> url_decode_loop Url_text decoded (e @ s) = url_decode_loop Url_text (decoded @ [b]) s"
  by (auto simp: escapes_as_def split: list.splits option.splits)

text \<open>For text of 7 bit characters, \<open>url_encode::decode\<close> is the inverse of \<open>url_encode::encode\<close>.\<close>

theorem url_roundtrip:
  assumes "\<forall>b \<in> set original. b < 0x80"
  shows "url_decode (url_encode original) = original"
proof -
  have "url_decode_loop Url_text decoded (url_encode original) = decoded @ original" for decoded
    using assms
  proof (induction original arbitrary: decoded)
    case (Cons b original)
    then show ?case
      by (simp add: url_encode_def url_decode_escape [OF url_escape_ascii])
  qed (simp add: url_encode_def)
  then show ?thesis by (simp add: url_decode_def)
qed

theorem url_roundtrip_witness: "url_decode (url_encode [0x61, 0x25, 0x2F, 0x7F]) = [0x61, 0x25, 0x2F, 0x7F]"
  by (rule url_roundtrip) simp

text \<open>A byte of \<open>0x80\<close> or more is not recovered: \<open>char\<close> is signed, so the first digit written is a
  character below \<open>'0'\<close>, which no decoder takes for a digit.\<close>

lemma url_encode_loses_high_bytes:
  "\<forall>b \<ge> (0x80 :: byte). url_decode (url_encode [b]) \<noteq> [b]"
  unfolding byte_all by code_simp

section \<open>base64\<close>

lemma base64_value_lookup: "unat v < 64 \<Longrightarrow> base64_value (lookup_char v) = Some v"
proof -
  have "\<forall>n \<in> set [0..<64]. base64_value (encode_lookup ! n) = Some (of_nat n)" by code_simp
  then have "unat v < 64 \<Longrightarrow> base64_value (encode_lookup ! unat v) = Some (of_nat (unat v))" by simp
  then show "unat v < 64 \<Longrightarrow> ?thesis" by (simp add: lookup_char_def)
qed

lemma base64_value_pad [simp]: "base64_value pad_character = None"
  by (simp add: base64_value_def)

text \<open>The three bytes of a quantum, joined and cut into four times six bits.\<close>

lemma join_bytes:
  "push_bit 16 (ucast (a :: byte)) + push_bit 8 (ucast (b :: byte)) + ucast (c :: byte)
     = (push_bit 16 (ucast a) OR push_bit 8 (ucast b) OR ucast c :: u32)"
  "push_bit 16 (ucast a) + push_bit 8 (ucast b) = (push_bit 16 (ucast a) OR push_bit 8 (ucast b) :: u32)"
proof -
  have ab: "push_bit 16 (ucast a) AND push_bit 8 (ucast b) = (0 :: u32)"
    by (rule bit_word_eqI) (auto simp: bit_simps dest: bit_imp_le_length)
  then show 2: "push_bit 16 (ucast a) + push_bit 8 (ucast b) = (push_bit 16 (ucast a) OR push_bit 8 (ucast b) :: u32)"
    by (rule disjunctive_add_eq_or)
  have "(push_bit 16 (ucast a) OR push_bit 8 (ucast b)) AND ucast c = (0 :: u32)"
    by (rule bit_word_eqI) (auto simp: bit_simps dest: bit_imp_le_length)
  then show "push_bit 16 (ucast a) + push_bit 8 (ucast b) + ucast c
     = (push_bit 16 (ucast a) OR push_bit 8 (ucast b) OR ucast c :: u32)"
    unfolding 2 by (simp add: disjunctive_add_eq_or or.assoc)
qed

abbreviation sextets :: "u32 \<Rightarrow> u32 list" where
  "sextets t \<equiv> [drop_bit 18 (t AND 0x00FC0000), drop_bit 12 (t AND 0x0003F000), drop_bit 6 (t AND 0x00000FC0), t AND 0x0000003F]"

lemma sextet_small: "v \<in> set (sextets t) \<Longrightarrow> unat v < 64"
proof -
  have "v \<in> set (sextets t) \<Longrightarrow> v AND 0x3F = v"
    by (auto intro!: bit_word_eqI simp: bit_simps)
  moreover have "v AND 0x3F = take_bit 6 v" by (simp add: take_bit_eq_mask mask_numeral)
  then have "unat (v AND 0x3F) < 64" by (simp only: unsigned_take_bit_eq) (simp add: take_bit_eq_mod)
  ultimately show "v \<in> set (sextets t) \<Longrightarrow> ?thesis" by metis
qed

end
