(* ===== verification/Base64_properties.thy ===== *)
theory Base64_properties
  imports Encoding_properties
begin

text \<open>
  The base64 round trip: the loop of the decoder over the characters of the encoder, one quantum at a time.
\<close>

lemma sextets_take:
  "sextets t = [take_bit 6 (drop_bit 18 t), take_bit 6 (drop_bit 12 t), take_bit 6 (drop_bit 6 t), take_bit 6 t]"
  by (simp add: take_bit_eq_mask mask_numeral)

lemma join_sextets:
  fixes t temp :: u32
  assumes "take_bit 24 t = t"
  shows "push_bit 6 (push_bit 6 (push_bit 6 (push_bit 6 temp OR take_bit 6 (drop_bit 18 t)) OR take_bit 6 (drop_bit 12 t))
     OR take_bit 6 (drop_bit 6 t)) OR take_bit 6 t = push_bit 24 temp OR t"
proof (rule bit_word_eqI)
  fix n assume "n < LENGTH(32)"
  have t: "bit t n \<longrightarrow> n < 24" using assms by (metis bit_take_bit_iff)
  consider "n < 6" | k where "n = 6 + k" "k < 6" | k where "n = 12 + k" "k < 6" | k where "n = 18 + k" "k < 6"
    | k where "n = 24 + k"
  proof -
    have "n < 6 \<or> (\<exists>k. n = 6 + k \<and> k < 6) \<or> (\<exists>k. n = 12 + k \<and> k < 6) \<or> (\<exists>k. n = 18 + k \<and> k < 6) \<or> (\<exists>k. n = 24 + k)"
      by presburger
    then show thesis using that by blast
  qed
  then show "bit (push_bit 6 (push_bit 6 (push_bit 6 (push_bit 6 temp OR take_bit 6 (drop_bit 18 t)) OR take_bit 6 (drop_bit 12 t))
     OR take_bit 6 (drop_bit 6 t)) OR take_bit 6 t) n = bit (push_bit 24 temp OR t) n"
    by cases (use t \<open>n < LENGTH(32)\<close> in \<open>auto simp: bit_simps\<close>)
qed

lemma bytes_of_join:
  fixes a b c :: byte and temp :: u32
  shows "ucast (drop_bit 16 (push_bit 24 temp OR (push_bit 16 (ucast a) OR push_bit 8 (ucast b) OR ucast c)) AND 0xFF) = a"
    "ucast (drop_bit 8 (push_bit 24 temp OR (push_bit 16 (ucast a) OR push_bit 8 (ucast b) OR ucast c)) AND 0xFF) = b"
    "ucast ((push_bit 24 temp OR (push_bit 16 (ucast a) OR push_bit 8 (ucast b) OR ucast c)) AND 0xFF) = c"
  unfolding ucast_and_FF
  by (rule bit_word_eqI, auto simp: bit_simps dest: bit_imp_le_length)+

lemma two_sextets:
  fixes a :: byte and temp :: u32
  shows "ucast (drop_bit 10 (push_bit 6 (push_bit 6 (push_bit 6 temp OR take_bit 6 (drop_bit 18 (push_bit 16 (ucast a))))
     OR take_bit 6 (drop_bit 12 (push_bit 16 (ucast a))))) AND 0xFF) = a"
proof -
  have "take_bit 6 (drop_bit 18 (push_bit 16 (ucast a))) = drop_bit 2 (ucast a :: u32)"
    "take_bit 6 (drop_bit 12 (push_bit 16 (ucast a))) = push_bit 4 (take_bit 2 (ucast a) :: u32)"
    by (rule bit_word_eqI, auto simp: bit_simps dest: bit_imp_le_length)+
  moreover have "ucast (drop_bit 10 (push_bit 6 (push_bit 6 (push_bit 6 temp OR drop_bit 2 (ucast a))
      OR push_bit 4 (take_bit 2 (ucast a)))) AND 0xFF) = a"
    unfolding ucast_and_FF
  proof (rule bit_word_eqI)
    fix n assume "n < LENGTH(8)"
    then consider "n < 2" | k where "n = 2 + k" "k < 6"
      by (cases "n < 2") (use le_Suc_ex [of 2 n] in auto)
    then show "bit (ucast (drop_bit 10 (push_bit 6 (push_bit 6 (push_bit 6 temp OR drop_bit 2 (ucast a :: u32))
      OR push_bit 4 (take_bit 2 (ucast a :: u32))))) :: byte) n = bit a n"
      by cases (auto simp: bit_simps)
  qed
  ultimately show ?thesis by simp
qed

abbreviation joined :: "byte \<Rightarrow> byte \<Rightarrow> byte \<Rightarrow> u32" where
  "joined a b c \<equiv> push_bit 16 (ucast a) OR push_bit 8 (ucast b) OR ucast c"

lemma joined_24: "take_bit 24 (joined a b c) = joined a b c"
  by (rule bit_word_eqI) (auto simp: bit_simps dest: bit_imp_le_length)

lemma value_sextet: "base64_value (lookup_char (take_bit 6 v)) = Some (take_bit 6 v)"
proof (rule base64_value_lookup)
  show "unat (take_bit 6 v) < 64" by (simp only: unsigned_take_bit_eq) (simp add: take_bit_eq_mod)
qed

lemma put_at_append: "put_at (length dn) v (dn @ x # g) = Inr (dn @ v # g)"
  by (simp add: put_at_def)

lemma put_three:
  "put_at (length dn) a (dn @ x # y # z # g) = Inr (dn @ a # y # z # g)"
  "put_at (length dn + 1) b (dn @ a # y # z # g) = Inr (dn @ a # b # z # g)"
  "put_at (length dn + 2) c (dn @ a # b # z # g) = Inr (dn @ a # b # c # g)"
  "put_at (length dn + 1) b (dn @ [a, y]) = Inr (dn @ [a, b])"
  by (simp_all add: put_at_def nth_append list_update_append)

lemma base64_quantum:
  "base64_loop p (map lookup_char (sextets (joined a b c)) @ data) temp (length dn) 0 (dn @ x # y # z # g)
     = base64_loop p data (push_bit 24 temp OR joined a b c) (length dn + 3) 0 (dn @ a # b # c # g)"
  unfolding sextets_take
  by (simp only: list.map append.simps base64_loop.simps value_sextet option.case Let_def join_sextets [OF joined_24]
      bytes_of_join put_three get_expected_simps)
    (simp add: numeral_eq_Suc)

lemma base64_one_pad:
  "base64_loop 1 (take 3 (map lookup_char (sextets (joined a b 0))) @ [pad_character]) temp (length dn) 0 (dn @ [x, y])
     = Inr (None, dn @ [a, b])"
proof -
  have "take_bit 6 (joined a b 0) = 0" by (rule bit_word_eqI) (auto simp: bit_simps)
  then have "push_bit 6 (push_bit 6 (push_bit 6 (push_bit 6 temp OR take_bit 6 (drop_bit 18 (joined a b 0)))
      OR take_bit 6 (drop_bit 12 (joined a b 0))) OR take_bit 6 (drop_bit 6 (joined a b 0)))
    = push_bit 24 temp OR joined a b 0" using join_sextets [OF joined_24, of temp a b 0] by simp
  note T = this
  show ?thesis
    unfolding sextets_take
    by (simp only: list.map take_Suc_Cons take_0 numeral_3_eq_3 append.simps base64_loop.simps value_sextet option.case Let_def
        base64_value_pad T bytes_of_join put_three put_at_append get_expected_simps)
      (simp add: numeral_eq_Suc)
qed

lemma base64_two_pads:
  "base64_loop 2 (take 2 (map lookup_char (sextets (joined a 0 0))) @ [pad_character, pad_character]) temp (length dn) 0 (dn @ [x])
     = Inr (None, dn @ [a])"
proof -
  have "joined a 0 0 = push_bit 16 (ucast a)" by simp
  then show ?thesis
    unfolding sextets_take
    by (simp only: list.map take_Suc_Cons take_0 numeral_2_eq_2 append.simps base64_loop.simps value_sextet option.case Let_def
        base64_value_pad two_sextets put_at_append get_expected_simps)
      (simp add: numeral_eq_Suc)
qed

lemma base64_from_bytes_joined:
  "base64_from_bytes (a # b # c # data) = map lookup_char (sextets (joined a b c)) @ base64_from_bytes data"
  "base64_from_bytes [a, b] = take 3 (map lookup_char (sextets (joined a b 0))) @ [pad_character]"
  "base64_from_bytes [a] = take 2 (map lookup_char (sextets (joined a 0 0))) @ [pad_character, pad_character]"
proof -
  have "ucast (0 :: byte) = (0 :: u32)" "push_bit 8 0 = (0 :: u32)" by simp_all
  note zeros = this or.right_neutral list.map append.simps take_Suc_Cons take_0 numeral_2_eq_2 numeral_3_eq_3
  show "base64_from_bytes (a # b # c # data) = map lookup_char (sextets (joined a b c)) @ base64_from_bytes data"
    unfolding base64_from_bytes.simps Let_def join_bytes(1) list.map append.simps by (rule refl)
  show "base64_from_bytes [a, b] = take 3 (map lookup_char (sextets (joined a b 0))) @ [pad_character]"
    unfolding base64_from_bytes.simps Let_def join_bytes(2) zeros by (rule refl)
  show "base64_from_bytes [a] = take 2 (map lookup_char (sextets (joined a 0 0))) @ [pad_character, pad_character]"
    unfolding base64_from_bytes.simps Let_def zeros by (rule refl)
qed

definition pads :: "byte list \<Rightarrow> nat" where
  "pads data = (2 * length data) mod 3"

lemma base64_loop_encoded:
  "length g = length data \<Longrightarrow> base64_loop (pads data) (base64_from_bytes data) temp (length dn) 0 (dn @ g)
     = Inr (if pads data = 0 then Some (length dn + length data) else None, dn @ data)"
proof (induction data arbitrary: temp dn g rule: base64_from_bytes.induct)
  case (1 a b c data)
  then obtain x y z g' where g: "g = x # y # z # g'" "length g' = length data"
    by (auto simp: length_Suc_conv)
  have "2 * length (a # b # c # data) = 2 * length data + 3 * 2" by simp
  then have "pads (a # b # c # data) = pads data" unfolding pads_def by (metis mod_mult_self2)
  moreover have "base64_loop (pads data) (base64_from_bytes data) (push_bit 24 temp OR joined a b c)
      (length (dn @ [a, b, c])) 0 ((dn @ [a, b, c]) @ g')
    = Inr (if pads data = 0 then Some (length (dn @ [a, b, c]) + length data) else None, (dn @ [a, b, c]) @ data)"
    by (rule 1(1) [OF refl g(2)])
  moreover have "length (dn @ [a, b, c]) = length dn + 3" "(dn @ [a, b, c]) @ r = dn @ a # b # c # r"
    "length dn + 3 + length data = length dn + length (a # b # c # data)" for r by simp_all
  ultimately show ?case
    unfolding base64_from_bytes_joined g(1) base64_quantum by (simp only:)
next
  case (2 a b)
  then obtain x y where g: "g = [x, y]" by (auto simp: length_Suc_conv numeral_eq_Suc)
  have "pads [a, b] = 1" by (simp add: pads_def)
  then show ?case unfolding base64_from_bytes_joined g by (simp only: base64_one_pad) simp
next
  case (3 a)
  then obtain x where g: "g = [x]" by (auto simp: length_Suc_conv)
  have "pads [a] = 2" by (simp add: pads_def)
  then show ?case unfolding base64_from_bytes_joined g by (simp only: base64_two_pads) simp
next
  case 4
  then show ?case by (simp add: pads_def)
qed

lemma lookup_char_not_pad: "lookup_char (take_bit 6 v) \<noteq> pad_character"
  using value_sextet [of v] by auto

lemma base64_length: "length (base64_from_bytes data) = 4 * ((length data + 2) div 3)"
proof (induction data rule: base64_from_bytes.induct)
  case (1 a b c data)
  have "length (a # b # c # data) + 2 = (length data + 2) + 3" by simp
  then have "(length (a # b # c # data) + 2) div 3 = (length data + 2) div 3 + 1" by (metis div_add_self2 zero_neq_numeral)
  with 1 show ?case by (simp add: Let_def)
qed (simp_all add: Let_def)

lemma base64_padding_append: "2 \<le> length ys \<Longrightarrow> base64_padding (xs @ ys) = base64_padding ys"
  by (auto simp: base64_padding_def nth_append)

lemma padding_last:
  "base64_padding [a, b, lookup_char (take_bit 6 u), lookup_char (take_bit 6 v)] = 0"
  "base64_padding ([a, b, lookup_char (take_bit 6 u), lookup_char (take_bit 6 v)] @ []) = 0"
  "base64_padding (a # b # lookup_char (take_bit 6 u) # lookup_char (take_bit 6 v) # base64_from_bytes []) = 0"
  "base64_padding ([a, b, lookup_char (take_bit 6 u), lookup_char (take_bit 6 v)] @ base64_from_bytes []) = 0"
  "base64_padding [a, b, lookup_char (take_bit 6 u), pad_character] = 1"
  "base64_padding [a, b, pad_character, pad_character] = 2"
  using lookup_char_not_pad [of u] lookup_char_not_pad [of v] by (simp_all add: base64_padding_def)

lemma base64_padding_encoded: "base64_padding (base64_from_bytes data) = pads data"
proof (induction data rule: base64_from_bytes.induct)
  case (1 a b c data)
  have "2 * length (a # b # c # data) = 2 * length data + 3 * 2" by simp
  then have p: "pads (a # b # c # data) = pads data" unfolding pads_def by (metis mod_mult_self2)
  show ?case
  proof (cases "data = []")
    case True
    then show ?thesis unfolding p base64_from_bytes_joined sextets_take True list.map
      by (simp only: padding_last) (simp add: pads_def)
  next
    case False
    then have "2 \<le> length (base64_from_bytes data)" unfolding base64_length by (cases data) auto
    then show ?thesis using 1 unfolding p base64_from_bytes_joined by (simp only: base64_padding_append refl)
  qed
next
  case (2 a b)
  show ?case unfolding base64_from_bytes_joined sextets_take list.map take_Suc_Cons numeral_3_eq_3 take_0 append.simps
    by (simp only: padding_last) (simp add: pads_def)
next
  case (3 a)
  show ?case unfolding base64_from_bytes_joined sextets_take list.map take_Suc_Cons numeral_2_eq_2 take_0 append.simps
    by (simp only: padding_last) (simp add: pads_def)
next
  case 4
  then show ?case by (simp add: base64_padding_def pads_def)
qed

lemma base64_size: "length (base64_from_bytes data) div 4 * 3 - pads data = length data"
proof -
  have "(n + 2) div 3 * 3 - (2 * n) mod 3 = n" for n :: nat
  proof -
    obtain q r where "n = 3 * q + r" "r < 3" using mult_div_mod_eq [of 3 n] by (metis mod_less_divisor zero_less_numeral)
    moreover have "(3 * q + 0 + 2) div 3 = q" "(3 * q + 1 + 2) div 3 = q + 1" "(3 * q + 2 + 2) div 3 = q + 1"
      "2 * (3 * q + 0) mod 3 = 0" "2 * (3 * q + 1) mod 3 = 2" "2 * (3 * q + 2) mod 3 = 1" by presburger+
    moreover have "r = 0 \<or> r = 1 \<or> r = 2" using \<open>r < 3\<close> by linarith
    ultimately show ?thesis by (elim disjE) (simp_all only: add_0_right, simp_all)
  qed
  then show ?thesis unfolding base64_length pads_def by simp
qed

lemma base64_to_from_bytes: "base64_to_bytes fresh (base64_from_bytes data) = Inr (Data_buffer data)"
proof -
  have "length (base64_from_bytes data) mod 4 = 0" unfolding base64_length by simp
  moreover have "base64_loop (pads data) (base64_from_bytes data) 0 0 0 (map fresh [0..<length data])
      = Inr (if pads data = 0 then Some (length data) else None, data)"
    using base64_loop_encoded [of "map fresh [0..<length data]" data 0 "[]"] by simp
  ultimately show ?thesis
    by (simp only: base64_to_bytes_def base64_padding_encoded base64_size Let_def if_False if_True simp_thms get_expected_simps)
      (simp add: vds_assert_def)
qed

text \<open>Base64 text is read back to the bytes it was made from, for every length and whatever the fresh
  memory holds.\<close>

theorem base64_roundtrip: "base64_to_bytes fresh (base64_from_bytes data) = Inr (Data_buffer data)"
  by (rule base64_to_from_bytes)

text \<open>A pad character before the end is accepted: the decoder returns at once with a buffer of full
  size, of which only the beginning was written, so bytes of uninitialised memory reach the caller.\<close>

lemma base64_early_pad_uninitialised:
  "base64_to_bytes fresh (map of_char ''=AAAAAA='') = Inr (Data_buffer [0, 0, fresh 2, fresh 3, fresh 4])"
proof -
  have "map of_char ''=AAAAAA='' = [0x3D, 0x41, 0x41, 0x41, 0x41, 0x41, 0x41, 0x3D :: byte]" by code_simp
  moreover have "map fresh [0..<5] = [fresh 0, fresh 1, fresh 2, fresh 3, fresh 4]" by (simp add: upt_rec eval_nat_numeral)
  ultimately show ?thesis
    by (simp add: base64_to_bytes_def base64_padding_def base64_value_def put_at_def Let_def)
qed

end
