(* ===== verification/Utf8_properties.thy ===== *)
theory Utf8_properties
  imports Encoding_properties
begin

text \<open>What \<open>utf8::add\<close> writes, \<open>utf8::next_char\<close> reads back for the characters of one and two bytes; from
  three bytes on it does not.\<close>

lemma small_wchar:
  assumes "uint (ch :: wchar) < 2 ^ k" "k < 32"
  shows "sint ch = uint ch" "signed_drop_bit n ch = drop_bit n ch" "bit ch i \<Longrightarrow> i < k"
proof -
  have "uint (take_bit k ch) = uint ch"
    using assms by (simp add: unsigned_take_bit_eq take_bit_int_eq_self)
  then have "take_bit k ch = ch" by (rule unsigned_word_eqI)
  then show b: "bit ch i \<Longrightarrow> i < k" for i by (metis bit_take_bit_iff)
  have "(2 :: int) ^ k \<le> 2 ^ 31" using assms(2) by (intro power_increasing) simp_all
  with assms(1) have "uint ch < 2 ^ 31" by linarith
  moreover have "- (2 ^ 31) \<le> uint ch" by (rule order_trans [OF _ uint_ge_0]) simp
  ultimately have "signed_take_bit 31 (uint ch) = uint ch" by (intro signed_take_bit_int_eq_self)
  then show "sint ch = uint ch" by (simp add: sint_uint)
  have "\<not> bit ch 31" using b [of 31] assms(2) by auto
  then show "signed_drop_bit n ch = drop_bit n ch"
    by (intro bit_word_eqI) (auto simp: bit_simps dest: bit_imp_le_length)
qed

lemma and_1F: "0x1F AND v = take_bit 5 (v :: wchar)" and and_3F: "0x3F AND v = take_bit 6 v"
  by (simp_all add: take_bit_eq_mask mask_numeral and.commute)

lemma take_ucast_byte: "k \<le> 8 \<Longrightarrow> take_bit k (ucast (ucast v :: byte) :: wchar) = take_bit k v"
  by (rule bit_word_eqI) (auto simp: bit_simps)

lemma glue_bits: "push_bit m (take_bit n (drop_bit m v)) OR take_bit m v = take_bit (m + n) (v :: wchar)"
  by (rule bit_word_eqI) (auto simp: bit_simps)

lemma utf8_add_next_char:
  assumes "ch < 0x800"
  shows "get_expected (utf8_add [] ch) (\<lambda>s. utf8_next_char (s @ rest)) = Inr (ch, rest)"
proof (cases "ch < 0x80")
  case True
  then have u: "uint ch < 2 ^ 7" by (simp add: word_less_def)
  note small = small_wchar [OF u]
  have "bit ch 7 \<Longrightarrow> False" using small(3) [of 7] by simp
  then have "0x80 AND ucast ch = (0 :: byte)" by (auto simp: byte_bits upt_rec eval_nat_numeral bit_simps)
  moreover have "ucast (ucast ch :: byte) = ch"
    by (rule bit_word_eqI) (use small(3) in \<open>fastforce simp: bit_simps\<close>)
  ultimately show ?thesis using u small(1) by (simp add: utf8_add_def utf8_next_char_def)
next
  case False
  then have u: "uint ch < 2 ^ 11" "\<not> uint ch < 0x80" using assms by (simp_all add: word_less_def)
  note small = small_wchar [OF u(1)]
  have no: "\<not> bit ch 11" "\<not> bit ch 12" "\<not> bit ch 13" using small(3) by fastforce+
  let ?a = "ucast (0xC0 OR drop_bit 6 ch) :: byte" and ?b = "ucast (0x80 OR (0x3F AND ch)) :: byte"
  have a: "0xE0 AND ?a = 0xC0" "bit ?a 7"
    using no by (simp_all add: byte_bits upt_rec eval_nat_numeral bit_simps)
  have b: "0xC0 AND ?b = 0x80"
    by (simp_all add: byte_bits upt_rec eval_nat_numeral bit_simps)
  have "bit (0x80 AND ?a) 7" using a(2) by (simp add: bit_simps)
  then have nz: "0x80 AND ?a \<noteq> 0" by auto
  have "push_bit 6 (0x1F AND ucast ?a) OR (0x3F AND ucast ?b) = ch"
  proof -
    have "take_bit 11 ch = ch" by (rule bit_word_eqI) (use small(3) in \<open>auto simp: bit_simps\<close>)
    then show ?thesis using glue_bits [of 6 5 ch] by (simp add: and_1F and_3F take_ucast_byte)
  qed
  then show ?thesis using u small(1,2) a b nz
    by (simp add: utf8_add_def utf8_next_char_def utf8_continues_def)
qed

text \<open>A character of one or two bytes is read back, and the rest of the string with it.\<close>

theorem utf8_roundtrip:
  assumes "ch < 0x800"
  shows "get_expected (utf8_add [] ch) (\<lambda>s. utf8_next_char (s @ rest)) = Inr (ch, rest)"
  using assms by (rule utf8_add_next_char)

theorem utf8_roundtrip_witness:
  "get_expected (utf8_add [] 0x416) (\<lambda>s. utf8_next_char (s @ [0x41])) = Inr (0x416, [0x41])"
  by (rule utf8_roundtrip) simp

text \<open>From \<open>0x800\<close> to \<open>0xFFFF\<close> three bytes are written, but the first announces two.\<close>

lemma utf8_add_wrong_lead:
  assumes "0x800 \<le> ch" "ch < 0x10000"
  shows "case utf8_add [] ch of Inr [a, b, c] \<Rightarrow> utf8_char_size a = Inr 2 | _ \<Rightarrow> False"
proof -
  have u: "uint ch < 2 ^ 16" "\<not> uint ch < 0x80" "\<not> uint ch < 0x800" "uint ch < 0x10000"
    using assms by (simp_all add: word_less_def word_le_def)
  note small = small_wchar [OF u(1)]
  have no: "\<not> bit ch 16" "\<not> bit ch 17" using small(3) by fastforce+
  let ?a = "ucast (0xC0 OR drop_bit 12 ch) :: byte"
  have "0xE0 AND ?a = 0xC0" "bit (0x80 AND ?a) 7"
    using no by (simp_all add: byte_bits upt_rec eval_nat_numeral bit_simps)
  moreover from this(2) have "0x80 AND ?a \<noteq> 0" by auto
  ultimately show ?thesis using u(2-) small(1,2)
    by (simp add: utf8_add_def utf8_char_size_def)
qed

lemma uint_below: "take_bit k (w :: wchar) = w \<Longrightarrow> uint w < 2 ^ k"
  using take_bit_int_less_exp [of k "uint w"] by (metis unsigned_take_bit_eq)

text \<open>Every string of four well formed bytes is read as a character beyond the last code point, which
  \<open>utf8::add\<close> refuses.\<close>

lemma utf8_four_bytes_beyond:
  assumes "0xF8 AND a = 0xF0" "utf8_continues b" "utf8_continues c" "utf8_continues d"
  shows "get_expected (utf8_next_char (a # b # c # d # rest)) (\<lambda>(ch, _). utf8_add result ch)
    = Inl (Runtime_error ''Invalid UTF16 string'')"
proof -
  let ?ch = "push_bit 18 (0x1F AND ucast a) OR push_bit 12 (0x3F AND ucast b)
    OR push_bit 6 (0x3F AND ucast c) OR (0x3F AND ucast d) :: wchar"
  have bits: "bit (0xF8 AND a) n = bit (0xF0 :: byte) n" for n using assms(1) by simp
  have a: "0x80 AND a \<noteq> 0" "0xE0 AND a \<noteq> 0xC0" "0xF0 AND a \<noteq> 0xE0" "bit a 4"
    using bits [of 7] bits [of 6] bits [of 5] bits [of 4]
    by (auto simp: byte_bits upt_rec eval_nat_numeral bit_simps)
  have "bit ?ch 22" using a(4) by (simp add: bit_simps)
  then have "bit (uint ?ch) 22" by (simp only: bit_uint_iff) simp
  then have "uint ?ch div 2 ^ 22 \<noteq> 0" by (auto simp: bit_iff_odd)
  then have "2 ^ 22 \<le> uint ?ch" using div_pos_pos_trivial [OF uint_ge_0, of ?ch "2 ^ 22"] by linarith
  moreover have "take_bit 23 ?ch = ?ch"
    unfolding and_1F and_3F by (rule bit_word_eqI) (auto simp: bit_simps)
  then have "uint ?ch < 2 ^ 23" by (rule uint_below)
  ultimately show ?thesis using a small_wchar(1) [of ?ch 23] assms
    by (simp add: utf8_next_char_def utf8_add_def)
qed

end
