(* ===== verification/Datagram_protocol.thy ===== *)
theory Datagram_protocol
  imports VDS_Prelude
begin

text \<open>
  \<open>libs_server/vds_dht_network/impl/dht_datagram_protocol.cpp\<close>: messages of any size over datagrams of at
  most \<open>mtu\<close> bytes, numbered by a 32 bit index, signed with the key of the session, put in order by the
  receiver and sent again until acknowledged. The transport, the clocks, OpenSSL and the handler of
  messages are parameters. A handler runs as one step; an error leaves the changes made before it.
\<close>

section \<open>State\<close>

type_synonym u8 = byte

record traffic_info =
  ti_sent_count :: u64
  ti_sent :: u64
  ti_good_count :: u64
  ti_good_traffic :: u64
  ti_bad_count :: u64
  ti_bad_traffic :: u64

definition no_traffic :: traffic_info where
  "no_traffic = \<lparr>ti_sent_count = 0, ti_sent = 0, ti_good_count = 0, ti_good_traffic = 0, ti_bad_count = 0, ti_bad_traffic = 0\<rparr>"

text \<open>\<open>traffic_\<close>: from a node, to a node, of a type of message.\<close>

type_synonym traffic_map = "(const_data_buffer \<times> const_data_buffer \<times> byte) \<rightharpoonup> traffic_info"

record time_metric =
  tm_start_time :: int
  tm_finish_time :: int
  tm_mtu :: u16
  tm_output_queue_size :: nat
  tm_input_queue_size :: nat
  tm_idle :: nat
  tm_delay :: u64
  tm_service_traffic :: nat
  tm_traffic :: traffic_map

record output_message =
  om_queue_time :: int
  om_data :: "byte list"

text \<open>What \<open>process_message\<close> is called with.\<close>

record received_message =
  rm_message_type :: byte
  rm_target_node :: const_data_buffer
  rm_hops :: "const_data_buffer list"
  rm_message :: "byte list"

text \<open>The last two fields record the effects: the datagrams written to the transport and the messages
  handed to \<open>process_message\<close>, oldest first.\<close>

record datagram_protocol =
  failed_state :: bool
  check_mtu :: int
  last_sent :: int
  this_node_id :: const_data_buffer
  partner_node_id :: const_data_buffer
  session_key :: const_data_buffer
  mtu :: u16
  input_mtu :: u16
  last_output_index :: u32
  output_messages :: "(u32 \<times> output_message) list"
  last_input_index :: u32
  expected_index :: u32
  last_processed :: int
  input_messages :: "(u32 \<times> byte list) list"
  last_metric :: int
  metrics :: "time_metric list"
  traffic :: traffic_map
  idle_time :: nat
  idle_count :: nat
  delay :: u64
  service_traffic :: nat
  written :: "byte list list"
  processed :: "received_message list"

text \<open>\<open>hmac\<close> is OpenSSL's; \<open>write_result\<close> is what the transport answers to a datagram, \<open>message_good\<close> what
  the handler makes of a message, \<open>heap\<close> what fresh memory holds.\<close>

record protocol_env =
  hmac_signature :: "const_data_buffer \<Rightarrow> byte list \<Rightarrow> const_data_buffer expected"
  hmac_verify :: "const_data_buffer \<Rightarrow> byte list \<Rightarrow> byte list \<Rightarrow> bool"
  write_result :: "byte list \<Rightarrow> unit expected"
  message_good :: "received_message \<Rightarrow> bool"
  heap :: "nat \<Rightarrow> byte"

definition new_protocol :: "int \<Rightarrow> int \<Rightarrow> const_data_buffer \<Rightarrow> const_data_buffer \<Rightarrow> const_data_buffer \<Rightarrow> datagram_protocol" where
  "new_protocol now time this partner key = \<lparr>
     failed_state = False, check_mtu = 0, last_sent = 0, this_node_id = this, partner_node_id = partner, session_key = key,
     mtu = 508, input_mtu = 0, last_output_index = 0, output_messages = [], last_input_index = 0, expected_index = 0,
     last_processed = now, input_messages = [], last_metric = time, metrics = [], traffic = Map.empty,
     idle_time = 0, idle_count = 0, delay = 0, service_traffic = 0, written = [], processed = []\<rparr>"

definition set_mtu :: "u16 \<Rightarrow> datagram_protocol \<Rightarrow> datagram_protocol" where
  "set_mtu val st = st\<lparr>mtu := val\<rparr>"

definition process_pong :: "const_data_buffer \<Rightarrow> u64 \<Rightarrow> datagram_protocol \<Rightarrow> datagram_protocol" where
  "process_pong source_node timeout st = (if partner_node_id st = source_node then st\<lparr>delay := timeout\<rparr> else st)"

type_synonym 'a protocol_step = "('a, datagram_protocol) step"

definition write_async :: "protocol_env \<Rightarrow> byte list \<Rightarrow> unit protocol_step" where
  "write_async env d st = (write_result env d, st\<lparr>written := written st @ [d]\<rparr>)"

section \<open>Kinds of datagrams\<close>

abbreviation (input) continue_data :: byte where "continue_data \<equiv> 3"
abbreviation (input) mtu_test :: byte where "mtu_test \<equiv> 6"
abbreviation (input) acknowledgment :: byte where "acknowledgment \<equiv> 7"
abbreviation (input) special_command :: byte where "special_command \<equiv> 0xE0"
abbreviation (input) single_data :: byte where "single_data \<equiv> 0x20"
abbreviation (input) fragmented_data :: byte where "fragmented_data \<equiv> 0x40"
abbreviation (input) route_single_data :: byte where "route_single_data \<equiv> 0x60"
abbreviation (input) route_data :: byte where "route_data \<equiv> 0x80"
abbreviation (input) proxy_single_data :: byte where "proxy_single_data \<equiv> 0xA0"
abbreviation (input) proxy_data :: byte where "proxy_data \<equiv> 0xC0"

definition index_bytes :: "u32 \<Rightarrow> byte list" where
  "index_bytes v = [ucast (drop_bit 24 v), ucast (drop_bit 16 v), ucast (drop_bit 8 v), ucast (v AND 0xFF)]"

definition index_at :: "nat \<Rightarrow> byte list \<Rightarrow> u32" where
  "index_at i d = push_bit 24 (ucast (d ! i)) OR push_bit 16 (ucast (d ! (i + 1)))
     OR push_bit 8 (ucast (d ! (i + 2))) OR ucast (d ! (i + 3))"

definition emplace_output :: "u32 \<Rightarrow> output_message \<Rightarrow> (u32 \<times> output_message) list \<Rightarrow> (u32 \<times> output_message) list" where
  "emplace_output i m ms = (if map_of ms i = None then map_put i m ms else ms)"

section \<open>Sending\<close>

text \<open>The signature is added and the datagram queued under the next index.\<close>

definition queue_datagram :: "protocol_env \<Rightarrow> int \<Rightarrow> byte list \<Rightarrow> unit protocol_step" where
  "queue_datagram env now buffer st =
     (case hmac_signature env (session_key st) buffer of
        Inl e \<Rightarrow> (Inl e, st)
      | Inr sig \<Rightarrow>
          let datagram = buffer @ buffer_data sig
          in if length datagram \<le> unat (mtu st) then
               (Inr (), st\<lparr>output_messages := emplace_output (last_output_index st)
                    \<lparr>om_queue_time = now, om_data = datagram\<rparr> (output_messages st),
                  last_output_index := last_output_index st + 1\<rparr>)
             else (Inl (Assertion_failed ''datagram.size() <= this->mtu_''), st))"

definition hops_bytes :: "const_data_buffer list \<Rightarrow> byte list" where
  "hops_bytes hops = concat (map buffer_data hops)"

definition single_datagram :: "datagram_protocol \<Rightarrow> byte \<Rightarrow> const_data_buffer \<Rightarrow> const_data_buffer list \<Rightarrow> byte list \<Rightarrow> byte list" where
  "single_datagram st message_type target_node hops message =
     (if hops = [] then
        if partner_node_id st = target_node then [single_data OR message_type] @ index_bytes (last_output_index st)
        else [route_single_data OR message_type] @ index_bytes (last_output_index st) @ buffer_data target_node
      else [proxy_single_data OR message_type] @ index_bytes (last_output_index st) @ buffer_data target_node
        @ [word_of_nat (length hops)] @ hops_bytes hops)
     @ message"

text \<open>The size of the first part of a message in fragments: \<open>mtu\<close> less the header and the signature.\<close>

definition first_overhead :: "datagram_protocol \<Rightarrow> const_data_buffer \<Rightarrow> const_data_buffer list \<Rightarrow> nat" where
  "first_overhead st target_node hops =
     (if hops = [] then if partner_node_id st = target_node then 1 + 4 + 4 + 32 else 1 + 4 + 4 + 32 + 32
      else 1 + 4 + 4 + 32 + 1 + length hops * 32 + 32)"

definition first_header :: "datagram_protocol \<Rightarrow> byte \<Rightarrow> const_data_buffer \<Rightarrow> const_data_buffer list \<Rightarrow> nat \<Rightarrow> byte list expected" where
  "first_header st message_type target_node hops message_size =
     (let numbers = index_bytes (last_output_index st) @ index_bytes (word_of_nat message_size)
      in if hops = [] then
           if partner_node_id st = target_node then Inr ([fragmented_data OR message_type] @ numbers)
           else vds_assert (buffer_size target_node = 32) ''target_node.size() == 32''
             (Inr ([route_data OR message_type] @ numbers @ buffer_data target_node))
         else vds_assert (buffer_size target_node = 32) ''target_node.size() == 32''
           (vds_assert (\<forall>hop \<in> set hops. buffer_size hop = 32) ''hop.size() == 32''
             (Inr ([proxy_data OR message_type] @ numbers @ buffer_data target_node
                @ [word_of_nat (length hops)] @ hops_bytes hops))))"

text \<open>The loop over the rest of the message. With an \<open>mtu\<close> below 37 the difference is negative and
  compares, as an unsigned number, above every size; with 37 the loop never advances.\<close>

function queue_rest :: "protocol_env \<Rightarrow> int \<Rightarrow> byte list \<Rightarrow> nat \<Rightarrow> unit protocol_step" where
  "queue_rest env now message offset st =
     (let rest = length message - offset;
          size = (if unat (mtu st) < 1 + 4 + 32 then rest else min (unat (mtu st) - (1 + 4 + 32)) rest)
      in case queue_datagram env now
             ([continue_data] @ index_bytes (last_output_index st) @ take size (drop offset message)) st of
           (Inl e, st) \<Rightarrow> (Inl e, st)
         | (Inr _, st) \<Rightarrow>
             if length message \<le> offset + size then (Inr (), st)
             else if size = 0 then (Inl Not_terminating, st)
             else queue_rest env now message (offset + size) st)"
  by pat_completeness auto
termination
  by (relation "measure (\<lambda>(env, now, message, offset, st). length message - offset)") (auto simp: not_le)

declare queue_rest.simps [simp del]

definition prepare_to_send :: "protocol_env \<Rightarrow> int \<Rightarrow> byte \<Rightarrow> const_data_buffer \<Rightarrow> const_data_buffer list \<Rightarrow> byte list \<Rightarrow>
    (u32 \<times> u32) protocol_step" where
  "prepare_to_send env now message_type target_node hops message st =
     (let start_index = last_output_index st;
          total_size = 1 + 4 + 32 + length message
            + (if hops = [] then if partner_node_id st \<noteq> target_node then 32 else 0 else 32 + 1 + length hops * 32);
          finish = (\<lambda>_ st.
            if start_index < last_output_index st then (Inr (start_index, last_output_index st), st)
            else (Inl (Assertion_failed ''start_index < this->last_output_index_''), st))
      in if total_size < unat (mtu st) then
           bind_step (queue_datagram env now (single_datagram st message_type target_node hops message)) finish st
         else
           case first_header st message_type target_node hops (length message) of
             Inl e \<Rightarrow> (Inl e, st)
           | Inr header \<Rightarrow>
               let offset = unat (mtu st) - first_overhead st target_node hops
               in if unat (mtu st) < first_overhead st target_node hops then (Inl (Undefined_behaviour ''message.data()''), st)
                  else
                    bind_step (queue_datagram env now (header @ take offset message)) (\<lambda>_.
                    bind_step (queue_rest env now message offset) finish) st)"

lemma next_index:
  fixes i final :: u32
  assumes "i < final"
  shows "unat (i + 1) = Suc (unat i)" "unat final - Suc (unat i) < unat final - unat i"
proof -
  from assms have less: "unat i < unat final" by (simp add: word_less_nat_alt)
  moreover have "unat final < 2 ^ LENGTH(32)" by (rule unsigned_less)
  ultimately have "Suc (unat i) < 2 ^ LENGTH(32)" by simp
  then show "unat (i + 1) = Suc (unat i)" by (simp add: unat_word_ariths)
  show "unat final - Suc (unat i) < unat final - unat i" using less by simp
qed

text \<open>The loop over the new indices, which writes what is still queued.\<close>

function write_range :: "protocol_env \<Rightarrow> u32 \<Rightarrow> u32 \<Rightarrow> unit protocol_step" where
  "write_range env i final st =
     (if i < final then
        case map_of (output_messages st) i of
          None \<Rightarrow> write_range env (i + 1) final st
        | Some m \<Rightarrow> bind_step (write_async env (om_data m)) (\<lambda>_. write_range env (i + 1) final) st
      else (Inr (), st))"
  by pat_completeness auto
termination
  by (relation "measure (\<lambda>(env, i, final, st). unat final - unat i)") (auto simp: next_index)

declare write_range.simps [simp del]

definition send_message_async :: "protocol_env \<Rightarrow> int \<Rightarrow> byte \<Rightarrow> const_data_buffer \<Rightarrow> const_data_buffer list \<Rightarrow> byte list \<Rightarrow>
    unit protocol_step" where
  "send_message_async env now message_type target_node hops message =
     bind_step (prepare_to_send env now message_type target_node hops message) (\<lambda>(start, final).
       write_range env start final)"

definition count_sent :: "const_data_buffer \<Rightarrow> const_data_buffer \<Rightarrow> byte \<Rightarrow> nat \<Rightarrow> datagram_protocol \<Rightarrow> datagram_protocol" where
  "count_sent source target message_type len st =
     (let t = (case traffic st (source, target, message_type) of None \<Rightarrow> no_traffic | Some t \<Rightarrow> t)
      in st\<lparr>traffic := (traffic st)((source, target, message_type) \<mapsto>
           t\<lparr>ti_sent_count := ti_sent_count t + 1, ti_sent := ti_sent t + word_of_nat len\<rparr>)\<rparr>)"

definition send_message :: "protocol_env \<Rightarrow> int \<Rightarrow> byte \<Rightarrow> const_data_buffer \<Rightarrow> byte list expected \<Rightarrow> unit protocol_step" where
  "send_message env now message_type target_node message st =
     (case message of
        Inl e \<Rightarrow> (Inl e, st)
      | Inr message \<Rightarrow>
          assert_step (int (length message) \<le> 0xFFFFFFFF) ''message.size()''
            (assert_step (target_node \<noteq> this_node_id st) ''target_node''
              (assert_step (message_type AND special_command = 0) ''message_type''
                (\<lambda>st. send_message_async env now message_type target_node [] message
                   (count_sent (this_node_id st) target_node message_type (length message) st)))) st)"

definition proxy_message :: "protocol_env \<Rightarrow> int \<Rightarrow> byte \<Rightarrow> const_data_buffer \<Rightarrow> const_data_buffer list \<Rightarrow> byte list \<Rightarrow> unit protocol_step" where
  "proxy_message env now message_type target_node hops message st =
     assert_step (int (length message) \<le> 0xFFFFFFFF) ''message.size()''
       (assert_step (target_node \<noteq> this_node_id st) ''target_node''
         (if hops = [] then fail_step (Undefined_behaviour ''hops[0]'')
          else
            assert_step (hd hops \<noteq> partner_node_id st) ''hops[0]''
              (assert_step (length hops < 0xFF) ''hops.size()''
                (assert_step (1 + 4 + 4 + 32 + 1 + length hops * 32 + 32 < unat (mtu st)) ''this->mtu_''
                  (assert_step (message_type AND special_command = 0) ''message_type''
                    (\<lambda>st. send_message_async env now message_type target_node hops message
                       (count_sent (hd hops) target_node message_type (length message) st))))))) st"

section \<open>Receiving\<close>

abbreviation invalid_datagram :: error where
  "invalid_datagram \<equiv> Runtime_error ''Invalid data''"

text \<open>\<open>const_data_buffer(p + offset, len)\<close>, and the bytes from \<open>offset\<close> to the signature.\<close>

definition slice_at :: "nat \<Rightarrow> nat \<Rightarrow> byte list \<Rightarrow> byte list expected" where
  "slice_at offset len d =
     (if offset + len \<le> length d then Inr (take len (drop offset d)) else Inl (Undefined_behaviour ''datagram''))"

definition payload_at :: "nat \<Rightarrow> byte list \<Rightarrow> byte list expected" where
  "payload_at offset d =
     (if offset + 32 \<le> length d then slice_at offset (length d - offset - 32) d else Inl (Undefined_behaviour ''datagram''))"

fun hops_at :: "nat \<Rightarrow> nat \<Rightarrow> byte list \<Rightarrow> const_data_buffer list expected" where
  "hops_at 0 offset d = Inr []"
| "hops_at (Suc n) offset d =
     get_expected (slice_at offset 32 d) (\<lambda>hop.
     get_expected (hops_at n (offset + 32) d) (\<lambda>hops. Inr (Data_buffer hop # hops)))"

definition hops_count_at :: "nat \<Rightarrow> byte list \<Rightarrow> nat expected" where
  "hops_count_at offset d = get_expected (slice_at offset 1 d) (\<lambda>b. Inr (unat (hd b)))"

abbreviation is_single :: "byte list \<Rightarrow> bool" where
  "is_single d \<equiv> special_command AND d ! 0 \<in> {single_data, route_single_data, proxy_single_data}"

abbreviation is_first :: "byte list \<Rightarrow> bool" where
  "is_first d \<equiv> special_command AND d ! 0 \<in> {fragmented_data, route_data, proxy_data}"

definition parse_single :: "const_data_buffer \<Rightarrow> const_data_buffer \<Rightarrow> byte list \<Rightarrow> received_message expected" where
  "parse_single this partner d =
     (let kind = special_command AND d ! 0;
          received = (\<lambda>target hops message. \<lparr>rm_message_type = d ! 0 AND NOT special_command, rm_target_node = target,
            rm_hops = partner # hops, rm_message = message\<rparr>)
      in if kind = single_data then
           get_expected (payload_at (1 + 4) d) (\<lambda>message. Inr (received (this) [] message))
         else if kind = route_single_data then
           get_expected (slice_at (1 + 4) 32 d) (\<lambda>target.
           get_expected (payload_at (1 + 4 + 32) d) (\<lambda>message. Inr (received (Data_buffer target) [] message)))
         else
           get_expected (slice_at (1 + 4) 32 d) (\<lambda>target.
           get_expected (hops_count_at (1 + 4 + 32) d) (\<lambda>hops_count.
           get_expected (hops_at hops_count (1 + 4 + 32 + 1) d) (\<lambda>hops.
           get_expected (payload_at (1 + 4 + 32 + 1 + hops_count * 32) d) (\<lambda>message.
             Inr (received (Data_buffer target) hops message))))))"

text \<open>The first datagram of a message: what is known of the message and the size still missing. The
  subtractions are those of \<open>size_t\<close>.\<close>

definition parse_first :: "const_data_buffer \<Rightarrow> const_data_buffer \<Rightarrow> byte list \<Rightarrow> (received_message \<times> u64) expected" where
  "parse_first this partner d =
     (let kind = special_command AND d ! 0;
          received = (\<lambda>target hops message. \<lparr>rm_message_type = d ! 0 AND NOT special_command, rm_target_node = target,
            rm_hops = partner # hops, rm_message = message\<rparr>);
          len = (word_of_nat (length d) :: u64)
      in if length d < 1 + 4 + 4 then Inl (Undefined_behaviour ''datagram'')
         else
           let size = (ucast (index_at (1 + 4) d) :: u64)
           in if kind = fragmented_data then
                if size \<le> len - (1 + 4 + 4 + 32) then Inl invalid_datagram
                else
                  vds_assert (1 + 4 + 4 + 32 < length d) ''p->second.size()''
                    (get_expected (payload_at (1 + 4 + 4) d) (\<lambda>message.
                       Inr (received (this) [] message, size - (len - (1 + 4 + 4 + 32)))))
              else if kind = route_data then
                if size \<le> len - (1 + 4 + 4 + 32 + 32) then Inl invalid_datagram
                else
                  vds_assert (1 + 4 + 4 + 32 + 32 < length d) ''p->second.size()''
                    (get_expected (slice_at (1 + 4 + 4) 32 d) (\<lambda>target.
                     get_expected (payload_at (1 + 4 + 4 + 32) d) (\<lambda>message.
                       Inr (received (Data_buffer target) [] message, size - (len - (1 + 4 + 4 + 32 + 32))))))
              else
                if size \<le> len - (1 + 4 + 4 + 32 + 32 + 1 + 32) then Inl invalid_datagram
                else
                  vds_assert (1 + 4 + 4 + 32 + 1 + 32 < length d) ''p->second.size()''
                    (get_expected (slice_at (1 + 4 + 4) 32 d) (\<lambda>target.
                     get_expected (hops_count_at (1 + 4 + 4 + 32) d) (\<lambda>hops_count.
                     get_expected (hops_at hops_count (1 + 4 + 4 + 32 + 1) d) (\<lambda>hops.
                       vds_assert (1 + 4 + 4 + 32 + 1 + 32 * hops_count + 32 < length d) ''p->second.size()''
                         (get_expected (payload_at (1 + 4 + 4 + 32 + 1 + hops_count * 32) d) (\<lambda>message.
                            Inr (received (Data_buffer target) hops message,
                              size - (len - word_of_nat (1 + 4 + 4 + 32 + 1 + 32 * hops_count + 32))))))))))"

lemma less_after_part: "k < len \<Longrightarrow> \<not> s < len - k \<Longrightarrow> unat (s - (len - k)) < unat s" for s len k :: u64
proof -
  assume "k < len" and le: "\<not> s < len - k"
  then have "len - k \<noteq> 0" by auto
  then have "0 < unat (len - k)" by (simp add: unat_gt_0)
  moreover have "unat (len - k) \<le> unat s" using le by (simp add: word_le_nat_alt not_less)
  moreover have "unat (s - (len - k)) = unat s - unat (len - k)" using le by (simp add: unat_sub not_less)
  ultimately show ?thesis by simp
qed

text \<open>The loop over the datagrams that continue a message: \<open>None\<close> while one is missing, else the bytes of
  the message and the number of datagrams after the first. Every round takes something off the size
  still missing.\<close>

function collect_rest :: "(u32 \<times> byte list) list \<Rightarrow> u32 \<Rightarrow> u32 \<Rightarrow> u64 \<Rightarrow> byte list \<Rightarrow> (byte list \<times> u32) option expected" where
  "collect_rest ms expected index size_left message =
     (case map_of ms (expected + (index + 1)) of
        None \<Rightarrow> Inr None
      | Some d \<Rightarrow>
          let len = word_of_nat (length d)
          in if d ! 0 \<noteq> continue_data then Inl invalid_datagram
             else if size_left < len - (1 + 4 + 32) then Inl invalid_datagram
             else
               get_expected (payload_at (1 + 4) d) (\<lambda>part.
                 vds_assert (1 + 4 + 32 < len) ''p1->second.size()''
                   (if size_left - (len - (1 + 4 + 32)) = 0 then Inr (Some (message @ part, index + 1))
                    else collect_rest ms expected (index + 1) (size_left - (len - (1 + 4 + 32))) (message @ part))))"
  by pat_completeness auto
termination
  by (relation "measure (\<lambda>(ms, expected, index, size_left, message). unat size_left)") (auto simp: less_after_part)

declare collect_rest.simps [simp del]

text \<open>\<open>while\<close> the datagram is there, \<open>last_input_index_++\<close>.\<close>

fun skip_received :: "nat \<Rightarrow> datagram_protocol \<Rightarrow> datagram_protocol" where
  "skip_received 0 st = st"
| "skip_received (Suc fuel) st =
     (if map_of (input_messages st) (last_input_index st) = None then st
      else skip_received fuel (st\<lparr>last_input_index := last_input_index st + 1\<rparr>))"

definition count_received :: "bool \<Rightarrow> received_message \<Rightarrow> datagram_protocol \<Rightarrow> datagram_protocol" where
  "count_received good m st =
     (let k = (last (rm_hops m), rm_target_node m, rm_message_type m);
          t = (case traffic st k of None \<Rightarrow> no_traffic | Some t \<Rightarrow> t);
          len = word_of_nat (length (rm_message m))
      in st\<lparr>traffic := (traffic st)(k \<mapsto>
           (if good then t\<lparr>ti_good_count := ti_good_count t + 1, ti_good_traffic := ti_good_traffic t + len\<rparr>
            else t\<lparr>ti_bad_count := ti_bad_count t + 1, ti_bad_traffic := ti_bad_traffic t + len\<rparr>))\<rparr>)"

definition deliver :: "protocol_env \<Rightarrow> int \<Rightarrow> u32 \<Rightarrow> received_message \<Rightarrow> datagram_protocol \<Rightarrow> datagram_protocol" where
  "deliver env now count m st =
     count_received (message_good env m) m
       (st\<lparr>expected_index := expected_index st + count, last_processed := now, processed := processed st @ [m]\<rparr>)"

text \<open>A round of the loop: \<open>None\<close> goes on with the next round.\<close>

definition process_round :: "protocol_env \<Rightarrow> int \<Rightarrow> datagram_protocol \<Rightarrow> unit expected option \<times> datagram_protocol" where
  "process_round env now st =
     (let st = skip_received (length (input_messages st)) st
      in case input_messages st of
           [] \<Rightarrow> (Some (Inr ()), st)
         | (index, d) # rest \<Rightarrow>
             if expected_index st < index then (Some (Inr ()), st)
             else if index < expected_index st then (None, st\<lparr>input_messages := rest\<rparr>)
             else if is_single d then
               (case parse_single (this_node_id st) (partner_node_id st) d of
                  Inl e \<Rightarrow> (Some (Inl e), st)
                | Inr m \<Rightarrow> (None, deliver env now 1 m st))
             else if is_first d then
               (case parse_first (this_node_id st) (partner_node_id st) d of
                  Inl e \<Rightarrow> (Some (Inl e), st)
                | Inr (m, size_left) \<Rightarrow>
                    (case collect_rest (input_messages st) (expected_index st) 0 size_left (rm_message m) of
                       Inl e \<Rightarrow> (Some (Inl e), st)
                     | Inr None \<Rightarrow> (Some (Inr ()), st)
                     | Inr (Some (message, index)) \<Rightarrow> (None, deliver env now (index + 1) (m\<lparr>rm_message := message\<rparr>) st)))
             else (Some (Inl (Assertion_failed ''false'')), st))"

text \<open>A round takes a datagram out or delivers a message, whose first datagram is taken out in the next
  round: twice the number of stored datagrams is enough fuel.\<close>

fun continue_process :: "nat \<Rightarrow> protocol_env \<Rightarrow> int \<Rightarrow> unit protocol_step" where
  "continue_process 0 env now st = (Inl Not_terminating, st)"
| "continue_process (Suc fuel) env now st =
     (case process_round env now st of
        (Some r, st) \<Rightarrow> (r, st)
      | (None, st) \<Rightarrow> continue_process fuel env now st)"

definition continue_process_messages :: "protocol_env \<Rightarrow> int \<Rightarrow> unit protocol_step" where
  "continue_process_messages env now st = continue_process (2 * length (input_messages st) + 1) env now st"

section \<open>Acknowledgments\<close>

fun missing_mask :: "nat \<Rightarrow> datagram_protocol \<Rightarrow> u32 \<Rightarrow> u32" where
  "missing_mask 0 st bits = bits"
| "missing_mask (Suc i) st bits =
     missing_mask i st (push_bit 1 bits
       OR (if map_of (input_messages st) (last_input_index st + word_of_nat (Suc i)) = None then 1 else 0))"

definition acknowledgment_datagram :: "datagram_protocol \<Rightarrow> byte list" where
  "acknowledgment_datagram st =
     [acknowledgment] @ index_bytes (last_input_index st) @ index_bytes (missing_mask 32 st 0)
       @ [ucast (drop_bit 8 (input_mtu st)), ucast (input_mtu st AND 0xFF)]"

definition send_acknowledgment :: "protocol_env \<Rightarrow> unit protocol_step" where
  "send_acknowledgment env st = write_async env (acknowledgment_datagram st) st"

text \<open>The queue up to \<open>last_index\<close> has arrived.\<close>

fun drop_acknowledged :: "int \<Rightarrow> u32 \<Rightarrow> (u32 \<times> output_message) list \<Rightarrow> datagram_protocol \<Rightarrow> datagram_protocol" where
  "drop_acknowledged now last_index ((i, m) # ms) st =
     (if i < last_index then
        drop_acknowledged now last_index ms
          (st\<lparr>idle_time := idle_time st + nat (now - om_queue_time m), idle_count := idle_count st + 1,
             output_messages := ms, last_sent := 0\<rparr>)
      else st)"
| "drop_acknowledged now last_index [] st = st"

definition resend :: "protocol_env \<Rightarrow> byte list \<Rightarrow> unit protocol_step" where
  "resend env d = bind_step (write_async env d) (\<lambda>_.
     modify_step (\<lambda>st. st\<lparr>service_traffic := service_traffic st + length d\<rparr>))"

fun resend_mask :: "nat \<Rightarrow> protocol_env \<Rightarrow> u32 \<Rightarrow> u32 \<Rightarrow> unit protocol_step" where
  "resend_mask 0 env i bits st = (Inr (), st)"
| "resend_mask (Suc n) env i bits st =
     (if bits = 0 then (Inr (), st)
      else
        bind_step
          (case map_of (output_messages st) i of
             Some m \<Rightarrow> if bits AND 1 = 1 then resend env (om_data m) else return_step ()
           | None \<Rightarrow> return_step ())
          (\<lambda>_. resend_mask n env (i + 1) (drop_bit 1 bits)) st)"

definition process_acknowledgment :: "protocol_env \<Rightarrow> int \<Rightarrow> byte list \<Rightarrow> unit protocol_step" where
  "process_acknowledgment env now datagram st =
     (if length datagram < 11 then (Inl (Undefined_behaviour ''datagram''), st)
      else
        let last_index = index_at 1 datagram; bits = index_at 5 datagram;
            partner_mtu = push_bit 8 (ucast (datagram ! 9)) OR ucast (datagram ! 10);
            st = drop_acknowledged now last_index (output_messages st) st
        in bind_step
             (case map_of (output_messages st) last_index of
                None \<Rightarrow> return_step ()
              | Some m \<Rightarrow> (\<lambda>st. bind_step (write_async env (om_data m)) return_step
                    (st\<lparr>service_traffic := service_traffic st + length (om_data m)\<rparr>)))
             (\<lambda>_. bind_step (resend_mask 32 env (last_index + 1) bits) (\<lambda>_.
                modify_step (\<lambda>st. if mtu st < partner_mtu then st\<lparr>mtu := partner_mtu\<rparr> else st))) st)"

section \<open>Datagrams and the timer\<close>

definition process_datagram :: "protocol_env \<Rightarrow> int \<Rightarrow> byte list \<Rightarrow> unit protocol_step" where
  "process_datagram env now datagram st =
     (if failed_state st then (Inl (Runtime_error ''failed state''), st)
      else if 600 < last_sent st then (Inl (Runtime_error ''Send timeout''), st)
      else if unat (input_mtu st) < length datagram \<and> 0xFFFF < int (length datagram) then (Inl (Assertion_failed ''safe_cast''), st)
      else
        let st = (if unat (input_mtu st) < length datagram then st\<lparr>input_mtu := word_of_nat (length datagram)\<rparr> else st)
        in if datagram = [] then (Inl (Undefined_behaviour ''*datagram.data()''), st)
           else if datagram ! 0 = mtu_test then (Inr (), st)
           else if datagram ! 0 = acknowledgment then process_acknowledgment env now datagram st
           else if length datagram < 33 then (Inl invalid_datagram, st)
           else if \<not> hmac_verify env (session_key st) (take (length datagram - 32) datagram)
               (drop (length datagram - 32) datagram) then (Inl (Runtime_error ''Invalid signature''), st)
           else if \<not> is_single datagram \<and> \<not> is_first datagram \<and> datagram ! 0 \<noteq> continue_data then (Inl invalid_datagram, st)
           else if last_processed st < now - 10 * 60 * 1000 then (Inl (Runtime_error ''Process timeout''), st)
           else if map_of (input_messages st) (index_at 1 datagram) \<noteq> None then (Inr (), st)
           else continue_process_messages env now
             (st\<lparr>input_messages := map_put (index_at 1 datagram) datagram (input_messages st)\<rparr>))"

text \<open>Of the datagram that probes a larger \<open>mtu\<close> only the first byte is written.\<close>

definition mtu_probe :: "protocol_env \<Rightarrow> unit protocol_step" where
  "mtu_probe env st =
     (if check_mtu st < 10 \<and> mtu st < 0xFFFF - 256 then
        (Inr (), snd (write_async env (mtu_test # map (heap env) [1..<unat (mtu st) + 256]) st))
      else (Inr (), st))"

definition push_metric :: "int \<Rightarrow> datagram_protocol \<Rightarrow> datagram_protocol" where
  "push_metric time st =
     (if 10 < time - last_metric st then
        st\<lparr>metrics := drop (length (metrics st) - (10 * 6 - 1)) (metrics st)
             @ [\<lparr>tm_start_time = last_metric st, tm_finish_time = time, tm_mtu = mtu st,
                 tm_output_queue_size = length (output_messages st), tm_input_queue_size = length (input_messages st),
                 tm_idle = (if 0 < idle_count st then idle_time st div idle_count st else idle_time st),
                 tm_delay = delay st, tm_service_traffic = service_traffic st, tm_traffic = traffic st\<rparr>],
           traffic := Map.empty, service_traffic := 0, last_metric := time, idle_time := 0, idle_count := 0\<rparr>
      else st)"

definition on_timer :: "protocol_env \<Rightarrow> int \<Rightarrow> unit protocol_step" where
  "on_timer env time st =
     bind_step (mtu_probe env) (\<lambda>_. bind_step (send_acknowledgment env) (\<lambda>_. modify_step (push_metric time)))
       (st\<lparr>check_mtu := check_mtu st + 1, last_sent := last_sent st + 1\<rparr>)"

end
