(* ===== verification/Datagram_receiver.thy ===== *)
theory Datagram_receiver
  imports Datagram_protocol
begin

text \<open>
  The receiving side: whatever arrives of a stream of well framed datagrams, in whatever order and however
  often, the messages handed over are a prefix of those sent, and all of them once everything has
  arrived.
\<close>

section \<open>Well framed datagrams\<close>

definition part_length :: "byte list \<Rightarrow> nat" where
  "part_length d = length d - 37"

definition part_of :: "byte list \<Rightarrow> byte list" where
  "part_of d = take (length d - 37) (drop 5 d)"

text \<open>The datagrams of one message, as the node \<open>this\<close> reads them from the node \<open>partner\<close>.\<close>

definition framed :: "const_data_buffer \<Rightarrow> const_data_buffer \<Rightarrow> byte list list \<Rightarrow> received_message \<Rightarrow> bool" where
  "framed this partner ds m \<longleftrightarrow> (case ds of
       [] \<Rightarrow> False
     | d # cs \<Rightarrow>
         if cs = [] then is_single d \<and> parse_single this partner d = Inr m
         else \<not> is_single d \<and> is_first d \<and> (\<forall>c \<in> set cs. c ! 0 = continue_data \<and> 37 < length c)
           \<and> sum_list (map part_length cs) < 2 ^ 32
           \<and> (\<exists>m0. parse_first this partner d = Inr (m0, word_of_nat (sum_list (map part_length cs)))
                \<and> m = m0\<lparr>rm_message := rm_message m0 @ concat (map part_of cs)\<rparr>))"

text \<open>A datagram of the stream passes the checks of \<open>process_datagram\<close> and carries its number.\<close>

definition numbered :: "protocol_env \<Rightarrow> const_data_buffer \<Rightarrow> nat \<Rightarrow> byte list \<Rightarrow> bool" where
  "numbered env key i d \<longleftrightarrow> 33 \<le> length d \<and> length d \<le> 0xFFFF \<and> index_at 1 d = word_of_nat i
     \<and> (is_single d \<or> is_first d \<or> d ! 0 = continue_data)
     \<and> hmac_verify env key (take (length d - 32) d) (drop (length d - 32) d)"

type_synonym stream = "(byte list list \<times> received_message) list"

definition datagrams :: "stream \<Rightarrow> byte list list" where
  "datagrams gs = concat (map fst gs)"

definition stream_ok :: "protocol_env \<Rightarrow> const_data_buffer \<Rightarrow> const_data_buffer \<Rightarrow> const_data_buffer \<Rightarrow> stream \<Rightarrow> bool" where
  "stream_ok env key this partner gs \<longleftrightarrow> length (datagrams gs) < 2 ^ 32
     \<and> (\<forall>(ds, m) \<in> set gs. framed this partner ds m)
     \<and> (\<forall>i < length (datagrams gs). numbered env key i (datagrams gs ! i))"

definition position :: "stream \<Rightarrow> nat \<Rightarrow> nat" where
  "position gs k = length (datagrams (take k gs))"

lemma position_0 [simp]: "position gs 0 = 0"
  by (simp add: position_def datagrams_def)

lemma position_Suc: "k < length gs \<Longrightarrow> position gs (Suc k) = position gs k + length (fst (gs ! k))"
  by (simp add: position_def datagrams_def take_Suc_conv_app_nth)

lemma position_all: "length gs \<le> k \<Longrightarrow> position gs k = length (datagrams gs)"
  by (simp add: position_def)

lemma position_le: "position gs k \<le> length (datagrams gs)"
proof -
  have "datagrams gs = datagrams (take k gs) @ datagrams (drop k gs)"
    unfolding datagrams_def by (metis append_take_drop_id concat_append map_append)
  then show ?thesis by (simp add: position_def)
qed

lemma datagram_of_message:
  assumes "k < length gs" "i < length (fst (gs ! k))"
  shows "datagrams gs ! (position gs k + i) = fst (gs ! k) ! i"
proof -
  have "datagrams gs = datagrams (take k gs) @ fst (gs ! k) @ datagrams (drop (Suc k) gs)"
    unfolding datagrams_def using assms(1) by (metis concat.simps(2) concat_append id_take_nth_drop list.simps(9) map_append)
  then show ?thesis using assms(2) by (simp add: position_def nth_append)
qed

lemma unat_index: "a < 2 ^ 32 \<Longrightarrow> unat (word_of_nat a :: u32) = a"
  by (simp add: unat_of_nat take_bit_nat_eq_self)

lemma index_less: "a < 2 ^ 32 \<Longrightarrow> b < 2 ^ 32 \<Longrightarrow> (word_of_nat a < (word_of_nat b :: u32)) = (a < b)"
  by (simp add: word_less_nat_alt unat_index)

section \<open>The loop over the rest of a message\<close>

lemma payload_part: "37 < length d \<Longrightarrow> payload_at 5 d = Inr (part_of d)"
  by (simp add: payload_at_def slice_at_def part_of_def)

lemma size_after_part:
  assumes "37 < length d" "part_length d + r < 2 ^ 32"
  shows "\<not> (word_of_nat (part_length d + r) :: u64) < word_of_nat (length d) - 37"
    "(37 :: u64) < word_of_nat (length d)"
    "(word_of_nat (part_length d + r) :: u64) - (word_of_nat (length d) - 37) = word_of_nat r"
proof -
  have small: "length d < 2 ^ 33" using assms(2) by (simp add: part_length_def)
  have len: "word_of_nat (length d) - 37 = (word_of_nat (part_length d) :: u64)"
    using assms(1) by (simp add: part_length_def of_nat_diff)
  have n: "unat (word_of_nat a :: u64) = a" if "a < 2 ^ 33" for a
    using that by (simp add: unat_of_nat take_bit_nat_eq_self)
  show "\<not> (word_of_nat (part_length d + r) :: u64) < word_of_nat (length d) - 37"
    unfolding len using assms n [of "part_length d + r"] n [of "part_length d"] by (simp add: word_less_nat_alt del: of_nat_add)
  show "(37 :: u64) < word_of_nat (length d)"
    using assms(1) n [OF small] by (simp add: word_less_nat_alt)
  show "(word_of_nat (part_length d + r) :: u64) - (word_of_nat (length d) - 37) = word_of_nat r"
    unfolding len by simp
qed

lemma size_left_0: "r < 2 ^ 32 \<Longrightarrow> (word_of_nat r :: u64) = 0 \<longleftrightarrow> r = 0"
proof -
  assume "r < 2 ^ 32"
  then have "unat (word_of_nat r :: u64) = r" by (simp add: unat_of_nat take_bit_nat_eq_self)
  then show ?thesis using unat_eq_zero [of "word_of_nat r :: u64"] by presburger
qed

lemma collect_rest_framed:
  assumes "cs \<noteq> []" "\<forall>c \<in> set cs. c ! 0 = continue_data \<and> 37 < length c" "sum_list (map part_length cs) < 2 ^ 32"
    and "\<forall>j < length cs. map_of ms (expected + word_of_nat (Suc (t + j))) \<in> {None, Some (cs ! j)}"
  shows "collect_rest ms expected (word_of_nat t) (word_of_nat (sum_list (map part_length cs))) message
    = Inr (if \<forall>j < length cs. map_of ms (expected + word_of_nat (Suc (t + j))) \<noteq> None
           then Some (message @ concat (map part_of cs), word_of_nat (t + length cs)) else None)"
  using assms
proof (induction cs arbitrary: t message)
  case (Cons c cs)
  have first: "map_of ms (expected + (word_of_nat t + 1)) \<in> {None, Some c}"
    using Cons.prems(4) by (auto simp: add.commute dest: spec [of _ 0])
  have all_Suc: "(\<forall>j < length (c # cs). Q j) \<longleftrightarrow> Q 0 \<and> (\<forall>j < length cs. Q (Suc j))" for Q
    by (simp add: All_less_Suc2)
  show ?case
  proof (cases "map_of ms (expected + (word_of_nat t + 1))")
    case None
    then show ?thesis by (subst collect_rest.simps) (auto simp: add.commute intro!: exI [of _ 0])
  next
    case (Some d)
    with first have d: "map_of ms (expected + (word_of_nat t + 1)) = Some c" by simp
    have c: "c ! 0 = continue_data" "37 < length c" using Cons.prems(2) by auto
    have sum: "part_length c + sum_list (map part_length cs) < 2 ^ 32" using Cons.prems(3) by simp
    note size = size_after_part [OF c(2) sum]
    have pos: "0 < sum_list (map part_length cs)" if "cs \<noteq> []"
      using that Cons.prems(2) by (cases cs) (auto simp: part_length_def)
    have step: "collect_rest ms expected (word_of_nat t) (word_of_nat (sum_list (map part_length (c # cs)))) message
      = (if sum_list (map part_length cs) = 0 then Inr (Some (message @ part_of c, word_of_nat t + 1))
         else collect_rest ms expected (word_of_nat t + 1) (word_of_nat (sum_list (map part_length cs))) (message @ part_of c))"
      using d c size payload_part [OF c(2)] size_left_0 [of "sum_list (map part_length cs)"] sum
      by (subst collect_rest.simps) (simp add: Let_def del: of_nat_add)
    show ?thesis
    proof (cases "cs = []")
      case True
      then show ?thesis unfolding step using d by (simp add: add.commute)
    next
      case False
      have "collect_rest ms expected (word_of_nat (Suc t)) (word_of_nat (sum_list (map part_length cs))) (message @ part_of c)
        = Inr (if \<forall>j < length cs. map_of ms (expected + word_of_nat (Suc (Suc t + j))) \<noteq> None
           then Some ((message @ part_of c) @ concat (map part_of cs), word_of_nat (Suc t + length cs)) else None)"
        using Cons.prems sum by (intro Cons.IH [OF False]) auto
      moreover have "word_of_nat t + 1 = (word_of_nat (Suc t) :: u32)" by simp
      moreover have "(\<forall>j < length (c # cs). map_of ms (expected + word_of_nat (Suc (t + j))) \<noteq> None)
          \<longleftrightarrow> (\<forall>j < length cs. map_of ms (expected + word_of_nat (Suc (Suc t + j))) \<noteq> None)"
        unfolding length_Cons All_less_Suc2 using d by (simp add: add.commute)
      moreover have "sum_list (map part_length cs) \<noteq> 0" using pos [OF False] by blast
      ultimately show ?thesis unfolding step by (simp only: if_False append_assoc list.map concat.simps list.size add_Suc_right add_Suc add_0_right)
    qed
  qed
qed simp

section \<open>The loop over the messages\<close>

text \<open>\<open>k\<close> messages have been handed over; of the datagrams received, \<open>S\<close>, those not yet used are stored.\<close>

definition receiving :: "const_data_buffer \<Rightarrow> const_data_buffer \<Rightarrow> stream \<Rightarrow> nat \<Rightarrow> nat set \<Rightarrow> datagram_protocol \<Rightarrow> bool" where
  "receiving this partner gs k S st \<longleftrightarrow> this_node_id st = this \<and> partner_node_id st = partner \<and> k \<le> length gs
     \<and> expected_index st = word_of_nat (position gs k) \<and> processed st = map snd (take k gs)
     \<and> sorted_wrt (<) (map fst (input_messages st)) \<and> S \<subseteq> {..<length (datagrams gs)}
     \<and> (\<forall>(i, d) \<in> set (input_messages st). unat i \<in> S \<and> d = datagrams gs ! unat i)
     \<and> (\<forall>j \<in> S. position gs k \<le> j \<longrightarrow> word_of_nat j \<in> fst ` set (input_messages st))"

text \<open>Nothing more can be handed over: a datagram of the next message is missing.\<close>

definition waiting :: "stream \<Rightarrow> nat \<Rightarrow> nat set \<Rightarrow> bool" where
  "waiting gs k S \<longleftrightarrow> k = length gs \<or> (\<exists>j. position gs k \<le> j \<and> j < position gs (Suc k) \<and> j \<notin> S)"

definition same_session :: "datagram_protocol \<Rightarrow> datagram_protocol \<Rightarrow> bool" where
  "same_session st st' \<longleftrightarrow> session_key st' = session_key st \<and> failed_state st' = failed_state st
     \<and> last_sent st' = last_sent st \<and> input_mtu st' = input_mtu st"

definition work :: "datagram_protocol \<Rightarrow> nat" where
  "work st = length (input_messages st) + length (filter (\<lambda>(i, d). expected_index st \<le> i) (input_messages st))"

lemma skip_received_index: "\<exists>v. skip_received n st = st\<lparr>last_input_index := v\<rparr>"
proof (induction n arbitrary: st)
  case 0
  show ?case by (rule exI [of _ "last_input_index st"]) simp
next
  case (Suc n)
  from Suc.IH [of "st\<lparr>last_input_index := last_input_index st + 1\<rparr>"]
  have "\<exists>v. skip_received n (st\<lparr>last_input_index := last_input_index st + 1\<rparr>) = st\<lparr>last_input_index := v\<rparr>" by simp
  moreover have "\<exists>v. st = st\<lparr>last_input_index := v\<rparr>" by (rule exI [of _ "last_input_index st"]) simp
  ultimately show ?case by simp
qed

lemma deliver_fields:
  "this_node_id (deliver env now c m st) = this_node_id st" "partner_node_id (deliver env now c m st) = partner_node_id st"
  "expected_index (deliver env now c m st) = expected_index st + c" "processed (deliver env now c m st) = processed st @ [m]"
  "input_messages (deliver env now c m st) = input_messages st" "last_processed (deliver env now c m st) = now"
  "same_session st (deliver env now c m st)"
  by (simp_all add: deliver_def count_received_def same_session_def Let_def)

lemma same_session_trans: "same_session st st1 \<Longrightarrow> same_session st1 st2 \<Longrightarrow> same_session st st2"
  by (simp add: same_session_def)

lemma receiving_deliver:
  assumes "stream_ok env key this partner gs" "receiving this partner gs k S st" "k < length gs"
  shows "receiving this partner gs (Suc k) S (deliver env now (word_of_nat (length (fst (gs ! k)))) (snd (gs ! k)) st)"
  using assms by (auto simp: receiving_def deliver_fields position_Suc take_Suc_conv_app_nth)

lemma receiving_erase:
  assumes "receiving this partner gs k S st" "input_messages st = (i, d) # rest" "i < expected_index st"
    "length (datagrams gs) < 2 ^ 32"
  shows "receiving this partner gs k S (st\<lparr>input_messages := rest\<rparr>)"
proof -
  have "word_of_nat j \<noteq> i" if "j \<in> S" "position gs k \<le> j" for j
  proof -
    have "j < 2 ^ 32" using that(1) assms(1,4) by (auto simp: receiving_def)
    then show ?thesis using that(2) assms(1,3) position_le [of gs k] assms(4)
      by (auto simp: receiving_def index_less)
  qed
  then show ?thesis using assms(1,2) by (auto simp: receiving_def)
qed

lemma word_of_unat: "word_of_nat (unat (i :: u32)) = i"
  by simp

lemma stored_iff:
  assumes "receiving this partner gs k S st" "length (datagrams gs) < 2 ^ 32" "position gs k \<le> j" "j < 2 ^ 32"
  shows "map_of (input_messages st) (word_of_nat j) = (if j \<in> S then Some (datagrams gs ! j) else None)"
proof (cases "j \<in> S")
  case True
  then have "word_of_nat j \<in> fst ` set (input_messages st)" using assms by (auto simp: receiving_def)
  then obtain d where d: "map_of (input_messages st) (word_of_nat j) = Some d" by (metis domD dom_map_of_conv_image_fst)
  then have "(word_of_nat j, d) \<in> set (input_messages st)" by (rule map_of_SomeD)
  then have "d = datagrams gs ! unat (word_of_nat j :: u32)" using assms(1) by (auto simp: receiving_def)
  with d True show ?thesis using unat_index [OF assms(4)] by simp
next
  case False
  have "(word_of_nat j, d) \<notin> set (input_messages st)" for d
    using assms(1) False unat_index [OF assms(4)] by (auto simp: receiving_def)
  then have "map_of (input_messages st) (word_of_nat j) = None" by (auto simp: map_of_eq_None_iff)
  with False show ?thesis by simp
qed

text \<open>The datagram under the expected index is the first of the next message.\<close>

lemma at_expected:
  assumes "stream_ok env key this partner gs" "receiving this partner gs k S st" "input_messages st = (expected_index st, d) # rest"
  shows "k < length gs" "d = hd (fst (gs ! k))" "framed this partner (fst (gs ! k)) (snd (gs ! k))" "position gs k \<in> S"
proof -
  have N: "length (datagrams gs) < 2 ^ 32" using assms(1) by (simp add: stream_ok_def)
  have "(expected_index st, d) \<in> set (input_messages st)" by (simp add: assms(3))
  then have S: "unat (expected_index st) \<in> S" and d: "d = datagrams gs ! unat (expected_index st)"
    using assms(2) by (auto simp: receiving_def)
  have p: "unat (expected_index st) = position gs k"
    using assms(2) position_le [of gs k] N by (simp add: receiving_def unat_index)
  show "position gs k \<in> S" using S p by simp
  then have "position gs k < length (datagrams gs)" using assms(2) by (auto simp: receiving_def)
  then show k: "k < length gs" using position_all [of gs k] by (cases "length gs \<le> k") auto
  then have "gs ! k \<in> set gs" by simp
  then show f: "framed this partner (fst (gs ! k)) (snd (gs ! k))" using assms(1) by (auto simp: stream_ok_def)
  then have "fst (gs ! k) \<noteq> []" by (auto simp: framed_def)
  then show "d = hd (fst (gs ! k))" using datagram_of_message [OF k, of 0] d p by (simp add: hd_conv_nth)
qed

lemma collect_stream:
  assumes ok: "stream_ok env key this partner gs" and r: "receiving this partner gs k S st"
    and k: "k < length gs" and f: "fst (gs ! k) = d # cs" "cs \<noteq> []"
    and c: "\<forall>c \<in> set cs. c ! 0 = continue_data \<and> 37 < length c" "sum_list (map part_length cs) < 2 ^ 32"
  shows "collect_rest (input_messages st) (expected_index st) 0 (word_of_nat (sum_list (map part_length cs))) message
    = Inr (if \<forall>j < length cs. position gs k + Suc j \<in> S
        then Some (message @ concat (map part_of cs), word_of_nat (length cs)) else None)"
proof -
  have N: "length (datagrams gs) < 2 ^ 32" using ok by (simp add: stream_ok_def)
  have pos: "map_of (input_messages st) (expected_index st + word_of_nat (Suc (0 + j)))
      = (if position gs k + Suc j \<in> S then Some (cs ! j) else None)" if j: "j < length cs" for j
  proof -
    have "position gs (Suc k) \<le> length (datagrams gs)" by (rule position_le)
    then have "position gs k + Suc j < 2 ^ 32" using j N f position_Suc [OF k] by simp
    then have "map_of (input_messages st) (word_of_nat (position gs k + Suc j))
        = (if position gs k + Suc j \<in> S then Some (datagrams gs ! (position gs k + Suc j)) else None)"
      by (intro stored_iff [OF r N]) simp_all
    moreover have "expected_index st = word_of_nat (position gs k)" using r by (simp add: receiving_def)
    ultimately show ?thesis using datagram_of_message [OF k, of "Suc j"] f j by (simp add: add.left_commute)
  qed
  have "collect_rest (input_messages st) (expected_index st) (word_of_nat 0) (word_of_nat (sum_list (map part_length cs))) message
    = Inr (if \<forall>j < length cs. map_of (input_messages st) (expected_index st + word_of_nat (Suc (0 + j))) \<noteq> None
        then Some (message @ concat (map part_of cs), word_of_nat (0 + length cs)) else None)"
    using pos by (intro collect_rest_framed [OF f(2) c]) auto
  also have "(\<forall>j < length cs. map_of (input_messages st) (expected_index st + word_of_nat (Suc (0 + j))) \<noteq> None)
      \<longleftrightarrow> (\<forall>j < length cs. position gs k + Suc j \<in> S)" using pos by auto
  finally show ?thesis by simp
qed

lemma waiting_at:
  assumes "stream_ok env key this partner gs" "k \<le> length gs" "position gs k \<notin> S"
  shows "waiting gs k S"
proof (cases "k < length gs")
  case True
  then have "gs ! k \<in> set gs" by simp
  then have "framed this partner (fst (gs ! k)) (snd (gs ! k))" using assms(1) by (auto simp: stream_ok_def)
  then have "fst (gs ! k) \<noteq> []" by (auto simp: framed_def)
  then have "position gs k < position gs (Suc k)" using position_Suc [OF True] by simp
  then show ?thesis using assms(3) by (auto simp: waiting_def)
qed (use assms(2) in \<open>simp add: waiting_def\<close>)

lemma work_deliver:
  assumes "stream_ok env key this partner gs" "receiving this partner gs k S st" "k < length gs"
    and "input_messages st = (expected_index st, d) # rest"
  shows "work (deliver env now (word_of_nat (length (fst (gs ! k)))) m st) < work st"
proof -
  have N: "length (datagrams gs) < 2 ^ 32" using assms(1) by (simp add: stream_ok_def)
  have "gs ! k \<in> set gs" using assms(3) by simp
  then have "framed this partner (fst (gs ! k)) (snd (gs ! k))" using assms(1) by (auto simp: stream_ok_def)
  then have "fst (gs ! k) \<noteq> []" by (auto simp: framed_def)
  moreover have e: "expected_index st = word_of_nat (position gs k)" using assms(2) by (simp add: receiving_def)
  ultimately have less: "expected_index st < expected_index st + word_of_nat (length (fst (gs ! k)))"
    using index_less [of "position gs k" "position gs (Suc k)"] position_le [of gs "Suc k"] position_Suc [OF assms(3)] N
    by simp
  then have "length (filter (\<lambda>(i, d). expected_index st + word_of_nat (length (fst (gs ! k))) \<le> i) rest)
      \<le> length (filter (\<lambda>(i, d). expected_index st \<le> i) rest)"
    by (induction rest) auto
  then show ?thesis using less by (simp add: work_def deliver_fields assms(4))
qed

lemma process_round_receives:
  assumes ok: "stream_ok env key this partner gs" and r: "receiving this partner gs k S st"
  obtains (stop) st' where "process_round env now st = (Some (Inr ()), st')" "receiving this partner gs k S st'"
      "waiting gs k S" "same_session st st'" "last_processed st' = last_processed st"
    | (onward) k' st' where "process_round env now st = (None, st')" "receiving this partner gs k' S st'"
      "work st' < work st" "same_session st st'" "last_processed st' \<in> {last_processed st, now}"
proof -
  obtain v where v: "skip_received (length (input_messages st)) st = st\<lparr>last_input_index := v\<rparr>"
    using skip_received_index by blast
  define st1 where "st1 = st\<lparr>last_input_index := v\<rparr>"
  note round = process_round_def [of env now st, unfolded v, folded st1_def, unfolded Let_def]
  have r1: "receiving this partner gs k S st1" using r by (simp add: receiving_def st1_def)
  have same: "same_session st st1" "last_processed st1 = last_processed st" "work st1 = work st"
    by (simp_all add: same_session_def st1_def work_def)
  have N: "length (datagrams gs) < 2 ^ 32" using ok by (simp add: stream_ok_def)
  have k: "k \<le> length gs" and e: "expected_index st1 = word_of_nat (position gs k)"
    and ids: "this_node_id st1 = this" "partner_node_id st1 = partner"
    using r1 by (simp_all add: receiving_def)
  have pN: "position gs k < 2 ^ 32" using position_le [of gs k] N by simp
  have stopped: thesis if "process_round env now st = (Some (Inr ()), st1)" "waiting gs k S"
    using stop [OF that(1) r1 that(2)] same by simp
  have missing: "position gs k \<notin> S" if "\<forall>i \<in> fst ` set (input_messages st1). expected_index st1 < i"
    using that stored_iff [OF r1 N order_refl pN] e by (force simp: map_of_eq_None_iff dest: map_of_SomeD split: if_splits)
  have delivered: thesis if "process_round env now st = (None, deliver env now (word_of_nat (length (fst (gs ! k)))) (snd (gs ! k)) st1)"
    "k < length gs" "input_messages st1 = (expected_index st1, d) # rest" for d rest
    using onward [OF that(1) receiving_deliver [OF ok r1 that(2)]] work_deliver [OF ok r1 that(2,3)] same
      same_session_trans [OF same(1) deliver_fields(7)]
    by (simp add: deliver_fields)
  show thesis
  proof (cases "input_messages st1")
    case Nil
    then show thesis using stopped waiting_at [OF ok k] missing by (simp add: round)
  next
    case (Cons p rest)
    obtain i d where p: "p = (i, d)" by (cases p)
    note ms = Cons [unfolded p]
    have sorted: "\<forall>j \<in> fst ` set rest. i < j" using r1 by (auto simp: receiving_def ms)
    consider "expected_index st1 < i" | "i < expected_index st1" | "i = expected_index st1" by (meson linorder_neqE)
    then show thesis
    proof cases
      case 1
      then have "\<forall>j \<in> fst ` set (input_messages st1). expected_index st1 < j" using sorted by (auto simp: ms)
      then show thesis using 1 stopped waiting_at [OF ok k] missing by (simp add: round ms)
    next
      case 2
      then have "process_round env now st = (None, st1\<lparr>input_messages := rest\<rparr>)" by (auto simp: round ms)
      moreover have "work (st1\<lparr>input_messages := rest\<rparr>) < work st1" by (simp add: work_def ms)
      ultimately show thesis using onward receiving_erase [OF r1 ms 2 N] same by (simp add: same_session_def)
    next
      case 3
      note at = at_expected [OF ok r1 ms [unfolded 3]]
      from at(2,3) obtain cs where f: "fst (gs ! k) = d # cs" by (cases "fst (gs ! k)") (auto simp: framed_def)
      show thesis
      proof (cases "cs = []")
        case True
        then have "is_single d" "parse_single this partner d = Inr (snd (gs ! k))" using at(3) f by (auto simp: framed_def)
        then have "process_round env now st = (None, deliver env now (word_of_nat (length (fst (gs ! k)))) (snd (gs ! k)) st1)"
          by (simp add: round ms 3 ids f True)
        then show thesis by (rule delivered [OF _ at(1) ms [unfolded 3]])
      next
        case False
        then obtain m0 where frame: "\<not> is_single d" "is_first d" "\<forall>c \<in> set cs. c ! 0 = continue_data \<and> 37 < length c"
          "sum_list (map part_length cs) < 2 ^ 32"
          "parse_first this partner d = Inr (m0, word_of_nat (sum_list (map part_length cs)))"
          "snd (gs ! k) = m0\<lparr>rm_message := rm_message m0 @ concat (map part_of cs)\<rparr>"
          using at(3) f by (auto simp: framed_def)
        note collect = collect_stream [OF ok r1 at(1) f False frame(3,4), of "rm_message m0"]
        show thesis
        proof (cases "\<forall>j < length cs. position gs k + Suc j \<in> S")
          case True
          then have "process_round env now st = (None, deliver env now (word_of_nat (length (fst (gs ! k)))) (snd (gs ! k)) st1)"
            using frame collect by (simp add: round ms 3 ids f add.commute)
          then show thesis by (rule delivered [OF _ at(1) ms [unfolded 3]])
        next
          case no: False
          then have "waiting gs k S" using position_Suc [OF at(1)] f by (auto simp: waiting_def)
          moreover have "process_round env now st = (Some (Inr ()), st1)"
            using frame collect no by (simp add: round ms 3 ids)
          ultimately show thesis by (intro stopped)
        qed
      qed
    qed
  qed
qed

lemma continue_receives:
  assumes ok: "stream_ok env key this partner gs"
  shows "receiving this partner gs k S st \<Longrightarrow> work st < fuel \<Longrightarrow>
    \<exists>k' st'. continue_process fuel env now st = (Inr (), st') \<and> receiving this partner gs k' S st' \<and> waiting gs k' S
      \<and> same_session st st' \<and> last_processed st' \<in> {last_processed st, now}"
proof (induction fuel arbitrary: k st)
  case (Suc fuel)
  show ?case
  proof (cases rule: process_round_receives [OF ok Suc.prems(1), of now])
    case (1 st')
    then show ?thesis by auto
  next
    case (2 k' st')
    then have "work st' < fuel" using Suc.prems(2) by linarith
    from Suc.IH [OF 2(2) this] 2 show ?thesis by (auto simp: same_session_def)
  qed
qed simp

section \<open>Any sequence of datagrams\<close>

definition ready :: "const_data_buffer \<Rightarrow> int \<Rightarrow> datagram_protocol \<Rightarrow> bool" where
  "ready key time st \<longleftrightarrow> session_key st = key \<and> \<not> failed_state st \<and> last_sent st \<le> 600 \<and> time \<le> last_processed st"

lemma receiving_store:
  assumes "receiving this partner gs k S st" "i < length (datagrams gs)" "length (datagrams gs) < 2 ^ 32"
  shows "receiving this partner gs k (insert i S)
    (st\<lparr>input_messages := map_put (word_of_nat i) (datagrams gs ! i) (input_messages st)\<rparr>)"
  using assms by (auto simp: receiving_def set_map_put is_set_map_put unat_index simp flip: is_set_def dest!: in_map_put)

lemma numbered_first: "numbered env key i d \<Longrightarrow> d \<noteq> [] \<and> d ! 0 \<noteq> mtu_test \<and> d ! 0 \<noteq> acknowledgment"
  by (auto simp: numbered_def)

lemma process_datagram_receives:
  assumes ok: "stream_ok env key this partner gs" and r: "receiving this partner gs k S st" and w: "waiting gs k S"
    and ready: "ready key time st" "time \<le> now" "now \<le> time + 10 * 60 * 1000" and i: "i < length (datagrams gs)"
  shows "\<exists>k' st'. process_datagram env now (datagrams gs ! i) st = (Inr (), st') \<and> receiving this partner gs k' (insert i S) st'
    \<and> waiting gs k' (insert i S) \<and> ready key time st'"
proof -
  let ?d = "datagrams gs ! i"
  have N: "length (datagrams gs) < 2 ^ 32" and n: "numbered env key i ?d" using ok i by (auto simp: stream_ok_def)
  define st1 where "st1 = (if unat (input_mtu st) < length ?d then st\<lparr>input_mtu := word_of_nat (length ?d)\<rparr> else st)"
  have r1: "receiving this partner gs k S st1" and ready1: "ready key time st1"
    using r ready(1) by (simp_all add: receiving_def ready_def st1_def)
  have kept: "\<not> last_processed st1 < now - 10 * 60 * 1000" using ready1 ready(3) by (simp add: ready_def)
  have kind: "(\<not> is_single ?d \<and> \<not> is_first ?d \<and> ?d ! 0 \<noteq> continue_data) = False" using n unfolding numbered_def by blast
  have run: "process_datagram env now ?d st = (if map_of (input_messages st1) (word_of_nat i) \<noteq> None then (Inr (), st1)
      else continue_process_messages env now (st1\<lparr>input_messages := map_put (word_of_nat i) ?d (input_messages st1)\<rparr>))"
    unfolding process_datagram_def Let_def st1_def [symmetric] kind if_False
    using ready(1) kept n numbered_first [OF n] ready1 by (simp add: ready_def numbered_def)
  show ?thesis
  proof (cases "map_of (input_messages st1) (word_of_nat i) = None")
    case True
    let ?st2 = "st1\<lparr>input_messages := map_put (word_of_nat i) ?d (input_messages st1)\<rparr>"
    have "work ?st2 < 2 * length (input_messages ?st2) + 1"
      by (simp add: work_def less_Suc_eq_le mult_2 add_mono)
    from continue_receives [OF ok receiving_store [OF r1 i N] this, of now]
    obtain k' st' where "continue_process_messages env now ?st2 = (Inr (), st')" "receiving this partner gs k' (insert i S) st'"
      "waiting gs k' (insert i S)" "same_session ?st2 st'" "last_processed st' \<in> {last_processed ?st2, now}"
      unfolding continue_process_messages_def by blast
    moreover from this have "ready key time st'" using ready1 ready(2) by (auto simp: ready_def same_session_def)
    ultimately show ?thesis using True run by auto
  next
    case False
    then obtain d where "(word_of_nat i, d) \<in> set (input_messages st1)" by (auto dest: map_of_SomeD)
    then have "i \<in> S" using r1 i N by (auto simp: receiving_def unat_index)
    then have "insert i S = S" by blast
    then show ?thesis using False run r1 w ready1 by auto
  qed
qed

definition receive_all :: "protocol_env \<Rightarrow> (int \<times> byte list) list \<Rightarrow> datagram_protocol \<Rightarrow> datagram_protocol" where
  "receive_all env ds st = fold (\<lambda>(now, d) st. snd (process_datagram env now d st)) ds st"

lemma receive_all_receives:
  assumes ok: "stream_ok env key this partner gs"
    and ds: "\<forall>(now, d) \<in> set ds. time \<le> now \<and> now \<le> time + 10 * 60 * 1000 \<and> d \<in> set (datagrams gs)"
  shows "receiving this partner gs k S st \<Longrightarrow> waiting gs k S \<Longrightarrow> ready key time st \<Longrightarrow>
    \<exists>k' S'. receiving this partner gs k' S' (receive_all env ds st) \<and> waiting gs k' S' \<and> S \<subseteq> S'
      \<and> (\<forall>d \<in> snd ` set ds. \<exists>i \<in> S'. i < length (datagrams gs) \<and> datagrams gs ! i = d)"
  using ds
proof (induction ds arbitrary: k S st)
  case Nil
  then show ?case by (auto simp: receive_all_def)
next
  case (Cons p ds)
  obtain now d where p: "p = (now, d)" by (cases p)
  then obtain i where i: "i < length (datagrams gs)" "d = datagrams gs ! i" using Cons.prems(4) by (auto simp: in_set_conv_nth)
  from process_datagram_receives [OF ok Cons.prems(1-3) _ _ i(1), of now] Cons.prems(4) p
  obtain k1 st1 where 1: "process_datagram env now d st = (Inr (), st1)" "receiving this partner gs k1 (insert i S) st1"
    "waiting gs k1 (insert i S)" "ready key time st1" unfolding i(2) by auto
  from Cons.IH [OF 1(2-4)] Cons.prems(4) obtain k' S' where "receiving this partner gs k' S' (receive_all env ds st1)"
    "waiting gs k' S'" "insert i S \<subseteq> S'" "\<forall>d \<in> snd ` set ds. \<exists>i \<in> S'. i < length (datagrams gs) \<and> datagrams gs ! i = d" by auto
  moreover have "receive_all env (p # ds) st = receive_all env ds st1" by (simp add: receive_all_def p 1(1))
  ultimately show ?case using i p by auto
qed

text \<open>The numbers make the datagrams of a stream different.\<close>

lemma datagrams_distinct: "stream_ok env key this partner gs \<Longrightarrow> distinct (datagrams gs)"
proof (rule distinct_conv_nth [THEN iffD2], intro allI impI notI)
  fix i j
  assume ok: "stream_ok env key this partner gs" and ij: "i < length (datagrams gs)" "j < length (datagrams gs)" "i \<noteq> j"
    and eq: "datagrams gs ! i = datagrams gs ! j"
  have "index_at 1 (datagrams gs ! i) = word_of_nat i" "index_at 1 (datagrams gs ! j) = word_of_nat j"
    using ok ij by (auto simp: stream_ok_def numbered_def)
  then have "unat (word_of_nat i :: u32) = unat (word_of_nat j :: u32)" using eq by simp
  then show False using ij ok by (simp add: stream_ok_def unat_index)
qed

lemma receive_all_prefix:
  assumes ok: "stream_ok env key this partner gs"
    and ds: "\<forall>(now, d) \<in> set ds. time \<le> now \<and> now \<le> time + 10 * 60 * 1000 \<and> d \<in> set (datagrams gs)"
    and st: "this_node_id st = this" "partner_node_id st = partner" "expected_index st = 0" "processed st = []" "input_messages st = []"
    and ready: "ready key time st"
  shows "\<exists>k. processed (receive_all env ds st) = map snd (take k gs)
    \<and> (snd ` set ds = set (datagrams gs) \<longrightarrow> processed (receive_all env ds st) = map snd gs)"
proof -
  have "receiving this partner gs 0 {} st" using st by (simp add: receiving_def)
  moreover have "waiting gs 0 {}" by (rule waiting_at [OF ok]) simp_all
  ultimately obtain k S where r: "receiving this partner gs k S (receive_all env ds st)" and w: "waiting gs k S"
    and S: "\<forall>d \<in> snd ` set ds. \<exists>i \<in> S. i < length (datagrams gs) \<and> datagrams gs ! i = d"
    using receive_all_receives [OF ok ds _ _ ready] by blast
  have "k = length gs" if all: "snd ` set ds = set (datagrams gs)"
  proof (rule ccontr)
    assume "k \<noteq> length gs"
    then obtain j where j: "j < position gs (Suc k)" "j \<notin> S" using w by (auto simp: waiting_def)
    then have "j < length (datagrams gs)" using position_le [of gs "Suc k"] by simp
    then show False using S all j datagrams_distinct [OF ok] by (metis nth_eq_iff_index_eq nth_mem)
  qed
  then show ?thesis using r by (auto simp: receiving_def)
qed

end
