(* ===== verification/Datagram_sender.thy ===== *)
theory Datagram_sender
  imports Datagram_receiver
begin

text \<open>
  The sending side: the datagrams \<open>prepare_to_send\<close> queues are well framed and numbered without gaps.
\<close>

text \<open>What is relied on of OpenSSL: an HMAC of SHA-256 has 32 bytes, and \<open>hmac::verify\<close> accepts what
  \<open>hmac::signature\<close> made with the same key.\<close>

definition hmac_ok :: "protocol_env \<Rightarrow> const_data_buffer \<Rightarrow> bool" where
  "hmac_ok env key \<longleftrightarrow> (\<forall>d sig. hmac_signature env key d = Inr sig \<longrightarrow>
     buffer_size sig = 32 \<and> hmac_verify env key d (buffer_data sig))"

definition signed_datagram :: "protocol_env \<Rightarrow> const_data_buffer \<Rightarrow> byte list \<Rightarrow> byte list \<Rightarrow> bool" where
  "signed_datagram env key buffer d \<longleftrightarrow> (\<exists>sig. d = buffer @ sig \<and> length sig = 32 \<and> hmac_verify env key buffer sig)"

lemma signed_datagram_D:
  assumes "signed_datagram env key buffer d"
  shows "length d = length buffer + 32" "take (length d - 32) d = buffer"
    "hmac_verify env key (take (length d - 32) d) (drop (length d - 32) d)"
  using assms by (auto simp: signed_datagram_def)

section \<open>Numbers and kinds\<close>

lemma index_bytes_word:
  "push_bit 24 (ucast (ucast (drop_bit 24 v) :: byte)) OR push_bit 16 (ucast (ucast (drop_bit 16 v) :: byte))
     OR push_bit 8 (ucast (ucast (drop_bit 8 v) :: byte)) OR ucast (ucast v :: byte) = (v :: u32)"
proof (rule bit_word_eqI)
  fix n assume n: "n < LENGTH(32)"
  consider "n < 8" | k where "n = 8 + k" "k < 8" | k where "n = 16 + k" "k < 8" | k where "n = 24 + k" "k < 8"
  proof -
    have "n < 8 \<or> (\<exists>k. n = 8 + k \<and> k < 8) \<or> (\<exists>k. n = 16 + k \<and> k < 8) \<or> (\<exists>k. n = 24 + k \<and> k < 8)"
      using n by simp presburger
    then show thesis using that by blast
  qed
  then show "bit (push_bit 24 (ucast (ucast (drop_bit 24 v) :: byte)) OR push_bit 16 (ucast (ucast (drop_bit 16 v) :: byte))
     OR push_bit 8 (ucast (ucast (drop_bit 8 v) :: byte)) OR ucast (ucast v :: byte) :: u32) n = bit v n"
    by cases (auto simp: bit_simps)
qed

lemma length_index_bytes [simp]: "length (index_bytes v) = 4"
  by (simp add: index_bytes_def)

lemma index_at_bytes: "length xs = i \<Longrightarrow> index_at i (xs @ index_bytes v @ ys) = v"
  by (auto simp: index_at_def index_bytes_def nth_append ucast_and_FF index_bytes_word)

lemma kind_of:
  assumes "message_type AND special_command = 0"
  shows "kind \<in> {single_data, fragmented_data, route_single_data, route_data, proxy_single_data, proxy_data}
    \<Longrightarrow> special_command AND (kind OR message_type) = kind"
    "kind \<in> {single_data, fragmented_data, route_single_data, route_data, proxy_single_data, proxy_data}
    \<Longrightarrow> (kind OR message_type) AND NOT special_command = message_type"
proof -
  have 0: "special_command AND message_type = 0" using assms by (simp add: and.commute)
  show "kind \<in> {single_data, fragmented_data, route_single_data, route_data, proxy_single_data, proxy_data}
    \<Longrightarrow> special_command AND (kind OR message_type) = kind"
    by (auto simp: bit.conj_disj_distrib 0)
  have "message_type AND NOT special_command = message_type"
  proof (rule bit_word_eqI)
    fix n
    have "bit (message_type AND special_command) n = bit (0 :: byte) n" using assms by simp
    then show "n < LENGTH(8) \<Longrightarrow> bit (message_type AND NOT special_command) n = bit message_type n"
      by (auto simp: bit_simps)
  qed
  then show "kind \<in> {single_data, fragmented_data, route_single_data, route_data, proxy_single_data, proxy_data}
    \<Longrightarrow> (kind OR message_type) AND NOT special_command = message_type"
    by (auto simp: bit.conj_disj_distrib2)
qed

section \<open>The queue\<close>

definition push_datagram :: "int \<Rightarrow> byte list \<Rightarrow> datagram_protocol \<Rightarrow> datagram_protocol" where
  "push_datagram now d st = st\<lparr>output_messages := emplace_output (last_output_index st)
       \<lparr>om_queue_time = now, om_data = d\<rparr> (output_messages st),
     last_output_index := last_output_index st + 1\<rparr>"

lemma push_fields [simp]:
  "last_output_index (push_datagram now d st) = last_output_index st + 1" "mtu (push_datagram now d st) = mtu st"
  "session_key (push_datagram now d st) = session_key st" "this_node_id (push_datagram now d st) = this_node_id st"
  "partner_node_id (push_datagram now d st) = partner_node_id st" "written (push_datagram now d st) = written st"
  by (simp_all add: push_datagram_def)

lemma fold_push_fields [simp]:
  "last_output_index (fold (push_datagram now) ds st) = last_output_index st + word_of_nat (length ds)"
  "mtu (fold (push_datagram now) ds st) = mtu st" "session_key (fold (push_datagram now) ds st) = session_key st"
  "this_node_id (fold (push_datagram now) ds st) = this_node_id st"
  "partner_node_id (fold (push_datagram now) ds st) = partner_node_id st"
  "written (fold (push_datagram now) ds st) = written st"
  by (induction ds arbitrary: st) simp_all

lemma queue_datagram_pushes:
  assumes "hmac_ok env (session_key st)" "queue_datagram env now buffer st = (Inr (), st')"
  obtains d where "st' = push_datagram now d st" "signed_datagram env (session_key st) buffer d" "length d \<le> unat (mtu st)"
proof -
  obtain sig where sig: "hmac_signature env (session_key st) buffer = Inr sig"
    using assms(2) by (auto simp: queue_datagram_def split: sum.splits)
  have "st' = push_datagram now (buffer @ buffer_data sig) st" "length (buffer @ buffer_data sig) \<le> unat (mtu st)"
    using assms(2) sig by (auto simp: queue_datagram_def push_datagram_def Let_def split: if_splits)
  moreover have "signed_datagram env (session_key st) buffer (buffer @ buffer_data sig)"
    using assms(1) sig by (auto simp: hmac_ok_def signed_datagram_def)
  ultimately show thesis using that by blast
qed

text \<open>A datagram with its number, before it is queued.\<close>

definition datagram_ok :: "protocol_env \<Rightarrow> const_data_buffer \<Rightarrow> u32 \<Rightarrow> byte list \<Rightarrow> bool" where
  "datagram_ok env key i d \<longleftrightarrow> 33 \<le> length d \<and> length d \<le> 0xFFFF \<and> index_at 1 d = i
     \<and> (is_single d \<or> is_first d \<or> d ! 0 = continue_data)
     \<and> hmac_verify env key (take (length d - 32) d) (drop (length d - 32) d)"

lemma datagram_ok_signed:
  assumes "signed_datagram env key (x # index_bytes i @ rest) d" "length d \<le> unat (m :: u16)"
    and "special_command AND x \<in> {single_data, route_single_data, proxy_single_data, fragmented_data, route_data, proxy_data}
      \<or> x = continue_data"
  shows "datagram_ok env key i d"
proof -
  obtain sig where d: "d = x # index_bytes i @ rest @ sig" "length sig = 32" using assms(1) by (auto simp: signed_datagram_def)
  have "unat m < 2 ^ LENGTH(16)" by (rule unsigned_less)
  then have "length d \<le> 0xFFFF" using assms(2) by simp
  moreover have "index_at 1 d = i" using index_at_bytes [of "[x]" 1 i "rest @ sig"] by (simp add: d)
  moreover have "33 \<le> length d" by (simp add: d)
  moreover have "is_single d \<or> is_first d \<or> d ! 0 = continue_data" using assms(3) by (auto simp: d)
  ultimately show ?thesis using signed_datagram_D(3) [OF assms(1)] by (auto simp: datagram_ok_def)
qed

section \<open>The rest of a message\<close>

lemma take_drop_from: "take n (drop k xs) @ drop (k + n) xs = drop k xs"
  by (metis add.commute append_take_drop_id drop_drop)

lemma queue_rest_pushes:
  assumes "hmac_ok env (session_key st)" "37 < unat (mtu st)" "offset < length message"
    and "queue_rest env now message offset st = (Inr (), st')"
  shows "\<exists>cs. st' = fold (push_datagram now) cs st \<and> cs \<noteq> [] \<and> length cs \<le> length message - offset
    \<and> (\<forall>c \<in> set cs. c ! 0 = continue_data \<and> 37 < length c) \<and> concat (map part_of cs) = drop offset message
    \<and> (\<forall>j < length cs. datagram_ok env (session_key st) (last_output_index st + word_of_nat j) (cs ! j))"
  using assms
proof (induction "length message - offset" arbitrary: offset st rule: less_induct)
  case less
  let ?size = "min (unat (mtu st) - 37) (length message - offset)"
  let ?buffer = "continue_data # index_bytes (last_output_index st) @ take ?size (drop offset message)"
  obtain st1 where q: "queue_datagram env now ?buffer st = (Inr (), st1)"
    and rest: "(if length message \<le> offset + ?size then (Inr (), st1) else queue_rest env now message (offset + ?size) st1)
      = (Inr (), st')"
    using less.prems by (subst (asm) queue_rest.simps) (auto simp: Let_def split: prod.splits sum.splits if_splits)
  from queue_datagram_pushes [OF less.prems(1) q] obtain d where st1: "st1 = push_datagram now d st"
    and d: "signed_datagram env (session_key st) ?buffer d" "length d \<le> unat (mtu st)" by blast
  have ok: "datagram_ok env (session_key st) (last_output_index st) d"
    by (rule datagram_ok_signed [OF d]) simp
  obtain sig where sig: "d = ?buffer @ sig" "length sig = 32" using d(1) by (auto simp: signed_datagram_def)
  have size: "0 < ?size" "?size \<le> length message - offset" using less.prems(2,3) by auto
  have c: "d ! 0 = continue_data" "37 < length d" "part_of d = take ?size (drop offset message)"
    using size by (auto simp: sig part_of_def min_def)
  show ?case
  proof (cases "length message \<le> offset + ?size")
    case True
    then have "?size = length message - offset" using size by linarith
    then have "part_of d = drop offset message" using c(3) by simp
    then show ?thesis using True rest st1 c ok less.prems(3) by (intro exI [of _ "[d]"]) simp
  next
    case False
    then have "queue_rest env now message (offset + ?size) st1 = (Inr (), st')" using rest by (simp only: if_not_P if_False)
    moreover have "0 < s \<Longrightarrow> \<not> L \<le> offset + s \<Longrightarrow> L - (offset + s) < L - offset \<and> offset + s < L" for s L :: nat by linarith
    from this [OF size(1) False] have "length message - (offset + ?size) < length message - offset"
      "offset + ?size < length message" by blast+
    moreover have "hmac_ok env (session_key st1)" "37 < unat (mtu st1)" using less.prems(1,2) st1 by simp_all
    ultimately have "\<exists>cs. st' = fold (push_datagram now) cs st1 \<and> cs \<noteq> [] \<and> length cs \<le> length message - (offset + ?size)
      \<and> (\<forall>c \<in> set cs. c ! 0 = continue_data \<and> 37 < length c) \<and> concat (map part_of cs) = drop (offset + ?size) message
      \<and> (\<forall>j < length cs. datagram_ok env (session_key st1) (last_output_index st1 + word_of_nat j) (cs ! j))"
      by (intro less.hyps)
    then obtain cs where cs: "st' = fold (push_datagram now) cs st1" "cs \<noteq> []" "length cs \<le> length message - (offset + ?size)"
      "\<forall>c \<in> set cs. c ! 0 = continue_data \<and> 37 < length c" "concat (map part_of cs) = drop (offset + ?size) message"
      "\<forall>j < length cs. datagram_ok env (session_key st1) (last_output_index st1 + word_of_nat j) (cs ! j)" by blast
    have "concat (map part_of (d # cs)) = drop offset message"
      using cs(5) c(3) take_drop_from [of ?size offset message] by simp
    moreover have "\<forall>j < length (d # cs). datagram_ok env (session_key st) (last_output_index st + word_of_nat j) ((d # cs) ! j)"
      using ok cs(6) st1 by (auto simp: nth_Cons add.assoc split: nat.splits)
    ultimately show ?thesis using cs c size st1 by (intro exI [of _ "d # cs"]) auto
  qed
qed

section \<open>The first datagram\<close>

text \<open>What can be delivered: a type of five bits, ids of 32 bytes and room in the first datagram. A
  message with more than one hop must not have a size for which the receiver's check of a first
  datagram, written for one hop, refuses it.\<close>

definition acceptable :: "datagram_protocol \<Rightarrow> byte \<Rightarrow> const_data_buffer \<Rightarrow> const_data_buffer list \<Rightarrow> byte list \<Rightarrow> bool" where
  "acceptable st message_type target_node hops message \<longleftrightarrow>
     message_type AND special_command = 0 \<and> length message < 2 ^ 32 \<and> length hops < 2 ^ 8
     \<and> (\<forall>hop \<in> set hops. buffer_size hop = 32) \<and> (buffer_size target_node = 32 \<or> hops = [] \<and> partner_node_id st = target_node)
     \<and> first_overhead st target_node hops < unat (mtu st)
     \<and> (length hops \<le> 1 \<or> 70 + 32 * length hops + length message < unat (mtu st) \<or> unat (mtu st) < length message + 106)"

definition sent_message :: "datagram_protocol \<Rightarrow> byte \<Rightarrow> const_data_buffer \<Rightarrow> const_data_buffer list \<Rightarrow> byte list \<Rightarrow> received_message" where
  "sent_message st message_type target_node hops message = \<lparr>rm_message_type = message_type, rm_target_node = target_node,
     rm_hops = this_node_id st # hops, rm_message = message\<rparr>"

lemma slice_at_parts: "length pre = i \<Longrightarrow> length x = n \<Longrightarrow> slice_at i n (pre @ x @ post) = Inr x"
  by (auto simp: slice_at_def)

lemma payload_at_parts: "length pre = i \<Longrightarrow> length sig = 32 \<Longrightarrow> payload_at i (pre @ x @ sig) = Inr x"
  by (auto simp: payload_at_def slice_at_def)

lemma hops_at_bytes:
  "length pre = i \<Longrightarrow> \<forall>hop \<in> set hops. buffer_size hop = 32 \<Longrightarrow> hops_at (length hops) i (pre @ hops_bytes hops @ post) = Inr hops"
proof (induction hops arbitrary: pre i)
  case (Cons hop hops)
  have "hops_at (length hops) (i + 32) ((pre @ buffer_data hop) @ hops_bytes hops @ post) = Inr hops"
    using Cons.prems by (intro Cons.IH) auto
  moreover have "slice_at i 32 (pre @ buffer_data hop @ hops_bytes hops @ post) = Inr (buffer_data hop)"
    using Cons.prems by (intro slice_at_parts) auto
  ultimately show ?case by (simp add: hops_bytes_def)
qed (simp add: hops_bytes_def)

lemma hops_count_at_byte:
  "length pre = i \<Longrightarrow> n < 2 ^ 8 \<Longrightarrow> hops_count_at i (pre @ [word_of_nat n] @ post) = Inr n"
  unfolding hops_count_at_def by (subst slice_at_parts) (simp_all add: unat_of_nat take_bit_nat_eq_self)

lemma length_hops_bytes: "\<forall>hop \<in> set hops. buffer_size hop = 32 \<Longrightarrow> length (hops_bytes hops) = 32 * length hops"
  by (induction hops) (simp_all add: hops_bytes_def)

lemma parse_single_datagram:
  assumes "acceptable st message_type target_node hops message" "length sig = 32"
  shows "is_single (single_datagram st message_type target_node hops message @ sig)"
    "parse_single (partner_node_id st) (this_node_id st) (single_datagram st message_type target_node hops message @ sig)
      = Inr (sent_message st message_type target_node hops message)"
proof -
  have t: "message_type AND special_command = 0" using assms(1) by (simp add: acceptable_def)
  note kinds = kind_of [OF t]
  let ?d = "single_datagram st message_type target_node hops message @ sig"
  let ?i = "index_bytes (last_output_index st)"
  consider (single) "hops = []" "partner_node_id st = target_node" | (route) "hops = []" "partner_node_id st \<noteq> target_node"
    | (proxy) "hops \<noteq> []" by blast
  then have "is_single ?d \<and> parse_single (partner_node_id st) (this_node_id st) ?d
      = Inr (sent_message st message_type target_node hops message)"
  proof cases
    case single
    then have "payload_at 5 ?d = Inr message"
      using payload_at_parts [of "(single_data OR message_type) # ?i" 5 sig message] assms(2) by (simp add: single_datagram_def)
    then show ?thesis using single kinds by (simp add: parse_single_def single_datagram_def sent_message_def Let_def)
  next
    case route
    then have "buffer_size target_node = 32" using assms(1) by (simp add: acceptable_def)
    moreover from this have "payload_at 37 ?d = Inr message"
      using payload_at_parts [of "(route_single_data OR message_type) # ?i @ buffer_data target_node" 37 sig message]
        assms(2) route by (simp add: single_datagram_def)
    moreover have "slice_at 5 32 ?d = Inr (buffer_data target_node)" if "buffer_size target_node = 32"
      using slice_at_parts [of "(route_single_data OR message_type) # ?i" 5 "buffer_data target_node" 32 "message @ sig"]
        that route by (simp add: single_datagram_def)
    ultimately show ?thesis using route kinds by (simp add: parse_single_def single_datagram_def sent_message_def Let_def)
  next
    case proxy
    then have sizes: "buffer_size target_node = 32" "length hops < 2 ^ 8" "\<forall>hop \<in> set hops. buffer_size hop = 32"
      using assms(1) by (simp_all add: acceptable_def)
    let ?x = "proxy_single_data OR message_type" and ?n = "word_of_nat (length hops) :: byte"
    have d: "?d = ?x # ?i @ buffer_data target_node @ [?n] @ hops_bytes hops @ message @ sig"
      using proxy by (simp add: single_datagram_def)
    have "slice_at 5 32 ?d = Inr (buffer_data target_node)"
      unfolding d using slice_at_parts [of "?x # ?i" 5 "buffer_data target_node" 32 "[?n] @ hops_bytes hops @ message @ sig"] sizes by simp
    moreover have "hops_count_at 37 ?d = Inr (length hops)"
      unfolding d using hops_count_at_byte [of "?x # ?i @ buffer_data target_node" 37 "length hops" "hops_bytes hops @ message @ sig"] sizes
      by simp
    moreover have "hops_at (length hops) 38 ?d = Inr hops"
      unfolding d using hops_at_bytes [of "?x # ?i @ buffer_data target_node @ [?n]" 38 hops "message @ sig"] sizes by simp
    moreover have "payload_at (38 + length hops * 32) ?d = Inr message"
      unfolding d using payload_at_parts [of "?x # ?i @ buffer_data target_node @ [?n] @ hops_bytes hops" "38 + length hops * 32" sig message]
        sizes assms(2) by (simp add: length_hops_bytes)
    ultimately show ?thesis using kinds
      by (simp add: parse_single_def sent_message_def Let_def d)
  qed
  then show "is_single ?d" "parse_single (partner_node_id st) (this_node_id st) ?d
      = Inr (sent_message st message_type target_node hops message)" by blast+
qed

lemma size_word: "n < 2 ^ 32 \<Longrightarrow> (ucast (word_of_nat n :: u32) :: u64) = word_of_nat n"
  by (rule word_unat_eq_iff [THEN iffD2]) (simp add: unsigned_ucast_eq unat_of_nat take_bit_nat_eq_self)

lemma sizes_64: "n < 2 ^ 33 \<Longrightarrow> unat (word_of_nat n :: u64) = n"
  by (simp add: unat_of_nat take_bit_nat_eq_self)

lemma first_size:
  assumes "offset < len" "len < 2 ^ 32" "d = offset + over" "over \<le> 10000"
  shows "\<not> (word_of_nat len :: u64) \<le> word_of_nat d - word_of_nat over"
    "(word_of_nat len :: u64) - (word_of_nat d - word_of_nat over) = word_of_nat (len - offset)"
proof -
  have o: "(word_of_nat d :: u64) - word_of_nat over = word_of_nat offset" using assms(3) by simp
  show "\<not> (word_of_nat len :: u64) \<le> word_of_nat d - word_of_nat over"
    unfolding o using assms(1,2) sizes_64 [of len] sizes_64 [of offset] by (simp add: word_le_nat_alt)
  show "(word_of_nat len :: u64) - (word_of_nat d - word_of_nat over) = word_of_nat (len - offset)"
    unfolding o using assms(1) by (simp add: of_nat_diff)
qed

lemma parse_first_datagram:
  assumes acc: "acceptable st message_type target_node hops message"
    and large: "unat (mtu st) \<le> 1 + 4 + 32 + length message
      + (if hops = [] then if partner_node_id st \<noteq> target_node then 32 else 0 else 32 + 1 + length hops * 32)"
    and header: "first_header st message_type target_node hops (length message) = Inr header"
    and offset: "offset = unat (mtu st) - first_overhead st target_node hops"
    and d: "d = header @ take offset message @ sig" "length sig = 32"
  shows "\<not> is_single d" "is_first d" "offset < length message"
    "parse_first (partner_node_id st) (this_node_id st) d
      = Inr ((sent_message st message_type target_node hops message)\<lparr>rm_message := take offset message\<rparr>,
          word_of_nat (length message - offset))"
proof -
  have t: "message_type AND special_command = 0" and over: "first_overhead st target_node hops < unat (mtu st)"
    and size: "length message < 2 ^ 32" using acc by (simp_all add: acceptable_def)
  note kinds = kind_of [OF t]
  let ?i = "index_bytes (last_output_index st)" and ?s = "index_bytes (word_of_nat (length message))"
  consider (data) "hops = []" "partner_node_id st = target_node" | (route) "hops = []" "partner_node_id st \<noteq> target_node"
    | (proxy) "hops \<noteq> []" by blast
  then have "\<not> is_single d \<and> is_first d \<and> offset < length message \<and> parse_first (partner_node_id st) (this_node_id st) d
      = Inr ((sent_message st message_type target_node hops message)\<lparr>rm_message := take offset message\<rparr>,
          word_of_nat (length message - offset))"
  proof cases
    case data
    have o: "offset < length message" using data large over offset by (auto simp: first_overhead_def)
    have d': "d = (fragmented_data OR message_type) # ?i @ ?s @ take offset message @ sig"
      using header data d by (simp add: first_header_def Let_def)
    have len: "length d = offset + 41" using o d' d(2) by simp
    have "index_at 5 d = word_of_nat (length message)"
      unfolding d' using index_at_bytes [of "(fragmented_data OR message_type) # ?i" 5] by simp
    moreover have "payload_at 9 d = Inr (take offset message)"
      unfolding d' using payload_at_parts [of "(fragmented_data OR message_type) # ?i @ ?s" 9 sig] d(2) by simp
    moreover have "0 < offset" using data over offset by (simp add: first_overhead_def)
    ultimately show ?thesis using first_size [OF o size len] kinds o size_word [OF size] len data
      by (simp add: parse_first_def sent_message_def Let_def d' del: of_nat_diff)
  next
    case route
    then have target: "buffer_size target_node = 32" using acc by (simp add: acceptable_def)
    have o: "offset < length message" using route large over offset by (auto simp: first_overhead_def)
    have d': "d = (route_data OR message_type) # ?i @ ?s @ buffer_data target_node @ take offset message @ sig"
      using header route target d by (simp add: first_header_def Let_def)
    have len: "length d = offset + 73" using o d' d(2) target by simp
    have "index_at 5 d = word_of_nat (length message)"
      unfolding d' using index_at_bytes [of "(route_data OR message_type) # ?i" 5] by simp
    moreover have "slice_at 9 32 d = Inr (buffer_data target_node)"
      unfolding d' using slice_at_parts [of "(route_data OR message_type) # ?i @ ?s" 9 "buffer_data target_node" 32] target by simp
    moreover have "payload_at 41 d = Inr (take offset message)"
      unfolding d' using payload_at_parts [of "(route_data OR message_type) # ?i @ ?s @ buffer_data target_node" 41 sig] d(2) target
      by simp
    moreover have "0 < offset" using route over offset by (simp add: first_overhead_def)
    ultimately show ?thesis using first_size [OF o size len] kinds o size_word [OF size] len route target
      by (simp add: parse_first_def sent_message_def Let_def d' del: of_nat_diff)
  next
    case proxy
    let ?h = "length hops" and ?n = "word_of_nat (length hops) :: byte"
    have sizes: "buffer_size target_node = 32" "?h < 2 ^ 8" "\<forall>hop \<in> set hops. buffer_size hop = 32"
      using acc proxy by (simp_all add: acceptable_def)
    have o: "offset < length message" and o': "offset + (74 + 32 * ?h) = unat (mtu st)" "0 < offset"
      using proxy large over offset by (auto simp: first_overhead_def)
    have d': "d = (proxy_data OR message_type) # ?i @ ?s @ buffer_data target_node @ [?n] @ hops_bytes hops @ take offset message @ sig"
      using header proxy sizes d by (simp add: first_header_def Let_def)
    have len: "length d = offset + (74 + 32 * ?h)" using o d' d(2) sizes by (simp add: length_hops_bytes)
    have "?h \<noteq> 0" using proxy by simp
    moreover have "?h \<le> 1 \<or> unat (mtu st) < length message + 106"
      using acc large proxy by (auto simp: acceptable_def)
    ultimately have guard: "length d - 106 < length message" "106 \<le> length d"
      using len o o' by linarith+
    have small: "length d < 2 ^ 33" using len sizes(2) o size by simp
    have wrap: "(word_of_nat (length d) :: u64) - 106 = word_of_nat (length d - 106)" using guard(2) by (simp add: of_nat_diff)
    have no_guard: "\<not> (word_of_nat (length message) :: u64) \<le> word_of_nat (length d) - 106"
      unfolding wrap using guard(1) size small sizes_64 [of "length message"] sizes_64 [of "length d - 106"]
      by (simp add: word_le_nat_alt)
    have left: "(word_of_nat (length message) :: u64) - (word_of_nat (length d) - word_of_nat (74 + 32 * ?h))
        = word_of_nat (length message - offset)"
      by (rule first_size(2) [OF o size len]) (use sizes(2) in simp)
    have index: "index_at 5 d = word_of_nat (length message)"
      unfolding d' using index_at_bytes [of "(proxy_data OR message_type) # ?i" 5] by simp
    have target: "slice_at 9 32 d = Inr (buffer_data target_node)"
      unfolding d' using slice_at_parts [of "(proxy_data OR message_type) # ?i @ ?s" 9 "buffer_data target_node" 32] sizes by simp
    have count: "hops_count_at 41 d = Inr ?h"
      unfolding d' using hops_count_at_byte [of "(proxy_data OR message_type) # ?i @ ?s @ buffer_data target_node" 41 ?h] sizes by simp
    have hops: "hops_at ?h 42 d = Inr hops"
      unfolding d' using hops_at_bytes [of "(proxy_data OR message_type) # ?i @ ?s @ buffer_data target_node @ [?n]" 42 hops] sizes by simp
    have payload: "payload_at (42 + ?h * 32) d = Inr (take offset message)"
      unfolding d' using payload_at_parts [of "(proxy_data OR message_type) # ?i @ ?s @ buffer_data target_node @ [?n] @ hops_bytes hops"
        "42 + ?h * 32" sig] sizes d(2) by (simp add: length_hops_bytes)
    have first: "d ! 0 = proxy_data OR message_type" by (simp add: d')
    have "parse_first (partner_node_id st) (this_node_id st) d
      = Inr ((sent_message st message_type target_node hops message)\<lparr>rm_message := take offset message\<rparr>,
          word_of_nat (length message) - (word_of_nat (length d) - word_of_nat (74 + 32 * ?h)))"
      using index target count hops payload kinds no_guard size_word [OF size] len o'(2)
      by (simp add: parse_first_def sent_message_def Let_def first add.assoc)
    moreover have "\<not> is_single d" "is_first d" using kinds by (simp_all add: first)
    ultimately show ?thesis using o unfolding left by blast
  qed
  then show "\<not> is_single d" "is_first d" "offset < length message"
    "parse_first (partner_node_id st) (this_node_id st) d
      = Inr ((sent_message st message_type target_node hops message)\<lparr>rm_message := take offset message\<rparr>,
          word_of_nat (length message - offset))" by blast+
qed

text \<open>C14: The receiver checks the first datagram of a message that came over several hops as if there
  were one: with two hops or more, a message that is cut into datagrams but whose size is at most
  \<open>mtu - 106\<close> is refused with ``Invalid data''.\<close>

theorem several_hops_refused:
  assumes "2 \<le> length hops" "length hops < 2 ^ 8" "buffer_size target_node = 32" "\<forall>hop \<in> set hops. buffer_size hop = 32"
    and "length message < 2 ^ 32" "unat (mtu st) \<le> 70 + 32 * length hops + length message" "length message + 106 \<le> unat (mtu st)"
    and "message_type AND special_command = 0" "length sig = 32"
  shows "\<exists>header. first_header st message_type target_node hops (length message) = Inr header
    \<and> parse_first this partner (header @ take (unat (mtu st) - first_overhead st target_node hops) message @ sig) = Inl invalid_datagram"
proof -
  let ?i = "index_bytes (last_output_index st)" and ?s = "index_bytes (word_of_nat (length message))" and ?x = "proxy_data OR message_type"
  define header where "header = ?x # ?i @ ?s @ buffer_data target_node @ [word_of_nat (length hops)] @ hops_bytes hops"
  define d where "d = header @ take (unat (mtu st) - first_overhead st target_node hops) message @ sig"
  have ne: "hops \<noteq> []" using assms(1) by auto
  then have h: "first_header st message_type target_node hops (length message) = Inr header"
    using assms(3,4) by (simp add: first_header_def header_def Let_def)
  have "unat (mtu st) < 2 ^ LENGTH(16)" by (rule unsigned_less)
  then have mtu: "unat (mtu st) < 2 ^ 16" by simp
  then have small: "length message + 106 < 2 ^ 33" using assms(7) by simp
  have len: "length message + 106 \<le> length d" "length d < 2 ^ 33"
    using assms(1,2,3,4,6,7,9) mtu ne by (auto simp: d_def header_def length_hops_bytes first_overhead_def min_def)
  have "(word_of_nat (length d) :: u64) - 106 = word_of_nat (length d - 106)" using len(1) by (simp add: of_nat_diff)
  then have "(word_of_nat (length message) :: u64) \<le> word_of_nat (length d) - 106"
    using len small sizes_64 [of "length message"] sizes_64 [of "length d - 106"] by (simp add: word_le_nat_alt)
  moreover have "index_at 5 d = word_of_nat (length message)"
    unfolding d_def header_def using index_at_bytes [of "?x # ?i" 5] by simp
  moreover have "d ! 0 = ?x" by (simp add: d_def header_def)
  ultimately have "parse_first this partner d = Inl invalid_datagram"
    using kind_of(1) [OF assms(8)] len(1) size_word [OF assms(5)] by (simp add: parse_first_def Let_def)
  then show ?thesis using h by (auto simp: d_def)
qed

theorem several_hops_refused_witness:
  "\<exists>header. first_header (set_mtu 200 (new_protocol 0 0 (Data_buffer [1]) (Data_buffer [2]) (Data_buffer []))) 5
      (Data_buffer (replicate 32 3)) (replicate 2 (Data_buffer (replicate 32 4))) 80 = Inr header
    \<and> parse_first (Data_buffer [2]) (Data_buffer [1]) (header @ take 62 (replicate 80 9) @ replicate 32 1) = Inl invalid_datagram"
  using several_hops_refused [of "replicate 2 (Data_buffer (replicate 32 4))" "Data_buffer (replicate 32 3)" "replicate 80 9"
      "set_mtu 200 (new_protocol 0 0 (Data_buffer [1]) (Data_buffer [2]) (Data_buffer []))" 5 "replicate 32 1"
      "Data_buffer [2]" "Data_buffer [1]"]
  by (simp add: set_mtu_def new_protocol_def first_overhead_def)

section \<open>A message in datagrams\<close>

lemma parts_length: "\<forall>c \<in> set cs. 37 < length c \<Longrightarrow> sum_list (map part_length cs) = length (concat (map part_of cs))"
  by (induction cs) (auto simp: part_length_def part_of_def)

lemma framed_Cons:
  assumes "cs \<noteq> []" "\<not> is_single d" "is_first d" "\<forall>c \<in> set cs. c ! 0 = continue_data \<and> 37 < length c"
    and "sum_list (map part_length cs) < 2 ^ 32"
    and "parse_first this partner d = Inr (m0, word_of_nat (sum_list (map part_length cs)))"
    and "m = m0\<lparr>rm_message := rm_message m0 @ concat (map part_of cs)\<rparr>"
  shows "framed this partner (d # cs) m"
  unfolding framed_def list.case using assms by (simp only: if_False) blast

lemma prepare_to_send_framed:
  assumes hmac: "hmac_ok env (session_key st)" and acc: "acceptable st message_type target_node hops message"
    and run: "prepare_to_send env now message_type target_node hops message st = (Inr (i, f), st')"
  shows "\<exists>ds. st' = fold (push_datagram now) ds st \<and> length ds < 2 ^ 32
    \<and> framed (partner_node_id st) (this_node_id st) ds (sent_message st message_type target_node hops message)
    \<and> (\<forall>j < length ds. datagram_ok env (session_key st) (last_output_index st + word_of_nat j) (ds ! j))
    \<and> i = last_output_index st \<and> f = last_output_index st' \<and> i < f"
proof -
  define total where "total = 1 + 4 + 32 + length message
    + (if hops = [] then if partner_node_id st \<noteq> target_node then 32 else 0 else 32 + 1 + length hops * 32)"
  define finish where "finish = (\<lambda>(_ :: unit) (st' :: datagram_protocol). if last_output_index st < last_output_index st'
    then (Inr (last_output_index st, last_output_index st') :: (u32 \<times> u32) expected, st')
    else (Inl (Assertion_failed ''start_index < this->last_output_index_''), st'))"
  have finished: "last_output_index st < last_output_index st'" "i = last_output_index st" "f = last_output_index st'" "s = st'"
    if "finish u s = (Inr (i, f), st')" for u s
    using that by (auto simp: finish_def split: if_splits)
  have t: "message_type AND special_command = 0" using acc by (simp add: acceptable_def)
  note kinds = kind_of [OF t]
  show ?thesis
  proof (cases "total < unat (mtu st)")
    case True
    let ?b = "single_datagram st message_type target_node hops message"
    obtain st1 where q: "queue_datagram env now ?b st = (Inr (), st1)" and fin: "finish () st1 = (Inr (i, f), st')"
      using run True unfolding prepare_to_send_def Let_def total_def [symmetric] finish_def [symmetric]
      by (auto simp: bind_step_def finish_def split: prod.splits sum.splits)
    from queue_datagram_pushes [OF hmac q] obtain d where d: "st1 = push_datagram now d st"
      "signed_datagram env (session_key st) ?b d" "length d \<le> unat (mtu st)" by blast
    then obtain sig where sig: "d = ?b @ sig" "length sig = 32" by (auto simp: signed_datagram_def)
    note single = parse_single_datagram [OF acc sig(2), folded sig(1)]
    have shape: "?b = hd ?b # index_bytes (last_output_index st) @ drop 5 ?b"
      by (simp add: single_datagram_def index_bytes_def)
    have "hd ?b = d ! 0" using sig shape by (metis append_Cons nth_Cons_0)
    then have "datagram_ok env (session_key st) (last_output_index st) d"
      using d shape single(1) by (intro datagram_ok_signed [of env _ "hd ?b" _ "drop 5 ?b"]) auto
    then show ?thesis using d(1) single finished [OF fin] by (intro exI [of _ "[d]"]) (simp add: framed_def)
  next
    case False
    obtain header where header: "first_header st message_type target_node hops (length message) = Inr header"
      using run False unfolding prepare_to_send_def Let_def total_def [symmetric] by (auto split: sum.splits)
    define offset where "offset = unat (mtu st) - first_overhead st target_node hops"
    have over: "first_overhead st target_node hops < unat (mtu st)" using acc by (simp add: acceptable_def)
    obtain st1 st2 where q: "queue_datagram env now (header @ take offset message) st = (Inr (), st1)"
      and rest: "queue_rest env now message offset st1 = (Inr (), st2)" and fin: "finish () st2 = (Inr (i, f), st')"
      using run False over header unfolding prepare_to_send_def Let_def total_def [symmetric] finish_def [symmetric] offset_def [symmetric]
      by (auto simp: bind_step_def finish_def split: prod.splits sum.splits)
    from queue_datagram_pushes [OF hmac q] obtain d where d: "st1 = push_datagram now d st"
      "signed_datagram env (session_key st) (header @ take offset message) d" "length d \<le> unat (mtu st)" by blast
    then obtain sig where sig: "d = header @ take offset message @ sig" "length sig = 32" by (auto simp: signed_datagram_def)
    have large: "unat (mtu st) \<le> total" using False by simp
    note first = parse_first_datagram [OF acc large [unfolded total_def] header offset_def sig]
    obtain x r where shape: "header @ take offset message = x # index_bytes (last_output_index st) @ r"
      using header by (auto simp: first_header_def Let_def vds_assert_def split: if_splits)
    have "x = d ! 0" using sig shape by (metis append_Cons append_assoc nth_Cons_0)
    then have ok: "datagram_ok env (session_key st) (last_output_index st) d"
      using d shape first(2) by (intro datagram_ok_signed [of env _ x _ r]) auto
    have "hmac_ok env (session_key st1)" "37 < unat (mtu st1)" using hmac over d(1) by (auto simp: first_overhead_def split: if_splits)
    from queue_rest_pushes [OF this first(3) rest] d(1) obtain cs where cs: "st2 = fold (push_datagram now) cs (push_datagram now d st)"
      "cs \<noteq> []" "length cs \<le> length message - offset" "\<forall>c \<in> set cs. c ! 0 = continue_data \<and> 37 < length c"
      "concat (map part_of cs) = drop offset message"
      "\<forall>j < length cs. datagram_ok env (session_key st) (last_output_index st + 1 + word_of_nat j) (cs ! j)" by auto
    have sum: "sum_list (map part_length cs) = length message - offset" using cs(4,5) parts_length [of cs] by simp
    have "length message < 2 ^ 32" "0 < offset" using acc over by (simp_all add: acceptable_def offset_def)
    then have small: "length (d # cs) < 2 ^ 32" "sum_list (map part_length cs) < 2 ^ 32" using cs(3) sum first(3) by simp_all
    have "framed (partner_node_id st) (this_node_id st) (d # cs) (sent_message st message_type target_node hops message)"
      by (rule framed_Cons [OF cs(2) first(1,2) cs(4) small(2) first(4) [folded sum]])
        (simp add: sent_message_def cs(5))
    moreover have "\<forall>j < length (d # cs). datagram_ok env (session_key st) (last_output_index st + word_of_nat j) ((d # cs) ! j)"
      using ok cs(6) by (auto simp: nth_Cons add.assoc split: nat.splits)
    ultimately show ?thesis using cs(1) small(1) finished [OF fin] by (intro exI [of _ "d # cs"]) simp
  qed
qed

end
