(* ===== verification/Datagram_delivery.thy ===== *)
theory Datagram_delivery
  imports Datagram_sender
begin

text \<open>
  Sender and receiver together: what one session sends, the other hands over once, whole and in order,
  over a transport that may lose, repeat and reorder datagrams.
\<close>

section \<open>The queue after sending\<close>

lemma emplace_output_lookup:
  "map_of (emplace_output i m ms) = (if map_of ms i = None then (map_of ms)(i \<mapsto> m) else map_of ms)"
  by (simp add: emplace_output_def map_of_map_put)

lemma push_lookup:
  "map_of (output_messages (push_datagram now d st)) = (if map_of (output_messages st) (last_output_index st) = None
     then (map_of (output_messages st))(last_output_index st \<mapsto> \<lparr>om_queue_time = now, om_data = d\<rparr>)
     else map_of (output_messages st))"
  by (simp add: push_datagram_def emplace_output_lookup)

definition fresh_from :: "nat \<Rightarrow> datagram_protocol \<Rightarrow> bool" where
  "fresh_from n st \<longleftrightarrow> last_output_index st = word_of_nat n \<and> (\<forall>i. n \<le> i \<and> i < 2 ^ 32 \<longrightarrow> map_of (output_messages st) (word_of_nat i) = None)"

lemma word_of_nat_u32_eq: "a < 2 ^ 32 \<Longrightarrow> b < 2 ^ 32 \<Longrightarrow> (word_of_nat a :: u32) = word_of_nat b \<longleftrightarrow> a = b"
  by (metis unat_index)

lemma fold_push_lookup:
  assumes "fresh_from n st" "n + length ds < 2 ^ 32"
  shows "fresh_from (n + length ds) (fold (push_datagram now) ds st)
    \<and> (\<forall>i < 2 ^ 32. map_of (output_messages (fold (push_datagram now) ds st)) (word_of_nat i)
        = (if n \<le> i \<and> i < n + length ds then Some \<lparr>om_queue_time = now, om_data = ds ! (i - n)\<rparr>
           else map_of (output_messages st) (word_of_nat i)))"
  using assms
proof (induction ds arbitrary: n st)
  case (Cons d ds)
  let ?st = "push_datagram now d st"
  have n: "n < 2 ^ 32" using Cons.prems(2) by simp
  have look: "map_of (output_messages ?st) = (map_of (output_messages st))(word_of_nat n \<mapsto> \<lparr>om_queue_time = now, om_data = d\<rparr>)"
    using Cons.prems(1) n by (simp add: push_lookup fresh_from_def)
  have "fresh_from (Suc n) ?st"
    using Cons.prems(1) n look word_of_nat_u32_eq by (auto simp: fresh_from_def of_nat_Suc [symmetric] add.commute simp del: of_nat_Suc)
  then have IH: "fresh_from (Suc n + length ds) (fold (push_datagram now) ds ?st)"
    "i < 2 ^ 32 \<Longrightarrow> map_of (output_messages (fold (push_datagram now) ds ?st)) (word_of_nat i)
        = (if Suc n \<le> i \<and> i < Suc n + length ds then Some \<lparr>om_queue_time = now, om_data = ds ! (i - Suc n)\<rparr>
           else map_of (output_messages ?st) (word_of_nat i))" for i
    using Cons.IH [of "Suc n" ?st] Cons.prems(2) by auto
  show ?case
  proof (intro conjI allI impI)
    show "fresh_from (n + length (d # ds)) (fold (push_datagram now) (d # ds) st)" using IH(1) by simp
    fix i assume i: "(i :: nat) < 2 ^ 32"
    consider "i = n" | "Suc n \<le> i \<and> i < Suc n + length ds" | "i \<noteq> n \<and> \<not> (Suc n \<le> i \<and> i < Suc n + length ds)" by blast
    then show "map_of (output_messages (fold (push_datagram now) (d # ds) st)) (word_of_nat i)
        = (if n \<le> i \<and> i < n + length (d # ds) then Some \<lparr>om_queue_time = now, om_data = (d # ds) ! (i - n)\<rparr>
           else map_of (output_messages st) (word_of_nat i))"
    proof cases
      case 1
      then show ?thesis using IH(2) [OF i] look by simp
    next
      case 2
      then have "(d # ds) ! (i - n) = ds ! (i - Suc n)" by (simp add: nth_Cons')
      then show ?thesis using 2 IH(2) [OF i] by simp
    next
      case 3
      then have "map_of (output_messages ?st) (word_of_nat i) = map_of (output_messages st) (word_of_nat i)"
        using look word_of_nat_u32_eq [OF i n] by simp
      then show ?thesis using 3 IH(2) [OF i] by auto
    qed
  qed
qed auto

text \<open>\<open>write_range\<close> writes what is queued, and only that.\<close>

lemma write_range_writes:
  assumes "n + length ds < 2 ^ 32"
    and "\<forall>j < length ds. \<exists>t. map_of (output_messages st) (word_of_nat (n + j)) = Some \<lparr>om_queue_time = t, om_data = ds ! j\<rparr>"
    and "write_range env (word_of_nat n) (word_of_nat (n + length ds)) st = (Inr (), st')"
  shows "st' = st\<lparr>written := written st @ ds\<rparr>"
  using assms
proof (induction ds arbitrary: n st)
  case Nil
  then show ?case by (subst (asm) write_range.simps) simp
next
  case (Cons d ds)
  have less: "(word_of_nat n :: u32) < word_of_nat (n + length (d # ds))"
    using Cons.prems(1) index_less [of n "n + length (d # ds)"] by simp
  obtain t where t: "map_of (output_messages st) (word_of_nat n) = Some \<lparr>om_queue_time = t, om_data = d\<rparr>"
    using Cons.prems(2) by (auto dest: spec [of _ 0])
  have run: "write_range env (word_of_nat (Suc n)) (word_of_nat (Suc n + length ds)) (st\<lparr>written := written st @ [d]\<rparr>) = (Inr (), st')"
    using Cons.prems(3) less t by (subst (asm) write_range.simps)
      (auto simp: bind_step_def write_async_def add.commute split: sum.splits)
  have "\<forall>j < length ds. \<exists>t. map_of (output_messages (st\<lparr>written := written st @ [d]\<rparr>)) (word_of_nat (Suc n + j))
      = Some \<lparr>om_queue_time = t, om_data = ds ! j\<rparr>"
    using Cons.prems(2) unfolding length_Cons All_less_Suc2 by simp
  from Cons.IH [OF _ this run] Cons.prems(1) show ?case by simp
qed

section \<open>Sending\<close>

text \<open>The sender \<open>this\<close> has written the stream \<open>gs\<close> to \<open>partner\<close>.\<close>

definition sending :: "protocol_env \<Rightarrow> const_data_buffer \<Rightarrow> const_data_buffer \<Rightarrow> const_data_buffer \<Rightarrow> u16 \<Rightarrow> stream \<Rightarrow>
    datagram_protocol \<Rightarrow> bool" where
  "sending env key this partner m gs st \<longleftrightarrow> session_key st = key \<and> this_node_id st = this \<and> partner_node_id st = partner \<and> mtu st = m
     \<and> stream_ok env key partner this gs \<and> fresh_from (length (datagrams gs)) st \<and> written st = datagrams gs"

lemma datagrams_snoc: "datagrams (gs @ [(ds, m)]) = datagrams gs @ ds"
  by (simp add: datagrams_def)

lemma datagram_ok_numbered: "datagram_ok env key (word_of_nat i) d \<Longrightarrow> numbered env key i d"
  by (simp add: datagram_ok_def numbered_def)

lemma stream_ok_snoc:
  assumes "stream_ok env key partner this gs" "framed partner this ds m" "length (datagrams gs) + length ds < 2 ^ 32"
    and "\<forall>j < length ds. datagram_ok env key (word_of_nat (length (datagrams gs)) + word_of_nat j) (ds ! j)"
  shows "stream_ok env key partner this (gs @ [(ds, m)])"
proof -
  have "numbered env key i (ds ! (i - length (datagrams gs)))"
    if "length (datagrams gs) \<le> i" "i < length (datagrams gs) + length ds" for i
  proof -
    define j where "j = i - length (datagrams gs)"
    then have j: "i = length (datagrams gs) + j" using that(1) by simp
    moreover from this have "j < length ds" using that(2) by simp
    ultimately have "datagram_ok env key (word_of_nat i) (ds ! j)" using assms(4) by simp
    then show ?thesis using datagram_ok_numbered j by simp
  qed
  moreover have "numbered env key i (datagrams gs ! i)" if "i < length (datagrams gs)" for i
    using assms(1) that by (simp add: stream_ok_def)
  ultimately have "\<forall>i < length (datagrams gs @ ds). numbered env key i ((datagrams gs @ ds) ! i)"
    by (simp add: nth_append)
  moreover have "\<forall>(ds, m) \<in> set (gs @ [(ds, m)]). framed partner this ds m"
    using assms(1,2) by (simp add: stream_ok_def)
  ultimately show ?thesis using assms(3) unfolding stream_ok_def datagrams_snoc by simp
qed

lemma send_message_async_sends:
  assumes hmac: "hmac_ok env key" and s: "sending env key this partner m gs st"
    and acc: "acceptable st message_type target_node hops message"
    and run: "send_message_async env now message_type target_node hops message st = (Inr (), st')"
  shows "\<exists>ds. sending env key this partner m (gs @ [(ds, sent_message st message_type target_node hops message)]) st'"
proof -
  obtain i f st1 where prep: "prepare_to_send env now message_type target_node hops message st = (Inr (i, f), st1)"
    and wr: "write_range env i f st1 = (Inr (), st')"
    using run by (auto simp: send_message_async_def bind_step_def split: prod.splits sum.splits)
  have key: "session_key st = key" using s by (simp add: sending_def)
  from prepare_to_send_framed [OF _ acc prep] hmac key
  obtain ds where ds: "st1 = fold (push_datagram now) ds st" "length ds < 2 ^ 32"
    "framed (partner_node_id st) (this_node_id st) ds (sent_message st message_type target_node hops message)"
    "\<forall>j < length ds. datagram_ok env (session_key st) (last_output_index st + word_of_nat j) (ds ! j)"
    "i = last_output_index st" "f = last_output_index st1" "i < f" by blast
  let ?n = "length (datagrams gs)"
  have fresh: "fresh_from ?n st" and ok: "stream_ok env key partner this gs" using s by (simp_all add: sending_def)
  then have i: "i = word_of_nat ?n" and f: "f = word_of_nat (?n + length ds)" using ds by (simp_all add: fresh_from_def)
  have n: "?n < 2 ^ 32" using ok by (simp add: stream_ok_def)
  have bound: "?n + length ds < 2 ^ 32"
  proof (rule ccontr)
    assume no: "\<not> ?n + length ds < 2 ^ 32"
    have "unat f = (?n + length ds) mod 2 ^ 32" unfolding f by (simp add: unat_of_nat take_bit_eq_mod del: of_nat_add)
    also have "\<dots> = ?n + length ds - 2 ^ 32" using no n ds(2) by (simp add: mod_if)
    finally have "unat f < ?n" using ds(2) no n by linarith
    moreover have "unat i = ?n" unfolding i using n by (rule unat_index)
    ultimately show False using ds(7) by (simp add: word_less_nat_alt)
  qed
  note look = fold_push_lookup [OF fresh bound, of now, folded ds(1)]
  have "\<forall>j < length ds. \<exists>t. map_of (output_messages st1) (word_of_nat (?n + j)) = Some \<lparr>om_queue_time = t, om_data = ds ! j\<rparr>"
  proof (intro allI impI)
    fix j assume j: "j < length ds"
    show "\<exists>t. map_of (output_messages st1) (word_of_nat (?n + j)) = Some \<lparr>om_queue_time = t, om_data = ds ! j\<rparr>"
      using look [THEN conjunct2, rule_format, of "?n + j"] j bound by (simp del: of_nat_add)
  qed
  then have st': "st' = st1\<lparr>written := written st1 @ ds\<rparr>"
    by (rule write_range_writes [OF bound _ wr [unfolded i f]])
  have "stream_ok env key partner this (gs @ [(ds, sent_message st message_type target_node hops message)])"
    using ds(3,4) fresh s bound by (intro stream_ok_snoc [OF ok]) (simp_all add: sending_def fresh_from_def)
  then show ?thesis using s look unfolding sending_def st' ds(1)
    by (intro exI [of _ ds]) (simp add: fresh_from_def datagrams_snoc add.commute)
qed

text \<open>A request is a type, a target, the hops of a message that is passed on, and the message.\<close>

type_synonym send_request = "byte \<times> const_data_buffer \<times> const_data_buffer list \<times> byte list"

fun send_request :: "protocol_env \<Rightarrow> int \<Rightarrow> send_request \<Rightarrow> unit protocol_step" where
  "send_request env now (message_type, target_node, hops, message) =
     (if hops = [] then send_message env now message_type target_node (Inr message)
      else proxy_message env now message_type target_node hops message)"

fun send_all :: "protocol_env \<Rightarrow> int \<Rightarrow> send_request list \<Rightarrow> unit protocol_step" where
  "send_all env now [] = return_step ()"
| "send_all env now (r # rs) = bind_step (send_request env now r) (\<lambda>_. send_all env now rs)"

definition acceptable_request :: "datagram_protocol \<Rightarrow> send_request \<Rightarrow> bool" where
  "acceptable_request st = (\<lambda>(t, target, hops, message). acceptable st t target hops message)"

definition expected_message :: "const_data_buffer \<Rightarrow> send_request \<Rightarrow> received_message" where
  "expected_message this = (\<lambda>(t, target, hops, message).
     \<lparr>rm_message_type = t, rm_target_node = target, rm_hops = this # hops, rm_message = message\<rparr>)"

lemma acceptable_mtu: "mtu st = mtu st' \<Longrightarrow> partner_node_id st = partner_node_id st' \<Longrightarrow> acceptable_request st = acceptable_request st'"
  by (simp add: acceptable_request_def acceptable_def first_overhead_def cong: if_cong)

lemma sending_count_sent: "sending env key this partner m gs (count_sent a b c d st) = sending env key this partner m gs st"
  by (simp add: sending_def fresh_from_def count_sent_def Let_def)

lemma count_sent_fields [simp]:
  "mtu (count_sent a b c d st) = mtu st" "partner_node_id (count_sent a b c d st) = partner_node_id st"
  "this_node_id (count_sent a b c d st) = this_node_id st"
  by (simp_all add: count_sent_def Let_def)

lemma send_request_sends:
  assumes "hmac_ok env key" "sending env key this partner m gs st" "acceptable_request st r"
    and "send_request env now r st = (Inr (), st')"
  shows "\<exists>ds. sending env key this partner m (gs @ [(ds, expected_message this r)]) st'"
proof -
  obtain t target hops message where r: "r = (t, target, hops, message)" by (cases r)
  obtain a where run: "send_message_async env now t target hops message (count_sent a target t (length message) st) = (Inr (), st')"
    using assms(4) by (auto simp: r send_message_def proxy_message_def assert_step_def fail_step_def split: if_splits)
  have "acceptable (count_sent a target t (length message) st) t target hops message"
    using assms(3) acceptable_mtu [of "count_sent a target t (length message) st" st] by (simp add: acceptable_request_def r fun_eq_iff)
  moreover have "sending env key this partner m gs (count_sent a target t (length message) st)"
    using assms(2) by (simp add: sending_count_sent)
  ultimately obtain ds where "sending env key this partner m
      (gs @ [(ds, sent_message (count_sent a target t (length message) st) t target hops message)]) st'"
    using send_message_async_sends [OF assms(1) _ _ run] by blast
  moreover have "this_node_id st = this" using assms(2) by (simp add: sending_def)
  ultimately show ?thesis by (auto simp: expected_message_def r sent_message_def)
qed

lemma send_all_sends:
  assumes "hmac_ok env key"
  shows "sending env key this partner m gs st \<Longrightarrow> \<forall>r \<in> set rs. acceptable_request st r \<Longrightarrow> send_all env now rs st = (Inr (), st') \<Longrightarrow>
    \<exists>hs. sending env key this partner m (gs @ hs) st' \<and> map snd hs = map (expected_message this) rs"
proof (induction rs arbitrary: gs st)
  case Nil
  then show ?case by (intro exI [of _ "[]"]) (simp add: return_step_def)
next
  case (Cons r rs)
  obtain st1 where run: "send_request env now r st = (Inr (), st1)" "send_all env now rs st1 = (Inr (), st')"
    using Cons.prems(3) by (auto simp: bind_step_def split: prod.splits sum.splits)
  from send_request_sends [OF assms Cons.prems(1) _ run(1)] Cons.prems(2)
  obtain ds where ds: "sending env key this partner m (gs @ [(ds, expected_message this r)]) st1" by auto
  have "acceptable_request st1 = acceptable_request st" using Cons.prems(1) ds by (intro acceptable_mtu) (auto simp: sending_def)
  then obtain hs where "sending env key this partner m ((gs @ [(ds, expected_message this r)]) @ hs) st'"
    "map snd hs = map (expected_message this) rs" using Cons.IH [OF ds _ run(2)] Cons.prems(2) by auto
  then show ?case by (intro exI [of _ "(ds, expected_message this r) # hs"]) simp
qed

text \<open>C13: Between two new sessions with the same key, whatever part of the datagrams arrives, in whatever
  order and however often, the receiver hands over a prefix of the messages sent: none is invented,
  changed, repeated or put before an earlier one; and once every datagram has arrived, all of them. The
  messages must be acceptable, and what arrives must do so within ten minutes.\<close>

theorem datagrams_delivered_in_order:
  assumes "hmac_ok env key"
    and "sender = set_mtu m (new_protocol time clock a b key)"
    and "\<forall>r \<in> set requests. acceptable_request sender r"
    and "send_all env now requests sender = (Inr (), sender')"
    and "\<forall>(at, d) \<in> set arrivals. time' \<le> at \<and> at \<le> time' + 10 * 60 * 1000 \<and> d \<in> set (written sender')"
  shows "\<exists>k. processed (receive_all env arrivals (new_protocol time' clock' b a key)) = map (expected_message a) (take k requests)
    \<and> (snd ` set arrivals = set (written sender') \<longrightarrow>
        processed (receive_all env arrivals (new_protocol time' clock' b a key)) = map (expected_message a) requests)"
proof -
  have "sending env key a b m [] sender"
    by (simp add: assms(2) sending_def set_mtu_def new_protocol_def fresh_from_def stream_ok_def datagrams_def)
  from send_all_sends [OF assms(1) this assms(3,4)] obtain gs where gs: "sending env key a b m gs sender'"
    "map snd gs = map (expected_message a) requests" by auto
  then have "stream_ok env key b a gs" "written sender' = datagrams gs" by (simp_all add: sending_def)
  with receive_all_prefix [of env key b a gs arrivals time' "new_protocol time' clock' b a key"] assms(5)
  obtain k where "processed (receive_all env arrivals (new_protocol time' clock' b a key)) = map snd (take k gs)"
    "snd ` set arrivals = set (written sender') \<longrightarrow>
      processed (receive_all env arrivals (new_protocol time' clock' b a key)) = map snd gs"
    by (auto simp: new_protocol_def ready_def)
  moreover have "map snd (take k gs) = map (expected_message a) (take k requests)" using gs(2) by (simp flip: take_map)
  ultimately show ?thesis using gs(2) by auto
qed

definition sample_net :: protocol_env where
  "sample_net = \<lparr>hmac_signature = (\<lambda>_ _. Inr (Data_buffer (replicate 32 1))), hmac_verify = (\<lambda>_ _ sig. sig = replicate 32 1),
     write_result = (\<lambda>_. Inr ()), message_good = (\<lambda>_. True), heap = (\<lambda>_. 0)\<rparr>"

definition sample_requests :: "send_request list" where
  "sample_requests = [(5, Data_buffer [2], [], [1, 2, 3]), (6, Data_buffer [2], [], replicate 40 9)]"

definition sample_sender :: datagram_protocol where
  "sample_sender = set_mtu 60 (new_protocol 0 0 (Data_buffer [1]) (Data_buffer [2]) (Data_buffer []))"

text \<open>A short message and one in two datagrams, which arrive in the reverse order and twice.\<close>

theorem datagrams_delivered_in_order_witness:
  "let ds = written (snd (send_all sample_net 0 sample_requests sample_sender))
   in length ds = 3 \<and> processed (receive_all sample_net (map (Pair 7) (rev ds @ ds))
        (new_protocol 7 0 (Data_buffer [2]) (Data_buffer [1]) (Data_buffer [])))
      = map (expected_message (Data_buffer [1])) sample_requests"
proof -
  define r where "r = send_all sample_net 0 sample_requests sample_sender"
  have "fst r = Inr ()" unfolding r_def by code_simp
  then have run: "send_all sample_net 0 sample_requests sample_sender = (Inr (), snd r)"
    by (simp add: prod_eq_iff flip: r_def)
  have hmac: "hmac_ok sample_net (Data_buffer [])" by (simp add: hmac_ok_def sample_net_def)
  have acc: "\<forall>r \<in> set sample_requests. acceptable_request sample_sender r"
    by (simp add: sample_requests_def sample_sender_def acceptable_request_def acceptable_def first_overhead_def set_mtu_def new_protocol_def)
  have "length (written (snd r)) = 3" unfolding r_def by code_simp
  moreover have "snd ` set (map (Pair (7 :: int)) (rev (written (snd r)) @ written (snd r))) = set (written (snd r))"
    by (auto simp: image_image)
  ultimately show ?thesis
    using datagrams_delivered_in_order [OF hmac sample_sender_def acc run,
        of "map (Pair 7) (rev (written (snd r)) @ written (snd r))" 7 0]
    by (auto simp: r_def Let_def)
qed

end
