(* ===== verification/Datagram_acknowledgment.thy ===== *)
theory Datagram_acknowledgment
  imports Datagram_delivery
begin

text \<open>
  What an acknowledgment says, and what the other side does with it: it drops what has arrived and sends
  again what is missing.
\<close>

section \<open>The mask of missing datagrams\<close>

definition missing :: "datagram_protocol \<Rightarrow> nat \<Rightarrow> bool" where
  "missing st j \<longleftrightarrow> map_of (input_messages st) (last_input_index st + word_of_nat j) = None"

lemma bit_missing_mask:
  "n \<le> 32 \<Longrightarrow> bit (missing_mask n st bits) j \<longleftrightarrow> j < 32 \<and> (if j < n then missing st (Suc j) else bit bits (j - n))"
proof (induction n arbitrary: bits)
  case 0
  then show ?case by (auto dest: bit_imp_le_length)
next
  case (Suc n)
  have *: "bit (push_bit 1 bits OR (if map_of (input_messages st) (last_input_index st + word_of_nat (Suc n)) = None then 1 else 0)) i
      \<longleftrightarrow> i < 32 \<and> (if i = 0 then missing st (Suc n) else bit bits (i - 1))" for i
  proof -
    have "bit (push_bit 1 bits) i \<longleftrightarrow> i < 32 \<and> i \<noteq> 0 \<and> bit bits (i - 1)"
      by (subst bit_push_bit_iff) (auto dest: bit_imp_le_length)
    then show ?thesis unfolding missing_def by (auto simp: bit_or_iff bit_1_iff simp del: push_bit_of_1)
  qed
  show ?case
    unfolding missing_mask.simps Suc.IH [OF Suc_leD [OF Suc.prems]] * using Suc.prems by (auto simp: less_Suc_eq)
qed

lemma acknowledgment_fields:
  "length (acknowledgment_datagram st) = 11" "index_at 1 (acknowledgment_datagram st) = last_input_index st"
  "index_at 5 (acknowledgment_datagram st) = missing_mask 32 st 0"
  "push_bit 8 (ucast (acknowledgment_datagram st ! 9)) OR ucast (acknowledgment_datagram st ! 10) = input_mtu st"
proof -
  let ?i = "index_bytes (last_input_index st)" and ?m = "index_bytes (missing_mask 32 st 0)"
  let ?e = "[ucast (drop_bit 8 (input_mtu st)), ucast (input_mtu st AND 0xFF)] :: byte list"
  have d: "acknowledgment_datagram st = [acknowledgment] @ ?i @ ?m @ ?e" by (simp add: acknowledgment_datagram_def)
  show "length (acknowledgment_datagram st) = 11" by (simp add: d)
  show "index_at 1 (acknowledgment_datagram st) = last_input_index st"
    unfolding d by (rule index_at_bytes) simp
  show "index_at 5 (acknowledgment_datagram st) = missing_mask 32 st 0"
    unfolding d using index_at_bytes [of "[acknowledgment] @ ?i" 5 "missing_mask 32 st 0" ?e] by simp
  have e: "acknowledgment_datagram st ! 9 = ?e ! 0" "acknowledgment_datagram st ! 10 = ?e ! 1"
    unfolding d by (simp_all add: nth_append)
  show "push_bit 8 (ucast (acknowledgment_datagram st ! 9)) OR ucast (acknowledgment_datagram st ! 10) = input_mtu st"
    unfolding e by (rule bit_word_eqI) (auto simp: bit_simps ucast_and_FF)
qed

section \<open>Dropping and sending again\<close>

lemma drop_acknowledged_filter:
  "output_messages st = ms \<Longrightarrow> sorted_wrt (<) (map fst ms) \<Longrightarrow>
    output_messages (drop_acknowledged now i ms st) = filter (\<lambda>(j, _). i \<le> j) ms
    \<and> written (drop_acknowledged now i ms st) = written st \<and> mtu (drop_acknowledged now i ms st) = mtu st"
proof (induction ms arbitrary: st)
  case (Cons p ms)
  obtain j m where p: "p = (j, m)" by (cases p)
  show ?case
  proof (cases "j < i")
    case True
    then show ?thesis using Cons by (simp add: p)
  next
    case False
    then have "\<forall>(k, _) \<in> set ms. i \<le> k" using Cons.prems p by fastforce
    then show ?thesis using False Cons.prems by (auto simp: p filter_id_conv)
  qed
qed simp

definition queued :: "datagram_protocol \<Rightarrow> u32 \<Rightarrow> byte list list" where
  "queued st i = (case map_of (output_messages st) i of None \<Rightarrow> [] | Some m \<Rightarrow> [om_data m])"

lemma resend_mask_writes:
  assumes "\<forall>d. write_result env d = Inr ()"
  shows "\<exists>t. resend_mask n env i bits st = (Inr (), st\<lparr>service_traffic := t,
    written := written st @ concat (map (\<lambda>j. if bit bits j then queued st (i + word_of_nat j) else []) [0..<n])\<rparr>)"
proof (induction n arbitrary: i bits st)
  case 0
  show ?case by (rule exI [of _ "service_traffic st"]) simp
next
  case (Suc n)
  let ?f = "\<lambda>j. if bit bits j then queued st (i + word_of_nat j) else []"
  have upt: "concat (map ?f [0..<Suc n])
      = ?f 0 @ concat (map (\<lambda>j. if bit (drop_bit 1 bits) j then queued st ((i + 1) + word_of_nat j) else []) [0..<n])"
  proof -
    have e: "i + word_of_nat (Suc x) = (i + 1) + word_of_nat x" for x by simp
    show ?thesis by (simp add: e upt_conv_Cons map_Suc_upt [symmetric] comp_def bit_drop_bit_eq del: upt_Suc of_nat_Suc cong: if_cong)
  qed
  show ?case
  proof (cases "bits = 0")
    case True
    then show ?thesis by (intro exI [of _ "service_traffic st"]) simp
  next
    case False
    have one: "bits AND 1 = 1 \<longleftrightarrow> bit bits 0" by (simp add: and_one_eq odd_iff_mod_2_eq_one bit_0)
    obtain s where "(case map_of (output_messages st) i of
             Some m \<Rightarrow> if bits AND 1 = 1 then resend env (om_data m) else return_step ()
           | None \<Rightarrow> return_step ()) st = (Inr (), st\<lparr>service_traffic := s, written := written st @ ?f 0\<rparr>)"
    proof (cases "bit bits 0 \<and> queued st i \<noteq> []")
      case True
      then obtain m where "map_of (output_messages st) i = Some m" by (auto simp: queued_def split: option.splits)
      then show thesis using that [of "service_traffic st + length (om_data m)"] assms True unfolding one
        by (auto simp: queued_def resend_def bind_step_def write_async_def modify_step_def)
    next
      case False
      have "st = st\<lparr>service_traffic := service_traffic st, written := written st @ []\<rparr>" by simp
      then show thesis using that [of "service_traffic st"] False unfolding one
        by (auto simp: queued_def return_step_def split: option.splits)
    qed
    note first = this
    let ?st = "st\<lparr>service_traffic := s, written := written st @ ?f 0\<rparr>"
    have q: "queued ?st = queued st" by (simp add: queued_def fun_eq_iff)
    from Suc.IH [of "i + 1" "drop_bit 1 bits" ?st] obtain t where rest: "resend_mask n env (i + 1) (drop_bit 1 bits) ?st
      = (Inr (), ?st\<lparr>service_traffic := t, written := written ?st
          @ concat (map (\<lambda>j. if bit (drop_bit 1 bits) j then queued ?st (i + 1 + word_of_nat j) else []) [0..<n])\<rparr>)" by blast
    have "resend_mask (Suc n) env i bits st = resend_mask n env (i + 1) (drop_bit 1 bits) ?st"
      unfolding resend_mask.simps bind_step_def first using False by (simp only: if_False prod.case sum.case)
    then show ?thesis unfolding rest upt q by (intro exI [of _ t]) simp
  qed
qed

text \<open>C39: When the socket takes every datagram, an acknowledgment that arrives drops from the sender's queue
  exactly the datagrams below the first one the receiver misses, sends that one again and then, in order, those of the next 32 that the
  receiver misses and the sender has, and raises the \<open>mtu\<close> to the largest size received.\<close>

theorem acknowledgment_resends:
  assumes "\<forall>d. write_result env d = Inr ()" and "is_set (map fst (output_messages st))"
  shows "\<exists>st'. process_acknowledgment env now (acknowledgment_datagram r) st = (Inr (), st')
    \<and> output_messages st' = filter (\<lambda>(i, _). last_input_index r \<le> i) (output_messages st)
    \<and> written st' = written st @ queued st' (last_input_index r)
         @ concat (map (\<lambda>j. if missing r j then queued st' (last_input_index r + word_of_nat j) else []) [1..<33])
    \<and> mtu st' = max (mtu st) (input_mtu r)"
proof -
  let ?l = "last_input_index r" and ?d = "acknowledgment_datagram r"
  define st1 where "st1 = drop_acknowledged now ?l (output_messages st) st"
  have st1: "output_messages st1 = filter (\<lambda>(i, _). ?l \<le> i) (output_messages st)" "written st1 = written st" "mtu st1 = mtu st"
    using drop_acknowledged_filter [OF refl, of st now ?l] assms(2) by (simp_all add: st1_def is_set_def)
  obtain s where s: "(case map_of (output_messages st1) ?l of None \<Rightarrow> return_step ()
      | Some m \<Rightarrow> (\<lambda>st. bind_step (write_async env (om_data m)) return_step
          (st\<lparr>service_traffic := service_traffic st + length (om_data m)\<rparr>))) st1
    = (Inr (), st1\<lparr>service_traffic := s, written := written st @ queued st1 ?l\<rparr>)"
  proof (cases "map_of (output_messages st1) ?l")
    case None
    have "st1 = st1\<lparr>service_traffic := service_traffic st1, written := written st @ []\<rparr>" by (simp flip: st1(2))
    then show thesis using that [of "service_traffic st1"] None by (simp add: queued_def return_step_def)
  next
    case (Some m)
    then show thesis using that assms(1) st1(2) by (auto simp: queued_def bind_step_def write_async_def return_step_def)
  qed
  let ?st2 = "st1\<lparr>service_traffic := s, written := written st @ queued st1 ?l\<rparr>"
  from resend_mask_writes [OF assms(1), of 32 "?l + 1" "missing_mask 32 r 0" ?st2]
  obtain t where t: "resend_mask 32 env (?l + 1) (missing_mask 32 r 0) ?st2 = (Inr (), ?st2\<lparr>service_traffic := t,
    written := written ?st2 @ concat (map (\<lambda>j. if bit (missing_mask 32 r 0) j then queued ?st2 (?l + 1 + word_of_nat j) else []) [0..<32])\<rparr>)"
    by blast
  define st3 where "st3 = ?st2\<lparr>service_traffic := t,
    written := written ?st2 @ concat (map (\<lambda>j. if bit (missing_mask 32 r 0) j then queued ?st2 (?l + 1 + word_of_nat j) else []) [0..<32])\<rparr>"
  define st4 where "st4 = (if mtu st3 < input_mtu r then st3\<lparr>mtu := input_mtu r\<rparr> else st3)"
  have "process_acknowledgment env now ?d st = (Inr (), st4)"
    unfolding process_acknowledgment_def acknowledgment_fields Let_def st1_def [symmetric]
    using s t by (simp add: bind_step_def modify_step_def st3_def st4_def)
  moreover have q: "queued st4 = queued st1" by (auto simp: queued_def st3_def st4_def fun_eq_iff)
  moreover have "concat (map (\<lambda>j. if bit (missing_mask 32 r 0) j then queued ?st2 (?l + 1 + word_of_nat j) else []) [0..<32])
      = concat (map (\<lambda>j. if missing r j then queued st4 (?l + word_of_nat j) else []) [1..<33])"
  proof -
    have "[1..<33] = map Suc [0..<32]" by (simp add: map_Suc_upt)
    moreover have e: "queued ?st2 = queued st1" by (simp add: queued_def fun_eq_iff)
    moreover have "?l + 1 + word_of_nat j = ?l + word_of_nat (Suc j)" for j by simp
    moreover have "(if bit (missing_mask 32 r 0) j then queued ?st2 (?l + 1 + word_of_nat j) else [])
        = (if missing r (Suc j) then queued st1 (?l + word_of_nat (Suc j)) else [])" if "j < 32" for j
      using that by (simp add: bit_missing_mask e add.assoc)
    ultimately show ?thesis unfolding q by (auto simp only: map_map comp_def set_upt atLeastLessThan_iff intro!: arg_cong [where f = concat] map_cong)
  qed
  ultimately show ?thesis using st1 by (intro exI [of _ st4]) (auto simp: st3_def st4_def max_def)
qed

text \<open>The receiver has got the first of the three datagrams; the two others are sent again.\<close>

definition sample_sent :: datagram_protocol where
  "sample_sent = snd (send_all sample_net 0 sample_requests sample_sender)"

definition sample_received :: datagram_protocol where
  "sample_received = receive_all sample_net [(0, hd (written sample_sent))] (new_protocol 0 0 (Data_buffer [2]) (Data_buffer [1]) (Data_buffer []))"

theorem acknowledgment_resends_witness:
  "\<exists>st'. process_acknowledgment sample_net 0 (acknowledgment_datagram sample_received) sample_sent = (Inr (), st')
    \<and> output_messages st' = filter (\<lambda>(i, _). last_input_index sample_received \<le> i) (output_messages sample_sent)
    \<and> last_input_index sample_received = 1 \<and> map fst (output_messages sample_sent) = [0, 1, 2]"
proof -
  have keys: "map fst (output_messages sample_sent) = [0, 1, 2]" by code_simp
  have index: "last_input_index sample_received = 1" by code_simp
  have "\<forall>d. write_result sample_net d = Inr ()" by (simp add: sample_net_def)
  moreover have "is_set (map fst (output_messages sample_sent))" unfolding keys by simp
  ultimately obtain st' where
    "process_acknowledgment sample_net 0 (acknowledgment_datagram sample_received) sample_sent = (Inr (), st')"
    "output_messages st' = filter (\<lambda>(i, _). last_input_index sample_received \<le> i) (output_messages sample_sent)"
    using acknowledgment_resends [of sample_net sample_sent 0 sample_received] by auto
  then show ?thesis using keys index by (intro exI [of _ st']) simp
qed

end
