(* ===== verification/Json_value.thy ===== *)
theory Json_value
  imports Encoding
begin

text \<open>
  \<open>kernel/vds_parser/json_object.h\<close> and \<open>.cpp\<close>: the values of JSON and the properties of an object as
  the program reads and writes them. Shared pointers to values are the values they point to; the parser
  (\<open>Json_parser\<close>), which changes values that others point to, has an explicit store.
\<close>

section \<open>Characters and numbers of the C library\<close>

text \<open>\<open>char\<close> is signed; for the negative ones the classes of the C locale are empty.\<close>

definition isspace :: "byte \<Rightarrow> bool" where
  "isspace ch \<longleftrightarrow> ch = 0x20 \<or> 0x09 \<le> ch \<and> ch \<le> 0x0D"

definition isdigit :: "byte \<Rightarrow> bool" where
  "isdigit ch \<longleftrightarrow> 0x30 \<le> ch \<and> ch \<le> 0x39"

abbreviation chars_of :: "cstring \<Rightarrow> string" where
  "chars_of s \<equiv> map (\<lambda>b. char_of (unat b)) s"

text \<open>\<open>std::to_string\<close> of an unsigned number.\<close>

fun to_string :: "nat \<Rightarrow> cstring" where
  "to_string n = (if n < 10 then [0x30 + word_of_nat n] else to_string (n div 10) @ [0x30 + word_of_nat (n mod 10)])"

declare to_string.simps [simp del]

text \<open>\<open>atol\<close> and \<open>atoi\<close> skip white space and read a sign and digits; a number out of the range of the
  result (64 and 32 bits here) is undefined behaviour.\<close>

definition digits_value :: "cstring \<Rightarrow> nat" where
  "digits_value ds = foldl (\<lambda>n d. 10 * n + unat (d - 0x30)) 0 ds"

definition number_value :: "cstring \<Rightarrow> int" where
  "number_value s =
     (case dropWhile isspace s of
        [] \<Rightarrow> 0
      | ch # rest \<Rightarrow>
          if ch = 0x2D then - int (digits_value (takeWhile isdigit rest))
          else if ch = 0x2B then int (digits_value (takeWhile isdigit rest))
          else int (digits_value (takeWhile isdigit (ch # rest))))"

definition atol :: "cstring \<Rightarrow> int expected" where
  "atol s = (if - (2 ^ 63) \<le> number_value s \<and> number_value s < 2 ^ 63 then Inr (number_value s)
     else Inl (Undefined_behaviour ''atol''))"

definition atoi :: "cstring \<Rightarrow> int expected" where
  "atoi s = (if - (2 ^ 31) \<le> number_value s \<and> number_value s < 2 ^ 31 then Inr (number_value s)
     else Inl (Undefined_behaviour ''atoi''))"

section \<open>Values\<close>

datatype primitive_type = Primitive_string | Primitive_integer

text \<open>\<open>line_\<close> and \<open>column_\<close> come first, -1 for a value that was not parsed. The value of a property may be
  the null pointer; the items of an array may not, since \<open>json_array::str\<close> follows them unchecked.\<close>

datatype json_value =
    Json_primitive int int cstring primitive_type
  | Json_object int int "json_property list"
  | Json_array int int "json_value list"
and json_property = Json_property int int (prop_name: cstring) (prop_value: "json_value option")

abbreviation json_primitive :: "cstring \<Rightarrow> json_value" where
  "json_primitive v \<equiv> Json_primitive (-1) (-1) v Primitive_string"

abbreviation json_property :: "cstring \<Rightarrow> json_value \<Rightarrow> json_property" where
  "json_property name v \<equiv> Json_property (-1) (-1) name (Some v)"

text \<open>Copies lose the position. A copy that is not deep holds the same items.\<close>

fun json_clone :: "json_value \<Rightarrow> json_value"
  and json_clone_property :: "json_property \<Rightarrow> json_property" where
  "json_clone (Json_primitive _ _ v t) = Json_primitive (-1) (-1) v t"
| "json_clone (Json_object _ _ ps) = Json_object (-1) (-1) (map json_clone_property ps)"
| "json_clone (Json_array _ _ vs) = Json_array (-1) (-1) (map json_clone vs)"
| "json_clone_property (Json_property _ _ name v) = Json_property (-1) (-1) name (map_option json_clone v)"

fun json_shallow_clone :: "json_value \<Rightarrow> json_value" where
  "json_shallow_clone (Json_primitive _ _ v t) = Json_primitive (-1) (-1) v t"
| "json_shallow_clone (Json_object _ _ ps) = Json_object (-1) (-1) ps"
| "json_shallow_clone (Json_array _ _ vs) = Json_array (-1) (-1) vs"

section \<open>Properties of an object\<close>

text \<open>The methods of \<open>json_object\<close> on its list \<open>properties_\<close>. A property whose value is the null pointer is
  found, and its value returned.\<close>

definition json_visit :: "(json_property \<Rightarrow> 's \<Rightarrow> 's) \<Rightarrow> json_property list \<Rightarrow> 's \<Rightarrow> 's" where
  "json_visit visitor ps = fold visitor ps"

fun get_property :: "json_property list \<Rightarrow> cstring \<Rightarrow> json_value option" where
  "get_property [] name = None"
| "get_property (p # ps) name = (if prop_name p = name then prop_value p else get_property ps name)"

text \<open>The typed forms return \<open>false\<close> (\<open>None\<close>) for a missing property.\<close>

definition json_get_string :: "json_property list \<Rightarrow> cstring \<Rightarrow> cstring option expected" where
  "json_get_string ps name =
     (case get_property ps name of
        None \<Rightarrow> Inr None
      | Some (Json_primitive _ _ v _) \<Rightarrow> Inr (Some v)
      | Some _ \<Rightarrow> Inl (Runtime_error (''Invalid property '' @ chars_of name @ '' type: expected string'')))"

definition get_converted :: "(cstring \<Rightarrow> 'a expected) \<Rightarrow> json_property list \<Rightarrow> cstring \<Rightarrow> 'a option expected" where
  "get_converted f ps name =
     get_expected (json_get_string ps name) (\<lambda>prop.
       case prop of None \<Rightarrow> Inr None | Some v \<Rightarrow> get_expected (f v) (\<lambda>x. Inr (Some x)))"

definition get_int :: "json_property list \<Rightarrow> cstring \<Rightarrow> int option expected" where
  "get_int = get_converted atoi"

definition json_get_buffer :: "(nat \<Rightarrow> byte) \<Rightarrow> json_property list \<Rightarrow> cstring \<Rightarrow> const_data_buffer option expected" where
  "json_get_buffer fresh = get_converted (base64_to_bytes fresh)"

definition get_u8 :: "json_property list \<Rightarrow> cstring \<Rightarrow> byte option expected" where
  "get_u8 = get_converted (\<lambda>v. get_expected (atol v) (\<lambda>n. Inr (word_of_int n)))"

definition get_u16 :: "json_property list \<Rightarrow> cstring \<Rightarrow> u16 option expected" where
  "get_u16 = get_converted (\<lambda>v. get_expected (atol v) (\<lambda>n. Inr (word_of_int n)))"

definition get_u32 :: "json_property list \<Rightarrow> cstring \<Rightarrow> u32 option expected" where
  "get_u32 = get_converted (\<lambda>v. get_expected (atol v) (\<lambda>n. Inr (word_of_int n)))"

definition get_u64 :: "json_property list \<Rightarrow> cstring \<Rightarrow> u64 option expected" where
  "get_u64 = get_converted (\<lambda>v. get_expected (atol v) (\<lambda>n. Inr (word_of_int n)))"

text \<open>The items of an array that are not primitive are left out; a missing property is an error.\<close>

fun buffers_of :: "(nat \<Rightarrow> byte) \<Rightarrow> json_value list \<Rightarrow> const_data_buffer list expected" where
  "buffers_of fresh [] = Inr []"
| "buffers_of fresh (Json_primitive _ _ v _ # vs) =
     get_expected (base64_to_bytes fresh v) (\<lambda>b. get_expected (buffers_of fresh vs) (\<lambda>bs. Inr (b # bs)))"
| "buffers_of fresh (_ # vs) = buffers_of fresh vs"

definition get_buffers :: "(nat \<Rightarrow> byte) \<Rightarrow> json_property list \<Rightarrow> cstring \<Rightarrow> const_data_buffer list expected" where
  "get_buffers fresh ps name =
     (case get_property ps name of
        Some (Json_array _ _ vs) \<Rightarrow> buffers_of fresh vs
      | _ \<Rightarrow> Inl (Runtime_error (''Invalid property '' @ chars_of name)))"

text \<open>\<open>item\<close> is the constructor of the items.\<close>

definition json_get_items :: "(json_value \<Rightarrow> 'a) \<Rightarrow> json_property list \<Rightarrow> cstring \<Rightarrow> 'a list expected" where
  "json_get_items item ps name =
     (case get_property ps name of
        Some (Json_array _ _ vs) \<Rightarrow> Inr (map item vs)
      | _ \<Rightarrow> Inl (Runtime_error (''Invalid property '' @ chars_of name)))"

definition add_property :: "json_property \<Rightarrow> json_property list \<Rightarrow> json_property list" where
  "add_property p ps = ps @ [p]"

definition add_value :: "cstring \<Rightarrow> json_value \<Rightarrow> json_property list \<Rightarrow> json_property list" where
  "add_value name v = add_property (json_property name v)"

definition add_string :: "cstring \<Rightarrow> cstring \<Rightarrow> json_property list \<Rightarrow> json_property list" where
  "add_string name v = add_value name (json_primitive v)"

definition add_number :: "cstring \<Rightarrow> u64 \<Rightarrow> json_property list \<Rightarrow> json_property list" where
  "add_number name v = add_value name (json_primitive (to_string (unat v)))"

definition add_buffer :: "cstring \<Rightarrow> const_data_buffer \<Rightarrow> json_property list \<Rightarrow> json_property list" where
  "add_buffer name v = add_string name (base64_from_bytes (buffer_data v))"

definition add_buffers :: "cstring \<Rightarrow> const_data_buffer list \<Rightarrow> json_property list \<Rightarrow> json_property list" where
  "add_buffers name vs =
     add_value name (Json_array (-1) (-1) (map (\<lambda>v. json_primitive (base64_from_bytes (buffer_data v))) vs))"

definition add_numbers :: "cstring \<Rightarrow> u16 list \<Rightarrow> json_property list \<Rightarrow> json_property list" where
  "add_numbers name vs = add_value name (Json_array (-1) (-1) (map (\<lambda>v. json_primitive (to_string (unat v))) vs))"

definition add_items :: "('a \<Rightarrow> json_value) \<Rightarrow> cstring \<Rightarrow> 'a list \<Rightarrow> json_property list \<Rightarrow> json_property list" where
  "add_items serialize name vs = add_value name (Json_array (-1) (-1) (map serialize vs))"

end
