(* ===== verification/Json_writer.thy ===== *)
theory Json_writer
  imports Json_value
begin

text \<open>
  \<open>kernel/vds_parser/json_writer.cpp\<close>, the state machine that writes text, and the methods \<open>str\<close> of the
  values in \<open>json_object.cpp\<close>, which drive it.
\<close>

datatype writer_state = BOF | START_OBJECT | OBJECT_BODY | PROPERTY | PROPERTY_END | START_ARRAY | ARRAY_BODY

record json_writer =
  stream :: cstring
  writer_state :: writer_state
  state_path :: "writer_state list"

type_synonym 'a writer_step = "('a, json_writer) step"

definition new_writer :: json_writer where
  "new_writer = \<lparr>stream = [], writer_state = BOF, state_path = []\<rparr>"

abbreviation invalid_writer_state :: error where
  "invalid_writer_state \<equiv> Runtime_error ''Invalid json_writer state''"

definition emit :: "cstring \<Rightarrow> unit writer_step" where
  "emit s w = (Inr (), w\<lparr>stream := stream w @ s\<rparr>)"

definition set_writer_state :: "writer_state \<Rightarrow> unit writer_step" where
  "set_writer_state s w = (Inr (), w\<lparr>writer_state := s\<rparr>)"

definition push_path :: "writer_state \<Rightarrow> unit writer_step" where
  "push_path s w = (Inr (), w\<lparr>state_path := s # state_path w\<rparr>)"

text \<open>\<open>state_ = state_path_.top(); state_path_.pop()\<close>\<close>

definition pop_path :: "unit writer_step" where
  "pop_path w =
     (case state_path w of
        [] \<Rightarrow> (Inl (Undefined_behaviour ''state_path_.top()''), w)
      | s # ss \<Rightarrow> (Inr (), w\<lparr>writer_state := s, state_path := ss\<rparr>))"

section \<open>Strings\<close>

definition isprint :: "wchar \<Rightarrow> bool" where
  "isprint ch \<longleftrightarrow> 0x20 \<le> ch \<and> ch \<le> 0x7E"

text \<open>\<open>\u\<close> and four digits of \<open>(uint16_t)ch\<close>.\<close>

definition unicode_escape :: "wchar \<Rightarrow> cstring" where
  "unicode_escape ch = [0x5C, 0x75] @ map (\<lambda>i. hex_chars ! unat ((drop_bit i ch) AND 0xF)) [12, 8, 4, 0]"

definition escape_char :: "wchar \<Rightarrow> cstring" where
  "escape_char ch =
     (if ch = 0x5C then [0x5C, 0x5C]
      else if ch = 0x22 then [0x5C, 0x22]
      else if ch = 0x0A then [0x5C, 0x6E]
      else if ch = 0x0D then [0x5C, 0x72]
      else if ch = 0x08 then [0x5C, 0x62]
      else if ch = 0x09 then [0x5C, 0x74]
      else if ch = 0x0C then [0x5C, 0x66]
      else if sint ch < 0x80 \<and> isprint ch then [ucast ch]
      else unicode_escape ch)"

lemma next_char_shorter: "utf8_next_char s = Inr (ch, rest) \<Longrightarrow> s \<noteq> [] \<Longrightarrow> length rest < length s"
  by (auto simp: utf8_next_char_def split: if_splits)

function write_chars :: "cstring \<Rightarrow> unit writer_step" where
  "write_chars s w =
     (if s = [] then (Inr (), w)
      else case utf8_next_char s of
        Inl e \<Rightarrow> (Inl e, w)
      | Inr (ch, rest) \<Rightarrow> write_chars rest (w\<lparr>stream := stream w @ escape_char ch\<rparr>))"
  by pat_completeness auto
termination
  by (relation "measure (\<lambda>(s, w). length s)") (auto simp: next_char_shorter)

declare write_chars.simps [simp del]

definition write_string :: "cstring \<Rightarrow> unit writer_step" where
  "write_string value =
     bind_step (emit [0x22]) (\<lambda>_. bind_step (write_chars value) (\<lambda>_. emit [0x22]))"

section \<open>The state machine\<close>

definition write_string_value :: "cstring \<Rightarrow> unit writer_step" where
  "write_string_value value w =
     bind_step (\<lambda>w. case writer_state w of
         PROPERTY \<Rightarrow> set_writer_state PROPERTY_END w
       | START_ARRAY \<Rightarrow> set_writer_state ARRAY_BODY w
       | ARRAY_BODY \<Rightarrow> emit [0x2C] w
       | _ \<Rightarrow> fail_step invalid_writer_state w)
     (\<lambda>_. write_string value) w"

definition write_null_value :: "unit writer_step" where
  "write_null_value w =
     bind_step (\<lambda>w. case writer_state w of
         PROPERTY \<Rightarrow> set_writer_state PROPERTY_END w
       | ARRAY_BODY \<Rightarrow> emit [0x2C] w
       | _ \<Rightarrow> fail_step invalid_writer_state w)
     (\<lambda>_. emit [0x6E, 0x75, 0x6C, 0x6C]) w"

definition start_property :: "cstring \<Rightarrow> unit writer_step" where
  "start_property name w =
     bind_step (\<lambda>w. case writer_state w of
         START_OBJECT \<Rightarrow> set_writer_state OBJECT_BODY w
       | OBJECT_BODY \<Rightarrow> emit [0x2C] w
       | _ \<Rightarrow> fail_step invalid_writer_state w)
     (\<lambda>_. bind_step (\<lambda>w. push_path (writer_state w) w)
     (\<lambda>_. bind_step (set_writer_state PROPERTY)
     (\<lambda>_. bind_step (write_string name)
     (\<lambda>_. emit [0x3A])))) w"

definition end_property :: "unit writer_step" where
  "end_property w = (case writer_state w of PROPERTY_END \<Rightarrow> pop_path w | _ \<Rightarrow> fail_step invalid_writer_state w)"

definition write_property :: "cstring \<Rightarrow> cstring \<Rightarrow> unit writer_step" where
  "write_property name value =
     bind_step (start_property name) (\<lambda>_. bind_step (write_string_value value) (\<lambda>_. end_property))"

definition start_object :: "unit writer_step" where
  "start_object w =
     bind_step (\<lambda>w. case writer_state w of
         BOF \<Rightarrow> push_path ARRAY_BODY w
       | START_ARRAY \<Rightarrow> push_path ARRAY_BODY w
       | ARRAY_BODY \<Rightarrow> bind_step (emit [0x2C]) (\<lambda>_. push_path ARRAY_BODY) w
       | PROPERTY \<Rightarrow> push_path PROPERTY_END w
       | _ \<Rightarrow> fail_step invalid_writer_state w)
     (\<lambda>_. bind_step (set_writer_state START_OBJECT) (\<lambda>_. emit [0x7B])) w"

definition end_object :: "unit writer_step" where
  "end_object w =
     (if writer_state w \<in> {START_OBJECT, OBJECT_BODY} then bind_step pop_path (\<lambda>_. emit [0x7D]) w
      else fail_step invalid_writer_state w)"

definition start_array :: "unit writer_step" where
  "start_array w =
     bind_step (\<lambda>w. case writer_state w of
         BOF \<Rightarrow> push_path PROPERTY_END w
       | PROPERTY \<Rightarrow> push_path PROPERTY_END w
       | START_ARRAY \<Rightarrow> push_path (writer_state w) w
       | ARRAY_BODY \<Rightarrow> push_path (writer_state w) w
       | _ \<Rightarrow> fail_step invalid_writer_state w)
     (\<lambda>_. bind_step (set_writer_state START_ARRAY) (\<lambda>_. emit [0x5B])) w"

definition end_array :: "unit writer_step" where
  "end_array w =
     (if writer_state w \<in> {START_ARRAY, ARRAY_BODY} then bind_step pop_path (\<lambda>_. emit [0x5D]) w
      else fail_step invalid_writer_state w)"

section \<open>Values\<close>

text \<open>The kind of a primitive value plays no part: numbers are written as strings.\<close>

fun json_str :: "json_value \<Rightarrow> unit writer_step"
  and json_str_property :: "json_property \<Rightarrow> unit writer_step"
  and json_str_properties :: "json_property list \<Rightarrow> unit writer_step"
  and json_str_items :: "json_value list \<Rightarrow> unit writer_step" where
  "json_str (Json_primitive _ _ value _) = write_string_value value"
| "json_str (Json_object _ _ ps) = bind_step start_object (\<lambda>_. bind_step (json_str_properties ps) (\<lambda>_. end_object))"
| "json_str (Json_array _ _ vs) = bind_step start_array (\<lambda>_. bind_step (json_str_items vs) (\<lambda>_. end_array))"
| "json_str_property (Json_property _ _ name v) =
     bind_step (start_property name)
     (\<lambda>_. bind_step (case v of None \<Rightarrow> write_null_value | Some v \<Rightarrow> json_str v)
     (\<lambda>_. end_property))"
| "json_str_properties [] = return_step ()"
| "json_str_properties (p # ps) = bind_step (json_str_property p) (\<lambda>_. json_str_properties ps)"
| "json_str_items [] = return_step ()"
| "json_str_items (v # vs) = bind_step (json_str v) (\<lambda>_. json_str_items vs)"

definition json_to_string :: "json_value \<Rightarrow> cstring expected" where
  "json_to_string v = (case json_str v new_writer of (Inl e, _) \<Rightarrow> Inl e | (Inr _, w) \<Rightarrow> Inr (stream w))"

text \<open>An example: the comma between nested arrays is missing, a null value is written.\<close>

lemma json_to_string_nested_arrays:
  "json_to_string (Json_array l c [Json_array l c [], Json_array l c []]) = Inr (map of_char ''[[][]]'')"
  by (simp add: json_to_string_def new_writer_def start_array_def end_array_def push_path_def pop_path_def emit_def
      set_writer_state_def bind_step_def return_step_def)

end
