(* ===== verification/Json_text.thy ===== *)
theory Json_text
  imports Json_writer Utf8_properties
begin

text \<open>
  The text the writer makes of a value, as a function of the value alone, and the values for which it is
  JSON: the objects and arrays without null values and without an array directly in an array, whose strings
  are the UTF-8 text, as \<open>utf8::add\<close> writes it, of characters below 0x800.
\<close>

section \<open>Text of strings\<close>

definition utf8_bytes :: "wchar \<Rightarrow> cstring" where
  "utf8_bytes ch = (case utf8_add [] ch of Inl _ \<Rightarrow> [] | Inr s \<Rightarrow> s)"

definition utf8_text :: "wchar list \<Rightarrow> cstring" where
  "utf8_text cs = concat (map utf8_bytes cs)"

function utf8_decode :: "cstring \<Rightarrow> wchar list" where
  "utf8_decode s =
     (if s = [] then [] else case utf8_next_char s of Inl _ \<Rightarrow> [] | Inr (ch, rest) \<Rightarrow> ch # utf8_decode rest)"
  by pat_completeness auto
termination
  by (relation "measure length") (auto simp: next_char_shorter)

declare utf8_decode.simps [simp del]

definition plain :: "cstring \<Rightarrow> bool" where
  "plain s \<longleftrightarrow> utf8_text (utf8_decode s) = s \<and> (\<forall>ch \<in> set (utf8_decode s). ch < 0x800)"

lemma utf8_add_append: "utf8_add b ch = get_expected (utf8_add [] ch) (\<lambda>s. Inr (b @ s))"
  by (simp add: utf8_add_def)

lemma utf8_add_small: "ch < 0x800 \<Longrightarrow> utf8_add b ch = Inr (b @ utf8_bytes ch)"
  using utf8_add_next_char [of ch "[]"]
  by (subst utf8_add_append) (auto simp: utf8_bytes_def split: sum.splits)

lemma utf8_next_text:
  assumes "ch < 0x800"
  shows "utf8_next_char (utf8_bytes ch @ s) = Inr (ch, s)" "utf8_bytes ch \<noteq> []"
proof -
  show n: "utf8_next_char (utf8_bytes ch @ s) = Inr (ch, s)" for s
    using utf8_add_next_char [OF assms, of s] utf8_add_small [OF assms, of "[]"] by simp
  show "utf8_bytes ch \<noteq> []"
  proof
    assume "utf8_bytes ch = []"
    then have "utf8_next_char [] = Inr (ch, [])" "utf8_next_char [0x41] = Inr (ch, [0x41])" using n [of "[]"] n [of "[0x41]"] by simp_all
    then show False by (simp add: utf8_next_char_def)
  qed
qed

lemma utf8_decode_text: "\<forall>ch \<in> set cs. ch < 0x800 \<Longrightarrow> utf8_decode (utf8_text cs) = cs"
proof (induction cs)
  case (Cons ch cs)
  then show ?case by (subst utf8_decode.simps) (simp add: utf8_text_def utf8_next_text)
qed (simp add: utf8_text_def utf8_decode.simps)

definition escaped :: "cstring \<Rightarrow> cstring" where
  "escaped s = concat (map escape_char (utf8_decode s))"

definition string_text :: "cstring \<Rightarrow> cstring" where
  "string_text s = [0x22] @ escaped s @ [0x22]"

lemma write_chars_text:
  "\<forall>ch \<in> set cs. ch < 0x800 \<Longrightarrow> write_chars (utf8_text cs) w = (Inr (), w\<lparr>stream := stream w @ concat (map escape_char cs)\<rparr>)"
proof (induction cs arbitrary: w)
  case (Cons ch cs)
  then have "write_chars (utf8_text (ch # cs)) w = write_chars (utf8_text cs) (w\<lparr>stream := stream w @ escape_char ch\<rparr>)"
    by (subst write_chars.simps) (simp add: utf8_text_def utf8_next_text)
  with Cons show ?case by simp
qed (simp add: utf8_text_def write_chars.simps)

lemma write_string_plain:
  assumes "plain s"
  shows "write_string s w = (Inr (), w\<lparr>stream := stream w @ string_text s\<rparr>)"
proof -
  from assms have "write_chars s w = (Inr (), w\<lparr>stream := stream w @ escaped s\<rparr>)" for w
    using write_chars_text [of "utf8_decode s" w] by (simp add: plain_def escaped_def)
  then show ?thesis by (simp add: write_string_def bind_step_def emit_def string_text_def)
qed

section \<open>Text of values\<close>

fun is_array_value :: "json_value \<Rightarrow> bool" where
  "is_array_value (Json_array _ _ _) = True" | "is_array_value _ = False"

fun writable :: "json_value \<Rightarrow> bool" and writable_property :: "json_property \<Rightarrow> bool"
  and writable_properties :: "json_property list \<Rightarrow> bool" and writable_items :: "json_value list \<Rightarrow> bool" where
  "writable (Json_primitive _ _ s _) = plain s"
| "writable (Json_object _ _ ps) = writable_properties ps"
| "writable (Json_array _ _ vs) = writable_items vs"
| "writable_property (Json_property _ _ name v) = (plain name \<and> (case v of None \<Rightarrow> False | Some v \<Rightarrow> writable v))"
| "writable_properties [] = True"
| "writable_properties (p # ps) = (writable_property p \<and> writable_properties ps)"
| "writable_items [] = True"
| "writable_items (v # vs) = (\<not> is_array_value v \<and> writable v \<and> writable_items vs)"

text \<open>\<open>first\<close> says that no comma is written before the next item.\<close>

fun json_text :: "json_value \<Rightarrow> cstring" and property_text :: "json_property \<Rightarrow> cstring"
  and properties_text :: "bool \<Rightarrow> json_property list \<Rightarrow> cstring" and items_text :: "bool \<Rightarrow> json_value list \<Rightarrow> cstring" where
  "json_text (Json_primitive _ _ s _) = string_text s"
| "json_text (Json_object _ _ ps) = [0x7B] @ properties_text True ps @ [0x7D]"
| "json_text (Json_array _ _ vs) = [0x5B] @ items_text True vs @ [0x5D]"
| "property_text (Json_property _ _ name v) = string_text name @ [0x3A] @ (case v of None \<Rightarrow> [] | Some v \<Rightarrow> json_text v)"
| "properties_text first [] = []"
| "properties_text first (p # ps) = (if first then [] else [0x2C]) @ property_text p @ properties_text False ps"
| "items_text first [] = []"
| "items_text first (v # vs) = (if first then [] else [0x2C]) @ json_text v @ items_text False vs"

definition after_value :: "writer_state \<Rightarrow> writer_state" where
  "after_value s = (if s = PROPERTY then PROPERTY_END else ARRAY_BODY)"

definition comma_before :: "writer_state \<Rightarrow> cstring" where
  "comma_before s = (if s = ARRAY_BODY then [0x2C] else [])"

lemmas writer_step_simps = bind_step_def emit_def set_writer_state_def push_path_def pop_path_def return_step_def fail_step_def

lemma json_str_text:
  "writable v \<Longrightarrow> writer_state w \<in> {PROPERTY, START_ARRAY, ARRAY_BODY} \<Longrightarrow> is_array_value v \<longrightarrow> writer_state w = PROPERTY \<Longrightarrow>
    json_str v w = (Inr (), w\<lparr>stream := stream w @ comma_before (writer_state w) @ json_text v,
      writer_state := after_value (writer_state w)\<rparr>)"
  "writable_property p \<Longrightarrow> writer_state w \<in> {START_OBJECT, OBJECT_BODY} \<Longrightarrow>
    json_str_property p w = (Inr (), w\<lparr>stream := stream w @ (if writer_state w = START_OBJECT then [] else [0x2C]) @ property_text p,
      writer_state := OBJECT_BODY\<rparr>)"
  "writable_properties ps \<Longrightarrow> writer_state w \<in> {START_OBJECT, OBJECT_BODY} \<Longrightarrow>
    json_str_properties ps w = (Inr (), w\<lparr>stream := stream w @ properties_text (writer_state w = START_OBJECT) ps,
      writer_state := (if ps = [] then writer_state w else OBJECT_BODY)\<rparr>)"
  "writable_items vs \<Longrightarrow> writer_state w \<in> {START_ARRAY, ARRAY_BODY} \<Longrightarrow>
    json_str_items vs w = (Inr (), w\<lparr>stream := stream w @ items_text (writer_state w = START_ARRAY) vs,
      writer_state := (if vs = [] then writer_state w else ARRAY_BODY)\<rparr>)"
proof (induction v and p and ps and vs arbitrary: w and w and w and w
    rule: json_str_json_str_property_json_str_properties_json_str_items.induct)
  case (1 l c s t)
  then show ?case
    by (auto simp: write_string_value_def writer_step_simps write_string_plain comma_before_def after_value_def)
next
  case (2 l c ps)
  show ?case using 2(1) [of "w\<lparr>state_path := p, writer_state := START_OBJECT, stream := s\<rparr>" for s p] 2(2-)
    by (auto simp: start_object_def end_object_def writer_step_simps comma_before_def after_value_def)
next
  case (3 l c vs)
  show ?case using 3(1) [of "w\<lparr>state_path := p, writer_state := START_ARRAY, stream := s\<rparr>" for s p] 3(2-)
    by (auto simp: start_array_def end_array_def writer_step_simps comma_before_def after_value_def)
next
  case (4 l c name v)
  then show ?case
    by (auto simp: start_property_def end_property_def writer_step_simps write_string_plain comma_before_def after_value_def
        split: option.splits)
next
  case (6 p ps)
  then show ?case by (auto simp: writer_step_simps)
next
  case (8 v vs)
  then show ?case by (auto simp: writer_step_simps comma_before_def after_value_def)
qed (simp_all add: return_step_def)

end
