(* ===== verification/Json_parser.thy ===== *)
theory Json_parser
  imports Json_value
begin

text \<open>
  \<open>kernel/vds_parser/json_parser.h\<close> and \<open>.cpp\<close>: the parser, a state machine over the characters with a
  stack of states. It builds the values in place: a new value is linked into the array or property that
  is open and filled afterwards, through the pointers \<open>current_object_\<close> and \<open>current_path_\<close>. Values
  therefore live in a store, a list of nodes indexed by address, and a cast of a pointer to a class the
  node does not have, the use of a null pointer and \<open>top()\<close> of an empty stack are \<open>Undefined_behaviour\<close>.
\<close>

section \<open>Store\<close>

datatype json_node =
    Node_primitive int int cstring primitive_type
  | Node_property int int cstring "nat option"
  | Node_object int int "nat list"
  | Node_array int int "nat list"

type_synonym json_store = "json_node list"

text \<open>The value a pointer stands for. A value is allocated after the one that holds it, so the size of the
  store bounds the depth.\<close>

fun value_at :: "nat \<Rightarrow> json_store \<Rightarrow> nat \<Rightarrow> json_value option"
  and property_at :: "nat \<Rightarrow> json_store \<Rightarrow> nat \<Rightarrow> json_property option" where
  "value_at 0 h a = None"
| "value_at (Suc n) h a =
     (if length h \<le> a then None
      else case h ! a of
        Node_primitive l c s t \<Rightarrow> Some (Json_primitive l c s t)
      | Node_property l c name v \<Rightarrow> None
      | Node_object l c ps \<Rightarrow> map_option (Json_object l c) (those (map (property_at n h) ps))
      | Node_array l c vs \<Rightarrow> map_option (Json_array l c) (those (map (value_at n h) vs)))"
| "property_at 0 h a = None"
| "property_at (Suc n) h a =
     (if length h \<le> a then None
      else case h ! a of
        Node_property l c name None \<Rightarrow> Some (Json_property l c name None)
      | Node_property l c name (Some v) \<Rightarrow> map_option (\<lambda>v. Json_property l c name (Some v)) (value_at n h v)
      | _ \<Rightarrow> None)"

definition pointed :: "json_store \<Rightarrow> nat \<Rightarrow> json_value option" where
  "pointed h a = value_at (length h) h a"

section \<open>State\<close>

datatype parser_state =
    ST_BOF | ST_AFTER_SLESH | ST_INLINE_COMMENT
  | ST_ARRAY | ST_ARRAY_ITEM
  | ST_OBJECT | ST_OBJECT_ITEM
  | ST_NUMBER
  | ST_OBJECT_PROPERTY_NAME | ST_OBJECT_PROPERTY_VALUE
  | ST_STRING | ST_STRING_BACKSLESH
  | ST_STRING_SYMBOL_1 | ST_STRING_SYMBOL_2 | ST_STRING_SYMBOL_3 | ST_STRING_SYMBOL_4
  | ST_EOF

record json_options =
  enable_inline_comments :: bool
  enable_multi_root_objects :: bool

definition default_options :: json_options where
  "default_options = \<lparr>enable_inline_comments = False, enable_multi_root_objects = False\<rparr>"

text \<open>\<open>results\<close> records the values \<open>result_\<close> was called with, oldest first.\<close>

record json_parser =
  stream_name :: string
  parse_options :: json_options
  parser_state :: parser_state
  saved_states :: "parser_state list"
  store :: json_store
  root_object :: "nat option"
  current_path :: "nat option list"
  current_object :: "nat option"
  line :: int
  column :: int
  buffer :: cstring
  num_buffer :: u32
  results :: "json_value option list"

text \<open>\<open>result_\<close>, the function a finished value is given to.\<close>

type_synonym json_result = "json_value option \<Rightarrow> unit expected"

type_synonym 'a parser_step = "('a, json_parser) step"

definition new_parser :: "string \<Rightarrow> json_options \<Rightarrow> json_parser" where
  "new_parser name opts = \<lparr>stream_name = name, parse_options = opts, parser_state = ST_BOF, saved_states = [],
     store = [], root_object = None, current_path = [], current_object = None, line = 1, column = 1,
     buffer = [], num_buffer = 0, results = []\<rparr>"

definition int_string :: "int \<Rightarrow> string" where
  "int_string n = (if n < 0 then ''-'' else []) @ chars_of (to_string (nat \<bar>n\<bar>))"

definition parse_error :: "string \<Rightarrow> json_parser \<Rightarrow> error" where
  "parse_error msg st =
     Runtime_error (stream_name st @ ''('' @ int_string (line st) @ '', '' @ int_string (column st) @ ''): '' @ msg)"

definition parse_fail :: "string \<Rightarrow> 'a parser_step" where
  "parse_fail msg st = (Inl (parse_error msg st), st)"

definition unexpected_char :: "byte \<Rightarrow> 'a parser_step" where
  "unexpected_char ch = parse_fail (''Unexpected char '' @ chars_of [ch])"

definition goto_state :: "parser_state \<Rightarrow> unit parser_step" where
  "goto_state s st = (Inr (), st\<lparr>parser_state := s\<rparr>)"

definition save_state :: "parser_state \<Rightarrow> unit parser_step" where
  "save_state s st = (Inr (), st\<lparr>saved_states := s # saved_states st\<rparr>)"

definition resume_state :: "unit parser_step" where
  "resume_state st =
     (case saved_states st of
        [] \<Rightarrow> (Inl (Undefined_behaviour ''saved_states_.top()''), st)
      | s # ss \<Rightarrow> (Inr (), st\<lparr>parser_state := s, saved_states := ss\<rparr>))"

definition push_current :: "unit parser_step" where
  "push_current st = (Inr (), st\<lparr>current_path := current_object st # current_path st\<rparr>)"

definition pop_current :: "unit parser_step" where
  "pop_current st =
     (case current_path st of
        [] \<Rightarrow> (Inl (Undefined_behaviour ''current_path_.top()''), st)
      | p # ps \<Rightarrow> (Inr (), st\<lparr>current_object := p, current_path := ps\<rparr>))"

text \<open>\<open>std::make_shared\<close>.\<close>

definition new_node :: "(int \<Rightarrow> int \<Rightarrow> json_node) \<Rightarrow> nat parser_step" where
  "new_node mk st = (Inr (length (store st)), st\<lparr>store := store st @ [mk (line st) (column st)]\<rparr>)"

text \<open>A method of the current object: \<open>None\<close> when the object is not of the class of the cast.\<close>

definition on_current :: "(json_node \<Rightarrow> json_node option) \<Rightarrow> unit parser_step" where
  "on_current f st =
     (case current_object st of
        None \<Rightarrow> (Inl (Undefined_behaviour ''current_object_''), st)
      | Some a \<Rightarrow>
          if length (store st) \<le> a then (Inl (Undefined_behaviour ''current_object_''), st)
          else case f (store st ! a) of
            None \<Rightarrow> (Inl (Undefined_behaviour ''static_pointer_cast''), st)
          | Some n \<Rightarrow> (Inr (), st\<lparr>store := (store st)[a := n]\<rparr>))"

fun property_value :: "nat \<Rightarrow> json_node \<Rightarrow> json_node option" where
  "property_value v (Node_property l c name _) = Some (Node_property l c name (Some v))"
| "property_value v _ = None"

fun array_add :: "nat \<Rightarrow> json_node \<Rightarrow> json_node option" where
  "array_add v (Node_array l c vs) = Some (Node_array l c (vs @ [v]))"
| "array_add v _ = None"

fun object_add :: "nat \<Rightarrow> json_node \<Rightarrow> json_node option" where
  "object_add p (Node_object l c ps) = Some (Node_object l c (ps @ [p]))"
| "object_add p _ = None"

definition clear_buffer :: "unit parser_step" where
  "clear_buffer st = (Inr (), st\<lparr>buffer := []\<rparr>)"

definition append_buffer :: "byte \<Rightarrow> unit parser_step" where
  "append_buffer ch st = (Inr (), st\<lparr>buffer := buffer st @ [ch]\<rparr>)"

abbreviation (input) then_step :: "unit parser_step \<Rightarrow> 'a parser_step \<Rightarrow> 'a parser_step" where
  "then_step m k \<equiv> bind_step m (\<lambda>_. k)"

section \<open>Arrays, objects and properties\<close>

text \<open>A new array or object is linked where the state says; \<open>ty\<close> is the state inside it.\<close>

definition open_node :: "(int \<Rightarrow> int \<Rightarrow> json_node) \<Rightarrow> parser_state \<Rightarrow> unit parser_step" where
  "open_node mk ty =
     bind_step (new_node mk) (\<lambda>a.
       then_step (\<lambda>st. case parser_state st of
           ST_OBJECT_PROPERTY_VALUE \<Rightarrow> on_current (property_value a) st
         | ST_BOF \<Rightarrow> save_state ST_BOF st
         | ST_ARRAY \<Rightarrow> then_step (on_current (array_add a)) (then_step (save_state ST_ARRAY_ITEM) push_current) st
         | _ \<Rightarrow> parse_fail ''Unexpected state'' st)
       (then_step (modify_step (\<lambda>st. st\<lparr>current_object := Some a\<rparr>)) (goto_state ty)))"

definition parser_start_array :: "unit parser_step" where
  "parser_start_array = open_node (\<lambda>l c. Node_array l c []) ST_ARRAY"

definition parser_start_object :: "unit parser_step" where
  "parser_start_object = open_node (\<lambda>l c. Node_object l c []) ST_OBJECT"

text \<open>The call of \<open>result_\<close> with the root.\<close>

definition give_result :: "json_result \<Rightarrow> unit parser_step" where
  "give_result result st =
     (let v = (case root_object st of None \<Rightarrow> None | Some a \<Rightarrow> pointed (store st) a)
      in (result v, st\<lparr>results := results st @ [v]\<rparr>))"

definition final_array :: "json_result \<Rightarrow> unit parser_step" where
  "final_array result =
     then_step resume_state (\<lambda>st.
       if parser_state st = ST_BOF then
         give_result result
           (if enable_multi_root_objects (parse_options st) then st else st\<lparr>parser_state := ST_EOF\<rparr>)
       else pop_current st)"

definition final_object :: "json_result \<Rightarrow> unit parser_step" where
  "final_object result =
     then_step resume_state (\<lambda>st.
       if parser_state st = ST_BOF then
         give_result result
           (if enable_multi_root_objects (parse_options st) then st else st\<lparr>parser_state := ST_EOF\<rparr>)
       else pop_current st)"

definition parser_start_property :: "unit parser_step" where
  "parser_start_property st =
     bind_step (new_node (\<lambda>l c. Node_property l c (buffer st) None)) (\<lambda>a.
       then_step (on_current (object_add a))
       (then_step push_current
       (then_step (modify_step (\<lambda>st. st\<lparr>current_object := Some a\<rparr>)) clear_buffer))) st"

definition final_property :: "primitive_type \<Rightarrow> unit parser_step" where
  "final_property ty st =
     bind_step (new_node (\<lambda>l c. Node_primitive l c (buffer st) ty)) (\<lambda>a.
       then_step (on_current (property_value a)) (then_step pop_current clear_buffer)) st"

definition final_string_property :: "unit parser_step" where
  "final_string_property = final_property Primitive_string"

definition final_integer_property :: "unit parser_step" where
  "final_integer_property = final_property Primitive_integer"

definition array_primitive :: "primitive_type \<Rightarrow> unit parser_step" where
  "array_primitive ty st =
     bind_step (new_node (\<lambda>l c. Node_primitive l c (buffer st) ty)) (\<lambda>a.
       then_step (on_current (array_add a)) clear_buffer) st"

definition after_slesh :: "unit parser_step" where
  "after_slesh st =
     (if \<not> enable_inline_comments (parse_options st) then parse_fail ''Unexpected char /'' st
      else then_step (save_state (parser_state st)) (goto_state ST_AFTER_SLESH) st)"

section \<open>One character\<close>

text \<open>The position is advanced before the character is looked at.\<close>

definition advance :: "byte \<Rightarrow> json_parser \<Rightarrow> json_parser" where
  "advance ch st =
     (if ch = 0x0A then st\<lparr>line := line st + 1, column := 1\<rparr>
      else if ch = 0x09 then st\<lparr>column := 1 + (column st + 7) div 8 * 8\<rparr>
      else st\<lparr>column := column st + 1\<rparr>)"

definition step_back :: "byte \<Rightarrow> json_parser \<Rightarrow> json_parser" where
  "step_back ch st = (if ch = 0x0A then st\<lparr>line := line st - 1\<rparr> else st\<lparr>column := column st - 1\<rparr>)"

definition in_bof :: "byte \<Rightarrow> unit parser_step" where
  "in_bof ch =
     (if ch = 0x2F then after_slesh
      else if ch = 0x5B then then_step parser_start_array (modify_step (\<lambda>st. st\<lparr>root_object := current_object st\<rparr>))
      else if ch = 0x7B then then_step parser_start_object (modify_step (\<lambda>st. st\<lparr>root_object := current_object st\<rparr>))
      else if isspace ch then return_step ()
      else unexpected_char ch)"

definition in_after_slesh :: "byte \<Rightarrow> unit parser_step" where
  "in_after_slesh ch = (if ch = 0x2F then goto_state ST_INLINE_COMMENT else unexpected_char ch)"

definition in_inline_comment :: "byte \<Rightarrow> unit parser_step" where
  "in_inline_comment ch = (if ch = 0x0A then resume_state else return_step ())"

definition in_array :: "json_result \<Rightarrow> byte \<Rightarrow> unit parser_step" where
  "in_array result ch =
     (if ch = 0x5D then final_array result
      else if ch = 0x5B then parser_start_array
      else if ch = 0x7B then parser_start_object
      else if ch = 0x2F then after_slesh
      else if ch = 0x22 then then_step (save_state ST_ARRAY_ITEM) (goto_state ST_STRING)
      else if isspace ch then return_step ()
      else if isdigit ch then
        then_step (modify_step (\<lambda>st. st\<lparr>buffer := [ch]\<rparr>)) (then_step (save_state ST_ARRAY_ITEM) (goto_state ST_NUMBER))
      else unexpected_char ch)"

definition in_array_item :: "json_result \<Rightarrow> byte \<Rightarrow> unit parser_step" where
  "in_array_item result ch =
     (if ch = 0x5D then final_array result
      else if ch = 0x2C then goto_state ST_ARRAY
      else if isspace ch then return_step ()
      else unexpected_char ch)"

definition in_object :: "json_result \<Rightarrow> byte \<Rightarrow> unit parser_step" where
  "in_object result ch =
     (if ch = 0x22 then
        then_step (save_state ST_OBJECT_ITEM) (then_step (save_state ST_OBJECT_PROPERTY_NAME) (goto_state ST_STRING))
      else if ch = 0x7D then final_object result
      else if isspace ch then return_step ()
      else unexpected_char ch)"

definition in_object_item :: "json_result \<Rightarrow> byte \<Rightarrow> unit parser_step" where
  "in_object_item result ch =
     (if ch = 0x7D then final_object result
      else if ch = 0x2C then goto_state ST_OBJECT
      else if isspace ch then return_step ()
      else unexpected_char ch)"

text \<open>A character that ends a number is read again (\<open>False\<close>) in the state after it.\<close>

definition in_number :: "byte \<Rightarrow> bool parser_step" where
  "in_number ch =
     (if isdigit ch \<or> ch = 0x2E then bind_step (append_buffer ch) (\<lambda>_. return_step True)
      else bind_step resume_state (\<lambda>_.
        bind_step (\<lambda>st. case parser_state st of
            ST_OBJECT_ITEM \<Rightarrow> final_integer_property st
          | ST_ARRAY_ITEM \<Rightarrow> array_primitive Primitive_integer st
          | _ \<Rightarrow> unexpected_char ch st)
        (\<lambda>_. bind_step (modify_step (step_back ch)) (\<lambda>_. return_step False))))"

definition in_string :: "byte \<Rightarrow> unit parser_step" where
  "in_string ch =
     (if ch = 0x5C then goto_state ST_STRING_BACKSLESH
      else if ch = 0x22 then
        then_step resume_state (\<lambda>st. case parser_state st of
            ST_OBJECT_PROPERTY_NAME \<Rightarrow> parser_start_property st
          | ST_OBJECT_ITEM \<Rightarrow> final_string_property st
          | ST_ARRAY_ITEM \<Rightarrow> array_primitive Primitive_string st
          | _ \<Rightarrow> unexpected_char ch st)
      else append_buffer ch)"

definition in_string_backslesh :: "byte \<Rightarrow> unit parser_step" where
  "in_string_backslesh ch =
     (if ch = 0x22 \<or> ch = 0x5C then then_step (append_buffer ch) (goto_state ST_STRING)
      else if ch = 0x6E then then_step (append_buffer 0x0A) (goto_state ST_STRING)
      else if ch = 0x72 then then_step (append_buffer 0x0D) (goto_state ST_STRING)
      else if ch = 0x62 then then_step (append_buffer 0x08) (goto_state ST_STRING)
      else if ch = 0x74 then then_step (append_buffer 0x09) (goto_state ST_STRING)
      else if ch = 0x66 then then_step (append_buffer 0x0C) (goto_state ST_STRING)
      else if ch = 0x75 then goto_state ST_STRING_SYMBOL_1
      else unexpected_char ch)"

text \<open>The digits of \<open>\u\<close>; the character is added after the fourth.\<close>

definition in_string_symbol_1 :: "byte \<Rightarrow> unit parser_step" where
  "in_string_symbol_1 ch =
     (case hex_digit ch of
        Some v \<Rightarrow> then_step (modify_step (\<lambda>st. st\<lparr>num_buffer := ucast v\<rparr>)) (goto_state ST_STRING_SYMBOL_2)
      | None \<Rightarrow> unexpected_char ch)"

definition in_string_symbol :: "parser_state \<Rightarrow> byte \<Rightarrow> unit parser_step" where
  "in_string_symbol ty ch =
     then_step (modify_step (\<lambda>st. st\<lparr>num_buffer := push_bit 4 (num_buffer st)\<rparr>))
       (case hex_digit ch of
          Some v \<Rightarrow> then_step (modify_step (\<lambda>st. st\<lparr>num_buffer := num_buffer st OR ucast v\<rparr>)) (goto_state ty)
        | None \<Rightarrow> unexpected_char ch)"

definition in_string_symbol_2 :: "byte \<Rightarrow> unit parser_step" where
  "in_string_symbol_2 = in_string_symbol ST_STRING_SYMBOL_3"

definition in_string_symbol_3 :: "byte \<Rightarrow> unit parser_step" where
  "in_string_symbol_3 = in_string_symbol ST_STRING_SYMBOL_4"

definition in_string_symbol_4 :: "byte \<Rightarrow> unit parser_step" where
  "in_string_symbol_4 ch =
     then_step (in_string_symbol ST_STRING ch) (\<lambda>st.
       case utf8_add (buffer st) (num_buffer st) of
         Inl e \<Rightarrow> (Inl e, st)
       | Inr s \<Rightarrow> (Inr (), st\<lparr>buffer := s\<rparr>))"

definition in_object_property_name :: "byte \<Rightarrow> unit parser_step" where
  "in_object_property_name ch =
     (if ch = 0x3A then goto_state ST_OBJECT_PROPERTY_VALUE
      else if isspace ch then return_step ()
      else unexpected_char ch)"

definition in_object_property_value :: "byte \<Rightarrow> unit parser_step" where
  "in_object_property_value ch =
     (if ch = 0x22 then goto_state ST_STRING
      else if ch = 0x7B then parser_start_object
      else if ch = 0x5B then parser_start_array
      else if ch = 0x2B \<or> ch = 0x2D \<or> isdigit ch then then_step (goto_state ST_NUMBER) (append_buffer ch)
      else if isspace ch then return_step ()
      else unexpected_char ch)"

definition parse_symbol :: "json_result \<Rightarrow> byte \<Rightarrow> bool parser_step" where
  "parse_symbol result ch st =
     (if parser_state st = ST_NUMBER then in_number ch st
      else
        bind_step (case parser_state st of
            ST_BOF \<Rightarrow> in_bof ch
          | ST_AFTER_SLESH \<Rightarrow> in_after_slesh ch
          | ST_INLINE_COMMENT \<Rightarrow> in_inline_comment ch
          | ST_ARRAY \<Rightarrow> in_array result ch
          | ST_ARRAY_ITEM \<Rightarrow> in_array_item result ch
          | ST_OBJECT \<Rightarrow> in_object result ch
          | ST_OBJECT_ITEM \<Rightarrow> in_object_item result ch
          | ST_STRING \<Rightarrow> in_string ch
          | ST_STRING_BACKSLESH \<Rightarrow> in_string_backslesh ch
          | ST_STRING_SYMBOL_1 \<Rightarrow> in_string_symbol_1 ch
          | ST_STRING_SYMBOL_2 \<Rightarrow> in_string_symbol_2 ch
          | ST_STRING_SYMBOL_3 \<Rightarrow> in_string_symbol_3 ch
          | ST_STRING_SYMBOL_4 \<Rightarrow> in_string_symbol_4 ch
          | ST_OBJECT_PROPERTY_NAME \<Rightarrow> in_object_property_name ch
          | ST_OBJECT_PROPERTY_VALUE \<Rightarrow> in_object_property_value ch
          | _ \<Rightarrow> unexpected_char ch)
        (\<lambda>_. return_step True) st)"

section \<open>The loop\<close>

lemma reread_leaves_number:
  assumes "parse_symbol result ch st = (Inr False, st')"
  shows "parser_state st = ST_NUMBER" "parser_state st' \<noteq> ST_NUMBER"
  using assms
  by (auto simp: parse_symbol_def in_number_def bind_step_def return_step_def modify_step_def resume_state_def
      step_back_def final_integer_property_def final_property_def array_primitive_def new_node_def on_current_def
      pop_current_def clear_buffer_def unexpected_char_def parse_fail_def
      split: if_splits prod.splits sum.splits list.splits parser_state.splits option.splits)

lemma advance_state [simp]: "parser_state (advance ch st) = parser_state st"
  by (simp add: advance_def)

function parse_loop :: "json_result \<Rightarrow> cstring \<Rightarrow> unit parser_step" where
  "parse_loop result [] st = (Inr (), st)"
| "parse_loop result (ch # s) st =
     (case parse_symbol result ch (advance ch st) of
        (Inl e, st) \<Rightarrow> (Inl e, st)
      | (Inr True, st) \<Rightarrow> parse_loop result s st
      | (Inr False, st) \<Rightarrow> parse_loop result (ch # s) st)"
  by pat_completeness auto
termination
  by (relation "measure (\<lambda>(result, s, st). 2 * length s + (if parser_state st = ST_NUMBER then 1 else 0))")
    (auto dest: reread_leaves_number [OF sym])

definition final_data :: "unit parser_step" where
  "final_data st =
     (if parser_state st = ST_EOF \<or> parser_state st = ST_BOF \<and> enable_multi_root_objects (parse_options st)
      then (Inr (), st)
      else parse_fail ''Unexpected end of data'' st)"

definition parser_write :: "json_result \<Rightarrow> cstring \<Rightarrow> unit parser_step" where
  "parser_write result s = (if s = [] then final_data else parse_loop result s)"

text \<open>\<open>parse\<close>: the result is the last value given to \<open>result_\<close>, or the null pointer.\<close>

definition json_parse :: "string \<Rightarrow> cstring \<Rightarrow> json_value option expected" where
  "json_parse name data =
     (case bind_step (parser_write (\<lambda>_. Inr ()) data) (\<lambda>_. parser_write (\<lambda>_. Inr ()) []) (new_parser name default_options) of
        (Inl e, _) \<Rightarrow> Inl e
      | (Inr _, st) \<Rightarrow> Inr (if results st = [] then None else last (results st)))"

end
