(* ===== verification/Json_safety.thy ===== *)
theory Json_safety
  imports Json_parser
begin

text \<open>
  The parser does what is defined: whatever characters it is given, in whatever pieces, and whether or not
  it had failed before, it never takes a state or an object from an empty stack, follows a null pointer or
  casts a pointer to a class the object does not have.
\<close>

section \<open>The shape of a state\<close>

fun is_array :: "json_node \<Rightarrow> bool" where
  "is_array (Node_array _ _ _) = True" | "is_array _ = False"

fun is_object :: "json_node \<Rightarrow> bool" where
  "is_object (Node_object _ _ _) = True" | "is_object _ = False"

fun is_property :: "json_node \<Rightarrow> bool" where
  "is_property (Node_property _ _ _ _) = True" | "is_property _ = False"

definition node_at :: "(json_node \<Rightarrow> bool) \<Rightarrow> json_store \<Rightarrow> nat option \<Rightarrow> bool" where
  "node_at f h p \<longleftrightarrow> (\<exists>a. p = Some a \<and> a < length h \<and> f (h ! a))"

text \<open>The saved states and the path, below the open array or object.\<close>

fun frames :: "json_store \<Rightarrow> parser_state list \<Rightarrow> nat option list \<Rightarrow> bool" where
  "frames h [s] [] \<longleftrightarrow> s = ST_BOF"
| "frames h (s # ss) (p # ps) \<longleftrightarrow>
     (s = ST_ARRAY_ITEM \<and> node_at is_array h p \<or> s = ST_OBJECT_ITEM \<and> node_at is_object h p) \<and> frames h ss ps"
| "frames h _ _ \<longleftrightarrow> False"

definition open_property :: "json_parser \<Rightarrow> parser_state list \<Rightarrow> bool" where
  "open_property st ss \<longleftrightarrow> node_at is_property (store st) (current_object st)
     \<and> (\<exists>p ps. current_path st = p # ps \<and> node_at is_object (store st) p \<and> frames (store st) ss ps)"

definition open_array :: "json_parser \<Rightarrow> parser_state list \<Rightarrow> bool" where
  "open_array st ss \<longleftrightarrow> node_at is_array (store st) (current_object st) \<and> frames (store st) ss (current_path st)"

definition open_object :: "json_parser \<Rightarrow> parser_state list \<Rightarrow> bool" where
  "open_object st ss \<longleftrightarrow> node_at is_object (store st) (current_object st) \<and> frames (store st) ss (current_path st)"

definition open_scalar :: "json_parser \<Rightarrow> bool" where
  "open_scalar st \<longleftrightarrow> (\<exists>ss. saved_states st = ST_ARRAY_ITEM # ss \<and> open_array st ss
     \<or> saved_states st = ST_OBJECT_ITEM # ss \<and> open_property st ss)"

definition open_name :: "json_parser \<Rightarrow> bool" where
  "open_name st \<longleftrightarrow> (\<exists>ss. saved_states st = ST_OBJECT_PROPERTY_NAME # ST_OBJECT_ITEM # ss \<and> open_object st ss)"

definition well_formed :: "json_parser \<Rightarrow> bool" where
  "well_formed st \<longleftrightarrow>
     (case parser_state st of
        ST_BOF \<Rightarrow> saved_states st = [] \<and> current_path st = []
      | ST_EOF \<Rightarrow> True
      | ST_ARRAY \<Rightarrow> open_array st (saved_states st)
      | ST_ARRAY_ITEM \<Rightarrow> open_array st (saved_states st)
      | ST_OBJECT \<Rightarrow> open_object st (saved_states st)
      | ST_OBJECT_ITEM \<Rightarrow> open_object st (saved_states st)
      | ST_NUMBER \<Rightarrow> open_scalar st
      | ST_OBJECT_PROPERTY_NAME \<Rightarrow> (\<exists>ss. saved_states st = ST_OBJECT_ITEM # ss \<and> open_property st ss)
      | ST_OBJECT_PROPERTY_VALUE \<Rightarrow> (\<exists>ss. saved_states st = ST_OBJECT_ITEM # ss \<and> open_property st ss)
      | ST_AFTER_SLESH \<Rightarrow> saved_states st = [ST_BOF] \<and> current_path st = []
          \<or> (\<exists>ss. saved_states st = ST_ARRAY # ss \<and> open_array st ss)
      | ST_INLINE_COMMENT \<Rightarrow> saved_states st = [ST_BOF] \<and> current_path st = []
          \<or> (\<exists>ss. saved_states st = ST_ARRAY # ss \<and> open_array st ss)
      | _ \<Rightarrow> open_scalar st \<or> open_name st)"

lemmas open_defs = open_array_def open_object_def open_property_def open_scalar_def open_name_def

lemma well_formed_update [simp]:
  "well_formed (st\<lparr>root_object := r\<rparr>) = well_formed st" "well_formed (st\<lparr>buffer := b\<rparr>) = well_formed st"
  "well_formed (st\<lparr>num_buffer := n\<rparr>) = well_formed st" "well_formed (st\<lparr>line := l\<rparr>) = well_formed st"
  "well_formed (st\<lparr>column := c\<rparr>) = well_formed st"
  by (cases "parser_state st"; simp add: well_formed_def open_defs)+

section \<open>The store grows and keeps the classes of its nodes\<close>

definition extends :: "json_store \<Rightarrow> json_store \<Rightarrow> bool" where
  "extends h h' \<longleftrightarrow> (\<forall>p f. f \<in> {is_array, is_object, is_property} \<longrightarrow> node_at f h p \<longrightarrow> node_at f h' p)"

lemma extends_refl [simp]: "extends h h" by (simp add: extends_def)

lemma extends_trans: "extends h h' \<Longrightarrow> extends h' h'' \<Longrightarrow> extends h h''"
  by (simp add: extends_def)

lemma extends_append [simp]: "extends h (h @ ns)"
  by (auto simp: extends_def node_at_def nth_append)

lemma extends_node:
  assumes "extends h h'"
  shows "node_at is_array h p \<Longrightarrow> node_at is_array h' p"
    and "node_at is_object h p \<Longrightarrow> node_at is_object h' p"
    and "node_at is_property h p \<Longrightarrow> node_at is_property h' p"
  using assms unfolding extends_def by blast+

lemma extends_frames: "extends h h' \<Longrightarrow> frames h ss ps \<Longrightarrow> frames h' ss ps"
  by (induction h ss ps rule: frames.induct) (auto dest: extends_node)

lemma node_at_new [simp]: "node_at f (h @ [n]) (Some (length h)) = f n"
  by (simp add: node_at_def)

lemma extends_update:
  assumes "is_array n = is_array (h ! a)" "is_object n = is_object (h ! a)" "is_property n = is_property (h ! a)"
  shows "extends h (h[a := n])"
proof -
  have "f (h[a := n] ! i) = f (h ! i)" if "f \<in> {is_array, is_object, is_property}" "i < length h" for f i
    using that assms by (cases "i = a") auto
  then show ?thesis by (auto simp: extends_def node_at_def)
qed

text \<open>The methods on the current object.\<close>

lemma on_current_kind:
  assumes "node_at k (store st) (current_object st)"
    and "\<And>n. k n \<Longrightarrow> \<exists>n'. f n = Some n' \<and> is_array n' = is_array n \<and> is_object n' = is_object n \<and> is_property n' = is_property n"
  obtains h where "on_current f st = (Inr (), st\<lparr>store := h\<rparr>)" "extends (store st) h"
proof -
  from assms(1) obtain a where a: "current_object st = Some a" "a < length (store st)" "k (store st ! a)"
    by (auto simp: node_at_def)
  from assms(2) [OF this(3)] obtain n where "f (store st ! a) = Some n" "is_array n = is_array (store st ! a)"
    "is_object n = is_object (store st ! a)" "is_property n = is_property (store st ! a)" by blast
  with a that show thesis by (simp add: on_current_def extends_update)
qed

lemma on_current_array_add:
  assumes "node_at is_array (store st) (current_object st)"
  obtains h where "on_current (array_add v) st = (Inr (), st\<lparr>store := h\<rparr>)" "extends (store st) h"
  using assms by (rule on_current_kind [where f = "array_add v"]) (auto elim!: is_array.elims)

lemma on_current_object_add:
  assumes "node_at is_object (store st) (current_object st)"
  obtains h where "on_current (object_add v) st = (Inr (), st\<lparr>store := h\<rparr>)" "extends (store st) h"
  using assms by (rule on_current_kind [where f = "object_add v"]) (auto elim!: is_object.elims)

lemma on_current_property_value:
  assumes "node_at is_property (store st) (current_object st)"
  obtains h where "on_current (property_value v) st = (Inr (), st\<lparr>store := h\<rparr>)" "extends (store st) h"
  using assms by (rule on_current_kind [where f = "property_value v"]) (auto elim!: is_property.elims)

section \<open>Every character\<close>

definition safe :: "'a expected \<times> json_parser \<Rightarrow> bool" where
  "safe r \<longleftrightarrow> (\<forall>msg. fst r \<noteq> Inl (Undefined_behaviour msg)) \<and> well_formed (snd r)"

lemmas parser_step_simps =
  bind_step_def return_step_def modify_step_def goto_state_def save_state_def resume_state_def
  push_current_def pop_current_def new_node_def clear_buffer_def append_buffer_def parse_fail_def parse_error_def
  unexpected_char_def

lemma safe_fail: "well_formed st \<Longrightarrow> safe (unexpected_char ch st)" "well_formed st \<Longrightarrow> safe (parse_fail msg st)"
  by (simp_all add: safe_def unexpected_char_def parse_fail_def parse_error_def)

lemma safe_after_slesh:
  "well_formed st \<Longrightarrow> parser_state st \<in> {ST_BOF, ST_ARRAY} \<Longrightarrow> safe (after_slesh st)"
  by (auto simp: safe_def after_slesh_def parser_step_simps well_formed_def open_defs)

lemma safe_open_node:
  assumes "well_formed st" "parser_state st \<in> {ST_BOF, ST_ARRAY, ST_OBJECT_PROPERTY_VALUE}"
    and "ty = ST_ARRAY \<and> (\<forall>l c. is_array (mk l c)) \<or> ty = ST_OBJECT \<and> (\<forall>l c. is_object (mk l c))"
  shows "safe (open_node mk ty st)"
proof -
  let ?st = "st\<lparr>store := store st @ [mk (line st) (column st)]\<rparr>"
  have new: "h' = store st @ [mk (line st) (column st)] \<Longrightarrow> extends h' h \<Longrightarrow>
      ty = ST_ARRAY \<and> node_at is_array h (Some (length (store st))) \<or> ty = ST_OBJECT \<and> node_at is_object h (Some (length (store st)))"
    for h h' using assms(3) extends_node by fastforce
  have ext: "extends (store ?st) h \<Longrightarrow> extends (store st) h" for h
    using extends_trans [OF extends_append] by simp
  consider "parser_state st = ST_BOF" | "parser_state st = ST_ARRAY" | "parser_state st = ST_OBJECT_PROPERTY_VALUE"
    using assms(2) by auto
  then show ?thesis
  proof cases
    case 1
    then show ?thesis using assms(1) new [OF refl extends_refl]
      by (auto simp: open_node_def safe_def parser_step_simps well_formed_def open_defs)
  next
    case 2
    then have a: "node_at is_array (store st) (current_object st)" "frames (store st) (saved_states st) (current_path st)"
      using assms(1) by (simp_all add: well_formed_def open_array_def)
    have "node_at is_array (store ?st) (current_object ?st)"
      using a(1) extends_node(1) [OF extends_append] by simp
    from on_current_array_add [OF this] obtain h where
      h: "on_current (array_add (length (store st))) ?st = (Inr (), ?st\<lparr>store := h\<rparr>)" "extends (store ?st) h" .
    have "frames h (saved_states st) (current_path st)" "node_at is_array h (current_object st)"
      using a extends_frames [OF ext [OF h(2)]] extends_node [OF ext [OF h(2)]] by blast+
    then show ?thesis using 2 h new [OF refl, of h]
      by (auto simp: open_node_def safe_def parser_step_simps well_formed_def open_defs)
  next
    case 3
    then obtain ss p ps where a: "saved_states st = ST_OBJECT_ITEM # ss" "node_at is_property (store st) (current_object st)"
      "current_path st = p # ps" "node_at is_object (store st) p" "frames (store st) ss ps"
      using assms(1) by (auto simp: well_formed_def open_property_def)
    have "node_at is_property (store ?st) (current_object ?st)"
      using a(2) extends_node(3) [OF extends_append] by simp
    from on_current_property_value [OF this] obtain h where
      h: "on_current (property_value (length (store st))) ?st = (Inr (), ?st\<lparr>store := h\<rparr>)" "extends (store ?st) h" .
    have "frames h ss ps" "node_at is_object h p"
      using a extends_frames [OF ext [OF h(2)]] extends_node [OF ext [OF h(2)]] by blast+
    then show ?thesis using 3 h a new [OF refl, of h]
      by (auto simp: open_node_def safe_def parser_step_simps well_formed_def open_defs)
  qed
qed

lemma safe_start:
  assumes "well_formed st" "parser_state st \<in> {ST_BOF, ST_ARRAY, ST_OBJECT_PROPERTY_VALUE}"
  shows "safe (parser_start_array st)" "safe (parser_start_object st)"
  using assms by (simp_all add: parser_start_array_def parser_start_object_def safe_open_node)

text \<open>The end of an array or object, when \<open>result_\<close> does what is defined.\<close>

definition result_defined :: "json_result \<Rightarrow> bool" where
  "result_defined result \<longleftrightarrow> (\<forall>v msg. result v \<noteq> Inl (Undefined_behaviour msg))"

lemma safe_final:
  assumes "result_defined result" "frames (store st) (saved_states st) (current_path st)"
  shows "safe (final_array result st)" "safe (final_object result st)"
proof -
  have "frames (store st) (saved_states st) (current_path st) \<Longrightarrow> safe (final_object result st)"
    by (cases "(store st, saved_states st, current_path st)" rule: frames.cases)
      (use assms(1) in \<open>auto simp: final_object_def safe_def parser_step_simps well_formed_def open_defs give_result_def
        result_defined_def Let_def\<close>)
  then show "safe (final_object result st)" using assms(2) by blast
  then show "safe (final_array result st)" by (simp add: final_array_def final_object_def)
qed

lemma safe_final_open:
  assumes "result_defined result" "well_formed st"
    and "parser_state st \<in> {ST_ARRAY, ST_ARRAY_ITEM, ST_OBJECT, ST_OBJECT_ITEM}"
  shows "safe (final_array result st)" "safe (final_object result st)"
  using assms by (auto intro!: safe_final simp: well_formed_def open_defs)

text \<open>A primitive value in an array, a property and its primitive value.\<close>

lemma safe_array_primitive:
  assumes "open_array st (saved_states st)" "parser_state st = ST_ARRAY_ITEM"
  shows "safe (array_primitive ty st)"
proof -
  let ?st = "st\<lparr>store := store st @ [Node_primitive (line st) (column st) (buffer st) ty]\<rparr>"
  have "node_at is_array (store ?st) (current_object ?st)"
    using assms(1) extends_node(1) [OF extends_append] by (simp add: open_array_def)
  from on_current_array_add [OF this] obtain h where
    h: "on_current (array_add (length (store st))) ?st = (Inr (), ?st\<lparr>store := h\<rparr>)" "extends (store ?st) h" .
  then have "extends (store st) h" using extends_trans [OF extends_append] by simp
  then show ?thesis using h assms extends_frames extends_node(1)
    by (auto simp: array_primitive_def safe_def parser_step_simps well_formed_def open_array_def)
qed

lemma safe_final_property:
  assumes "open_property st (saved_states st)" "parser_state st = ST_OBJECT_ITEM"
  shows "safe (final_property ty st)"
proof -
  let ?st = "st\<lparr>store := store st @ [Node_primitive (line st) (column st) (buffer st) ty]\<rparr>"
  have "node_at is_property (store ?st) (current_object ?st)"
    using assms(1) extends_node(3) [OF extends_append] by (simp add: open_property_def)
  from on_current_property_value [OF this] obtain h where
    h: "on_current (property_value (length (store st))) ?st = (Inr (), ?st\<lparr>store := h\<rparr>)" "extends (store ?st) h" .
  then have "extends (store st) h" using extends_trans [OF extends_append] by simp
  then show ?thesis using h assms extends_frames extends_node(2)
    by (auto simp: final_property_def safe_def parser_step_simps well_formed_def open_object_def open_property_def)
qed

lemma safe_start_property:
  assumes "saved_states st = ST_OBJECT_ITEM # ss" "open_object st ss" "parser_state st = ST_OBJECT_PROPERTY_NAME"
  shows "safe (parser_start_property st)"
proof -
  let ?st = "st\<lparr>store := store st @ [Node_property (line st) (column st) (buffer st) None]\<rparr>"
  have "node_at is_object (store ?st) (current_object ?st)"
    using assms(2) extends_node(2) [OF extends_append] by (simp add: open_object_def)
  from on_current_object_add [OF this] obtain h where
    h: "on_current (object_add (length (store st))) ?st = (Inr (), ?st\<lparr>store := h\<rparr>)" "extends (store ?st) h" .
  have "node_at is_property (store ?st) (Some (length (store st)))" by simp
  then have new: "node_at is_property h (Some (length (store st)))" using extends_node(3) [OF h(2)] by blast
  have "extends (store st) h" using h(2) extends_trans [OF extends_append] by simp
  then show ?thesis using h assms new extends_frames extends_node(2)
    by (auto simp: parser_start_property_def safe_def parser_step_simps well_formed_def open_object_def open_property_def)
qed

text \<open>A state of a string or number that is over.\<close>

lemma safe_in_string:
  assumes "well_formed st" "parser_state st = ST_STRING"
  shows "safe (in_string ch st)"
proof -
  have w: "open_scalar st \<or> open_name st" using assms by (simp add: well_formed_def)
  have "safe (then_step resume_state (\<lambda>st. case parser_state st of
            ST_OBJECT_PROPERTY_NAME \<Rightarrow> parser_start_property st
          | ST_OBJECT_ITEM \<Rightarrow> final_string_property st
          | ST_ARRAY_ITEM \<Rightarrow> array_primitive Primitive_string st
          | _ \<Rightarrow> unexpected_char ch st) st)"
    using w by (auto simp: open_scalar_def open_name_def resume_state_def bind_step_def final_string_property_def
        open_array_def open_property_def open_object_def
        intro!: safe_array_primitive safe_final_property safe_start_property)
  moreover have "well_formed (st\<lparr>parser_state := ST_STRING_BACKSLESH\<rparr>)" "well_formed (st\<lparr>buffer := s\<rparr>)" for s
    using w assms(2) by (auto simp: well_formed_def open_defs)
  ultimately show ?thesis by (simp add: in_string_def goto_state_def append_buffer_def safe_def)
qed

lemma safe_in_number:
  assumes "well_formed st" "parser_state st = ST_NUMBER"
  shows "safe (in_number ch st)"
proof -
  obtain ss where ss: "saved_states st = ST_ARRAY_ITEM # ss \<and> open_array st ss
      \<or> saved_states st = ST_OBJECT_ITEM # ss \<and> open_property st ss"
    using assms by (auto simp: well_formed_def open_scalar_def)
  define over where "over = (\<lambda>st. case parser_state st of
            ST_OBJECT_ITEM \<Rightarrow> final_integer_property st
          | ST_ARRAY_ITEM \<Rightarrow> array_primitive Primitive_integer st
          | _ \<Rightarrow> unexpected_char ch st)"
  have "safe (over (st\<lparr>parser_state := hd (saved_states st), saved_states := tl (saved_states st)\<rparr>))"
    using ss by (auto simp: over_def final_integer_property_def open_array_def open_property_def
        intro!: safe_array_primitive safe_final_property)
  moreover have "well_formed (step_back ch s) = well_formed s" for s
    by (simp add: step_back_def)
  ultimately show ?thesis using ss assms(1) unfolding in_number_def over_def [symmetric]
    by (auto simp: safe_def bind_step_def resume_state_def append_buffer_def return_step_def modify_step_def
        split: prod.splits sum.splits)
qed

text \<open>The states inside a string, which change only the buffers.\<close>

definition in_text :: "parser_state \<Rightarrow> bool" where
  "in_text s \<longleftrightarrow> s \<in> {ST_STRING, ST_STRING_BACKSLESH, ST_STRING_SYMBOL_1, ST_STRING_SYMBOL_2, ST_STRING_SYMBOL_3,
     ST_STRING_SYMBOL_4}"

lemma well_formed_text:
  "in_text (parser_state st) \<Longrightarrow> well_formed st \<longleftrightarrow> open_scalar st \<or> open_name st"
  by (auto simp: in_text_def well_formed_def)

lemma open_text_update [simp]:
  "open_scalar (st\<lparr>parser_state := s\<rparr>) = open_scalar st" "open_name (st\<lparr>parser_state := s\<rparr>) = open_name st"
  "open_scalar (st\<lparr>buffer := b\<rparr>) = open_scalar st" "open_name (st\<lparr>buffer := b\<rparr>) = open_name st"
  "open_scalar (st\<lparr>num_buffer := n\<rparr>) = open_scalar st" "open_name (st\<lparr>num_buffer := n\<rparr>) = open_name st"
  by (simp_all add: open_defs)

lemma utf8_add_defined: "utf8_add s ch \<noteq> Inl (Undefined_behaviour msg)"
  by (simp add: utf8_add_def)

lemma safe_in_text:
  assumes "well_formed st" "in_text (parser_state st)"
  shows "safe (in_string_backslesh ch st)" "safe (in_string_symbol_1 ch st)" "safe (in_string_symbol_2 ch st)"
    "safe (in_string_symbol_3 ch st)" "safe (in_string_symbol_4 ch st)"
proof -
  note texts = safe_def parser_step_simps well_formed_text in_text_def [where s = ST_STRING]
    in_text_def [where s = ST_STRING_SYMBOL_1] in_text_def [where s = ST_STRING_SYMBOL_2]
    in_text_def [where s = ST_STRING_SYMBOL_3] in_text_def [where s = ST_STRING_SYMBOL_4]
  have w: "open_scalar st \<or> open_name st" using assms by (simp add: well_formed_text)
  show "safe (in_string_backslesh ch st)" using w assms by (auto simp: in_string_backslesh_def texts)
  show "safe (in_string_symbol_1 ch st)" using w assms by (auto simp: in_string_symbol_1_def texts split: option.splits)
  have safe_symbol: "safe (in_string_symbol s ch st)" if "in_text s" for s
    using w assms that by (auto simp: in_string_symbol_def texts split: option.splits)
  then show "safe (in_string_symbol_2 ch st)" "safe (in_string_symbol_3 ch st)"
    by (simp_all add: in_string_symbol_2_def in_string_symbol_3_def texts)
  show "safe (in_string_symbol_4 ch st)"
    using safe_symbol [of ST_STRING] utf8_add_defined
    unfolding in_string_symbol_4_def bind_step_def [where m = "in_string_symbol ST_STRING ch"]
    by (auto simp: safe_def in_text_def split: prod.splits sum.splits)
qed

text \<open>The states between values.\<close>

lemma safe_in_bof:
  assumes "well_formed st" "parser_state st = ST_BOF"
  shows "safe (in_bof ch st)"
proof -
  have root: "safe (then_step f (modify_step (\<lambda>s. s\<lparr>root_object := current_object s\<rparr>)) st)" if "safe (f st)"
    for f :: "unit parser_step"
    using that by (auto simp: safe_def bind_step_def modify_step_def split: prod.splits sum.splits)
  have "safe (return_step () st)" using assms(1) by (simp add: safe_def return_step_def)
  with safe_start [OF assms(1)] show ?thesis
    by (simp add: in_bof_def root assms safe_after_slesh safe_fail)
qed

lemma safe_in_comment:
  "well_formed st \<Longrightarrow> parser_state st = ST_AFTER_SLESH \<Longrightarrow> safe (in_after_slesh ch st)"
  "well_formed st \<Longrightarrow> parser_state st = ST_INLINE_COMMENT \<Longrightarrow> safe (in_inline_comment ch st)"
  by (auto simp: safe_def in_after_slesh_def in_inline_comment_def parser_step_simps well_formed_def open_defs)

lemma safe_in_array:
  assumes "result_defined result" "well_formed st" "parser_state st = ST_ARRAY"
  shows "safe (in_array result ch st)"
proof -
  have "safe (return_step () st)" using assms(2) by (simp add: safe_def return_step_def)
  moreover have "well_formed (st\<lparr>saved_states := ST_ARRAY_ITEM # saved_states st, parser_state := ST_STRING\<rparr>)"
    "well_formed (st\<lparr>buffer := [ch], saved_states := ST_ARRAY_ITEM # saved_states st, parser_state := ST_NUMBER\<rparr>)"
    using assms(2,3) by (simp_all add: well_formed_def open_defs)
  ultimately show ?thesis
    using safe_final_open [OF assms(1,2)] safe_start [OF assms(2)] safe_after_slesh [OF assms(2)] safe_fail(1) [OF assms(2)] assms(3)
    by (auto simp: in_array_def) (auto simp: safe_def bind_step_def modify_step_def save_state_def goto_state_def)
qed

lemma safe_in_items:
  assumes "result_defined result" "well_formed st"
  shows "parser_state st = ST_ARRAY_ITEM \<Longrightarrow> safe (in_array_item result ch st)"
    and "parser_state st = ST_OBJECT_ITEM \<Longrightarrow> safe (in_object_item result ch st)"
    and "parser_state st = ST_OBJECT \<Longrightarrow> safe (in_object result ch st)"
proof -
  have r: "safe (return_step () st)" using assms(2) by (simp add: safe_def return_step_def)
  note rest = safe_final_open [OF assms] safe_fail(1) [OF assms(2)]
  show "safe (in_array_item result ch st)" if "parser_state st = ST_ARRAY_ITEM"
    using r rest that assms(2)
    by (auto simp: in_array_item_def) (auto simp: safe_def goto_state_def well_formed_def open_defs)
  show "safe (in_object_item result ch st)" if "parser_state st = ST_OBJECT_ITEM"
    using r rest that assms(2)
    by (auto simp: in_object_item_def) (auto simp: safe_def goto_state_def well_formed_def open_defs)
  show "safe (in_object result ch st)" if "parser_state st = ST_OBJECT"
    using r rest that assms(2)
    by (auto simp: in_object_def) (auto simp: safe_def bind_step_def save_state_def goto_state_def well_formed_def open_defs)
qed

lemma safe_in_property:
  assumes "well_formed st"
  shows "parser_state st = ST_OBJECT_PROPERTY_NAME \<Longrightarrow> safe (in_object_property_name ch st)"
    and "parser_state st = ST_OBJECT_PROPERTY_VALUE \<Longrightarrow> safe (in_object_property_value ch st)"
proof -
  have r: "safe (return_step () st)" using assms by (simp add: safe_def return_step_def)
  note rest = safe_start [OF assms] safe_fail(1) [OF assms]
  show "safe (in_object_property_name ch st)" if "parser_state st = ST_OBJECT_PROPERTY_NAME"
    using r rest that assms
    by (auto simp: in_object_property_name_def) (auto simp: safe_def goto_state_def well_formed_def open_defs)
  show "safe (in_object_property_value ch st)" if "parser_state st = ST_OBJECT_PROPERTY_VALUE"
    using r rest that assms
    by (auto simp: in_object_property_value_def)
      (auto simp: safe_def bind_step_def append_buffer_def goto_state_def well_formed_def open_defs)
qed

lemma safe_parse_symbol:
  assumes "result_defined result" "well_formed st"
  shows "safe (parse_symbol result ch st)"
proof -
  have read: "safe (bind_step f (\<lambda>_. return_step True) st)" if "safe (f st)" for f :: "unit parser_step"
    using that by (auto simp: safe_def bind_step_def return_step_def split: prod.splits sum.splits)
  note cases = safe_in_bof [OF assms(2)] safe_in_comment [OF assms(2)] safe_in_array [OF assms] safe_in_items [OF assms]
    safe_in_property [OF assms(2)] safe_in_string [OF assms(2)] safe_in_number [OF assms(2)] safe_in_text [OF assms(2)]
    safe_fail(1) [OF assms(2)]
  show ?thesis by (cases "parser_state st") (simp_all add: parse_symbol_def read cases in_text_def)
qed

lemma well_formed_advance [simp]: "well_formed (advance ch st) = well_formed st"
  by (simp add: advance_def)

lemma safe_parse_loop: "result_defined result \<Longrightarrow> well_formed st \<Longrightarrow> safe (parse_loop result s st)"
proof (induction result s st rule: parse_loop.induct)
  case (2 result ch s st)
  obtain r st' where r: "parse_symbol result ch (advance ch st) = (r, st')" by fastforce
  have "safe (r, st')" using safe_parse_symbol [OF 2(3), of "advance ch st" ch] 2(4) r by simp
  then show ?case using 2(1,2) [OF r [symmetric] _ _ 2(3), of True] 2(1,2) [OF r [symmetric] _ _ 2(3), of False] r
    by (auto simp: safe_def split: sum.split bool.split)
qed (simp add: safe_def)

lemma safe_parser_write: "result_defined result \<Longrightarrow> well_formed st \<Longrightarrow> safe (parser_write result s st)"
  using safe_parse_loop
  by (auto simp: parser_write_def final_data_def) (auto simp: safe_def parse_fail_def parse_error_def)

section \<open>Any use of a parser\<close>

text \<open>The calls of \<open>write\<close> one after the other, whatever they return.\<close>

fun parser_writes :: "json_result \<Rightarrow> cstring list \<Rightarrow> json_parser \<Rightarrow> unit expected list \<times> json_parser" where
  "parser_writes result [] st = ([], st)"
| "parser_writes result (s # ss) st =
     (let (r, st) = parser_write result s st; (rs, st) = parser_writes result ss st in (r # rs, st))"

lemma safe_parser_writes:
  assumes "result_defined result"
  shows "well_formed st \<Longrightarrow> r \<in> set (fst (parser_writes result ss st)) \<Longrightarrow> r \<noteq> Inl (Undefined_behaviour msg)"
proof (induction ss arbitrary: st)
  case (Cons s ss)
  from safe_parser_write [OF assms Cons(2), of s]
  show ?case using Cons(1) [of "snd (parser_write result s st)"] Cons(3)
    by (auto simp: Let_def safe_def split: prod.splits)
qed simp

text \<open>C16: However text is cut into pieces and whatever it is, and even if the program goes on after an
  error, no call of \<open>write\<close> on a new parser has undefined behaviour: the stacks are never empty where they
  are read, and a pointer to the current object points to one of the class the code casts it to.\<close>

theorem parser_behaviour_defined:
  assumes "\<forall>v msg. result v \<noteq> Inl (Undefined_behaviour msg)"
  shows "Inl (Undefined_behaviour msg) \<notin> set (fst (parser_writes result ss (new_parser name opts)))"
  using assms safe_parser_writes [of result "new_parser name opts"]
  by (fastforce simp: result_defined_def well_formed_def new_parser_def)

theorem parser_behaviour_defined_witness:
  "Inl (Undefined_behaviour ''current_path_.top()'')
     \<notin> set (fst (parser_writes (\<lambda>_. Inr ()) [[0x5B, 0x5B], [0x5D, 0x5D], []] (new_parser ''json'' default_options)))"
  by (rule parser_behaviour_defined) simp

end
