(* ===== verification/Json_roundtrip.thy ===== *)
theory Json_roundtrip
  imports Json_text Json_safety
begin

text \<open>
  The parser reads the text of a value and gives back the value: the same names, strings and structure, up
  to the positions and with every number as a string, as the writer writes it.
\<close>

section \<open>Strings\<close>

text \<open>What the characters of a string leave alone.\<close>

definition keeps :: "json_parser \<Rightarrow> json_parser \<Rightarrow> bool" where
  "keeps st st' \<longleftrightarrow> saved_states st' = saved_states st \<and> store st' = store st \<and> root_object st' = root_object st
     \<and> current_path st' = current_path st \<and> current_object st' = current_object st
     \<and> parse_options st' = parse_options st \<and> results st' = results st"

lemma keeps_refl [simp]: "keeps st st" by (simp add: keeps_def)

lemma keeps_trans: "keeps st st' \<Longrightarrow> keeps st' st'' \<Longrightarrow> keeps st st''" by (simp add: keeps_def)

lemma keeps_advance [simp]: "keeps st (advance ch st)" "buffer (advance ch st) = buffer st" "num_buffer (advance ch st) = num_buffer st"
  by (simp_all add: keeps_def advance_def)

lemma nibble_take: "v AND 0xF = take_bit 4 (v :: wchar)"
  by (simp add: take_bit_eq_mask mask_numeral)

lemma hex_digit_chars: "hex_digit (hex_chars ! unat (v AND 0xF)) = Some (ucast (v AND 0xF :: wchar))"
proof -
  have "unat (v AND 0xF) < 16"
    using take_bit_nat_less_exp [of 4 "unat v"] by (simp add: nibble_take unsigned_take_bit_eq)
  then show ?thesis by (simp add: hex_digit_char)
qed

lemma four_digits:
  assumes "ch < 0x10000"
  shows "((push_bit 12 (ucast (ucast (drop_bit 12 ch AND 0xF) :: byte))
     OR push_bit 8 (ucast (ucast (drop_bit 8 ch AND 0xF) :: byte))) OR push_bit 4 (ucast (ucast (drop_bit 4 ch AND 0xF) :: byte)))
     OR ucast (ucast (ch AND 0xF) :: byte) = (ch :: wchar)"
proof -
  have c: "ucast (ucast (take_bit 4 v) :: byte) = take_bit 4 v" for v :: wchar
    by (rule bit_word_eqI) (auto simp: bit_simps)
  have "uint ch < 2 ^ 16" using assms by (simp add: word_less_def)
  then have "take_bit 16 ch = ch" using small_wchar(3) [of ch 16] by (intro bit_word_eqI) (auto simp: bit_simps)
  then show ?thesis using glue_bits [of 4 4 ch] glue_bits [of 8 4 ch] glue_bits [of 12 4 ch]
    by (simp add: nibble_take c push_bit_or or.assoc)
qed

lemma read_symbol_1:
  assumes "parser_state st = ST_STRING_SYMBOL_1" "hex_digit h = Some v"
  obtains st' where "parse_loop result (h # s) st = parse_loop result s st'" "keeps st st'" "buffer st' = buffer st"
    "parser_state st' = ST_STRING_SYMBOL_2" "num_buffer st' = ucast v"
  using that [of "(advance h st)\<lparr>num_buffer := ucast v, parser_state := ST_STRING_SYMBOL_2\<rparr>"] assms
  by (simp add: parse_symbol_def in_string_symbol_1_def bind_step_def modify_step_def goto_state_def return_step_def)
    (simp add: keeps_def advance_def)

lemma read_symbol:
  assumes "(parser_state st, t) \<in> {(ST_STRING_SYMBOL_2, ST_STRING_SYMBOL_3), (ST_STRING_SYMBOL_3, ST_STRING_SYMBOL_4)}"
    and "hex_digit h = Some v"
  obtains st' where "parse_loop result (h # s) st = parse_loop result s st'" "keeps st st'" "buffer st' = buffer st"
    "parser_state st' = t" "num_buffer st' = push_bit 4 (num_buffer st) OR ucast v"
  using that [of "(advance h st)\<lparr>num_buffer := push_bit 4 (num_buffer st) OR ucast v, parser_state := t\<rparr>"] assms
  by (auto simp: parse_symbol_def in_string_symbol_2_def in_string_symbol_3_def in_string_symbol_def bind_step_def
      modify_step_def goto_state_def return_step_def) (auto simp: keeps_def advance_def)

lemma read_symbol_4:
  assumes "parser_state st = ST_STRING_SYMBOL_4" "hex_digit h = Some v"
    and "utf8_add (buffer st) (push_bit 4 (num_buffer st) OR ucast v) = Inr b"
  obtains st' where "parse_loop result (h # s) st = parse_loop result s st'" "keeps st st'" "buffer st' = b"
    "parser_state st' = ST_STRING"
  using that [of "(advance h st)\<lparr>num_buffer := push_bit 4 (num_buffer st) OR ucast v, parser_state := ST_STRING, buffer := b\<rparr>"] assms
  by (auto simp: parse_symbol_def in_string_symbol_4_def in_string_symbol_def bind_step_def modify_step_def goto_state_def
      return_step_def) (auto simp: keeps_def advance_def)

lemma read_unicode_escape:
  assumes "parser_state st = ST_STRING" "ch < 0x800"
  shows "\<exists>st'. parse_loop result (unicode_escape ch @ rest) st = parse_loop result rest st' \<and> keeps st st'
    \<and> parser_state st' = ST_STRING \<and> buffer st' = buffer st @ utf8_bytes ch"
proof -
  define d where "d = (\<lambda>n. hex_chars ! unat (drop_bit n ch AND 0xF))"
  have d: "hex_digit (d n) = Some (ucast (drop_bit n ch AND 0xF))" for n unfolding d_def by (rule hex_digit_chars)
  have shape: "unicode_escape ch @ rest = 0x5C # 0x75 # d 12 # d 8 # d 4 # d 0 # rest" by (simp add: unicode_escape_def d_def)
  have "ch < 0x10000" using assms(2) by (rule less_trans) simp
  note digits = four_digits [OF this]
  define st1 where "st1 = (advance 0x75 ((advance 0x5C st)\<lparr>parser_state := ST_STRING_BACKSLESH\<rparr>))\<lparr>parser_state := ST_STRING_SYMBOL_1\<rparr>"
  have 1: "parse_loop result (0x5C # 0x75 # s) st = parse_loop result s st1" for s
    using assms(1) by (simp add: st1_def parse_symbol_def in_string_def in_string_backslesh_def bind_step_def goto_state_def return_step_def)
  have "parser_state st1 = ST_STRING_SYMBOL_1" "buffer st1 = buffer st" "keeps st st1" by (simp_all add: st1_def) (simp add: keeps_def advance_def)
  note st1 = this
  obtain st2 where 2: "parse_loop result (d 12 # d 8 # d 4 # d 0 # rest) st1 = parse_loop result (d 8 # d 4 # d 0 # rest) st2" "keeps st1 st2" "buffer st2 = buffer st1"
    "parser_state st2 = ST_STRING_SYMBOL_2" "num_buffer st2 = ucast (ucast (drop_bit 12 ch AND 0xF) :: byte)"
    by (rule read_symbol_1 [OF st1(1) d])
  obtain st3 where 3: "parse_loop result (d 8 # d 4 # d 0 # rest) st2 = parse_loop result (d 4 # d 0 # rest) st3" "keeps st2 st3" "buffer st3 = buffer st2"
    "parser_state st3 = ST_STRING_SYMBOL_3" "num_buffer st3 = push_bit 4 (num_buffer st2) OR ucast (ucast (drop_bit 8 ch AND 0xF) :: byte)"
    by (rule read_symbol [of st2 ST_STRING_SYMBOL_3, OF _ d]) (simp add: 2(4))
  obtain st4 where 4: "parse_loop result (d 4 # d 0 # rest) st3 = parse_loop result (d 0 # rest) st4" "keeps st3 st4" "buffer st4 = buffer st3"
    "parser_state st4 = ST_STRING_SYMBOL_4" "num_buffer st4 = push_bit 4 (num_buffer st3) OR ucast (ucast (drop_bit 4 ch AND 0xF) :: byte)"
    by (rule read_symbol [of st3 ST_STRING_SYMBOL_4, OF _ d]) (simp add: 3(4))
  have "push_bit 4 (num_buffer st4) OR ucast (ucast (drop_bit 0 ch AND 0xF) :: byte) = ch"
    using digits by (simp add: 2(5) 3(5) 4(5) push_bit_or)
  then have "utf8_add (buffer st4) (push_bit 4 (num_buffer st4) OR ucast (ucast (drop_bit 0 ch AND 0xF) :: byte))
      = Inr (buffer st @ utf8_bytes ch)"
    using utf8_add_small [OF assms(2)] st1(2) 2(3) 3(3) 4(3) by simp
  from read_symbol_4 [OF 4(4) d this] obtain st5 where
    5: "parse_loop result (d 0 # rest) st4 = parse_loop result rest st5" "keeps st4 st5" "buffer st5 = buffer st @ utf8_bytes ch"
    "parser_state st5 = ST_STRING" by blast
  have "keeps st st5" using st1(3) 2(2) 3(2) 4(2) 5(2) by (blast intro: keeps_trans)
  with 5 show ?thesis unfolding shape 1 2(1) 3(1) 4(1) by blast
qed

lemma read_escape:
  assumes "parser_state st = ST_STRING" "ch < 0x800"
  shows "\<exists>st'. parse_loop result (escape_char ch @ rest) st = parse_loop result rest st' \<and> keeps st st'
    \<and> parser_state st' = ST_STRING \<and> buffer st' = buffer st @ utf8_bytes ch"
proof -
  note symbol = parse_symbol_def in_string_def in_string_backslesh_def bind_step_def goto_state_def append_buffer_def
    return_step_def assms(1)
  have two: "\<exists>st'. parse_loop result (0x5C # c # rest) st = parse_loop result rest st' \<and> keeps st st'
    \<and> parser_state st' = ST_STRING \<and> buffer st' = buffer st @ [b]"
    if "(c, b) \<in> {(0x5C, 0x5C), (0x22, 0x22), (0x6E, 0x0A), (0x72, 0x0D), (0x62, 0x08), (0x74, 0x09), (0x66, 0x0C)}" for c b
    using that by (elim insertE; clarsimp simp: symbol) (auto simp: keeps_def advance_def)
  note escape = read_unicode_escape [OF assms]
  have bytes: "utf8_bytes ch = [ucast ch]" if "ch < 0x80"
  proof -
    have "uint ch < 2 ^ 7" using that by (simp add: word_less_def)
    from small_wchar(1) [OF this] this show ?thesis by (simp add: utf8_bytes_def utf8_add_def)
  qed
  have low: "ucast ch = (c :: byte) \<longleftrightarrow> ch = ucast c" if "ch < 0x80" for c
  proof -
    have "uint ch < 2 ^ 7" using that by (simp add: word_less_def)
    then have "ucast (ucast ch :: byte) = ch"
      using small_wchar(3) [of ch 7] by (intro bit_word_eqI) (fastforce simp: bit_simps)
    moreover have "ucast (ucast c :: wchar) = c" by (rule bit_word_eqI) (auto simp: bit_simps)
    ultimately show ?thesis by metis
  qed
  have printed: "\<exists>st'. parse_loop result (ucast ch # rest) st = parse_loop result rest st' \<and> keeps st st'
      \<and> parser_state st' = ST_STRING \<and> buffer st' = buffer st @ [ucast ch]" if "ch < 0x80" "ch \<noteq> 0x5C" "ch \<noteq> 0x22"
    by (rule exI [of _ "(advance (ucast ch) st)\<lparr>buffer := buffer st @ [ucast ch]\<rparr>"])
      (use that in \<open>simp add: symbol low, simp add: keeps_def advance_def\<close>)
  consider (special) c b where "(c, b) \<in> {(0x5C, 0x5C), (0x22, 0x22), (0x6E, 0x0A), (0x72, 0x0D), (0x62, 0x08), (0x74, 0x09), (0x66, 0x0C)}"
      "escape_char ch = [0x5C, c]" "utf8_bytes ch = [b]"
    | (print) "ch < 0x80" "ch \<noteq> 0x5C" "ch \<noteq> 0x22" "escape_char ch = [ucast ch]"
    | (unicode) "escape_char ch = unicode_escape ch"
  proof (cases "ch \<in> {0x5C, 0x22, 0x0A, 0x0D, 0x08, 0x09, 0x0C}")
    case True
    then show ?thesis using special bytes by (elim insertE) (simp_all add: escape_char_def)
  next
    case False
    have "isprint ch \<Longrightarrow> ch < 0x80" unfolding isprint_def by (erule conjE, erule le_less_trans) simp
    with False show ?thesis using print unicode
      by (cases "sint ch < 0x80 \<and> isprint ch") (auto simp: escape_char_def)
  qed
  then show ?thesis
  proof cases
    case special
    then show ?thesis using two [of c b] by simp
  next
    case print
    then show ?thesis using printed bytes by simp
  next
    case unicode
    then show ?thesis using escape by simp
  qed
qed

text \<open>A whole string, after its opening quote, up to the closing one.\<close>

lemma read_chars:
  "parser_state st = ST_STRING \<Longrightarrow> \<forall>ch \<in> set cs. ch < 0x800 \<Longrightarrow>
    \<exists>st'. parse_loop result (concat (map escape_char cs) @ rest) st = parse_loop result rest st' \<and> keeps st st'
      \<and> parser_state st' = ST_STRING \<and> buffer st' = buffer st @ utf8_text cs"
proof (induction cs arbitrary: st)
  case (Cons ch cs)
  then obtain st1 where "parse_loop result (escape_char ch @ concat (map escape_char cs) @ rest) st
      = parse_loop result (concat (map escape_char cs) @ rest) st1" "keeps st st1"
    "parser_state st1 = ST_STRING" "buffer st1 = buffer st @ utf8_bytes ch"
    using read_escape [of st ch result "concat (map escape_char cs) @ rest"] by auto
  moreover from this Cons obtain st2 where "parse_loop result (concat (map escape_char cs) @ rest) st1 = parse_loop result rest st2"
    "keeps st1 st2" "parser_state st2 = ST_STRING" "buffer st2 = buffer st1 @ utf8_text cs" by fastforce
  ultimately show ?case by (intro exI [of _ st2]) (auto simp: utf8_text_def intro: keeps_trans)
qed (auto simp: utf8_text_def)

lemma read_plain:
  assumes "parser_state st = ST_STRING" "plain s" "buffer st = []"
  obtains st' where "parse_loop result (escaped s @ rest) st = parse_loop result rest st'" "keeps st st'"
    "parser_state st' = ST_STRING" "buffer st' = s"
  using read_chars [OF assms(1), of "utf8_decode s" result rest] assms(2,3) that by (auto simp: plain_def escaped_def)

section \<open>Values in the store\<close>

text \<open>\<open>denotes h a v\<close>: the value at \<open>a\<close> is \<open>v\<close>, but for positions and the kind of primitive values.\<close>

inductive denotes :: "json_store \<Rightarrow> nat \<Rightarrow> json_value \<Rightarrow> bool"
  and denotes_property :: "json_store \<Rightarrow> nat \<Rightarrow> json_property \<Rightarrow> bool" for h where
  denotes_primitive: "a < length h \<Longrightarrow> h ! a = Node_primitive l c s Primitive_string \<Longrightarrow> denotes h a (Json_primitive l' c' s t)"
| denotes_object: "a < length h \<Longrightarrow> h ! a = Node_object l c as \<Longrightarrow> list_all2 (\<lambda>p x. a < p \<and> denotes_property h p x) as ps \<Longrightarrow>
    denotes h a (Json_object l' c' ps)"
| denotes_array: "a < length h \<Longrightarrow> h ! a = Node_array l c as \<Longrightarrow> list_all2 (\<lambda>p x. a < p \<and> denotes h p x) as vs \<Longrightarrow>
    denotes h a (Json_array l' c' vs)"
| denotes_value: "a < length h \<Longrightarrow> h ! a = Node_property l c name (Some p) \<Longrightarrow> a < p \<Longrightarrow> denotes h p v \<Longrightarrow>
    denotes_property h a (Json_property l' c' name (Some v))"

text \<open>The value depends on the store from its address on only.\<close>

lemma denotes_later:
  assumes "\<forall>i. b \<le> i \<and> i < length h \<longrightarrow> h' ! i = h ! i" "length h \<le> length h'"
  shows "denotes h a v \<Longrightarrow> b \<le> a \<longrightarrow> denotes h' a v"
    and "denotes_property h a p \<Longrightarrow> b \<le> a \<longrightarrow> denotes_property h' a p"
proof (induction rule: denotes_denotes_property.inducts)
  case (denotes_object a l c as ps l' c')
  have "list_all2 (\<lambda>p x. a < p \<and> denotes_property h' p x) as ps" if "b \<le> a"
    using denotes_object(3) by (rule list_all2_mono) (use that in auto)
  then show ?case using denotes_object(1,2) assms by (auto intro!: denotes_denotes_property.denotes_object)
next
  case (denotes_array a l c as vs l' c')
  have "list_all2 (\<lambda>p x. a < p \<and> denotes h' p x) as vs" if "b \<le> a"
    using denotes_array(3) by (rule list_all2_mono) (use that in auto)
  then show ?case using denotes_array(1,2) assms by (auto intro!: denotes_denotes_property.denotes_array)
qed (use assms in \<open>auto intro!: denotes_denotes_property.denotes_primitive denotes_denotes_property.denotes_value\<close>)

text \<open>What the writer keeps of a value.\<close>

fun as_written :: "json_value \<Rightarrow> json_value" and as_written_property :: "json_property \<Rightarrow> json_property" where
  "as_written (Json_primitive _ _ s _) = json_primitive s"
| "as_written (Json_object _ _ ps) = Json_object (-1) (-1) (map as_written_property ps)"
| "as_written (Json_array _ _ vs) = Json_array (-1) (-1) (map as_written vs)"
| "as_written_property (Json_property _ _ name v) = Json_property (-1) (-1) name (map_option as_written v)"

lemma those_all2:
  "list_all2 (\<lambda>p x. \<exists>r. f p = Some r \<and> g r = k x) as xs \<Longrightarrow> \<exists>rs. those (map f as) = Some rs \<and> map g rs = map k xs"
  by (induction rule: list_all2_induct) auto

lemma denotes_value_at:
  "denotes h a v \<Longrightarrow> length h - a \<le> n \<longrightarrow> (\<exists>r. value_at n h a = Some r \<and> json_clone r = as_written v)"
  "denotes_property h a p \<Longrightarrow> length h - a \<le> n \<longrightarrow> (\<exists>r. property_at n h a = Some r \<and> json_clone_property r = as_written_property p)"
proof (induction arbitrary: n and n rule: denotes_denotes_property.inducts)
  case (denotes_object a l c as ps l' c')
  show ?case
  proof
    assume n: "length h - a \<le> n"
    with denotes_object(1) obtain m where m: "n = Suc m" by (cases n) auto
    have "list_all2 (\<lambda>p x. \<exists>r. property_at m h p = Some r \<and> json_clone_property r = as_written_property x) as ps"
      using denotes_object(3) by (rule list_all2_mono) (use n m in auto)
    from those_all2 [OF this] show "\<exists>r. value_at n h a = Some r \<and> json_clone r = as_written (Json_object l' c' ps)"
      using denotes_object(1,2) m by auto
  qed
next
  case (denotes_array a l c as vs l' c')
  show ?case
  proof
    assume n: "length h - a \<le> n"
    with denotes_array(1) obtain m where m: "n = Suc m" by (cases n) auto
    have "list_all2 (\<lambda>p x. \<exists>r. value_at m h p = Some r \<and> json_clone r = as_written x) as vs"
      using denotes_array(3) by (rule list_all2_mono) (use n m in auto)
    from those_all2 [OF this] show "\<exists>r. value_at n h a = Some r \<and> json_clone r = as_written (Json_array l' c' vs)"
      using denotes_array(1,2) m by auto
  qed
next
  case (denotes_primitive a l c s l' c' t)
  then show ?case by (cases n) auto
next
  case (denotes_value a l c name p v l' c')
  show ?case
  proof
    assume n: "length h - a \<le> n"
    with denotes_value(1) obtain m where m: "n = Suc m" by (cases n) auto
    from n m denotes_value.hyps have "length h - p \<le> m" by linarith
    with denotes_value.IH obtain r where "value_at m h p = Some r" "json_clone r = as_written v" by blast
    then show "\<exists>r. property_at n h a = Some r \<and> json_clone_property r = as_written_property (Json_property l' c' name (Some v))"
      using denotes_value m by (intro exI [of _ "Json_property l c name (Some r)"]) simp
  qed
qed

section \<open>Values\<close>

text \<open>Reading a value changes the store only at \<open>a\<close>, the object that is open, and beyond its end.\<close>

definition kept_but :: "nat \<Rightarrow> json_store \<Rightarrow> json_store \<Rightarrow> bool" where
  "kept_but a h h' \<longleftrightarrow> length h \<le> length h' \<and> (\<forall>i < length h. i \<noteq> a \<longrightarrow> h' ! i = h ! i)"

lemma kept_but_trans: "kept_but a h h' \<Longrightarrow> kept_but a h' h'' \<Longrightarrow> kept_but a h h''"
  by (simp add: kept_but_def)

lemma kept_but_inner: "kept_but a h h' \<Longrightarrow> kept_but b h' h'' \<Longrightarrow> length h \<le> b \<Longrightarrow> kept_but a h h''"
  by (simp add: kept_but_def)

text \<open>The parser is between values, with nothing in its buffer; \<open>same_frame\<close>: everything but the store, the
  state and the position is as it was.\<close>

definition same_frame :: "json_parser \<Rightarrow> json_parser \<Rightarrow> bool" where
  "same_frame st st' \<longleftrightarrow> saved_states st' = saved_states st \<and> root_object st' = root_object st
     \<and> current_path st' = current_path st \<and> current_object st' = current_object st
     \<and> parse_options st' = parse_options st \<and> results st' = results st"

lemma same_frame_trans: "same_frame st st' \<Longrightarrow> same_frame st' st'' \<Longrightarrow> same_frame st st''"
  by (simp add: same_frame_def)

text \<open>What reading \<open>v\<close> in the open array \<open>a\<close> does, and as the value of the open property \<open>a\<close>.\<close>

definition reads_element :: "json_result \<Rightarrow> (int \<Rightarrow> int \<Rightarrow> nat list \<Rightarrow> json_node) \<Rightarrow> parser_state \<Rightarrow> parser_state \<Rightarrow> cstring \<Rightarrow>
    (json_store \<Rightarrow> nat \<Rightarrow> bool) \<Rightarrow> bool" where
  "reads_element result mk ty ty' txt D \<longleftrightarrow> (\<forall>rest st a l c as. parser_state st = ty \<and> buffer st = [] \<and> current_object st = Some a
     \<and> a < length (store st) \<and> store st ! a = mk l c as \<longrightarrow>
     (\<exists>st' p. parse_loop result (txt @ rest) st = parse_loop result rest st' \<and> parser_state st' = ty'
        \<and> buffer st' = [] \<and> same_frame st st' \<and> kept_but a (store st) (store st') \<and> store st' ! a = mk l c (as @ [p])
        \<and> length (store st) \<le> p \<and> D (store st') p))"

abbreviation reads_item :: "json_result \<Rightarrow> json_value \<Rightarrow> bool" where
  "reads_item result v \<equiv> reads_element result Node_array ST_ARRAY ST_ARRAY_ITEM (json_text v) (\<lambda>h p. denotes h p v)"

abbreviation reads_property :: "json_result \<Rightarrow> json_property \<Rightarrow> bool" where
  "reads_property result x \<equiv>
     reads_element result Node_object ST_OBJECT ST_OBJECT_ITEM (property_text x) (\<lambda>h p. denotes_property h p x)"

definition reads_value :: "json_result \<Rightarrow> json_value \<Rightarrow> bool" where
  "reads_value result v \<longleftrightarrow> (\<forall>rest st a l c name w ss q qs. parser_state st = ST_OBJECT_PROPERTY_VALUE \<and> buffer st = []
     \<and> current_object st = Some a \<and> a < length (store st) \<and> store st ! a = Node_property l c name w
     \<and> saved_states st = ST_OBJECT_ITEM # ss \<and> current_path st = q # qs \<longrightarrow>
     (\<exists>st' p. parse_loop result (json_text v @ rest) st = parse_loop result rest st' \<and> parser_state st' = ST_OBJECT_ITEM
        \<and> buffer st' = [] \<and> same_frame (st\<lparr>saved_states := ss, current_path := qs, current_object := q\<rparr>) st'
        \<and> kept_but a (store st) (store st') \<and> store st' ! a = Node_property l c name (Some p)
        \<and> length (store st) \<le> p \<and> denotes (store st') p v))"

text \<open>A list of them, after \<open>[\<close> or \<open>{\<close> (\<open>first\<close>) or after an item.\<close>

definition reads_elements :: "json_result \<Rightarrow> (int \<Rightarrow> int \<Rightarrow> nat list \<Rightarrow> json_node) \<Rightarrow> parser_state \<Rightarrow> parser_state \<Rightarrow> bool \<Rightarrow> cstring \<Rightarrow>
    (json_store \<Rightarrow> nat \<Rightarrow> bool) list \<Rightarrow> bool" where
  "reads_elements result mk ty ty' first txt Ds \<longleftrightarrow> (\<forall>rest st a l c as. parser_state st = (if first then ty else ty')
     \<and> buffer st = [] \<and> current_object st = Some a \<and> a < length (store st) \<and> store st ! a = mk l c as \<longrightarrow>
     (\<exists>st' ps. parse_loop result (txt @ rest) st = parse_loop result rest st'
        \<and> parser_state st' \<in> {ty, ty'} \<and> buffer st' = [] \<and> same_frame st st' \<and> kept_but a (store st) (store st')
        \<and> store st' ! a = mk l c (as @ ps) \<and> list_all2 (\<lambda>p D. length (store st) \<le> p \<and> D (store st') p) ps Ds))"

abbreviation reads_items :: "json_result \<Rightarrow> bool \<Rightarrow> json_value list \<Rightarrow> bool" where
  "reads_items result first vs \<equiv>
     reads_elements result Node_array ST_ARRAY ST_ARRAY_ITEM first (items_text first vs) (map (\<lambda>v h p. denotes h p v) vs)"

abbreviation reads_properties :: "json_result \<Rightarrow> bool \<Rightarrow> json_property list \<Rightarrow> bool" where
  "reads_properties result first xs \<equiv>
     reads_elements result Node_object ST_OBJECT ST_OBJECT_ITEM first (properties_text first xs) (map (\<lambda>x h p. denotes_property h p x) xs)"

lemma reads_elementE:
  assumes "reads_element result mk ty ty' txt D" "parser_state st = ty" "buffer st = []" "current_object st = Some a"
    "a < length (store st)" "store st ! a = mk l c as"
  obtains st' p where "parse_loop result (txt @ rest) st = parse_loop result rest st'" "parser_state st' = ty'" "buffer st' = []"
    "same_frame st st'" "kept_but a (store st) (store st')" "store st' ! a = mk l c (as @ [p])" "length (store st) \<le> p" "D (store st') p"
  using assms unfolding reads_element_def by blast

lemma reads_elementsE:
  assumes "reads_elements result mk ty ty' first txt Ds" "parser_state st = (if first then ty else ty')" "buffer st = []"
    "current_object st = Some a" "a < length (store st)" "store st ! a = mk l c as"
  obtains st' ps where "parse_loop result (txt @ rest) st = parse_loop result rest st'" "parser_state st' \<in> {ty, ty'}" "buffer st' = []"
    "same_frame st st'" "kept_but a (store st) (store st')" "store st' ! a = mk l c (as @ ps)"
    "list_all2 (\<lambda>p D. length (store st) \<le> p \<and> D (store st') p) ps Ds"
  using assms unfolding reads_elements_def by blast

lemma nth_update_new: "a < length h \<Longrightarrow> (h @ [n])[a := m] = h[a := m] @ [n]"
  by (simp add: list_update_append1)

text \<open>The quote that ends a string in an array, as the value of a property, and as a name.\<close>

lemma close_item:
  assumes "parser_state st = ST_STRING" "saved_states st = ST_ARRAY_ITEM # ss" "current_object st = Some a"
    and "a < length (store st)" "store st ! a = Node_array l c as"
  obtains st' where "parse_loop result (0x22 # rest) st = parse_loop result rest st'" "parser_state st' = ST_ARRAY_ITEM"
    "buffer st' = []" "same_frame (st\<lparr>saved_states := ss\<rparr>) st'"
    "store st' = (store st)[a := Node_array l c (as @ [length (store st)])] @ [Node_primitive (line st') (column st') (buffer st) Primitive_string]"
  using assms that [of "(advance 0x22 st)\<lparr>parser_state := ST_ARRAY_ITEM, saved_states := ss, buffer := [],
      store := (store st)[a := Node_array l c (as @ [length (store st)])]
        @ [Node_primitive (line (advance 0x22 st)) (column (advance 0x22 st)) (buffer st) Primitive_string]\<rparr>"]
  by (simp add: parse_symbol_def in_string_def array_primitive_def on_current_def new_node_def bind_step_def resume_state_def
      clear_buffer_def return_step_def same_frame_def advance_def nth_append nth_update_new)

lemma close_value:
  assumes "parser_state st = ST_STRING" "saved_states st = ST_OBJECT_ITEM # ss" "current_object st = Some a"
    and "a < length (store st)" "store st ! a = Node_property l c name w" "current_path st = q # qs"
  obtains st' where "parse_loop result (0x22 # rest) st = parse_loop result rest st'" "parser_state st' = ST_OBJECT_ITEM"
    "buffer st' = []" "same_frame (st\<lparr>saved_states := ss, current_path := qs, current_object := q\<rparr>) st'"
    "store st' = (store st)[a := Node_property l c name (Some (length (store st)))] @ [Node_primitive (line st') (column st') (buffer st) Primitive_string]"
  using assms that [of "(advance 0x22 st)\<lparr>parser_state := ST_OBJECT_ITEM, saved_states := ss, buffer := [],
      current_path := qs, current_object := q, store := (store st)[a := Node_property l c name (Some (length (store st)))]
        @ [Node_primitive (line (advance 0x22 st)) (column (advance 0x22 st)) (buffer st) Primitive_string]\<rparr>"]
  by (simp add: parse_symbol_def in_string_def final_string_property_def final_property_def on_current_def new_node_def bind_step_def
      resume_state_def pop_current_def clear_buffer_def return_step_def same_frame_def advance_def nth_append nth_update_new)

lemma close_name:
  assumes "parser_state st = ST_STRING" "saved_states st = ST_OBJECT_PROPERTY_NAME # ss" "current_object st = Some a"
    and "a < length (store st)" "store st ! a = Node_object l c as"
  obtains st' l' c' where "parse_loop result (0x22 # 0x3A # rest) st = parse_loop result rest st'" "parser_state st' = ST_OBJECT_PROPERTY_VALUE"
    "buffer st' = []" "same_frame (st\<lparr>saved_states := ss, current_path := Some a # current_path st, current_object := Some (length (store st))\<rparr>) st'"
    "store st' = (store st)[a := Node_object l c (as @ [length (store st)])] @ [Node_property l' c' (buffer st) None]"
  using assms that [of "(advance 0x3A (advance 0x22 st))\<lparr>parser_state := ST_OBJECT_PROPERTY_VALUE, saved_states := ss, buffer := [],
      current_path := Some a # current_path st, current_object := Some (length (store st)),
      store := (store st)[a := Node_object l c (as @ [length (store st)])]
        @ [Node_property (line (advance 0x22 st)) (column (advance 0x22 st)) (buffer st) None]\<rparr>"]
  by (simp add: parse_symbol_def in_string_def in_object_property_name_def parser_start_property_def on_current_def new_node_def bind_step_def
      resume_state_def push_current_def modify_step_def goto_state_def clear_buffer_def return_step_def same_frame_def advance_def nth_append
      nth_update_new)

lemma same_frame_keeps: "keeps st st' \<Longrightarrow> same_frame st st'"
  by (simp add: keeps_def same_frame_def)

lemma same_frame_refl [simp]: "same_frame st st" by (simp add: same_frame_def)

lemma read_string_item:
  assumes "plain s"
  shows "reads_item result (Json_primitive l0 c0 s t)"
  unfolding reads_element_def
proof (intro allI impI, elim conjE)
  fix rest and st :: json_parser and a l c as
  assume st: "parser_state st = ST_ARRAY" "buffer st = []" "current_object st = Some a" "a < length (store st)"
    "store st ! a = Node_array l c as"
  let ?st = "(advance 0x22 st)\<lparr>saved_states := ST_ARRAY_ITEM # saved_states st, parser_state := ST_STRING\<rparr>"
  have 1: "parse_loop result (0x22 # r) st = parse_loop result r ?st" for r
    using st(1) by (simp add: parse_symbol_def in_array_def bind_step_def save_state_def goto_state_def return_step_def)
      (simp add: advance_def)
  obtain st1 where 2: "parse_loop result (escaped s @ 0x22 # rest) ?st = parse_loop result (0x22 # rest) st1" "keeps ?st st1"
    "parser_state st1 = ST_STRING" "buffer st1 = s"
    by (rule read_plain [where st = ?st and s = s and rest = "0x22 # rest" and result = result]) (use st assms in auto)
  have "saved_states st1 = ST_ARRAY_ITEM # saved_states st" "current_object st1 = Some a" "a < length (store st1)" "store st1 ! a = Node_array l c as"
    using 2(2) st by (simp_all add: keeps_def) (simp_all add: advance_def)
  from close_item [OF 2(3) this, where result = result and rest = rest] obtain st2 where 3: "parse_loop result (0x22 # rest) st1 = parse_loop result rest st2"
    "parser_state st2 = ST_ARRAY_ITEM" "buffer st2 = []" "same_frame (st1\<lparr>saved_states := saved_states st\<rparr>) st2"
    "store st2 = (store st1)[a := Node_array l c (as @ [length (store st1)])] @ [Node_primitive (line st2) (column st2) s Primitive_string]"
    unfolding 2(4) by blast
  have "store st1 = store st" "same_frame st st2"
    using 2(2) 3(4) by (simp_all add: keeps_def same_frame_def) (simp_all add: advance_def)
  moreover have "denotes (store st2) (length (store st)) (Json_primitive l0 c0 s t)"
    by (rule denotes_primitive) (simp_all add: 3(5) calculation nth_append)
  ultimately show "\<exists>st' p. parse_loop result (json_text (Json_primitive l0 c0 s t) @ rest) st = parse_loop result rest st' \<and>
     parser_state st' = ST_ARRAY_ITEM \<and> buffer st' = [] \<and> same_frame st st' \<and> kept_but a (store st) (store st') \<and>
     store st' ! a = Node_array l c (as @ [p]) \<and> length (store st) \<le> p \<and> denotes (store st') p (Json_primitive l0 c0 s t)"
    using st(4) 3 by (intro exI [of _ st2] exI [of _ "length (store st)"])
      (simp add: string_text_def 1 2(1) kept_but_def nth_append del: parse_loop.simps)
qed

lemma read_string_value:
  assumes "plain s"
  shows "reads_value result (Json_primitive l0 c0 s t)"
  unfolding reads_value_def
proof (intro allI impI, elim conjE)
  fix rest and st :: json_parser and a l c name w ss q qs
  assume st: "parser_state st = ST_OBJECT_PROPERTY_VALUE" "buffer st = []" "current_object st = Some a" "a < length (store st)"
    "store st ! a = Node_property l c name w" "saved_states st = ST_OBJECT_ITEM # ss" "current_path st = q # qs"
  let ?st = "(advance 0x22 st)\<lparr>parser_state := ST_STRING\<rparr>"
  have 1: "parse_loop result (0x22 # r) st = parse_loop result r ?st" for r
    using st(1) by (simp add: parse_symbol_def in_object_property_value_def bind_step_def goto_state_def return_step_def)
  obtain st1 where 2: "parse_loop result (escaped s @ 0x22 # rest) ?st = parse_loop result (0x22 # rest) st1" "keeps ?st st1"
    "parser_state st1 = ST_STRING" "buffer st1 = s"
    by (rule read_plain [where st = ?st and s = s and rest = "0x22 # rest" and result = result]) (use st assms in auto)
  have "saved_states st1 = ST_OBJECT_ITEM # ss" "current_object st1 = Some a" "a < length (store st1)"
    "store st1 ! a = Node_property l c name w" "current_path st1 = q # qs"
    using 2(2) st by (simp_all add: keeps_def) (simp_all add: advance_def)
  from close_value [OF 2(3) this, where result = result and rest = rest] obtain st2 where
    3: "parse_loop result (0x22 # rest) st1 = parse_loop result rest st2"
    "parser_state st2 = ST_OBJECT_ITEM" "buffer st2 = []" "same_frame (st1\<lparr>saved_states := ss, current_path := qs, current_object := q\<rparr>) st2"
    "store st2 = (store st1)[a := Node_property l c name (Some (length (store st1)))] @ [Node_primitive (line st2) (column st2) s Primitive_string]"
    unfolding 2(4) by blast
  have "store st1 = store st" "same_frame (st\<lparr>saved_states := ss, current_path := qs, current_object := q\<rparr>) st2"
    using 2(2) 3(4) by (simp_all add: keeps_def same_frame_def) (simp_all add: advance_def)
  moreover have "denotes (store st2) (length (store st)) (Json_primitive l0 c0 s t)"
    by (rule denotes_primitive) (simp_all add: 3(5) calculation nth_append)
  ultimately show "\<exists>st' p. parse_loop result (json_text (Json_primitive l0 c0 s t) @ rest) st = parse_loop result rest st' \<and>
     parser_state st' = ST_OBJECT_ITEM \<and> buffer st' = [] \<and>
     same_frame (st\<lparr>saved_states := ss, current_path := qs, current_object := q\<rparr>) st' \<and> kept_but a (store st) (store st') \<and>
     store st' ! a = Node_property l c name (Some p) \<and> length (store st) \<le> p \<and> denotes (store st') p (Json_primitive l0 c0 s t)"
    using st(4) 3 by (intro exI [of _ st2] exI [of _ "length (store st)"])
      (simp add: string_text_def 1 2(1) kept_but_def nth_append del: parse_loop.simps)
qed

lemma read_property:
  assumes "plain name" "reads_value result v"
  shows "reads_property result (Json_property l0 c0 name (Some v))"
  unfolding reads_element_def
proof (intro allI impI, elim conjE)
  fix rest and st :: json_parser and a l c as
  assume st: "parser_state st = ST_OBJECT" "buffer st = []" "current_object st = Some a" "a < length (store st)"
    "store st ! a = Node_object l c as"
  let ?st = "(advance 0x22 st)\<lparr>saved_states := ST_OBJECT_PROPERTY_NAME # ST_OBJECT_ITEM # saved_states st, parser_state := ST_STRING\<rparr>"
    and ?rest = "json_text v @ rest" and ?n = "length (store st)"
  have 1: "parse_loop result (0x22 # r) st = parse_loop result r ?st" for r
    using st(1) by (simp add: parse_symbol_def in_object_def bind_step_def save_state_def goto_state_def return_step_def)
      (simp add: advance_def)
  obtain st1 where 2: "parse_loop result (escaped name @ 0x22 # 0x3A # ?rest) ?st = parse_loop result (0x22 # 0x3A # ?rest) st1"
    "keeps ?st st1" "parser_state st1 = ST_STRING" "buffer st1 = name"
    by (rule read_plain [where st = ?st and s = name and rest = "0x22 # 0x3A # ?rest" and result = result]) (use st assms in auto)
  have "saved_states st1 = ST_OBJECT_PROPERTY_NAME # ST_OBJECT_ITEM # saved_states st" "current_object st1 = Some a"
    "a < length (store st1)" "store st1 ! a = Node_object l c as"
    using 2(2) st by (simp_all add: keeps_def) (simp_all add: advance_def)
  from close_name [OF 2(3) this, where result = result and rest = ?rest] obtain st2 l' c' where
    3: "parse_loop result (0x22 # 0x3A # ?rest) st1 = parse_loop result ?rest st2"
    "parser_state st2 = ST_OBJECT_PROPERTY_VALUE" "buffer st2 = []"
    "same_frame (st1\<lparr>saved_states := ST_OBJECT_ITEM # saved_states st, current_path := Some a # current_path st1,
      current_object := Some (length (store st1))\<rparr>) st2"
    "store st2 = (store st1)[a := Node_object l c (as @ [length (store st1)])] @ [Node_property l' c' name None]"
    unfolding 2(4) by blast
  have eq: "store st1 = store st" "current_path st1 = current_path st" "current_object st2 = Some ?n"
    "saved_states st2 = ST_OBJECT_ITEM # saved_states st" "current_path st2 = Some a # current_path st"
    using 2(2) 3(4) by (simp_all add: keeps_def same_frame_def) (simp_all add: advance_def)
  have at: "?n < length (store st2)" "store st2 ! ?n = Node_property l' c' name None" "store st2 ! a = Node_object l c (as @ [?n])"
    using st(4) by (simp_all add: 3(5) eq(1) nth_append)
  from assms(2) 3(2,3) eq(3-) at(1,2) obtain st3 p where
    4: "parse_loop result (json_text v @ rest) st2 = parse_loop result rest st3" "parser_state st3 = ST_OBJECT_ITEM" "buffer st3 = []"
    "same_frame (st2\<lparr>saved_states := saved_states st, current_path := current_path st, current_object := Some a\<rparr>) st3"
    "kept_but ?n (store st2) (store st3)" "store st3 ! ?n = Node_property l' c' name (Some p)" "length (store st2) \<le> p"
    "denotes (store st3) p v"
    unfolding reads_value_def by blast
  have frame: "same_frame st st3"
    using 2(2) 3(4) 4(4) st(3) by (simp add: keeps_def same_frame_def) (simp add: advance_def)
  have "kept_but a (store st) (store st2)" by (simp add: 3(5) eq(1) kept_but_def nth_append)
  then have kept: "kept_but a (store st) (store st3)" using 4(5) by (rule kept_but_inner) simp
  have "store st3 ! a = Node_object l c (as @ [?n])" using 4(5) at st(4) by (simp add: kept_but_def)
  moreover have "denotes_property (store st3) ?n (Json_property l0 c0 name (Some v))"
    using 4(5-8) at(1) by (intro denotes_value [of _ _ l' c' name p]) (auto simp: kept_but_def)
  ultimately show "\<exists>st' p. parse_loop result (property_text (Json_property l0 c0 name (Some v)) @ rest) st = parse_loop result rest st' \<and>
     parser_state st' = ST_OBJECT_ITEM \<and> buffer st' = [] \<and> same_frame st st' \<and> kept_but a (store st) (store st') \<and>
     store st' ! a = Node_object l c (as @ [p]) \<and> length (store st) \<le> p \<and>
     denotes_property (store st') p (Json_property l0 c0 name (Some v))"
    using 4(1-3) frame kept by (intro exI [of _ st3] exI [of _ ?n])
      (simp add: string_text_def 1 2(1) 3(1) del: parse_loop.simps)
qed

section \<open>Lists of properties and of items\<close>

text \<open>After a comma the parser expects an item as it did at the start.\<close>

lemma read_comma:
  assumes "(parser_state st, s) \<in> {(ST_ARRAY_ITEM, ST_ARRAY), (ST_OBJECT_ITEM, ST_OBJECT)}"
  obtains st' where "parse_loop result (0x2C # rest) st = parse_loop result rest st'" "parser_state st' = s" "keeps st st'"
    "buffer st' = buffer st"
  using assms that [of "(advance 0x2C st)\<lparr>parser_state := s\<rparr>"]
  by (auto simp: parse_symbol_def in_array_item_def in_object_item_def bind_step_def goto_state_def return_step_def)
    (auto simp: keeps_def advance_def)

lemma read_elements_Cons:
  assumes "(ty', ty) \<in> {(ST_ARRAY_ITEM, ST_ARRAY), (ST_OBJECT_ITEM, ST_OBJECT)}"
    and "reads_element result mk ty ty' txt D" "reads_elements result mk ty ty' False txts Ds"
    and D: "\<And>b h h' p. \<forall>i. b \<le> i \<and> i < length h \<longrightarrow> h' ! i = h ! i \<Longrightarrow> length h \<le> length h' \<Longrightarrow> b \<le> p \<Longrightarrow> D h p \<Longrightarrow> D h' p"
  shows "reads_elements result mk ty ty' first ((if first then [] else [0x2C]) @ txt @ txts) (D # Ds)"
  unfolding reads_elements_def
proof (intro allI impI, elim conjE)
  fix rest and st :: json_parser and a l c as
  assume st: "parser_state st = (if first then ty else ty')" "buffer st = []" "current_object st = Some a"
    "a < length (store st)" "store st ! a = mk l c as"
  let ?rest = "txts @ rest" and ?txt = "(if first then [] else [0x2C]) @ txt @ txts"
  obtain st1 where 1: "parse_loop result (?txt @ rest) st = parse_loop result (txt @ ?rest) st1"
    "parser_state st1 = ty" "keeps st st1" "buffer st1 = []"
  proof (cases first)
    case True
    then show thesis using that [of st] st by simp
  next
    case False
    then have "(parser_state st, ty) \<in> {(ST_ARRAY_ITEM, ST_ARRAY), (ST_OBJECT_ITEM, ST_OBJECT)}" using st(1) assms(1) by simp
    from read_comma [OF this, where rest = "txt @ ?rest" and result = result] show thesis
      using that False st(2) by (auto simp del: parse_loop.simps)
  qed
  have now: "current_object st1 = Some a" "a < length (store st1)" "store st1 ! a = mk l c as" "store st1 = store st"
    using 1(3) st by (simp_all add: keeps_def)
  obtain st2 p where 2: "parse_loop result (txt @ ?rest) st1 = parse_loop result ?rest st2"
    "parser_state st2 = ty'" "buffer st2 = []" "same_frame st1 st2" "kept_but a (store st1) (store st2)"
    "store st2 ! a = mk l c (as @ [p])" "length (store st1) \<le> p" "D (store st2) p"
    by (rule reads_elementE [OF assms(2) 1(2,4) now(1-3), where rest = ?rest])
  have then_on: "parser_state st2 = (if False then ty else ty')" "current_object st2 = Some a" "a < length (store st2)"
    using 2(2,4,5) now by (simp_all add: same_frame_def kept_but_def)
  obtain st3 ps where 3: "parse_loop result ?rest st2 = parse_loop result rest st3"
    "parser_state st3 \<in> {ty, ty'}" "buffer st3 = []" "same_frame st2 st3" "kept_but a (store st2) (store st3)"
    "store st3 ! a = mk l c ((as @ [p]) @ ps)" "list_all2 (\<lambda>p D. length (store st2) \<le> p \<and> D (store st3) p) ps Ds"
    by (rule reads_elementsE [OF assms(3) then_on(1) 2(3) then_on(2,3) 2(6), where rest = rest])
  have "D (store st3) p"
    using 2(7,8) 3(5) st(4) now(4) by (intro D [of "length (store st)" "store st2" "store st3"]) (auto simp: kept_but_def)
  moreover have "list_all2 (\<lambda>p D. length (store st) \<le> p \<and> D (store st3) p) ps Ds"
    using 3(7) by (rule list_all2_mono) (use 2(5) now(4) in \<open>auto simp: kept_but_def\<close>)
  moreover have "same_frame st st3" using 1(3) 2(4) 3(4) by (blast intro: same_frame_trans same_frame_keeps)
  moreover have "kept_but a (store st) (store st3)" using 2(5) 3(5) unfolding now(4) by (rule kept_but_trans)
  ultimately show "\<exists>st' ps. parse_loop result (?txt @ rest) st = parse_loop result rest st' \<and>
     parser_state st' \<in> {ty, ty'} \<and> buffer st' = [] \<and> same_frame st st' \<and> kept_but a (store st) (store st') \<and>
     store st' ! a = mk l c (as @ ps) \<and> list_all2 (\<lambda>p D. length (store st) \<le> p \<and> D (store st') p) ps (D # Ds)"
    unfolding 1(1) 2(1) 3(1) using 2(7) 3(2,3,6) now(4) by (intro exI [of _ st3] exI [of _ "p # ps"]) simp
qed

lemma read_elements_Nil: "reads_elements result mk ty ty' first [] []"
  unfolding reads_elements_def by (auto simp: kept_but_def)

section \<open>Arrays and objects\<close>

text \<open>\<open>]\<close> and \<open>}\<close> of a value inside another.\<close>

lemma read_close:
  assumes "parser_state st \<in> {ST_ARRAY, ST_ARRAY_ITEM} \<and> ch = 0x5D \<or> parser_state st \<in> {ST_OBJECT, ST_OBJECT_ITEM} \<and> ch = 0x7D"
    and "saved_states st = s # ss" "s \<noteq> ST_BOF" "current_path st = q # qs"
  obtains st' where "parse_loop result (ch # rest) st = parse_loop result rest st'" "parser_state st' = s" "buffer st' = buffer st"
    "same_frame (st\<lparr>saved_states := ss, current_path := qs, current_object := q\<rparr>) st'" "store st' = store st"
  using assms that [of "(advance ch st)\<lparr>parser_state := s, saved_states := ss, current_path := qs, current_object := q\<rparr>"]
  by (auto simp: parse_symbol_def in_array_def in_array_item_def in_object_def in_object_item_def final_array_def final_object_def
      bind_step_def resume_state_def) (auto simp: same_frame_def advance_def pop_current_def return_step_def)

text \<open>\<open>[\<close> and \<open>{\<close>: the kinds of value that are opened, with what their node and their text look like.\<close>

datatype container = Array | Object

fun open_char :: "container \<Rightarrow> byte" where "open_char Array = 0x5B" | "open_char Object = 0x7B"
fun close_char :: "container \<Rightarrow> byte" where "close_char Array = 0x5D" | "close_char Object = 0x7D"
fun node_of :: "container \<Rightarrow> int \<Rightarrow> int \<Rightarrow> nat list \<Rightarrow> json_node" where
  "node_of Array = Node_array" | "node_of Object = Node_object"
fun state_in :: "container \<Rightarrow> parser_state" where "state_in Array = ST_ARRAY" | "state_in Object = ST_OBJECT"
fun item_state :: "container \<Rightarrow> parser_state" where "item_state Array = ST_ARRAY_ITEM" | "item_state Object = ST_OBJECT_ITEM"

definition reads_body :: "json_result \<Rightarrow> container \<Rightarrow> cstring \<Rightarrow> json_value \<Rightarrow> bool" where
  "reads_body result k txt v \<longleftrightarrow> json_text v = open_char k # txt @ [close_char k]
     \<and> (\<exists>Ds. reads_elements result (node_of k) (state_in k) (item_state k) True txt Ds
       \<and> (\<forall>h n l c ps. n < length h \<and> h ! n = node_of k l c ps \<and> list_all2 (\<lambda>p D. n < p \<and> D h p) ps Ds \<longrightarrow> denotes h n v))"

lemma read_inner:
  assumes "reads_body result k txt v"
    and "parser_state st = state_in k" "buffer st = []" "current_object st = Some n" "n < length (store st)"
    "store st ! n = node_of k l c []" "saved_states st = s # ss" "s \<noteq> ST_BOF" "current_path st = q # qs"
  obtains st' where "parse_loop result (txt @ close_char k # rest) st = parse_loop result rest st'" "parser_state st' = s" "buffer st' = []"
    "same_frame (st\<lparr>saved_states := ss, current_path := qs, current_object := q\<rparr>) st'" "kept_but n (store st) (store st')"
    "denotes (store st') n v"
proof -
  from assms(1) obtain Ds where Ds: "reads_elements result (node_of k) (state_in k) (item_state k) True txt Ds"
    and den: "\<And>h n l c ps. n < length h \<Longrightarrow> h ! n = node_of k l c ps \<Longrightarrow> list_all2 (\<lambda>p D. n < p \<and> D h p) ps Ds \<Longrightarrow> denotes h n v"
    unfolding reads_body_def by blast
  have "parser_state st = (if True then state_in k else item_state k)" using assms(2) by simp
  from reads_elementsE [OF Ds this assms(3-6), where rest = "close_char k # rest"] obtain st1 ps where
    1: "parse_loop result (txt @ close_char k # rest) st = parse_loop result (close_char k # rest) st1"
    "parser_state st1 \<in> {state_in k, item_state k}" "buffer st1 = []" "same_frame st st1" "kept_but n (store st) (store st1)"
    "store st1 ! n = node_of k l c ([] @ ps)" "list_all2 (\<lambda>p D. length (store st) \<le> p \<and> D (store st1) p) ps Ds" by blast
  have "parser_state st1 \<in> {ST_ARRAY, ST_ARRAY_ITEM} \<and> close_char k = 0x5D \<or> parser_state st1 \<in> {ST_OBJECT, ST_OBJECT_ITEM} \<and> close_char k = 0x7D"
    using 1(2) by (cases k) auto
  moreover have "saved_states st1 = s # ss" "current_path st1 = q # qs" using 1(4) assms(7,9) by (simp_all add: same_frame_def)
  ultimately obtain st2 where 2: "parse_loop result (close_char k # rest) st1 = parse_loop result rest st2" "parser_state st2 = s"
    "buffer st2 = buffer st1" "same_frame (st1\<lparr>saved_states := ss, current_path := qs, current_object := q\<rparr>) st2" "store st2 = store st1"
    using read_close [of st1 "close_char k" s ss q qs result rest] assms(8) by metis
  have "list_all2 (\<lambda>p D. n < p \<and> D (store st1) p) ps Ds" using 1(7) by (rule list_all2_mono) (use assms(5) in auto)
  then have "denotes (store st2) n v" unfolding 2(5)
    using 1(5,6) assms(5) by (intro den [of n _ l c ps]) (auto simp: kept_but_def)
  moreover have "same_frame (st\<lparr>saved_states := ss, current_path := qs, current_object := q\<rparr>) st2"
    using 1(4) 2(4) by (simp add: same_frame_def)
  ultimately show thesis using that [of st2] 1(1,3,5) 2(1-3,5) by simp
qed

lemma read_open_item:
  assumes "parser_state st = ST_ARRAY" "current_object st = Some a" "a < length (store st)" "store st ! a = Node_array l c as"
  obtains st' l' c' where "parse_loop result (open_char k # rest) st = parse_loop result rest st'" "parser_state st' = state_in k"
    "buffer st' = buffer st"
    "same_frame (st\<lparr>saved_states := ST_ARRAY_ITEM # saved_states st, current_path := Some a # current_path st,
      current_object := Some (length (store st))\<rparr>) st'"
    "store st' = (store st)[a := Node_array l c (as @ [length (store st)])] @ [node_of k l' c' []]"
  using assms that [of "(advance (open_char k) st)\<lparr>parser_state := state_in k, saved_states := ST_ARRAY_ITEM # saved_states st,
      current_path := Some a # current_path st, current_object := Some (length (store st)),
      store := (store st)[a := Node_array l c (as @ [length (store st)])]
        @ [node_of k (line (advance (open_char k) st)) (column (advance (open_char k) st)) []]\<rparr>"]
  by (cases k) (simp_all add: parse_symbol_def in_array_def parser_start_array_def parser_start_object_def open_node_def on_current_def new_node_def
      bind_step_def save_state_def push_current_def modify_step_def goto_state_def return_step_def same_frame_def advance_def nth_append
      nth_update_new)

lemma read_open_value:
  assumes "parser_state st = ST_OBJECT_PROPERTY_VALUE" "current_object st = Some a" "a < length (store st)"
    "store st ! a = Node_property l c name w"
  obtains st' l' c' where "parse_loop result (open_char k # rest) st = parse_loop result rest st'" "parser_state st' = state_in k"
    "buffer st' = buffer st" "same_frame (st\<lparr>current_object := Some (length (store st))\<rparr>) st'"
    "store st' = (store st)[a := Node_property l c name (Some (length (store st)))] @ [node_of k l' c' []]"
  using assms that [of "(advance (open_char k) st)\<lparr>parser_state := state_in k, current_object := Some (length (store st)),
      store := (store st)[a := Node_property l c name (Some (length (store st)))]
        @ [node_of k (line (advance (open_char k) st)) (column (advance (open_char k) st)) []]\<rparr>"]
  by (cases k) (simp_all add: parse_symbol_def in_object_property_value_def parser_start_array_def parser_start_object_def open_node_def on_current_def
      new_node_def bind_step_def modify_step_def goto_state_def return_step_def same_frame_def advance_def nth_append nth_update_new)

lemma read_container_item:
  assumes "reads_body result k txt v"
  shows "reads_item result v"
  unfolding reads_element_def
proof (intro allI impI, elim conjE)
  fix rest and st :: json_parser and a l c as
  assume st: "parser_state st = ST_ARRAY" "buffer st = []" "current_object st = Some a" "a < length (store st)"
    "store st ! a = Node_array l c as"
  let ?n = "length (store st)"
  have shape: "json_text v = open_char k # txt @ [close_char k]" using assms by (simp add: reads_body_def)
  obtain st1 l' c' where 1: "parse_loop result (open_char k # txt @ close_char k # rest) st = parse_loop result (txt @ close_char k # rest) st1"
    "parser_state st1 = state_in k" "buffer st1 = buffer st"
    "same_frame (st\<lparr>saved_states := ST_ARRAY_ITEM # saved_states st, current_path := Some a # current_path st, current_object := Some ?n\<rparr>) st1"
    "store st1 = (store st)[a := Node_array l c (as @ [?n])] @ [node_of k l' c' []]"
    by (rule read_open_item [OF st(1,3-5), where k = k and rest = "txt @ close_char k # rest" and result = result])
  have now: "buffer st1 = []" "current_object st1 = Some ?n" "?n < length (store st1)" "store st1 ! ?n = node_of k l' c' []"
    "saved_states st1 = ST_ARRAY_ITEM # saved_states st" "ST_ARRAY_ITEM \<noteq> ST_BOF" "current_path st1 = Some a # current_path st"
    using 1(3-5) st(2) by (simp_all add: same_frame_def nth_append)
  obtain st2 where 2: "parse_loop result (txt @ close_char k # rest) st1 = parse_loop result rest st2" "parser_state st2 = ST_ARRAY_ITEM"
    "buffer st2 = []" "same_frame (st1\<lparr>saved_states := saved_states st, current_path := current_path st, current_object := Some a\<rparr>) st2"
    "kept_but ?n (store st1) (store st2)" "denotes (store st2) ?n v"
    by (rule read_inner [OF assms 1(2) now, where rest = rest])
  have "kept_but a (store st) (store st1)" by (simp add: 1(5) kept_but_def nth_append)
  then have "kept_but a (store st) (store st2)" using 2(5) by (rule kept_but_inner) simp
  moreover have "store st2 ! a = Node_array l c (as @ [?n])"
    using 2(5) st(4) by (simp add: kept_but_def 1(5) nth_append)
  moreover have "same_frame st st2" using 1(4) 2(4) st(3) by (simp add: same_frame_def)
  ultimately show "\<exists>st' p. parse_loop result (json_text v @ rest) st = parse_loop result rest st' \<and> parser_state st' = ST_ARRAY_ITEM \<and>
     buffer st' = [] \<and> same_frame st st' \<and> kept_but a (store st) (store st') \<and> store st' ! a = Node_array l c (as @ [p]) \<and>
     length (store st) \<le> p \<and> denotes (store st') p v"
    using 2(1-3,6) 1(1) by (intro exI [of _ st2] exI [of _ ?n]) (simp add: shape del: parse_loop.simps)
qed

lemma read_container_value:
  assumes "reads_body result k txt v"
  shows "reads_value result v"
  unfolding reads_value_def
proof (intro allI impI, elim conjE)
  fix rest and st :: json_parser and a l c name w ss q qs
  assume st: "parser_state st = ST_OBJECT_PROPERTY_VALUE" "buffer st = []" "current_object st = Some a" "a < length (store st)"
    "store st ! a = Node_property l c name w" "saved_states st = ST_OBJECT_ITEM # ss" "current_path st = q # qs"
  let ?n = "length (store st)"
  have shape: "json_text v = open_char k # txt @ [close_char k]" using assms by (simp add: reads_body_def)
  obtain st1 l' c' where 1: "parse_loop result (open_char k # txt @ close_char k # rest) st = parse_loop result (txt @ close_char k # rest) st1"
    "parser_state st1 = state_in k" "buffer st1 = buffer st" "same_frame (st\<lparr>current_object := Some ?n\<rparr>) st1"
    "store st1 = (store st)[a := Node_property l c name (Some ?n)] @ [node_of k l' c' []]"
    by (rule read_open_value [OF st(1,3-5), where k = k and rest = "txt @ close_char k # rest" and result = result])
  have now: "buffer st1 = []" "current_object st1 = Some ?n" "?n < length (store st1)" "store st1 ! ?n = node_of k l' c' []"
    "saved_states st1 = ST_OBJECT_ITEM # ss" "ST_OBJECT_ITEM \<noteq> ST_BOF" "current_path st1 = q # qs"
    using 1(3-5) st by (simp_all add: same_frame_def nth_append)
  obtain st2 where 2: "parse_loop result (txt @ close_char k # rest) st1 = parse_loop result rest st2" "parser_state st2 = ST_OBJECT_ITEM"
    "buffer st2 = []" "same_frame (st1\<lparr>saved_states := ss, current_path := qs, current_object := q\<rparr>) st2"
    "kept_but ?n (store st1) (store st2)" "denotes (store st2) ?n v"
    by (rule read_inner [OF assms 1(2) now, where rest = rest])
  have "kept_but a (store st) (store st1)" by (simp add: 1(5) kept_but_def nth_append)
  then have "kept_but a (store st) (store st2)" using 2(5) by (rule kept_but_inner) simp
  moreover have "store st2 ! a = Node_property l c name (Some ?n)"
    using 2(5) st(4) by (simp add: kept_but_def 1(5) nth_append)
  moreover have "same_frame (st\<lparr>saved_states := ss, current_path := qs, current_object := q\<rparr>) st2"
    using 1(4) 2(4) by (simp add: same_frame_def)
  ultimately show "\<exists>st' p. parse_loop result (json_text v @ rest) st = parse_loop result rest st' \<and> parser_state st' = ST_OBJECT_ITEM \<and>
     buffer st' = [] \<and> same_frame (st\<lparr>saved_states := ss, current_path := qs, current_object := q\<rparr>) st' \<and>
     kept_but a (store st) (store st') \<and> store st' ! a = Node_property l c name (Some p) \<and> length (store st) \<le> p \<and>
     denotes (store st') p v"
    using 2(1-3,6) 1(1) by (intro exI [of _ st2] exI [of _ ?n]) (simp add: shape del: parse_loop.simps)
qed

lemma reads_object_body:
  "reads_properties result True ps \<Longrightarrow> reads_body result Object (properties_text True ps) (Json_object l c ps)"
  unfolding reads_body_def
  by (auto simp: list.rel_map intro!: exI [of _ "map (\<lambda>x h p. denotes_property h p x) ps"] denotes_object)

lemma reads_array_body:
  "reads_items result True vs \<Longrightarrow> reads_body result Array (items_text True vs) (Json_array l c vs)"
  unfolding reads_body_def
  by (auto simp: list.rel_map intro!: exI [of _ "map (\<lambda>v h p. denotes h p v) vs"] denotes_array)

lemma reads_written:
  "writable v \<Longrightarrow> reads_item result v \<and> reads_value result v
     \<and> (case v of Json_primitive l c s t \<Rightarrow> True | Json_object l c ps \<Rightarrow> reads_body result Object (properties_text True ps) v
        | Json_array l c vs \<Rightarrow> reads_body result Array (items_text True vs) v)"
  "writable_property x \<Longrightarrow> reads_property result x"
  "writable_properties ps \<Longrightarrow> reads_properties result first ps"
  "writable_items vs \<Longrightarrow> reads_items result first' vs"
proof (induction v and x and first ps and first' vs rule: json_text_property_text_properties_text_items_text.induct)
  case (1 l c s t)
  then show ?case using read_string_item [of s result l c t] read_string_value [of s result l c t] by simp
next
  case (2 l c ps)
  then have "reads_body result Object (properties_text True ps) (Json_object l c ps)" by (intro reads_object_body) simp
  from read_container_item [OF this] read_container_value [OF this] this show ?case by simp
next
  case (3 l c vs)
  then have "reads_body result Array (items_text True vs) (Json_array l c vs)" by (intro reads_array_body) simp
  from read_container_item [OF this] read_container_value [OF this] this show ?case by simp
next
  case (4 l c name v)
  then obtain w where w: "v = Some w" "plain name" "reads_value result w" by (cases v) auto
  from read_property [OF w(2,3), of l c] show ?case by (simp add: w(1))
next
  case (6 first p ps)
  then show ?case
    unfolding properties_text.simps list.map
    by (intro read_elements_Cons) (auto intro: denotes_later(2) [THEN mp])
next
  case (8 first v vs)
  then show ?case
    unfolding items_text.simps list.map
    by (intro read_elements_Cons) (auto intro: denotes_later(1) [THEN mp])
qed (simp_all add: read_elements_Nil)

section \<open>A whole text\<close>

lemma parse_root:
  assumes "reads_body (\<lambda>_. Inr ()) k txt v"
  shows "\<exists>r. json_parse name (json_text v) = Inr (Some r) \<and> json_clone r = as_written v"
proof -
  let ?result = "\<lambda>_. Inr () :: unit expected" and ?st = "new_parser name default_options"
  have shape: "json_text v = open_char k # txt @ [close_char k]" using assms by (simp add: reads_body_def)
  from assms obtain Ds where Ds: "reads_elements ?result (node_of k) (state_in k) (item_state k) True txt Ds"
    and den: "\<And>h n l c ps. n < length h \<Longrightarrow> h ! n = node_of k l c ps \<Longrightarrow> list_all2 (\<lambda>p D. n < p \<and> D h p) ps Ds \<Longrightarrow> denotes h n v"
    unfolding reads_body_def by blast
  define st1 where "st1 = (advance (open_char k) ?st)\<lparr>parser_state := state_in k, saved_states := [ST_BOF], current_object := Some 0,
    root_object := Some 0, store := [node_of k (line (advance (open_char k) ?st)) (column (advance (open_char k) ?st)) []]\<rparr>"
  have 1: "parse_loop ?result (open_char k # s) ?st = parse_loop ?result s st1" for s
    by (cases k) (simp_all add: parse_symbol_def in_bof_def parser_start_array_def parser_start_object_def open_node_def new_node_def bind_step_def
      save_state_def modify_step_def goto_state_def return_step_def st1_def new_parser_def advance_def)
  have now: "parser_state st1 = (if True then state_in k else item_state k)" "buffer st1 = []" "current_object st1 = Some 0"
    "0 < length (store st1)" "store st1 ! 0 = node_of k (line st1) (column st1) []"
    by (simp_all add: st1_def new_parser_def)
  obtain st2 ps where 2: "parse_loop ?result (txt @ [close_char k]) st1 = parse_loop ?result [close_char k] st2"
    "parser_state st2 \<in> {state_in k, item_state k}" "buffer st2 = []" "same_frame st1 st2" "kept_but 0 (store st1) (store st2)"
    "store st2 ! 0 = node_of k (line st1) (column st1) ([] @ ps)"
    "list_all2 (\<lambda>p D. length (store st1) \<le> p \<and> D (store st2) p) ps Ds"
    by (rule reads_elementsE [OF Ds now, where rest = "[close_char k]"])
  have "list_all2 (\<lambda>p D. 0 < p \<and> D (store st2) p) ps Ds"
    using 2(7) by (rule list_all2_mono) (use now(4) in \<open>auto simp del: length_greater_0_conv\<close>)
  then have "denotes (store st2) 0 v"
    using 2(5,6) now(4) by (intro den [of 0 _ "line st1" "column st1" ps]) (auto simp: kept_but_def)
  from denotes_value_at(1) [OF this, THEN mp, of "length (store st2)"] obtain r where
    r: "pointed (store st2) 0 = Some r" "json_clone r = as_written v" unfolding pointed_def by auto
  define st3 where "st3 = (advance (close_char k) st2)\<lparr>parser_state := ST_EOF, saved_states := [], results := [Some r]\<rparr>"
  have "saved_states st2 = [ST_BOF]" "root_object st2 = Some 0" "parse_options st2 = default_options" "results st2 = []"
    using 2(4) by (simp_all add: same_frame_def st1_def new_parser_def advance_def)
  then have 3: "parse_loop ?result [close_char k] st2 = (Inr (), st3)"
    using 2(2) r(1) by (cases k) (auto simp: parse_symbol_def in_array_def in_array_item_def in_object_def in_object_item_def
      final_array_def final_object_def bind_step_def resume_state_def give_result_def return_step_def default_options_def st3_def advance_def)
  have "parser_write ?result (json_text v) ?st = (Inr (), st3)"
    by (simp add: parser_write_def shape 1 2(1) 3 del: parse_loop.simps)
  moreover have "parser_write ?result [] st3 = (Inr (), st3)" by (simp add: parser_write_def final_data_def st3_def)
  ultimately have "json_parse name (json_text v) = Inr (Some r)"
    by (simp add: json_parse_def bind_step_def) (simp add: st3_def)
  with r(2) show ?thesis by blast
qed

lemma json_to_string_text:
  assumes "writable v" "case v of Json_primitive _ _ _ _ \<Rightarrow> False | _ \<Rightarrow> True"
  shows "json_to_string v = Inr (json_text v)"
proof (cases v)
  case (Json_object l c ps)
  have w: "writable_properties ps" using assms(1) by (simp add: Json_object)
  show ?thesis unfolding Json_object using json_str_text(3) [OF w]
    by (auto simp: json_to_string_def new_writer_def start_object_def end_object_def writer_step_simps)
next
  case (Json_array l c vs)
  have w: "writable_items vs" using assms(1) by (simp add: Json_array)
  show ?thesis unfolding Json_array using json_str_text(4) [OF w]
    by (auto simp: json_to_string_def new_writer_def start_array_def end_array_def writer_step_simps)
qed (use assms(2) in simp)

text \<open>C15: What \<open>str\<close> writes of an object or array, \<open>parse\<close> reads back: the same value, up to the positions
  and with numbers as strings, as the writer writes them. The strings are of characters below 0x800, no
  value is null and no array stands directly in an array (for which the writer leaves out the comma).\<close>

theorem json_roundtrip:
  assumes "writable v" "case v of Json_primitive _ _ _ _ \<Rightarrow> False | _ \<Rightarrow> True"
  shows "\<exists>t r. json_to_string v = Inr t \<and> json_parse name t = Inr (Some r) \<and> json_clone r = as_written v"
proof (cases v)
  case (Json_object l c ps)
  then show ?thesis
    using parse_root [of Object "properties_text True ps" v name] reads_written(1) [OF assms(1)] json_to_string_text [OF assms] by auto
next
  case (Json_array l c vs)
  then show ?thesis
    using parse_root [of Array "items_text True vs" v name] reads_written(1) [OF assms(1)] json_to_string_text [OF assms] by auto
qed (use assms(2) in simp)

theorem json_roundtrip_witness:
  "\<exists>t r. json_to_string (Json_object 0 0 [json_property [0x61] (Json_array 0 0 [json_primitive [0x22, 0x0A], Json_object 0 0 []])]) = Inr t
    \<and> json_parse ''json'' t = Inr (Some r)
    \<and> json_clone r = Json_object (-1) (-1) [json_property [0x61] (Json_array (-1) (-1) [json_primitive [0x22, 0x0A], Json_object (-1) (-1) []])]"
proof -
  have "plain [0x61]" "plain [0x22, 0x0A]"
    by (simp_all add: plain_def utf8_decode.simps utf8_next_char_def utf8_text_def utf8_bytes_def utf8_add_def)
  then show ?thesis
    using json_roundtrip [of "Json_object 0 0 [json_property [0x61] (Json_array 0 0 [json_primitive [0x22, 0x0A], Json_object 0 0 []])]" "''json''"]
    by simp
qed

end
