(* ===== verification/Json_properties.thy ===== *)
theory Json_properties
  imports Json_value Base64_properties
begin

text \<open>
  What is put into the properties of a JSON object is read from them again: numbers, within the range of
  \<open>atol\<close>, and byte buffers.
\<close>

section \<open>Decimal numbers\<close>

lemma digit_char:
  assumes "n < 10"
  shows "isdigit (0x30 + word_of_nat n)" "unat ((0x30 + word_of_nat n :: byte) - 0x30) = n"
proof -
  have u: "unat (word_of_nat n :: byte) = n" using assms by (simp add: unsigned_of_nat take_bit_eq_mod)
  then have "unat (0x30 + word_of_nat n :: byte) = 0x30 + n" using assms by (simp add: unat_word_ariths)
  then show "isdigit (0x30 + word_of_nat n)" using assms by (simp add: isdigit_def word_le_nat_alt)
  show "unat ((0x30 + word_of_nat n :: byte) - 0x30) = n" using u by simp
qed

lemma digits_value_snoc: "digits_value (ds @ [d]) = 10 * digits_value ds + unat (d - 0x30)"
  by (simp add: digits_value_def)

lemma to_string_digits: "to_string n \<noteq> [] \<and> (\<forall>d \<in> set (to_string n). isdigit d) \<and> digits_value (to_string n) = n"
proof (induction n rule: to_string.induct)
  case (1 n)
  have n: "\<not> n < 10 \<Longrightarrow> 10 * (n div 10) + n mod 10 = n" "n mod 10 < 10" by simp_all
  show ?case
  proof (cases "n < 10")
    case True
    then show ?thesis using digit_char [of n] by (subst (1 2 3) to_string.simps) (simp add: digits_value_def)
  next
    case False
    then show ?thesis using 1 n digit_char [of "n mod 10"]
      by (subst (1 2 3) to_string.simps) (simp add: digits_value_snoc)
  qed
qed

lemma isdigit_apart: "isdigit d \<Longrightarrow> \<not> isspace d \<and> d \<noteq> 0x2D \<and> d \<noteq> 0x2B"
  unfolding isdigit_def isspace_def
  by (auto simp: word_le_nat_alt)

lemma number_value_to_string: "number_value (to_string n) = int n"
proof -
  note d = to_string_digits [of n]
  then obtain c cs where c: "to_string n = c # cs" by (cases "to_string n") auto
  with d have "\<not> isspace c \<and> c \<noteq> 0x2D \<and> c \<noteq> 0x2B" by (intro isdigit_apart) simp
  moreover have all: "takeWhile isdigit (c # cs) = c # cs" using d c by (intro takeWhile_eq_all_conv [THEN iffD2]) simp
  have "digits_value (takeWhile isdigit (c # cs)) = n" unfolding all using d c by simp
  ultimately show ?thesis using c by (simp add: number_value_def del: takeWhile.simps)
qed

section \<open>Properties\<close>

lemma get_added: "\<forall>p \<in> set ps. prop_name p \<noteq> name \<Longrightarrow> get_property (add_value name v ps) name = Some v"
  by (induction ps) (auto simp: add_value_def add_property_def)

lemma get_added_string:
  "\<forall>p \<in> set ps. prop_name p \<noteq> name \<Longrightarrow> json_get_string (add_string name s ps) name = Inr (Some s)"
  by (simp add: json_get_string_def add_string_def get_added)

lemma get_converted_number:
  assumes "\<forall>p \<in> set ps. prop_name p \<noteq> name"
  shows "get_converted (\<lambda>s. get_expected (atol s) (\<lambda>n. Inr (word_of_int n))) (add_number name v ps) name
    = (if v < 2 ^ 63 then Inr (Some (ucast v :: 'b :: len word)) else Inl (Undefined_behaviour ''atol''))"
proof -
  have range: "v < 2 ^ 63 \<longleftrightarrow> int (unat v) < 2 ^ 63" by (simp add: word_less_def)
  have low: "- (2 ^ 63) \<le> int (unat v)" by (rule order_trans [of _ 0]) simp_all
  have string: "json_get_string (add_number name v ps) name = Inr (Some (to_string (unat v)))"
    using get_added_string [OF assms] by (simp add: add_number_def add_string_def)
  show ?thesis unfolding get_converted_def string atol_def range using low by (simp add: number_value_to_string)
qed

text \<open>C17: A number that is added to an object under a new name is read back by the form of
  \<open>get_property\<close> for \<open>uint64_t\<close> exactly when it is below \<open>2^63\<close>; above, \<open>atol\<close> has undefined behaviour. The
  forms for smaller types return its low bits, without an error.\<close>

theorem json_number_bounds:
  assumes "\<forall>p \<in> set ps. prop_name p \<noteq> name"
  shows "let ps = add_number name v ps
    in if v < 2 ^ 63 then get_u64 ps name = Inr (Some v) \<and> get_u32 ps name = Inr (Some (ucast v))
         \<and> get_u16 ps name = Inr (Some (ucast v)) \<and> get_u8 ps name = Inr (Some (ucast v))
       else get_u64 ps name = Inl (Undefined_behaviour ''atol'')"
  by (simp add: Let_def get_u64_def get_u32_def get_u16_def get_u8_def get_converted_number [OF assms])

theorem json_number_bounds_witness:
  "get_u64 (add_number [0x61] 300 [json_property [0x62] (json_primitive [])]) [0x61] = Inr (Some 300)
    \<and> get_u8 (add_number [0x61] 300 [json_property [0x62] (json_primitive [])]) [0x61] = Inr (Some 44)"
  using json_number_bounds [of "[json_property [0x62] (json_primitive [])]" "[0x61]" 300] by (simp add: Let_def)

text \<open>Buffers are written as base64.\<close>

lemma json_buffer_roundtrip:
  "\<forall>p \<in> set ps. prop_name p \<noteq> name \<Longrightarrow> json_get_buffer fresh (add_buffer name b ps) name = Inr (Some b)"
  by (simp add: json_get_buffer_def get_converted_def add_buffer_def get_added_string base64_to_from_bytes)

lemma buffers_of_written: "buffers_of fresh (map (\<lambda>v. json_primitive (base64_from_bytes (buffer_data v))) bs) = Inr bs"
  by (induction bs) (simp_all add: base64_to_from_bytes)

lemma json_buffers_roundtrip:
  "\<forall>p \<in> set ps. prop_name p \<noteq> name \<Longrightarrow> get_buffers fresh (add_buffers name bs ps) name = Inr bs"
  by (simp add: get_buffers_def add_buffers_def get_added buffers_of_written)

end
