(* ===== verification/Dht_route.thy ===== *)
theory Dht_route
  imports Dht_object_id
begin

text \<open>
  \<open>libs_server/vds_dht_network/impl/dht_route.cpp\<close>: the routing table. The nodes a node knows stand in
  buckets, by the first bit in which their identifier differs from its own; of a session only the address
  and the identifier of the partner matter here. Addresses, the sending of a ping, the filters and the
  callbacks are parameters. The locks are left out: an operation runs as a whole.
\<close>

section \<open>Nodes\<close>

record 'a route_session =
  session_address :: 'a
  session_partner :: const_data_buffer

record 'a route_node =
  node_id :: const_data_buffer
  proxy_session :: "'a route_session"
  pinged :: byte
  hops :: byte

definition make_node :: "const_data_buffer \<Rightarrow> 'a route_session \<Rightarrow> byte \<Rightarrow> 'a route_node" where
  "make_node i s h = \<lparr>node_id = i, proxy_session = s, pinged = 0, hops = h\<rparr>"

definition is_good :: "'a route_node \<Rightarrow> bool" where
  "is_good n \<longleftrightarrow> pinged n < 10"

definition reset_node :: "const_data_buffer \<Rightarrow> 'a route_session \<Rightarrow> byte \<Rightarrow> 'a route_node \<Rightarrow> 'a route_node" where
  "reset_node i s h n = n\<lparr>node_id := i, proxy_session := s, hops := h, pinged := 0\<rparr>"

abbreviation node_address :: "'a route_node \<Rightarrow> 'a" where
  "node_address n \<equiv> session_address (proxy_session n)"

section \<open>Buckets\<close>

abbreviation MAX_NODES :: nat where "MAX_NODES \<equiv> 8"

type_synonym 'a bucket = "'a route_node list"

text \<open>The first node that is not good is taken for the new one.\<close>

fun replace_bad :: "const_data_buffer \<Rightarrow> 'a route_session \<Rightarrow> byte \<Rightarrow> 'a bucket \<Rightarrow> bool \<times> 'a bucket" where
  "replace_bad i s h [] = (False, [])"
| "replace_bad i s h (n # ns) =
     (if \<not> is_good n then (True, reset_node i s h n # ns)
      else let (r, ns) = replace_bad i s h ns in (r, n # ns))"

definition bucket_add_node :: "const_data_buffer \<Rightarrow> 'a route_session \<Rightarrow> byte \<Rightarrow> bool \<Rightarrow> 'a bucket \<Rightarrow> bool \<times> 'a bucket" where
  "bucket_add_node i s h allow_skip ns =
     (if \<exists>n \<in> set ns. node_id n = i \<and> node_address n = session_address s then (False, ns)
      else if \<not> allow_skip \<or> h = 0 \<or> length ns < MAX_NODES then (True, ns @ [make_node i s h])
      else replace_bad i s h ns)"

definition bucket_remove_session :: "'a route_session \<Rightarrow> 'a bucket \<Rightarrow> 'a bucket" where
  "bucket_remove_session s ns = filter (\<lambda>n. node_address n \<noteq> session_address s) ns"

text \<open>The pings are sent after every count was raised; an error ends the sending. \<open>ping\<close> is what
  \<open>ping_node\<close> returns for a node and a session.\<close>

fun send_pings :: "(const_data_buffer \<Rightarrow> 'a route_session \<Rightarrow> unit expected) \<Rightarrow> 'a bucket \<Rightarrow> unit expected" where
  "send_pings ping [] = Inr ()"
| "send_pings ping (n # ns) = check_expected (ping (node_id n) (proxy_session n)) (send_pings ping ns)"

definition bucket_on_timer :: "(const_data_buffer \<Rightarrow> 'a route_session \<Rightarrow> unit expected) \<Rightarrow> 'a bucket \<Rightarrow> unit expected \<times> 'a bucket" where
  "bucket_on_timer ping ns = (send_pings ping ns, map (\<lambda>n. n\<lparr>pinged := pinged n + 1\<rparr>) ns)"

definition bucket_contains :: "const_data_buffer \<Rightarrow> 'a bucket \<Rightarrow> bool" where
  "bucket_contains i ns \<longleftrightarrow> (\<exists>n \<in> set ns. node_id n = i)"

fun bucket_mark_pinged :: "const_data_buffer \<Rightarrow> 'a \<Rightarrow> 'a bucket \<Rightarrow> 'a bucket" where
  "bucket_mark_pinged target a [] = []"
| "bucket_mark_pinged target a (n # ns) =
     (if node_id n = target \<and> node_address n = a then n\<lparr>pinged := 0\<rparr> # ns
      else n # bucket_mark_pinged target a ns)"

record route_info =
  ri_node_id :: const_data_buffer
  ri_proxy_address :: cstring
  ri_pinged :: byte
  ri_hops :: byte

definition bucket_statistics :: "('a \<Rightarrow> cstring) \<Rightarrow> 'a bucket \<Rightarrow> route_info list" where
  "bucket_statistics show ns = map (\<lambda>n. \<lparr>ri_node_id = node_id n, ri_proxy_address = show (node_address n),
     ri_pinged = pinged n, ri_hops = hops n\<rparr>) ns"

definition bucket_neighbors :: "'a bucket \<Rightarrow> 'a route_node list" where
  "bucket_neighbors ns = filter (\<lambda>n. hops n = 0) ns"

section \<open>The table\<close>

text \<open>\<open>buckets\<close> is a \<open>std::map\<close>, sorted by index.\<close>

record 'a dht_route =
  current_node_id :: const_data_buffer
  buckets :: "(nat \<times> 'a bucket) list"

definition new_route :: "const_data_buffer \<Rightarrow> 'a dht_route" where
  "new_route this = \<lparr>current_node_id = this, buckets = []\<rparr>"

definition add_node :: "const_data_buffer \<Rightarrow> 'a route_session \<Rightarrow> byte \<Rightarrow> bool \<Rightarrow> 'a dht_route \<Rightarrow> bool \<times> 'a dht_route" where
  "add_node i s h allow_skip r =
     (if i = current_node_id r \<or> session_partner s = current_node_id r then (False, r)
      else
        let index = distance_exp (current_node_id r) i;
            b = (case map_of (buckets r) index of None \<Rightarrow> [] | Some b \<Rightarrow> b);
            (res, b) = bucket_add_node i s h allow_skip b
        in (res, r\<lparr>buckets := map_put index b (buckets r)\<rparr>))"

text \<open>An error of a bucket leaves those behind it as they were.\<close>

fun ping_buckets :: "(const_data_buffer \<Rightarrow> 'a route_session \<Rightarrow> unit expected) \<Rightarrow> (nat \<times> 'a bucket) list \<Rightarrow>
    unit expected \<times> (nat \<times> 'a bucket) list" where
  "ping_buckets ping [] = (Inr (), [])"
| "ping_buckets ping ((i, b) # bs) =
     (case bucket_on_timer ping b of
        (Inl e, b) \<Rightarrow> (Inl e, (i, b) # bs)
      | (Inr _, b) \<Rightarrow> let (r, bs) = ping_buckets ping bs in (r, (i, b) # bs))"

definition route_on_timer :: "(const_data_buffer \<Rightarrow> 'a route_session \<Rightarrow> unit expected) \<Rightarrow> (unit, 'a dht_route) step" where
  "route_on_timer ping r = (let (res, bs) = ping_buckets ping (buckets r) in (res, r\<lparr>buckets := bs\<rparr>))"

definition mark_pinged :: "const_data_buffer \<Rightarrow> 'a \<Rightarrow> 'a dht_route \<Rightarrow> 'a dht_route" where
  "mark_pinged target a r =
     (let index = distance_exp (current_node_id r) target
      in case map_of (buckets r) index of
           None \<Rightarrow> r
         | Some b \<Rightarrow> r\<lparr>buckets := map_put index (bucket_mark_pinged target a b) (buckets r)\<rparr>)"

definition remove_session :: "'a route_session \<Rightarrow> 'a dht_route \<Rightarrow> 'a dht_route" where
  "remove_session s r = r\<lparr>buckets := map (\<lambda>(i, b). (i, bucket_remove_session s b)) (buckets r)\<rparr>"

definition get_statistics :: "('a \<Rightarrow> cstring) \<Rightarrow> 'a dht_route \<Rightarrow> const_data_buffer \<times> route_info list" where
  "get_statistics show r = (current_node_id r, concat (map (\<lambda>(i, b). bucket_statistics show b) (buckets r)))"

definition get_neighbors :: "'a dht_route \<Rightarrow> 'a route_node list" where
  "get_neighbors r = concat (map (\<lambda>(i, b). bucket_neighbors b) (buckets r))"

section \<open>Searching\<close>

text \<open>\<open>std::map<distance, std::map<id, node>>\<close>.\<close>

type_synonym 'a found_nodes = "(const_data_buffer \<times> (const_data_buffer \<times> 'a route_node) list) list"

abbreviation (input) at_distance :: "'a found_nodes \<Rightarrow> const_data_buffer \<Rightarrow> (const_data_buffer \<times> 'a route_node) list" where
  "at_distance result d \<equiv> (case map_of result d of None \<Rightarrow> [] | Some m \<Rightarrow> m)"

text \<open>A good node that passes the filter is put under its distance; of two nodes with one identifier the
  one with fewer hops stays.\<close>

definition found_node :: "const_data_buffer \<Rightarrow> 'a route_node \<Rightarrow> 'a found_nodes \<Rightarrow> nat \<times> 'a found_nodes" where
  "found_node target n result =
     (let d = dht_distance (node_id n) target; m = at_distance result d
      in case map_of m (node_id n) of
           None \<Rightarrow> (1, map_put d (map_put (node_id n) n m) result)
         | Some n' \<Rightarrow> (0, map_put d (if hops n < hops n' then map_put (node_id n) n m else m) result))"

fun looking_bucket :: "const_data_buffer \<Rightarrow> ('a route_node \<Rightarrow> bool expected) \<Rightarrow> 'a bucket \<Rightarrow> nat \<Rightarrow> 'a found_nodes \<Rightarrow>
    nat expected \<times> 'a found_nodes" where
  "looking_bucket target filt [] count result = (Inr count, result)"
| "looking_bucket target filt (n # ns) count result =
     (if \<not> is_good n then looking_bucket target filt ns count result
      else case filt n of
        Inl e \<Rightarrow> (Inl e, result)
      | Inr False \<Rightarrow> looking_bucket target filt ns count result
      | Inr True \<Rightarrow>
          let (k, result) = found_node target n result in looking_bucket target filt ns (count + k) result)"

definition looking_nodes :: "'a dht_route \<Rightarrow> const_data_buffer \<Rightarrow> ('a route_node \<Rightarrow> bool expected) \<Rightarrow> nat \<Rightarrow> (nat, 'a found_nodes) step" where
  "looking_nodes r target filt index result =
     (case map_of (buckets r) index of
        None \<Rightarrow> (Inr 0, result)
      | Some b \<Rightarrow> looking_bucket target filt b 0 result)"

text \<open>The loop over \<open>distance\<close>, from the bucket of the target outwards to both sides.\<close>

function search_loop :: "'a dht_route \<Rightarrow> const_data_buffer \<Rightarrow> nat \<Rightarrow> ('a route_node \<Rightarrow> bool expected) \<Rightarrow> nat \<Rightarrow> nat \<Rightarrow> nat \<Rightarrow>
    nat \<Rightarrow> nat \<Rightarrow> (unit, 'a found_nodes) step" where
  "search_loop r target max_count filt index min_index max_index distance count result =
     (if length result < max_count
          \<and> (index + distance \<le> max_index \<or> distance \<le> index \<and> min_index \<le> index - distance) then
        bind_step (if index + distance \<le> max_index then looking_nodes r target filt (index + distance) else return_step 0) (\<lambda>above.
        bind_step (if distance \<le> index \<and> min_index \<le> index - distance then looking_nodes r target filt (index - distance)
                   else return_step 0) (\<lambda>below.
          if max_count < count + above + below then return_step ()
          else search_loop r target max_count filt index min_index max_index (distance + 1) (count + above + below))) result
      else (Inr (), result))"
  by pat_completeness auto
termination
  by (relation "measure (\<lambda>(r, target, max_count, filt, index, min_index, max_index, distance, count, result).
       Suc (index + max_index) - distance)") auto

declare search_loop.simps [simp del]

definition search_nodes :: "'a dht_route \<Rightarrow> const_data_buffer \<Rightarrow> nat \<Rightarrow> ('a route_node \<Rightarrow> bool expected) \<Rightarrow> (unit, 'a found_nodes) step" where
  "search_nodes r target max_count filt result =
     (if buckets r = [] then (Inr (), result)
      else search_loop r target max_count filt (distance_exp (current_node_id r) target)
             (fst (hd (buckets r))) (fst (last (buckets r))) 0 0 result)"

text \<open>The callback is run on the nodes in order until it fails or returns \<open>false\<close>; \<open>'s\<close> is the state it
  changes. \<open>for_near\<close> and \<open>for_near_sync\<close> differ only in how the callback is awaited.\<close>

fun run_callback :: "('a route_node \<Rightarrow> (bool, 's) step) \<Rightarrow> 'a route_node list \<Rightarrow> (unit, 's) step" where
  "run_callback callback [] s = (Inr (), s)"
| "run_callback callback (n # ns) s =
     bind_step (callback n) (\<lambda>go_on. if go_on then run_callback callback ns else return_step ()) s"

definition found_in_order :: "'a found_nodes \<Rightarrow> 'a route_node list" where
  "found_in_order result = concat (map (\<lambda>(d, m). map snd m) result)"

definition for_near :: "'a dht_route \<Rightarrow> const_data_buffer \<Rightarrow> nat \<Rightarrow> ('a route_node \<Rightarrow> bool expected) \<Rightarrow>
    ('a route_node \<Rightarrow> (bool, 's) step) \<Rightarrow> (unit, 's) step" where
  "for_near r target max_count filt callback s =
     (case search_nodes r target max_count filt [] of
        (Inl e, _) \<Rightarrow> (Inl e, s)
      | (Inr _, result) \<Rightarrow> run_callback callback (found_in_order result) s)"

definition for_neighbors :: "'a dht_route \<Rightarrow> ('a route_node \<Rightarrow> (bool, 's) step) \<Rightarrow> (unit, 's) step" where
  "for_neighbors r callback = run_callback callback (get_neighbors r)"

end
