(* ===== verification/Route_properties.thy ===== *)
theory Route_properties
  imports Dht_route
begin

text \<open>
  The routing table: what every operation keeps of it, what a search finds, and what becomes of a node
  that never answers.
\<close>

section \<open>Invariant\<close>

definition bucket_ok :: "const_data_buffer \<Rightarrow> nat \<Rightarrow> 'a bucket \<Rightarrow> bool" where
  "bucket_ok this i b \<longleftrightarrow> distinct (map (\<lambda>n. (node_id n, node_address n)) b)
     \<and> (\<forall>n \<in> set b. distance_exp this (node_id n) = i \<and> node_id n \<noteq> this \<and> session_partner (proxy_session n) \<noteq> this)"

definition route_ok :: "'a dht_route \<Rightarrow> bool" where
  "route_ok r \<longleftrightarrow> is_set (map fst (buckets r)) \<and> (\<forall>(i, b) \<in> set (buckets r). bucket_ok (current_node_id r) i b)"

lemma replace_bad_cases:
  assumes "replace_bad i s h ns = (res, ns')"
  shows "res = False \<and> ns' = ns
    \<or> res = True \<and> (\<exists>xs n ys. ns = xs @ n # ys \<and> \<not> is_good n \<and> ns' = xs @ reset_node i s h n # ys)"
  using assms
proof (induction ns arbitrary: res ns')
  case (Cons n ns)
  show ?case
  proof (cases "is_good n")
    case True
    with Cons.prems obtain ns1 where 1: "replace_bad i s h ns = (res, ns1)" "ns' = n # ns1"
      by (auto simp: Let_def split: prod.splits)
    from Cons.IH [OF 1(1)] show ?thesis
    proof
      assume "res = True \<and> (\<exists>xs m ys. ns = xs @ m # ys \<and> \<not> is_good m \<and> ns1 = xs @ reset_node i s h m # ys)"
      then obtain xs m ys where "res = True" "ns = xs @ m # ys" "\<not> is_good m" "ns1 = xs @ reset_node i s h m # ys" by blast
      then have "res = True \<and> n # ns = (n # xs) @ m # ys \<and> \<not> is_good m \<and> ns' = (n # xs) @ reset_node i s h m # ys"
        using 1(2) by simp
      then show ?thesis by blast
    qed (use 1(2) in simp)
  next
    case False
    with Cons.prems have "res = True \<and> n # ns = [] @ n # ns \<and> \<not> is_good n \<and> ns' = [] @ reset_node i s h n # ns" by simp
    then show ?thesis by blast
  qed
qed simp

lemma bucket_ok_add:
  assumes "bucket_ok this k b" "distance_exp this i = k" "i \<noteq> this" "session_partner s \<noteq> this"
  shows "bucket_ok this k (snd (bucket_add_node i s h allow_skip b))"
proof (cases "\<exists>n \<in> set b. node_id n = i \<and> node_address n = session_address s")
  case False
  obtain res b' where r: "replace_bad i s h b = (res, b')" by fastforce
  have new: "(i, session_address s) \<notin> (\<lambda>n. (node_id n, node_address n)) ` set b" using False by auto
  have "bucket_ok this k (b @ [make_node i s h])"
    using assms new by (simp add: bucket_ok_def make_node_def)
  moreover have "bucket_ok this k b'"
    using replace_bad_cases [OF r]
  proof (elim disjE conjE exE)
    fix xs n ys
    assume b: "b = xs @ n # ys" "b' = xs @ reset_node i s h n # ys"
    have "(i, session_address s) \<notin> (\<lambda>n. (node_id n, node_address n)) ` (set xs \<union> set ys)" using False by (auto simp: b(1))
    then show ?thesis using assms unfolding b bucket_ok_def by (simp add: reset_node_def image_Un)
  qed (use assms(1) in simp)
  ultimately show ?thesis using False r by (auto simp: bucket_add_node_def)
qed (use assms(1) in \<open>simp add: bucket_add_node_def\<close>)

lemma map_mark_pinged:
  "map (\<lambda>n. (node_id n, node_address n)) (bucket_mark_pinged target a b) = map (\<lambda>n. (node_id n, node_address n)) b"
  "map (\<lambda>n. (node_id n, proxy_session n)) (bucket_mark_pinged target a b) = map (\<lambda>n. (node_id n, proxy_session n)) b"
  by (induction b) auto

lemma bucket_ok_same:
  assumes "map (\<lambda>n. (node_id n, proxy_session n)) b' = map (\<lambda>n. (node_id n, proxy_session n)) b" "bucket_ok this k b"
  shows "bucket_ok this k b'"
proof -
  have "map f (map (\<lambda>n. (node_id n, proxy_session n)) b') = map f (map (\<lambda>n. (node_id n, proxy_session n)) b)"
    for f :: "_ \<Rightarrow> const_data_buffer \<times> _" using assms(1) by simp
  from this [of "\<lambda>(i, s). (i, session_address s)"]
  have 1: "map (\<lambda>n. (node_id n, node_address n)) b' = map (\<lambda>n. (node_id n, node_address n)) b" by (simp add: comp_def)
  have "(\<lambda>n. (node_id n, proxy_session n)) ` set b' = (\<lambda>n. (node_id n, proxy_session n)) ` set b"
    using assms(1) by (metis set_map)
  then have 2: "\<exists>m \<in> set b. node_id m = node_id n \<and> proxy_session m = proxy_session n" if "n \<in> set b'" for n
    using that by (auto simp: image_iff set_eq_iff) metis
  show ?thesis using assms(2) 1 2 unfolding bucket_ok_def by metis
qed

lemma route_ok_put:
  assumes "route_ok r" "bucket_ok (current_node_id r) k b"
  shows "route_ok (r\<lparr>buckets := map_put k b (buckets r)\<rparr>)"
proof -
  have "bucket_ok (current_node_id r) i b'" if "(i, b') \<in> set (map_put k b (buckets r))" for i b'
    using in_map_put [OF that] assms by (auto simp: route_ok_def)
  then show ?thesis using assms(1) by (auto simp: route_ok_def is_set_map_put)
qed

lemma route_ok_bucket: "route_ok r \<Longrightarrow> map_of (buckets r) k = Some b \<Longrightarrow> bucket_ok (current_node_id r) k b"
  by (auto simp: route_ok_def dest: map_of_SomeD)

abbreviation entries :: "'a bucket \<Rightarrow> (const_data_buffer \<times> 'a route_session) list" where
  "entries b \<equiv> map (\<lambda>n. (node_id n, proxy_session n)) b"

lemma ping_buckets_same:
  "map (\<lambda>(i, b). (i, entries b)) (snd (ping_buckets ping bs)) = map (\<lambda>(i, b). (i, entries b)) bs"
  by (induction ping bs rule: ping_buckets.induct)
    (auto simp: bucket_on_timer_def comp_def Let_def split: prod.splits sum.splits)

text \<open>The operations that change the table.\<close>

datatype 'a route_op =
    Add_node const_data_buffer "'a route_session" byte bool
  | On_timer
  | Mark_pinged const_data_buffer 'a
  | Remove_session "'a route_session"

fun run_op :: "(const_data_buffer \<Rightarrow> 'a route_session \<Rightarrow> unit expected) \<Rightarrow> 'a route_op \<Rightarrow> 'a dht_route \<Rightarrow> 'a dht_route" where
  "run_op ping (Add_node i s h allow_skip) r = snd (add_node i s h allow_skip r)"
| "run_op ping On_timer r = snd (route_on_timer ping r)"
| "run_op ping (Mark_pinged i a) r = mark_pinged i a r"
| "run_op ping (Remove_session s) r = remove_session s r"

lemma route_ok_op: "route_ok r \<Longrightarrow> route_ok (run_op ping op r) \<and> current_node_id (run_op ping op r) = current_node_id r"
proof (cases op)
  case (Add_node i s h allow_skip)
  assume r: "route_ok r"
  let ?k = "distance_exp (current_node_id r) i"
  show ?thesis
  proof (cases "i = current_node_id r \<or> session_partner s = current_node_id r")
    case False
    let ?b = "case map_of (buckets r) ?k of None \<Rightarrow> [] | Some b \<Rightarrow> b"
    have "bucket_ok (current_node_id r) ?k ?b"
      using route_ok_bucket [OF r, of ?k] by (auto simp: bucket_ok_def split: option.splits)
    then have "bucket_ok (current_node_id r) ?k (snd (bucket_add_node i s h allow_skip ?b))"
      using False by (intro bucket_ok_add) auto
    from route_ok_put [OF r this] show ?thesis
      using False by (simp add: Add_node add_node_def Let_def case_prod_beta)
  qed (use r in \<open>simp add: Add_node add_node_def\<close>)
next
  case On_timer
  assume r: "route_ok r"
  let ?bs = "snd (ping_buckets ping (buckets r))"
  note same = ping_buckets_same [of ping "buckets r"]
  have "map fst ?bs = map fst (buckets r)"
    using arg_cong [OF same, of "map fst"] by (simp add: comp_def case_prod_beta)
  moreover have "bucket_ok (current_node_id r) i b" if "(i, b) \<in> set ?bs" for i b
  proof -
    from that have "(i, entries b) \<in> set (map (\<lambda>(i, b). (i, entries b)) ?bs)" by force
    then obtain b0 where "(i, b0) \<in> set (buckets r)" "entries b = entries b0" unfolding same by auto
    with r show ?thesis using bucket_ok_same [of b b0] by (auto simp: route_ok_def)
  qed
  ultimately show ?thesis using r by (auto simp: On_timer route_on_timer_def route_ok_def split: prod.splits)
next
  case (Mark_pinged i a)
  assume r: "route_ok r"
  then show ?thesis
    by (auto simp: Mark_pinged mark_pinged_def Let_def split: option.splits intro!: route_ok_put
        intro: bucket_ok_same [OF map_mark_pinged(2)] route_ok_bucket)
next
  case (Remove_session s)
  assume r: "route_ok r"
  have "map fst (map (\<lambda>(i, b). (i, bucket_remove_session s b)) (buckets r)) = map fst (buckets r)" by auto
  moreover have "bucket_ok (current_node_id r) i (bucket_remove_session s b)" if "(i, b) \<in> set (buckets r)" for i b
    using r that by (auto simp: route_ok_def bucket_ok_def bucket_remove_session_def distinct_map_filter)
  ultimately show ?thesis using r by (auto simp: Remove_session remove_session_def route_ok_def simp del: map_map)
qed

lemma route_ok_ops: "route_ok r \<Longrightarrow> route_ok (fold (run_op ping) ops r)"
  by (induction ops arbitrary: r) (simp_all add: route_ok_op)

lemma route_ok_new: "route_ok (new_route this)"
  by (simp add: new_route_def route_ok_def)

text \<open>C24: Whatever operations run on a new routing table, in whatever order and whatever the pings return:
  the buckets stand in order, every bucket holds nodes at exactly its distance, never the node itself nor a
  session with itself, and no pair of identifier and address twice.\<close>

theorem route_stays_ok: "route_ok (fold (run_op ping) ops (new_route this))"
  using route_ok_ops [OF route_ok_new] .

section \<open>Searching\<close>

text \<open>The node found under an identifier.\<close>

definition found :: "'a found_nodes \<Rightarrow> const_data_buffer \<Rightarrow> const_data_buffer \<Rightarrow> 'a route_node option" where
  "found result target i = map_of (at_distance result (dht_distance i target)) i"

definition eligible :: "('a route_node \<Rightarrow> bool expected) \<Rightarrow> 'a route_node \<Rightarrow> bool" where
  "eligible filt n \<longleftrightarrow> is_good n \<and> filt n = Inr True"

text \<open>\<open>result\<close> holds, of the nodes \<open>B\<close>, one for every identifier of an eligible one, with the fewest hops.\<close>

definition collected :: "('a route_node \<Rightarrow> bool expected) \<Rightarrow> const_data_buffer \<Rightarrow> 'a route_node set \<Rightarrow> nat \<Rightarrow> 'a found_nodes \<Rightarrow> bool" where
  "collected filt target B count result \<longleftrightarrow>
     (\<forall>i n. found result target i = Some n \<longrightarrow> n \<in> B \<and> eligible filt n \<and> node_id n = i)
     \<and> (\<forall>n \<in> B. eligible filt n \<longrightarrow> (\<exists>n'. found result target (node_id n) = Some n' \<and> hops n' \<le> hops n))
     \<and> finite {i. found result target i \<noteq> None} \<and> card {i. found result target i \<noteq> None} = count"

lemma found_node_found:
  assumes "found_node target n result = (k, result')"
  shows "found result' target i = (if i = node_id n then Some (case found result target i of None \<Rightarrow> n
      | Some n' \<Rightarrow> if hops n < hops n' then n else n') else found result target i)"
    and "k = (if found result target (node_id n) = None then 1 else 0)"
  using assms
  by (auto simp: found_node_def found_def Let_def map_of_map_put split: option.splits if_splits)

lemma collected_add:
  assumes "collected filt target B count result" "eligible filt n" "found_node target n result = (k, result')"
  shows "collected filt target (insert n B) (count + k) result'"
proof -
  note f = found_node_found [OF assms(3)]
  let ?F = "{i. found result target i \<noteq> None}" and ?F' = "{i. found result' target i \<noteq> None}"
  have F: "?F' = insert (node_id n) ?F" by (auto simp: f(1))
  have "finite ?F" "card ?F = count" using assms(1) by (simp_all add: collected_def)
  then have "finite ?F'" "card ?F' = count + k" unfolding F f(2) by (auto simp: card_insert_if)
  moreover have "n' \<in> insert n B \<and> eligible filt n' \<and> node_id n' = i" if "found result' target i = Some n'" for i n'
    using that assms(1,2) unfolding f(1) collected_def by (auto split: if_splits option.splits)
  moreover have "\<exists>m'. found result' target (node_id m) = Some m' \<and> hops m' \<le> hops m" if "m \<in> insert n B" "eligible filt m" for m
  proof (cases "found result target (node_id m)")
    case None
    then have "m = n" using that assms(1) by (auto simp: collected_def)
    with None show ?thesis by (simp add: f(1))
  next
    case (Some m1)
    have "m = n \<or> hops m1 \<le> hops m" using that assms(1) Some by (auto simp: collected_def)
    then show ?thesis using Some by (auto simp: f(1) not_less intro: order_trans less_imp_le)
  qed
  ultimately show ?thesis unfolding collected_def by blast
qed

lemma collected_skip: "collected filt target B count result \<Longrightarrow> \<not> eligible filt n \<Longrightarrow> collected filt target (insert n B) count result"
  unfolding collected_def by auto

lemma looking_bucket_collects:
  assumes "\<And>n. \<exists>b. filt n = Inr b"
  shows "collected filt target B (c0 + count) result \<Longrightarrow>
    \<exists>count' result'. looking_bucket target filt ns count result = (Inr count', result')
      \<and> collected filt target (set ns \<union> B) (c0 + count') result'"
proof (induction ns arbitrary: B count result)
  case (Cons n ns)
  have swap: "set (n # ns) \<union> B = set ns \<union> insert n B" by auto
  show ?case
  proof (cases "eligible filt n")
    case True
    obtain k result1 where k: "found_node target n result = (k, result1)" by fastforce
    from collected_add [OF Cons.prems True k] have "collected filt target (insert n B) (c0 + (count + k)) result1"
      by (simp add: add.assoc)
    from Cons.IH [OF this] show ?thesis unfolding swap using True k by (simp add: eligible_def)
  next
    case False
    from Cons.IH [OF collected_skip [OF Cons.prems False]] show ?thesis
      unfolding swap using False assms [of n] by (auto simp: eligible_def)
  qed
qed auto

definition bucket_at :: "'a dht_route \<Rightarrow> nat \<Rightarrow> 'a bucket" where
  "bucket_at r k = (case map_of (buckets r) k of None \<Rightarrow> [] | Some b \<Rightarrow> b)"

lemma looking_nodes_collects:
  assumes "\<And>n. \<exists>b. filt n = Inr b" "collected filt target B count result"
  shows "\<exists>k result'. looking_nodes r target filt index result = (Inr k, result')
      \<and> collected filt target (set (bucket_at r index) \<union> B) (count + k) result'"
  using looking_bucket_collects [of filt target B count 0 result "bucket_at r index"] assms
  by (cases "map_of (buckets r) index") (auto simp: looking_nodes_def bucket_at_def)

text \<open>The nodes of the buckets within \<open>d\<close> of the index.\<close>

definition window :: "'a dht_route \<Rightarrow> nat \<Rightarrow> nat \<Rightarrow> 'a route_node set" where
  "window r index d = (\<Union>k \<in> {k. k < index + d \<and> index < k + d}. set (bucket_at r k))"

definition nodes :: "'a dht_route \<Rightarrow> 'a route_node set" where
  "nodes r = (\<Union>(k, b) \<in> set (buckets r). set b)"

lemma window_Suc:
  "window r index (Suc d) = set (bucket_at r (index + d)) \<union> ((if d \<le> index then set (bucket_at r (index - d)) else {}) \<union> window r index d)"
proof -
  have "{k. k < index + Suc d \<and> index < k + Suc d} = insert (index + d) ((if d \<le> index then {index - d} else {}) \<union> {k. k < index + d \<and> index < k + d})"
    by (auto split: if_splits)
  then show ?thesis by (auto simp: window_def)
qed

lemma sorted_bounds: "is_set xs \<Longrightarrow> x \<in> set xs \<Longrightarrow> hd xs \<le> x \<and> x \<le> last xs" for xs :: "nat list"
proof (induction xs)
  case (Cons y ys)
  then show ?case by (cases ys) (auto dest: less_imp_le)
qed simp

lemma bucket_bounds:
  assumes "route_ok r" "bucket_at r k \<noteq> []"
  shows "fst (hd (buckets r)) \<le> k \<and> k \<le> fst (last (buckets r))"
proof -
  from assms(2) have "k \<in> set (map fst (buckets r))" by (force simp: bucket_at_def split: option.splits dest: map_of_SomeD)
  moreover from this have "buckets r \<noteq> []" by auto
  ultimately show ?thesis using sorted_bounds [of "map fst (buckets r)" k] assms(1) by (simp add: route_ok_def hd_map last_map)
qed

lemma nodes_buckets: "route_ok r \<Longrightarrow> nodes r = (\<Union>k. set (bucket_at r k))"
proof -
  assume "route_ok r"
  then have d: "distinct (map fst (buckets r))" by (simp add: route_ok_def is_set_sorted)
  have "n \<in> nodes r \<longleftrightarrow> (\<exists>k b. map_of (buckets r) k = Some b \<and> n \<in> set b)" for n
    using d by (auto simp: nodes_def)
  moreover have "n \<in> set (bucket_at r k) \<longleftrightarrow> (\<exists>b. map_of (buckets r) k = Some b \<and> n \<in> set b)" for n k
    by (cases "map_of (buckets r) k") (auto simp: bucket_at_def)
  ultimately show ?thesis by (simp add: set_eq_iff)
qed

text \<open>The search ends with all eligible nodes, or with as many as were asked for.\<close>

definition enough :: "nat \<Rightarrow> const_data_buffer \<Rightarrow> 'a found_nodes \<Rightarrow> bool" where
  "enough max_count target result \<longleftrightarrow> max_count \<le> length result \<or> max_count < card {i. found result target i \<noteq> None}"

lemma search_loop_collects:
  assumes total: "\<And>n. \<exists>b. filt n = Inr b" and r: "route_ok r"
    and bounds: "lo = fst (hd (buckets r))" "hi = fst (last (buckets r))"
  shows "collected filt target (window r index d) count result \<Longrightarrow>
    \<exists>result' B c. search_loop r target max_count filt index lo hi d count result = (Inr (), result')
      \<and> collected filt target B c result' \<and> B \<subseteq> nodes r \<and> (enough max_count target result' \<or> B = nodes r)"
proof (induction "Suc (index + hi) - d" arbitrary: d count result rule: less_induct)
  case less
  have sub: "window r index d \<subseteq> nodes r" for d unfolding nodes_buckets [OF r] window_def by blast
  let ?more = "index + d \<le> hi \<or> d \<le> index \<and> lo \<le> index - d"
  show ?case
  proof (cases "length result < max_count \<and> ?more")
    case False
    have "window r index d = nodes r" if "\<not> ?more"
    proof -
      have "k < index + d \<and> index < k + d" if "bucket_at r k \<noteq> []" for k
        using bucket_bounds [OF r that] \<open>\<not> ?more\<close> bounds by (cases "d \<le> index") auto
      then have "set (bucket_at r k) \<subseteq> window r index d" for k by (cases "bucket_at r k = []") (auto simp: window_def)
      with sub [of d] show ?thesis unfolding nodes_buckets [OF r] by blast
    qed
    then have "enough max_count target result \<or> window r index d = nodes r" using False by (auto simp: enough_def)
    moreover have "search_loop r target max_count filt index lo hi d count result = (Inr (), result)"
      by (subst search_loop.simps, subst if_not_P [OF False]) (rule refl)
    ultimately show ?thesis using less.prems sub [of d] by blast
  next
    case True
    define look where "look = (\<lambda>g k. if g then looking_nodes r target filt k else return_step 0)"
    have look: "\<exists>m result'. look g k res = (Inr m, result') \<and> collected filt target (set (bucket_at r k) \<union> B) (c + m) result'"
      if "collected filt target B c res" "\<not> g \<longrightarrow> bucket_at r k = []" for g k res B c
      using looking_nodes_collects [OF total that(1)] that by (cases g) (auto simp: look_def return_step_def)
    have out: "\<not> index + d \<le> hi \<longrightarrow> bucket_at r (index + d) = []"
      "d \<le> index \<Longrightarrow> \<not> lo \<le> index - d \<longrightarrow> bucket_at r (index - d) = []"
      using bucket_bounds [OF r] bounds by (meson not_le)+
    obtain above result1 where 1: "look (index + d \<le> hi) (index + d) result = (Inr above, result1)"
      "collected filt target (set (bucket_at r (index + d)) \<union> window r index d) (count + above) result1"
      using look [OF less.prems out(1)] by blast
    have "\<exists>below result2. look (d \<le> index \<and> lo \<le> index - d) (index - d) result1 = (Inr below, result2)
      \<and> collected filt target (window r index (Suc d)) (count + above + below) result2"
    proof (cases "d \<le> index")
      case le: True
      have "window r index (Suc d) = set (bucket_at r (index - d)) \<union> (set (bucket_at r (index + d)) \<union> window r index d)"
        using le unfolding window_Suc by auto
      then show ?thesis using look [OF 1(2), of "d \<le> index \<and> lo \<le> index - d" "index - d"] out(2) le by simp
    next
      case nle: False
      then show ?thesis using 1(2) by (simp add: look_def return_step_def window_Suc)
    qed
    then obtain below result2 where 2: "look (d \<le> index \<and> lo \<le> index - d) (index - d) result1 = (Inr below, result2)"
      "collected filt target (window r index (Suc d)) (count + above + below) result2" by blast
    have run: "search_loop r target max_count filt index lo hi d count result =
        (if max_count < count + above + below then (Inr (), result2)
         else search_loop r target max_count filt index lo hi (Suc d) (count + above + below) result2)"
      using True 1(1) 2(1) by (subst search_loop.simps) (simp add: look_def bind_step_def return_step_def)
    show ?thesis
    proof (cases "max_count < count + above + below")
      case True
      then have "enough max_count target result2" using 2(2) by (simp add: enough_def collected_def)
      then show ?thesis unfolding run using True 2(2) sub [of "Suc d"] by auto
    next
      case False
      have "Suc (index + hi) - Suc d < Suc (index + hi) - d" using \<open>length result < max_count \<and> ?more\<close> by auto
      from less.hyps [OF this 2(2)] show ?thesis unfolding run using False by simp
    qed
  qed
qed

lemma search_nodes_collects:
  assumes "route_ok r" "\<And>n. \<exists>b. filt n = Inr b"
  shows "\<exists>result. search_nodes r target max_count filt [] = (Inr (), result)
    \<and> (\<forall>i n. found result target i = Some n \<longrightarrow> n \<in> nodes r \<and> is_good n \<and> filt n = Inr True \<and> node_id n = i)
    \<and> (enough max_count target result
       \<or> (\<forall>n \<in> nodes r. is_good n \<and> filt n = Inr True \<longrightarrow>
            (\<exists>n'. found result target (node_id n) = Some n' \<and> hops n' \<le> hops n)))"
proof (cases "buckets r = []")
  case True
  then have "found [] target i = (None :: 'a route_node option)" for i by (simp add: found_def)
  with True show ?thesis by (auto simp: search_nodes_def nodes_def)
next
  case False
  let ?i = "distance_exp (current_node_id r) target"
  have "collected filt target (window r ?i 0) 0 []" by (auto simp: collected_def window_def found_def)
  from search_loop_collects [OF assms(2,1) refl refl this] obtain result B c where
    "search_loop r target max_count filt ?i (fst (hd (buckets r))) (fst (last (buckets r))) 0 0 [] = (Inr (), result)"
    "collected filt target B c result" "B \<subseteq> nodes r" "enough max_count target result \<or> B = nodes r" by blast
  then show ?thesis using False by (auto simp: search_nodes_def collected_def eligible_def)
qed

text \<open>C23: In a routing table that is in order, with a filter that does not fail, a search ends without an
  error. Every node it returns is a good node of the table that passes the filter, under its distance from
  the target; and unless as many were found as were asked for, every such node of the table is there, or
  one with the same identifier and no more hops.\<close>

theorem search_nodes_complete:
  assumes "route_ok r" "\<And>n. \<exists>b. filt n = Inr b"
  shows "\<exists>result. search_nodes r target max_count filt [] = (Inr (), result)
    \<and> (\<forall>i n. found result target i = Some n \<longrightarrow> n \<in> nodes r \<and> is_good n \<and> filt n = Inr True \<and> node_id n = i)
    \<and> (enough max_count target result
       \<or> (\<forall>n \<in> nodes r. is_good n \<and> filt n = Inr True \<longrightarrow>
            (\<exists>n'. found result target (node_id n) = Some n' \<and> hops n' \<le> hops n)))"
  using assms by (rule search_nodes_collects)

text \<open>Two nodes, one hop away, in the buckets 6 and 3 of node 0.\<close>

definition sample_route :: "nat dht_route" where
  "sample_route = fold (run_op (\<lambda>_ _. Inr ()))
     [Add_node (Data_buffer [2]) \<lparr>session_address = 1, session_partner = Data_buffer [2]\<rparr> 1 False,
      Add_node (Data_buffer [16]) \<lparr>session_address = 2, session_partner = Data_buffer [16]\<rparr> 1 False]
     (new_route (Data_buffer [0]))"

theorem search_nodes_complete_witness:
  "\<exists>result. search_nodes sample_route (Data_buffer [8]) 9 (\<lambda>_. Inr True) [] = (Inr (), result)
    \<and> (enough 9 (Data_buffer [8]) result
       \<or> (\<forall>n \<in> nodes sample_route. is_good n \<longrightarrow>
            (\<exists>n'. found result (Data_buffer [8]) (node_id n) = Some n' \<and> hops n' \<le> hops n)))"
proof -
  have "route_ok sample_route" unfolding sample_route_def by (intro route_ok_ops route_ok_new)
  from search_nodes_complete [OF this, of "\<lambda>_. Inr True" "Data_buffer [8]" 9] show ?thesis by auto
qed

text \<open>The two sides of the target's bucket are taken in turn, but every node of a higher bucket is nearer to
  the target than those of a lower one: asked for one node near 8, the table above gives 16, at distance
  24, and leaves out 2, at distance 10.\<close>

lemma search_nodes_skips_nearer:
  "case search_nodes sample_route (Data_buffer [8]) 1 (\<lambda>_. Inr True) [] of
     (Inr _, [(d, [(i, _)])]) \<Rightarrow> d = Data_buffer [24] \<and> i = Data_buffer [16] | _ \<Rightarrow> False"
  "dht_distance (Data_buffer [2]) (Data_buffer [8]) = Data_buffer [10]"
  by code_simp+

section \<open>A node that does not answer\<close>

text \<open>C25: The count of unanswered pings is a byte and wraps: after \<open>k\<close> runs of the timer a node that never
  answers counts as good again whenever \<open>k mod 256 < 10\<close>.\<close>

theorem silent_node_good_again:
  assumes "\<forall>i s. ping i s = Inr ()"
  shows "buckets (((\<lambda>r. snd (route_on_timer ping r)) ^^ k) r)
      = map (\<lambda>(i, b). (i, map (\<lambda>n. n\<lparr>pinged := pinged n + word_of_nat k\<rparr>) b)) (buckets r)
    \<and> (pinged n = 0 \<longrightarrow> is_good (n\<lparr>pinged := pinged n + word_of_nat k\<rparr>) = (k mod 256 < 10))"
proof
  have "send_pings ping ns = Inr ()" for ns using assms by (induction ns) simp_all
  then have "ping_buckets ping bs = (Inr (), map (\<lambda>(i, b). (i, map (\<lambda>n. n\<lparr>pinged := pinged n + 1\<rparr>) b)) bs)" for bs
    by (induction bs) (auto simp: bucket_on_timer_def Let_def)
  then have tick: "buckets (snd (route_on_timer ping r)) = map (\<lambda>(i, b). (i, map (\<lambda>n. n\<lparr>pinged := pinged n + 1\<rparr>) b)) (buckets r)" for r
    by (simp add: route_on_timer_def)
  show "buckets (((\<lambda>r. snd (route_on_timer ping r)) ^^ k) r)
      = map (\<lambda>(i, b). (i, map (\<lambda>n. n\<lparr>pinged := pinged n + word_of_nat k\<rparr>) b)) (buckets r)"
    by (induction k) (auto simp: tick comp_def case_prod_beta add.commute add.left_commute prod_eq_iff)
  show "pinged n = 0 \<longrightarrow> is_good (n\<lparr>pinged := pinged n + word_of_nat k\<rparr>) = (k mod 256 < 10)"
    by (simp add: is_good_def word_less_nat_alt unsigned_of_nat take_bit_eq_mod)
qed

theorem silent_node_good_again_witness:
  "is_good ((make_node (Data_buffer [2]) \<lparr>session_address = (1 :: nat), session_partner = Data_buffer [2]\<rparr> 1)\<lparr>pinged := word_of_nat 256\<rparr>)"
  using silent_node_good_again [of "\<lambda>_ _. Inr ()" 256 sample_route
      "make_node (Data_buffer [2]) \<lparr>session_address = (1 :: nat), session_partner = Data_buffer [2]\<rparr> 1"]
  by (simp add: make_node_def)

end
