(* ===== verification/Node_messages.thy ===== *)
theory Node_messages
  imports Transactions
begin

text \<open>
  The messages the nodes exchange inside datagrams: \<open>messages/transaction_log_messages.h\<close>,
  \<open>messages/dht_route_messages.h\<close> and \<open>messages/sync_messages.h\<close> of
  \<open>libs_server/vds_dht_network/include\<close>, with \<open>message_serialize\<close> and \<open>message_deserialize\<close> of
  \<open>kernel/vds_core/binary_serialize.h\<close>. What is commented out there is left out.
\<close>

section \<open>The messages\<close>

record transaction_log_state =
  ls_leafs :: "const_data_buffer list"
  ls_source_node :: const_data_buffer

record transaction_log_request =
  lq_transaction_id :: const_data_buffer
  lq_source_node :: const_data_buffer

record transaction_log_record =
  lm_record_id :: const_data_buffer
  lm_data :: const_data_buffer

record dht_pong =
  dp_ping_time :: u64
  dp_pong_time :: u64

record target_node =
  tn_target_id :: const_data_buffer
  tn_address :: cstring
  tn_hops :: byte

record sync_replica_data =
  sd_object_id :: const_data_buffer
  sd_data :: const_data_buffer
  sd_owner :: const_data_buffer
  sd_value_id :: const_data_buffer
  sd_replica :: u16

datatype node_message =
    Transaction_log_state transaction_log_state
  | Transaction_log_request transaction_log_request
  | Transaction_log_record transaction_log_record
  | Dht_find_node const_data_buffer \<comment> \<open>target_id\<close>
  | Dht_find_node_response "target_node list" \<comment> \<open>nodes\<close>
  | Dht_ping u64 \<comment> \<open>ping_time\<close>
  | Dht_pong dht_pong
  | Sync_replica_request const_data_buffer \<comment> \<open>object_id\<close>
  | Sync_replica_data sync_replica_data

text \<open>The enumeration \<open>message_type_t\<close>.\<close>

fun message_type :: "node_message \<Rightarrow> byte" where
  "message_type (Transaction_log_state _) = 0"
| "message_type (Transaction_log_request _) = 1"
| "message_type (Transaction_log_record _) = 2"
| "message_type (Dht_find_node _) = 3"
| "message_type (Dht_find_node_response _) = 4"
| "message_type (Dht_ping _) = 5"
| "message_type (Dht_pong _) = 6"
| "message_type (Sync_replica_request _) = 7"
| "message_type (Sync_replica_data _) = 8"

section \<open>Serialization\<close>

definition put_log_state :: "transaction_log_state put" where
  "put_log_state m s =
     get_expected (put_list (total_put put_buffer) (ls_leafs m) s) (\<lambda>s. Inr (put_buffer (ls_source_node m) s))"

definition put_log_request :: "transaction_log_request \<Rightarrow> binary_serializer \<Rightarrow> binary_serializer" where
  "put_log_request m s = put_buffer (lq_source_node m) (put_buffer (lq_transaction_id m) s)"

definition put_log_record :: "transaction_log_record \<Rightarrow> binary_serializer \<Rightarrow> binary_serializer" where
  "put_log_record m s = put_buffer (lm_data m) (put_buffer (lm_record_id m) s)"

definition put_pong :: "dht_pong \<Rightarrow> binary_serializer \<Rightarrow> binary_serializer" where
  "put_pong m s = put_uint64 (dp_pong_time m) (put_uint64 (dp_ping_time m) s)"

definition put_target_node :: "target_node \<Rightarrow> binary_serializer \<Rightarrow> binary_serializer" where
  "put_target_node n s = put_uint8 (tn_hops n) (put_string (tn_address n) (put_buffer (tn_target_id n) s))"

definition put_replica_data :: "sync_replica_data \<Rightarrow> binary_serializer \<Rightarrow> binary_serializer" where
  "put_replica_data m s =
     put_uint16 (sd_replica m) (put_buffer (sd_value_id m) (put_buffer (sd_owner m)
       (put_buffer (sd_data m) (put_buffer (sd_object_id m) s))))"

fun message_serialize :: "node_message \<Rightarrow> const_data_buffer expected" where
  "message_serialize (Transaction_log_state m) = get_expected (put_log_state m []) (\<lambda>s. Inr (Data_buffer s))"
| "message_serialize (Transaction_log_request m) = Inr (Data_buffer (put_log_request m []))"
| "message_serialize (Transaction_log_record m) = Inr (Data_buffer (put_log_record m []))"
| "message_serialize (Dht_find_node target) = Inr (Data_buffer (put_buffer target []))"
| "message_serialize (Dht_find_node_response nodes) =
     get_expected (put_list (total_put put_target_node) nodes []) (\<lambda>s. Inr (Data_buffer s))"
| "message_serialize (Dht_ping time) = Inr (Data_buffer (put_uint64 time []))"
| "message_serialize (Dht_pong m) = Inr (Data_buffer (put_pong m []))"
| "message_serialize (Sync_replica_request object_id) = Inr (Data_buffer (put_buffer object_id []))"
| "message_serialize (Sync_replica_data m) = Inr (Data_buffer (put_replica_data m []))"

section \<open>Deserialization\<close>

definition get_log_state :: "transaction_log_state get" where
  "get_log_state d =
     get_expected (get_list get_buffer d) (\<lambda>(leafs, d).
     get_expected (get_buffer d) (\<lambda>(source_node, d).
       Inr (\<lparr>ls_leafs = leafs, ls_source_node = source_node\<rparr>, d)))"

definition get_log_request :: "transaction_log_request get" where
  "get_log_request d =
     get_expected (get_buffer d) (\<lambda>(tid, d).
     get_expected (get_buffer d) (\<lambda>(source_node, d).
       Inr (\<lparr>lq_transaction_id = tid, lq_source_node = source_node\<rparr>, d)))"

definition get_log_record :: "transaction_log_record get" where
  "get_log_record d =
     get_expected (get_buffer d) (\<lambda>(rid, d).
     get_expected (get_buffer d) (\<lambda>(data, d).
       Inr (\<lparr>lm_record_id = rid, lm_data = data\<rparr>, d)))"

definition get_pong :: "dht_pong get" where
  "get_pong d =
     get_expected (get_uint64 d) (\<lambda>(ping_time, d).
     get_expected (get_uint64 d) (\<lambda>(pong_time, d).
       Inr (\<lparr>dp_ping_time = ping_time, dp_pong_time = pong_time\<rparr>, d)))"

definition get_target_node :: "target_node get" where
  "get_target_node d =
     get_expected (get_buffer d) (\<lambda>(tid, d).
     get_expected (get_string d) (\<lambda>(address, d).
     get_expected (get_uint8 d) (\<lambda>(hops, d).
       Inr (\<lparr>tn_target_id = tid, tn_address = address, tn_hops = hops\<rparr>, d))))"

definition get_replica_data :: "sync_replica_data get" where
  "get_replica_data d =
     get_expected (get_buffer d) (\<lambda>(object_id, d).
     get_expected (get_buffer d) (\<lambda>(data, d).
     get_expected (get_buffer d) (\<lambda>(owner, d).
     get_expected (get_buffer d) (\<lambda>(value_id, d).
     get_expected (get_uint16 d) (\<lambda>(replica, d).
       Inr (\<lparr>sd_object_id = object_id, sd_data = data, sd_owner = owner, sd_value_id = value_id,
             sd_replica = replica\<rparr>, d))))))"

text \<open>\<open>message_deserialize\<close> for the class that belongs to a number, as \<open>process_message\<close> of
  \<open>libs_server/vds_server/message_map.cpp\<close> picks it. What follows the message is ignored.\<close>

abbreviation message_of :: "('a \<Rightarrow> node_message) \<Rightarrow> 'a get \<Rightarrow> const_data_buffer \<Rightarrow> node_message expected" where
  "message_of c g data \<equiv> get_expected (g (buffer_data data)) (\<lambda>(m, _). Inr (c m))"

definition message_deserialize :: "byte \<Rightarrow> const_data_buffer \<Rightarrow> node_message expected" where
  "message_deserialize t data =
     (if t = 0 then message_of Transaction_log_state get_log_state data
      else if t = 1 then message_of Transaction_log_request get_log_request data
      else if t = 2 then message_of Transaction_log_record get_log_record data
      else if t = 3 then message_of Dht_find_node get_buffer data
      else if t = 4 then message_of Dht_find_node_response (get_list get_target_node) data
      else if t = 5 then message_of Dht_ping get_uint64 data
      else if t = 6 then message_of Dht_pong get_pong data
      else if t = 7 then message_of Sync_replica_request get_buffer data
      else if t = 8 then message_of Sync_replica_data get_replica_data data
      else Inl (Runtime_error ''Invalid command''))"

section \<open>Reading back\<close>

definition target_node_ok :: "target_node \<Rightarrow> bool" where
  "target_node_ok n \<longleftrightarrow> small_buffer (tn_target_id n) \<and> small_string (tn_address n)"

fun node_message_ok :: "node_message \<Rightarrow> bool" where
  "node_message_ok (Transaction_log_state m) \<longleftrightarrow> buffer_list_valid (ls_leafs m) \<and> small_buffer (ls_source_node m)"
| "node_message_ok (Transaction_log_request m) \<longleftrightarrow> small_buffer (lq_transaction_id m) \<and> small_buffer (lq_source_node m)"
| "node_message_ok (Transaction_log_record m) \<longleftrightarrow> small_buffer (lm_record_id m) \<and> small_buffer (lm_data m)"
| "node_message_ok (Dht_find_node target) \<longleftrightarrow> small_buffer target"
| "node_message_ok (Dht_find_node_response nodes) \<longleftrightarrow> list_all target_node_ok nodes \<and> length nodes < 2 ^ 64"
| "node_message_ok (Dht_ping time) \<longleftrightarrow> True"
| "node_message_ok (Dht_pong m) \<longleftrightarrow> True"
| "node_message_ok (Sync_replica_request object_id) \<longleftrightarrow> small_buffer object_id"
| "node_message_ok (Sync_replica_data m) \<longleftrightarrow>
     small_buffer (sd_object_id m) \<and> small_buffer (sd_data m) \<and> small_buffer (sd_owner m) \<and> small_buffer (sd_value_id m)"

lemma put_uint16_nil: "NO_MATCH [] s \<Longrightarrow> put_uint16 v s = s @ put_uint16 v []"
  by (metis Inr_inject total_put_def uint16_codec.put_enc)

lemma get_put_uint16: "get_uint16 (put_uint16 v [] @ rest) = Inr (v, rest)"
  using uint16_codec.get_enc by simp

lemma put_uint8_nil: "NO_MATCH [] s \<Longrightarrow> put_uint8 v s = s @ put_uint8 v []"
  by (simp add: put_uint8_append)

lemma get_put_uint8: "get_uint8 (put_uint8 v [] @ rest) = Inr (v, rest)"
  using uint8_codec.get_enc by simp

interpretation target_node_codec:
  codec "total_put put_target_node" get_target_node "\<lambda>n. put_target_node n []" target_node_ok
proof
  fix n s rest
  assume "target_node_ok n"
  then show "get_target_node (put_target_node n [] @ rest) = Inr (n, rest)"
    by (simp add: target_node_ok_def put_target_node_def get_target_node_def put_append put_uint8_nil
        roundtrip get_put_uint8)
  show "total_put put_target_node n s = Inr (s @ put_target_node n [])"
    by (cases "s = []") (simp_all add: total_put_def put_target_node_def put_append put_uint8_nil)
qed

lemma message_roundtrip:
  assumes "node_message_ok m"
  shows "\<exists>data. message_serialize m = Inr data \<and> message_deserialize (message_type m) data = Inr m"
proof (cases m)
  case (Transaction_log_state x)
  with assms show ?thesis
    using buffer_list_codec.get_enc [of "ls_leafs x"] buffer_codec.get_enc [of "ls_source_node x" "[]"]
    by (cases "enc_buffer_list (ls_leafs x) = []")
       (simp_all add: put_log_state_def get_log_state_def message_deserialize_def buffer_list_codec.put_enc put_append)
next
  case (Transaction_log_request x)
  with assms show ?thesis
    using buffer_codec.get_enc [of "lq_source_node x" "[]"]
    by (simp add: put_log_request_def get_log_request_def message_deserialize_def put_append roundtrip)
next
  case (Transaction_log_record x)
  with assms show ?thesis
    using buffer_codec.get_enc [of "lm_data x" "[]"]
    by (simp add: put_log_record_def get_log_record_def message_deserialize_def put_append roundtrip)
next
  case (Dht_find_node target)
  with assms show ?thesis
    using buffer_codec.get_enc [of target "[]"] by (simp add: message_deserialize_def)
next
  case (Dht_find_node_response nodes)
  with assms show ?thesis
    using target_node_codec.get_list_enc [of nodes "[]"]
    by (simp add: message_deserialize_def target_node_codec.put_list_enc)
next
  case (Dht_ping time)
  then show ?thesis
    using get_put_uint64 [of time "[]"] by (simp add: message_deserialize_def)
next
  case (Dht_pong x)
  then show ?thesis
    using get_put_uint64 [of "dp_pong_time x" "[]"]
    by (simp add: put_pong_def get_pong_def message_deserialize_def put_append roundtrip)
next
  case (Sync_replica_request object_id)
  with assms show ?thesis
    using buffer_codec.get_enc [of object_id "[]"] by (simp add: message_deserialize_def)
next
  case (Sync_replica_data x)
  with assms show ?thesis
    using get_put_uint16 [of "sd_replica x" "[]"]
    by (simp add: put_replica_data_def get_replica_data_def message_deserialize_def put_append put_uint16_nil roundtrip)
qed

end
