(* ===== verification/Log_sync.thy ===== *)
theory Log_sync
  imports Node_messages Log_properties Dht_route
begin

text \<open>
  \<open>libs_server/vds_log_sync/impl/sync_process.cpp\<close>: how the nodes exchange the blocks of the log. A
  node tells others the leaves of its log, asks for blocks it does not have, and answers with the bytes of
  those it has. Messages are not sent inside the database transaction but pushed on the list
  \<open>final_tasks\<close>, which the caller runs after the commit.
\<close>

section \<open>Tasks\<close>

datatype final_task =
    Send const_data_buffer node_message \<comment> \<open>\<open>client->send\<close>: to the node or towards it\<close>
  | Send_neighbors node_message
  | Send_near const_data_buffer nat node_message \<comment> \<open>\<open>send_near\<close> to nodes with \<open>hops_ == 0\<close>\<close>
  | Try_handshake cstring
  | Broadcast_handshake

text \<open>
  \<open>operator !\<close> of \<open>expected\<close>: it does not look at the value, and a result has always a value or an error.
\<close>

definition has_value :: "'a expected \<Rightarrow> bool" where
  "has_value e = (case e of Inl _ \<Rightarrow> False | Inr _ \<Rightarrow> True)"

definition has_error :: "'a expected \<Rightarrow> bool" where
  "has_error e = (case e of Inl _ \<Rightarrow> True | Inr _ \<Rightarrow> False)"

definition expected_not :: "'a expected \<Rightarrow> bool" where
  "expected_not e \<longleftrightarrow> \<not> has_value e \<and> \<not> has_error e"

section \<open>Asking for what is missing\<close>

text \<open>The ids of the hierarchy that are neither followers nor records, as a \<open>std::set\<close>.\<close>

definition unknown_records :: "database \<Rightarrow> const_data_buffer list" where
  "unknown_records db =
     fold set_emplace
       (filter (\<lambda>p. p \<notin> snd ` table_keys (log_hierarchy db) \<and> p \<notin> table_keys (log_records db))
          (map (fst \<circ> fst) (log_hierarchy db))) []"

definition log_leafs :: "database \<Rightarrow> const_data_buffer list" where
  "log_leafs db = map fst (filter (\<lambda>(_, r). lr_state r = Leaf) (log_records db))"

abbreviation request_log_record :: "('pk, 'sk) log_env \<Rightarrow> const_data_buffer \<Rightarrow> const_data_buffer \<Rightarrow> final_task" where
  "request_log_record env target p \<equiv>
     Send target (Transaction_log_request \<lparr>lq_transaction_id = p, lq_source_node = env_node_id env\<rparr>)"

abbreviation log_state_of :: "('pk, 'sk) log_env \<Rightarrow> const_data_buffer list \<Rightarrow> node_message" where
  "log_state_of env leafs \<equiv> Transaction_log_state \<lparr>ls_leafs = leafs, ls_source_node = env_node_id env\<rparr>"

definition query_unknown_records :: "('pk, 'sk) log_env \<Rightarrow> 'a dht_route \<Rightarrow> database \<Rightarrow> final_task list" where
  "query_unknown_records env route db =
     (let record_ids = unknown_records db in
      if record_ids = [] then
        let current_state = log_leafs db in
        if current_state \<noteq> [] then [Send_neighbors (log_state_of env current_state)] else []
      else
        concat (map (\<lambda>p. map (\<lambda>neighbor. request_log_record env (node_id neighbor) p) (get_neighbors route))
          record_ids))"

definition log_do_sync :: "('pk, 'sk) log_env \<Rightarrow> 'a dht_route \<Rightarrow> database \<Rightarrow> (final_task list \<times> database) expected" where
  "log_do_sync env route db = Inr (query_unknown_records env route db, db)"

section \<open>Messages\<close>

text \<open>The loop over the leaves of another node: those not found here, and those found but not processed.\<close>

fun sort_leafs :: "database \<Rightarrow> const_data_buffer list \<Rightarrow> const_data_buffer list \<times> const_data_buffer list" where
  "sort_leafs db [] = ([], [])"
| "sort_leafs db (p # ps) =
     (let (requests, validated) = sort_leafs db ps in
      case table_select (log_records db) p of
        None \<Rightarrow> (p # requests, validated)
      | Some r \<Rightarrow> (requests, if lr_state r = Validated then p # validated else validated))"

definition apply_log_state :: "('pk, 'sk) log_env \<Rightarrow> transaction_log_state \<Rightarrow> database \<Rightarrow>
    (bool \<times> final_task list \<times> database) expected" where
  "apply_log_state env m db =
     (let (requests, validated) = sort_leafs db (ls_leafs m) in
      if requests \<noteq> [] then Inr (True, map (request_log_record env (ls_source_node m)) requests, db)
      else if validated \<noteq> [] then
        Inr (True, map (request_log_record env (ls_source_node m)) (unknown_records db), db)
      else
        let current_state = filter (\<lambda>i. i \<notin> set (ls_leafs m)) (log_leafs db) in
        Inr (True, if current_state \<noteq> [] then [Send (ls_source_node m) (log_state_of env current_state)] else [], db))"

definition apply_log_request :: "transaction_log_request \<Rightarrow> database \<Rightarrow> (bool \<times> final_task list \<times> database) expected" where
  "apply_log_request m db =
     (case table_select (log_records db) (lq_transaction_id m) of
        None \<Rightarrow> Inr (False, [], db)
      | Some r \<Rightarrow>
          Inr (True, [Send (lq_source_node m) (Transaction_log_record
             \<lparr>lm_record_id = lq_transaction_id m, lm_data = lr_data r\<rparr>)], db))"

text \<open>The key of the author: the one known for the node, or the one the block itself introduces. A newer
  block of a known node updates its last activity, before anything of the block is checked.\<close>

definition known_key :: "('pk, 'sk) log_env \<Rightarrow> transaction_block \<Rightarrow> database \<Rightarrow> ('pk option \<times> database) expected" where
  "known_key env b db =
     (case table_select (node_infos db) (tb_write_public_key_id b) of
        None \<Rightarrow> Inr (None, db)
      | Some row \<Rightarrow>
          get_expected (key_parse_der (env_crypto env) (ni_public_key row)) (\<lambda>key.
            Inr (Some key,
              if ni_last_activity row < tb_time_point b
              then db\<lparr>node_infos := update_key (tb_write_public_key_id b)
                     (\<lambda>r. r\<lparr>ni_last_activity := tb_time_point b\<rparr>) (node_infos db)\<rparr>
              else db)))"

definition visit_node_add :: "('pk, 'sk) log_env \<Rightarrow> transaction_block \<Rightarrow> 'pk transaction_message \<Rightarrow> 'pk option \<Rightarrow>
    (bool \<times> 'pk option) expected" where
  "visit_node_add env b m key =
     (case m of
        Node_add a \<Rightarrow>
          get_expected (key_fingerprint (env_crypto env) (na_node_public_key a)) (\<lambda>node_id.
            if tb_write_public_key_id b = node_id then Inr (False, Some (na_node_public_key a)) else Inr (True, key))
      | _ \<Rightarrow> Inr (True, key))"

definition introduced_key :: "('pk, 'sk) log_env \<Rightarrow> transaction_block \<Rightarrow> 'pk option expected" where
  "introduced_key env b =
     get_expected (process_messages (env_crypto env) (visit_node_add env b) (buffer_data (tb_messages b)) None)
       (\<lambda>(_, key). Inr key)"

definition missing_ancestors :: "transaction_block \<Rightarrow> database \<Rightarrow> const_data_buffer list" where
  "missing_ancestors b db = filter (\<lambda>a. table_select (log_records db) a = None) (tb_ancestors b)"

definition has_processed :: "database \<Rightarrow> bool" where
  "has_processed db \<longleftrightarrow> (\<exists>(_, r) \<in> set (log_records db). lr_state r = Processed \<or> lr_state r = Leaf)"

definition apply_log_record :: "nat \<Rightarrow> ('pk, 'sk) log_env \<Rightarrow> const_data_buffer \<Rightarrow> transaction_log_record \<Rightarrow> database \<Rightarrow>
    (bool \<times> final_task list \<times> database) expected" where
  "apply_log_record fuel env source_node m db =
     get_expected (block_create (env_crypto env) (lm_data m)) (\<lambda>b.
     if block_exists b db then Inr (False, [], db)
     else
       get_expected (known_key env b db) (\<lambda>(known, db).
       get_expected (case known of Some key \<Rightarrow> Inr (Some key) | None \<Rightarrow> introduced_key env b) (\<lambda>write_public_key.
       if (case write_public_key of None \<Rightarrow> True
           | Some key \<Rightarrow> expected_not (block_validate (env_crypto env) key b))
       then Inr (False, map (request_log_record env source_node) (missing_ancestors b db), db)
       else
         get_expected (save_block fuel env (lm_data m) (\<not> has_processed db) db) (\<lambda>(_, db).
           Inr (True, [], db)))))"

definition sync_local_channels :: "('pk, 'sk) log_env \<Rightarrow> const_data_buffer \<Rightarrow> database \<Rightarrow> final_task list expected" where
  "sync_local_channels env partner_id db =
     (let leafs = log_leafs db in
      if leafs = [] then Inr [] else Inr [Send partner_id (log_state_of env leafs)])"

definition log_on_new_session :: "('pk, 'sk) log_env \<Rightarrow> const_data_buffer \<Rightarrow> database \<Rightarrow> final_task list expected" where
  "log_on_new_session env partner_id db = sync_local_channels env partner_id db"

section \<open>Transactions\<close>

text \<open>\<open>async_transaction\<close>: an error undoes what the body did.\<close>

definition async_transaction :: "('s \<Rightarrow> ('a \<times> 's) expected) \<Rightarrow> ('a, 's) step" where
  "async_transaction body s = (case body s of Inl e \<Rightarrow> (Inl e, s) | Inr (x, s') \<Rightarrow> (Inr x, s'))"

text \<open>
  The part of \<open>process_message\<close> (\<open>libs_server/vds_server/message_map.cpp\<close>) for the log, with the
  tasks that run after the commit.
\<close>

definition log_process_message :: "nat \<Rightarrow> ('pk, 'sk) log_env \<Rightarrow> const_data_buffer \<Rightarrow> byte \<Rightarrow> const_data_buffer \<Rightarrow>
    (bool \<times> final_task list, database) step" where
  "log_process_message fuel env source_node mtype mdata =
     async_transaction (\<lambda>db.
       get_expected (message_deserialize mtype mdata) (\<lambda>message.
       get_expected
         (case message of
            Transaction_log_state m \<Rightarrow> apply_log_state env m db
          | Transaction_log_request m \<Rightarrow> apply_log_request m db
          | Transaction_log_record m \<Rightarrow> apply_log_record fuel env source_node m db
          | _ \<Rightarrow> Inl (Runtime_error ''Invalid command'')) (\<lambda>(result, tasks, db).
       Inr ((result, tasks), db))))"

end
