(* ===== verification/Log_sync_properties.thy ===== *)
theory Log_sync_properties
  imports Log_sync Invalid_properties
begin

text \<open>The properties of the exchange of blocks between nodes (\<open>Log_sync\<close>).\<close>

section \<open>What is asked for\<close>

lemma is_set_fold: "is_set acc \<Longrightarrow> is_set (fold set_emplace xs acc)"
  by (induction xs arbitrary: acc) auto

definition stored_ancestors :: "('pk, 'sk) log_env \<Rightarrow> database \<Rightarrow> const_data_buffer set" where
  "stored_ancestors env db = {a. \<exists>i r b. table_select (log_records db) i = Some r
     \<and> block_create (env_crypto env) (lr_data r) = Inr b \<and> a \<in> set (tb_ancestors b)}"

lemma set_unknown_records:
  "set (unknown_records db) = {a. (\<exists>i. (a, i) \<in> table_keys (log_hierarchy db))
     \<and> a \<notin> snd ` table_keys (log_hierarchy db) \<and> a \<notin> table_keys (log_records db)}"
proof -
  have "a \<in> set (map (fst \<circ> fst) (log_hierarchy db)) \<longleftrightarrow> (\<exists>i. (a, i) \<in> table_keys (log_hierarchy db))" for a
    by force
  then show ?thesis
    by (simp only: unknown_records_def set_fold_emplace set_filter list.set(1) Un_empty_left conj_assoc)
qed

lemma unknown_records_stored:
  assumes ok: "log_ok env db"
  shows "set (unknown_records db) = stored_ancestors env db - table_keys (log_records db)"
proof -
  have fol: "snd ` table_keys (log_hierarchy db) \<subseteq> table_keys (log_records db)"
  proof
    fix i assume "i \<in> snd ` table_keys (log_hierarchy db)"
    then obtain a where "(a, i) \<in> table_keys (log_hierarchy db)" by (metis imageE prod.collapse)
    with ok show "i \<in> table_keys (log_records db)" unfolding log_ok_def by blast
  qed
  have "(\<exists>i. (a, i) \<in> table_keys (log_hierarchy db)) \<longleftrightarrow> a \<in> stored_ancestors env db" for a
  proof
    assume "\<exists>i. (a, i) \<in> table_keys (log_hierarchy db)"
    then obtain i where i: "(a, i) \<in> table_keys (log_hierarchy db)" by blast
    with ok have "i \<in> table_keys (log_records db)" unfolding log_ok_def by blast
    then obtain r where "table_select (log_records db) i = Some r" by (metis not_None_eq table_select_None)
    with ok i show "a \<in> stored_ancestors env db" unfolding log_ok_def stored_ancestors_def by blast
  next
    assume "a \<in> stored_ancestors env db"
    then obtain i r b where "table_select (log_records db) i = Some r"
      "block_create (env_crypto env) (lr_data r) = Inr b" "a \<in> set (tb_ancestors b)"
      unfolding stored_ancestors_def by blast
    with ok show "\<exists>i. (a, i) \<in> table_keys (log_hierarchy db)" unfolding log_ok_def by (metis Inr_inject)
  qed
  with fol show ?thesis unfolding set_unknown_records by blast
qed

lemma is_set_unknown_records: "is_set (unknown_records db)"
  by (simp add: unknown_records_def is_set_fold)

text \<open>The timer asks every neighbour for exactly the missing blocks, those that a stored block names as
  an ancestor and that are not stored; when none is missing it tells the neighbours the leaves instead.\<close>

theorem missing_blocks_requested:
  assumes "log_ok env db"
  shows "set (query_unknown_records env route db) =
    (let missing = stored_ancestors env db - table_keys (log_records db) in
     if missing \<noteq> {} then
       {request_log_record env (node_id n) p | n p. n \<in> set (get_neighbors route) \<and> p \<in> missing}
     else if log_leafs db = [] then {} else {Send_neighbors (log_state_of env (log_leafs db))})"
proof (cases "unknown_records db = []")
  case True
  with unknown_records_stored [OF assms] have "stored_ancestors env db - table_keys (log_records db) = {}" by simp
  with True show ?thesis by (simp add: query_unknown_records_def Let_def)
next
  case False
  with unknown_records_stored [OF assms] have "stored_ancestors env db - table_keys (log_records db) \<noteq> {}"
    by (metis set_empty)
  with False unknown_records_stored [OF assms, symmetric] show ?thesis
    by (simp only: query_unknown_records_def Let_def if_False if_True not_False_eq_True) auto
qed

text \<open>A log with one block whose ancestor is missing; the hash is the identity.\<close>

definition identity_env :: "const_data_buffer \<Rightarrow> (const_data_buffer, unit) log_env" where
  "identity_env n = \<lparr>env_crypto = \<lparr>hash_signature = Inr, key_der = Inr, key_parse_der = Inr, key_fingerprint = Inr,
     sign_verify = \<lambda>_ _ _. Inr False, sign_data = \<lambda>_ _. Inr (Data_buffer [7])\<rparr>, env_node_id = n, env_now = 5\<rparr>"

text \<open>A block of node 4 over the block \<open>sample_root\<close>, that creates a wallet.\<close>

definition follower_block :: const_data_buffer where
  "follower_block = Data_buffer [0x31, 0x56, 0x44, 0x53, 0, 0, 0, 0, 0, 0, 0, 5, 0, 0, 0, 0, 0, 0, 0, 2, 1, 4,
     1, 29, 0x31, 0x56, 0x44, 0x53, 0, 0, 0, 0, 0, 0, 0, 5, 0, 0, 0, 0, 0, 0, 0, 1, 1, 4, 0,
     3, 0x6D, 1, 4, 1, 7, 5, 0x77, 1, 3, 1, 4, 1, 7]"

definition one_neighbor :: "nat dht_route" where
  "one_neighbor = \<lparr>current_node_id = Data_buffer [4],
     buckets = [(0, [make_node (Data_buffer [8]) \<lparr>session_address = 1, session_partner = Data_buffer [8]\<rparr> 0])]\<rparr>"

abbreviation saved_database :: "byte \<Rightarrow> const_data_buffer \<Rightarrow> database" where
  "saved_database n data \<equiv>
     snd (projr (save_block 3 (identity_env (Data_buffer [n])) data True empty_database))"

lemma saved_root: "save_block 3 (identity_env (Data_buffer [8])) sample_root True empty_database
    = Inr (sample_root, saved_database 8 sample_root)"
  by code_simp

lemma saved_follower: "save_block 3 (identity_env (Data_buffer [4])) follower_block True empty_database
    = Inr (follower_block, saved_database 4 follower_block)"
  by code_simp

lemma empty_log_ok: "log_ok env empty_database"
  by (simp add: log_ok_def table_ok_def empty_database_def)

theorem missing_blocks_requested_witness:
  "set (query_unknown_records (identity_env (Data_buffer [4])) one_neighbor (saved_database 4 follower_block))
     = {request_log_record (identity_env (Data_buffer [4])) (Data_buffer [8]) sample_root}"
proof -
  have ok: "log_ok (identity_env (Data_buffer [4])) (saved_database 4 follower_block)"
    using empty_log_ok saved_follower by (rule save_block_log_ok)
  have "unknown_records (saved_database 4 follower_block) = [sample_root]" by code_simp
  with unknown_records_stored [OF ok] have "stored_ancestors (identity_env (Data_buffer [4])) (saved_database 4 follower_block)
      - table_keys (log_records (saved_database 4 follower_block)) = {sample_root}" by simp
  with missing_blocks_requested [OF ok, of one_neighbor] show ?thesis
    by (simp add: one_neighbor_def get_neighbors_def bucket_neighbors_def make_node_def)
qed

section \<open>Messages keep the log\<close>

lemma log_ok_tables:
  "log_records db' = log_records db \<Longrightarrow> log_hierarchy db' = log_hierarchy db \<Longrightarrow> log_ok env db' = log_ok env db"
  by (simp add: log_ok_def)

lemma known_key_tables:
  assumes "known_key env b db = Inr (k, db')"
  shows "log_records db' = log_records db \<and> log_hierarchy db' = log_hierarchy db"
  using assms by (auto simp: known_key_def expected_simps split: option.splits if_splits)

lemma apply_log_record_Inr:
  assumes "apply_log_record fuel env n m db = Inr (res, tasks, db')"
  obtains b db1 where "block_create (env_crypto env) (lm_data m) = Inr b"
    and "log_records db1 = log_records db" "log_hierarchy db1 = log_hierarchy db"
    "if res then save_block fuel env (lm_data m) (\<not> has_processed db) db1 = Inr (tb_id b, db') else db' = db1"
proof -
  from assms obtain b where b: "block_create (env_crypto env) (lm_data m) = Inr b"
    by (auto simp: apply_log_record_def expected_simps)
  show thesis
  proof (cases "block_exists b db")
    case True
    with assms b have "\<not> res" "db' = db" by (auto simp: apply_log_record_def)
    with b show thesis by (intro that [of b db]) simp_all
  next
    case False
    with assms b obtain k db1 where k: "known_key env b db = Inr (k, db1)"
      by (auto simp: apply_log_record_def expected_simps)
    note tables = known_key_tables [OF k]
    then have "has_processed db1 = has_processed db" by (simp add: has_processed_def)
    with assms b False k have "if res then \<exists>i. save_block fuel env (lm_data m) (\<not> has_processed db) db1 = Inr (i, db')
        else db' = db1"
      by (auto simp: apply_log_record_def expected_simps split: if_splits)
    moreover have "i = tb_id b" if "save_block fuel env (lm_data m) al db1 = Inr (i, db')" for i al
      using save_block_steps [OF that] b by (metis Inr_inject)
    ultimately show thesis using that [OF b, of db1] tables by (cases res) auto
  qed
qed

lemma apply_log_record_ok:
  assumes "log_ok env db" "apply_log_record fuel env n m db = Inr (res, tasks, db')"
  shows "log_ok env db'"
proof -
  obtain b db1 where "block_create (env_crypto env) (lm_data m) = Inr b"
    and tables: "log_records db1 = log_records db" "log_hierarchy db1 = log_hierarchy db"
    and step: "if res then save_block fuel env (lm_data m) (\<not> has_processed db) db1 = Inr (tb_id b, db') else db' = db1"
    by (rule apply_log_record_Inr [OF assms(2)])
  then have "log_ok env db1" using assms(1) log_ok_tables by blast
  with step save_block_log_ok show ?thesis by (metis (full_types))
qed

lemma log_process_message_ok:
  assumes "log_ok env db" "log_process_message fuel env n t d db = (r, db')"
  shows "log_ok env db'"
proof -
  have "log_ok env db''"
    if "(case message of
            Transaction_log_state m \<Rightarrow> apply_log_state env m db
          | Transaction_log_request m \<Rightarrow> apply_log_request m db
          | Transaction_log_record m \<Rightarrow> apply_log_record fuel env n m db
          | _ \<Rightarrow> Inl (Runtime_error ''Invalid command'')) = Inr (res, tasks, db'')" for message res tasks db''
    using that assms(1) apply_log_record_ok [OF assms(1)]
    by (auto split: node_message.splits option.splits prod.splits if_splits
        simp: apply_log_state_def apply_log_request_def Let_def)
  then show ?thesis
    using assms by (auto simp: log_process_message_def async_transaction_def expected_simps split: sum.splits)
qed

text \<open>
  A network of nodes: any node may save a block of its own, and any bytes may reach any node as a message,
  those another node has sent as well as forged ones.
\<close>

inductive log_network :: "(const_data_buffer \<Rightarrow> ('pk, 'sk) log_env) \<Rightarrow> (const_data_buffer \<Rightarrow> database) \<Rightarrow> bool"
  for envs where
  network_start: "log_network envs (\<lambda>_. empty_database)"
| network_save: "log_network envs dbs \<Longrightarrow> save_block fuel (envs n) data allow_root (dbs n) = Inr (i, db') \<Longrightarrow>
    log_network envs (dbs(n := db'))"
| network_message: "log_network envs dbs \<Longrightarrow>
    log_process_message fuel (envs n) source_node mtype mdata (dbs n) = (r, db') \<Longrightarrow>
    log_network envs (dbs(n := db'))"

lemma network_log_ok: "log_network envs dbs \<Longrightarrow> log_ok (envs n) (dbs n)"
  by (induction arbitrary: n rule: log_network.induct)
    (auto simp: empty_log_ok intro: save_block_log_ok log_process_message_ok)

lemma block_create_id: "block_create cr data = Inr b \<Longrightarrow> hash_signature cr data = Inr (tb_id b)"
  by (auto simp: block_create_def expected_simps split: if_splits prod.splits)

text \<open>C7: Nodes agree on the blocks: whatever messages reach them, forged ones included, two nodes that store a
  block under the same id store the same bytes, with the same order number and time, and the same
  ancestors in their hierarchy tables (for a hash without collisions).\<close>

theorem nodes_agree_on_blocks:
  assumes "log_network envs dbs"
    and same: "env_crypto (envs n) = env_crypto (envs n')"
    and collision_free: "\<And>d d' h. hash_signature (env_crypto (envs n)) d = Inr h \<Longrightarrow>
      hash_signature (env_crypto (envs n)) d' = Inr h \<Longrightarrow> d = d'"
    and stored: "table_select (log_records (dbs n)) i = Some r" "table_select (log_records (dbs n')) i = Some r'"
  shows "lr_data r = lr_data r' \<and> lr_order_no r = lr_order_no r' \<and> lr_time_point r = lr_time_point r'
    \<and> (\<forall>a. (a, i) \<in> table_keys (log_hierarchy (dbs n)) \<longleftrightarrow> (a, i) \<in> table_keys (log_hierarchy (dbs n')))"
proof -
  have ok: "log_ok (envs n) (dbs n)" "log_ok (envs n') (dbs n')"
    using network_log_ok [OF assms(1)] by blast+
  from ok(1) stored(1) obtain b where b: "block_create (env_crypto (envs n)) (lr_data r) = Inr b" "tb_id b = i"
    "tb_order_no b = lr_order_no r" "tb_time_point b = lr_time_point r"
    "\<forall>a. (a, i) \<in> table_keys (log_hierarchy (dbs n)) \<longleftrightarrow> a \<in> set (tb_ancestors b)"
    unfolding log_ok_def by metis
  from ok(2) stored(2) obtain b' where b': "block_create (env_crypto (envs n)) (lr_data r') = Inr b'" "tb_id b' = i"
    "tb_order_no b' = lr_order_no r'" "tb_time_point b' = lr_time_point r'"
    "\<forall>a. (a, i) \<in> table_keys (log_hierarchy (dbs n')) \<longleftrightarrow> a \<in> set (tb_ancestors b')"
    unfolding log_ok_def same by metis
  have "lr_data r = lr_data r'"
    using block_create_id [OF b(1)] block_create_id [OF b'(1)] b(2) b'(2) collision_free by metis
  with b b' show ?thesis by (metis Inr_inject)
qed

theorem nodes_agree_on_blocks_witness:
  "\<exists>dbs r r'. log_network identity_env dbs
     \<and> table_select (log_records (dbs (Data_buffer [8]))) sample_root = Some r
     \<and> table_select (log_records (dbs (Data_buffer [4]))) sample_root = Some r' \<and> lr_data r = lr_data r'"
proof -
  let ?n = "Data_buffer [4]" and ?n' = "Data_buffer [8]"
  let ?m = "Data_buffer (put_log_record \<lparr>lm_record_id = sample_root, lm_data = sample_root\<rparr> [])"
  define dbs where "dbs = (\<lambda>_. empty_database)(?n' := saved_database 8 sample_root)"
  have "log_network identity_env dbs"
    unfolding dbs_def using network_start saved_root by (rule network_save)
  moreover have "case log_process_message 3 (identity_env ?n) ?n' 2 ?m empty_database of
      (Inl _, _) \<Rightarrow> False | (_, db) \<Rightarrow> table_select (log_records db) sample_root \<noteq> None"
    by code_simp
  then obtain r db where run: "log_process_message 3 (identity_env ?n) ?n' 2 ?m (dbs ?n) = (r, db)"
    and r: "table_select (log_records db) sample_root \<noteq> None"
    by (auto simp: dbs_def split: prod.splits sum.splits)
  ultimately have net: "log_network identity_env (dbs(?n := db))" by (metis network_message)
  have "table_select (log_records (saved_database 8 sample_root)) sample_root \<noteq> None" by code_simp
  then have "\<exists>r. table_select (log_records ((dbs(?n := db)) ?n')) sample_root = Some r" by (simp add: dbs_def)
  with r nodes_agree_on_blocks [OF net, of ?n' ?n sample_root] net show ?thesis
    by (fastforce simp: identity_env_def)
qed

section \<open>Blocks that are fetched\<close>

lemma stored_after_record:
  assumes "apply_log_record fuel env n m db = Inr (True, tasks, db')"
    and b: "block_create (env_crypto env) (lm_data m) = Inr b"
  shows "table_keys (log_records db') = insert (tb_id b) (table_keys (log_records db))"
    and "table_select (log_records db) i = Some r \<Longrightarrow>
      \<exists>r'. table_select (log_records db') i = Some r' \<and> lr_data r' = lr_data r"
    and "\<exists>r. table_select (log_records db') (tb_id b) = Some r \<and> lr_data r = lm_data m"
proof -
  obtain b' db1 where b': "block_create (env_crypto env) (lm_data m) = Inr b'"
    and tables: "log_records db1 = log_records db" "log_hierarchy db1 = log_hierarchy db"
    and "if True then save_block fuel env (lm_data m) (\<not> has_processed db) db1 = Inr (tb_id b', db') else db' = db1"
    by (rule apply_log_record_Inr [OF assms(1)])
  with b have saved: "save_block fuel env (lm_data m) (\<not> has_processed db) db1 = Inr (tb_id b, db')" by simp
  obtain b2 db2 where b2: "block_create (env_crypto env) (lm_data m) = Inr b2" "tb_id b = tb_id b2"
    and "tb_id b \<notin> table_keys (log_records db1)"
    and "db2 = db1\<lparr>log_records := log_records db1 @ [(tb_id b, \<lparr>lr_data = lm_data m, lr_state = Validated,
         lr_consensus = False, lr_order_no = tb_order_no b2, lr_time_point = tb_time_point b2\<rparr>)],
       log_hierarchy := log_hierarchy db1 @ map (\<lambda>a. ((a, tb_id b), ())) (tb_ancestors b2)\<rparr>"
    and le: "log_le db2 db'" and "tb_ancestors b2 \<noteq> [] \<or> \<not> has_processed db"
    by (rule save_block_steps [OF saved])
  with b tables have new: "tb_id b \<notin> table_keys (log_records db)"
    and db2: "log_records db2 = log_records db @ [(tb_id b, \<lparr>lr_data = lm_data m, lr_state = Validated,
         lr_consensus = False, lr_order_no = tb_order_no b, lr_time_point = tb_time_point b\<rparr>)]"
    by simp_all
  have rec: "records_le (log_records db2) (log_records db')" using le by (simp add: log_le_def)
  from records_le_keys [OF rec] have "map fst (log_records db') = map fst (log_records db) @ [tb_id b]"
    by (simp add: db2)
  then have "set (map fst (log_records db')) = insert (tb_id b) (set (map fst (log_records db)))" by simp
  then show "table_keys (log_records db') = insert (tb_id b) (table_keys (log_records db))" by simp
  show "\<exists>r'. table_select (log_records db') i = Some r' \<and> lr_data r' = lr_data r"
    if "table_select (log_records db) i = Some r"
  proof -
    have "table_select (log_records db2) i = Some r" using that by (simp add: db2 map_add_def)
    from records_le_select [OF rec this] show ?thesis by (auto simp: record_le_def)
  qed
  have "table_select (log_records db) (tb_id b) = None" using new table_select_None by metis
  then have "table_select (log_records db2) (tb_id b) = Some \<lparr>lr_data = lm_data m, lr_state = Validated,
         lr_consensus = False, lr_order_no = tb_order_no b, lr_time_point = tb_time_point b\<rparr>"
    by (simp add: db2 map_add_def)
  from records_le_select [OF rec this] show "\<exists>r. table_select (log_records db') (tb_id b) = Some r \<and> lr_data r = lm_data m"
    by (auto simp: record_le_def)
qed

lemma stored_ancestors_after_record:
  assumes "apply_log_record fuel env n m db = Inr (True, tasks, db')"
    and b: "block_create (env_crypto env) (lm_data m) = Inr b"
  shows "stored_ancestors env db' = stored_ancestors env db \<union> set (tb_ancestors b)"
proof -
  note after = stored_after_record [OF assms]
  have "\<exists>r0. (table_select (log_records db) i = Some r0 \<or> i = tb_id b \<and> lr_data r = lm_data m) \<and> lr_data r0 = lr_data r"
    if r: "table_select (log_records db') i = Some r" for i r
  proof (cases "i = tb_id b")
    case True
    with after(3) r show ?thesis by auto
  next
    case False
    have "i \<in> table_keys (log_records db')" using r by (auto dest: map_of_SomeD in_table_keys)
    with after(1) False have "i \<in> table_keys (log_records db)" by simp
    then obtain r0 where "table_select (log_records db) i = Some r0" by (metis not_None_eq table_select_None)
    with after(2) r show ?thesis by fastforce
  qed
  then have "stored_ancestors env db' \<subseteq> stored_ancestors env db \<union> set (tb_ancestors b)"
    unfolding stored_ancestors_def using b by (smt (verit) Inr_inject Un_iff mem_Collect_eq subsetI)
  moreover have "stored_ancestors env db \<subseteq> stored_ancestors env db'"
    unfolding stored_ancestors_def using after(2) by (smt (verit) Collect_mono)
  moreover have "set (tb_ancestors b) \<subseteq> stored_ancestors env db'"
    unfolding stored_ancestors_def using after(3) b by (metis (mono_tags, lifting) mem_Collect_eq subsetI)
  ultimately show ?thesis by blast
qed

text \<open>C8: A missing block is fetched from a neighbour that has it: the timer asks the neighbour, the neighbour
  answers with the block, and once the answer is saved the block is no longer missing, nothing else that
  was stored has gone, and what is missing then is what was missing before and the block's own ancestors,
  less what is stored.\<close>

theorem missing_block_fetched:
  assumes ok: "log_ok env db" "log_ok env' db'" "env_crypto env' = env_crypto env"
    and missing: "p \<in> set (unknown_records db)"
    and neighbor: "n \<in> set (get_neighbors route)"
    and has: "table_select (log_records db') p = Some r"
  shows "request_log_record env (node_id n) p \<in> set (query_unknown_records env route db)
    \<and> apply_log_request \<lparr>lq_transaction_id = p, lq_source_node = env_node_id env\<rparr> db'
        = Inr (True, [Send (env_node_id env) (Transaction_log_record \<lparr>lm_record_id = p, lm_data = lr_data r\<rparr>)], db')
    \<and> (\<exists>b. block_create (env_crypto env) (lr_data r) = Inr b \<and> tb_id b = p
      \<and> (\<forall>fuel tasks db1.
          apply_log_record fuel env (node_id n) \<lparr>lm_record_id = p, lm_data = lr_data r\<rparr> db = Inr (True, tasks, db1)
          \<longrightarrow> table_keys (log_records db1) = insert p (table_keys (log_records db))
            \<and> set (unknown_records db1) =
                (set (unknown_records db) \<union> set (tb_ancestors b)) - table_keys (log_records db1)))"
proof -
  have ask: "request_log_record env (node_id n) p \<in> set (query_unknown_records env route db)"
    using missing neighbor by (auto simp: query_unknown_records_def Let_def)
  from ok(2,3) has obtain b where b: "block_create (env_crypto env) (lr_data r) = Inr b" "tb_id b = p"
    unfolding log_ok_def by metis
  have fetched: "table_keys (log_records db1) = insert p (table_keys (log_records db))
      \<and> set (unknown_records db1) = (set (unknown_records db) \<union> set (tb_ancestors b)) - table_keys (log_records db1)"
    if run: "apply_log_record fuel env (node_id n) \<lparr>lm_record_id = p, lm_data = lr_data r\<rparr> db = Inr (True, tasks, db1)"
    for fuel tasks db1
    using stored_after_record(1) [OF run] stored_ancestors_after_record [OF run] b
      unknown_records_stored [OF ok(1)] unknown_records_stored [OF apply_log_record_ok [OF ok(1) run]]
    by auto
  have answer: "apply_log_request \<lparr>lq_transaction_id = p, lq_source_node = env_node_id env\<rparr> db'
        = Inr (True, [Send (env_node_id env) (Transaction_log_record \<lparr>lm_record_id = p, lm_data = lr_data r\<rparr>)], db')"
    using has by (simp add: apply_log_request_def)
  from ask answer b fetched show ?thesis by blast
qed

theorem missing_block_fetched_witness:
  "\<exists>tasks db1.
     apply_log_record 9 (identity_env (Data_buffer [4])) (Data_buffer [8]) \<lparr>lm_record_id = sample_root, lm_data = sample_root\<rparr>
       (saved_database 4 follower_block) = Inr (True, tasks, db1)
     \<and> set (unknown_records db1) = {}"
proof -
  let ?env = "identity_env (Data_buffer [4])" and ?env' = "identity_env (Data_buffer [8])"
  let ?n = "make_node (Data_buffer [8]) \<lparr>session_address = 1 :: nat, session_partner = Data_buffer [8]\<rparr> 0"
  have ok: "log_ok ?env (saved_database 4 follower_block)" "log_ok ?env' (saved_database 8 sample_root)"
    by (rule save_block_log_ok [OF empty_log_ok saved_follower], rule save_block_log_ok [OF empty_log_ok saved_root])
  have crypto: "env_crypto ?env' = env_crypto ?env" by (simp add: identity_env_def)
  have unknown: "unknown_records (saved_database 4 follower_block) = [sample_root]" by code_simp
  have n: "?n \<in> set (get_neighbors one_neighbor)" and n8: "node_id ?n = Data_buffer [8]"
    by (simp_all add: one_neighbor_def get_neighbors_def bucket_neighbors_def make_node_def)
  have "table_select (log_records (saved_database 8 sample_root)) sample_root \<noteq> None
      \<and> (case table_select (log_records (saved_database 8 sample_root)) sample_root of Some r \<Rightarrow> lr_data r = sample_root)"
    by code_simp
  then obtain r where r: "table_select (log_records (saved_database 8 sample_root)) sample_root = Some r"
    "lr_data r = sample_root"
    by auto
  have "case apply_log_record 9 ?env (Data_buffer [8]) \<lparr>lm_record_id = sample_root, lm_data = sample_root\<rparr>
       (saved_database 4 follower_block) of Inr (res, _, _) \<Rightarrow> res | _ \<Rightarrow> False"
    by code_simp
  then obtain tasks db1 where run: "apply_log_record 9 ?env (Data_buffer [8]) \<lparr>lm_record_id = sample_root, lm_data = sample_root\<rparr>
       (saved_database 4 follower_block) = Inr (True, tasks, db1)"
    by (auto split: sum.splits)
  obtain b where b: "block_create (env_crypto ?env) sample_root = Inr b"
    and fetched: "\<And>fuel tasks db1. apply_log_record fuel ?env (Data_buffer [8])
        \<lparr>lm_record_id = sample_root, lm_data = sample_root\<rparr> (saved_database 4 follower_block) = Inr (True, tasks, db1)
      \<Longrightarrow> table_keys (log_records db1) = insert sample_root (table_keys (log_records (saved_database 4 follower_block)))
        \<and> set (unknown_records db1) = ({sample_root} \<union> set (tb_ancestors b)) - table_keys (log_records db1)"
    using missing_block_fetched [OF ok crypto _ n r(1)] unknown by (simp only: n8 r(2)) auto
  have "case block_create (env_crypto ?env) sample_root of Inr b \<Rightarrow> tb_ancestors b = [] | _ \<Rightarrow> False"
    by code_simp
  with b fetched [OF run] have "set (unknown_records db1) = {}" by simp
  with run show ?thesis by blast
qed

section \<open>Signatures\<close>

lemma expected_not_False: "\<not> expected_not e"
  by (cases e) (simp_all add: expected_not_def has_value_def has_error_def)

text \<open>C6: The signature of a block from the network is not looked at: the condition negates the result object
  and not the answer in it, so a block in the name of a known node is saved like any other when its
  signature is wrong, or cannot be checked at all.\<close>

theorem forged_block_saved:
  assumes "block_create (env_crypto env) (lm_data m) = Inr b" "\<not> block_exists b db"
    and "table_select (node_infos db) (tb_write_public_key_id b) = Some row"
    and "key_parse_der (env_crypto env) (ni_public_key row) = Inr key"
    and "block_validate (env_crypto env) key b \<noteq> Inr True"
    and "tb_time_point b \<le> ni_last_activity row"
  shows "apply_log_record fuel env n m db =
    get_expected (save_block fuel env (lm_data m) (\<not> has_processed db) db) (\<lambda>(_, db). Inr (True, [], db))"
  using assms by (simp add: apply_log_record_def known_key_def expected_not_False)

theorem forged_block_saved_witness:
  "\<exists>b db. block_create (env_crypto (identity_env (Data_buffer [8]))) follower_block = Inr b
     \<and> block_validate (env_crypto (identity_env (Data_buffer [8]))) (Data_buffer [4]) b = Inr False
     \<and> apply_log_record 9 (identity_env (Data_buffer [8])) (Data_buffer [6])
         \<lparr>lm_record_id = follower_block, lm_data = follower_block\<rparr> (saved_database 8 sample_root) = Inr (True, [], db)"
proof -
  let ?env = "identity_env (Data_buffer [8])" and ?db = "saved_database 8 sample_root"
  let ?m = "\<lparr>lm_record_id = follower_block, lm_data = follower_block\<rparr>"
  have "case block_create (env_crypto ?env) follower_block of
      Inr b \<Rightarrow> \<not> block_exists b ?db \<and> tb_time_point b = 5 \<and> tb_write_public_key_id b = Data_buffer [4]
        \<and> block_validate (env_crypto ?env) (Data_buffer [4]) b = Inr False
    | _ \<Rightarrow> False"
    by code_simp
  then obtain b where b: "block_create (env_crypto ?env) (lm_data ?m) = Inr b" "\<not> block_exists b ?db"
    "tb_time_point b = 5" "tb_write_public_key_id b = Data_buffer [4]"
    "block_validate (env_crypto ?env) (Data_buffer [4]) b = Inr False"
    by (auto split: sum.splits)
  have "case table_select (node_infos ?db) (Data_buffer [4]) of
      Some row \<Rightarrow> ni_last_activity row = 5 \<and> key_parse_der (env_crypto ?env) (ni_public_key row) = Inr (Data_buffer [4])
    | None \<Rightarrow> False"
    by code_simp
  then obtain row where row: "table_select (node_infos ?db) (tb_write_public_key_id b) = Some row"
    "key_parse_der (env_crypto ?env) (ni_public_key row) = Inr (Data_buffer [4])" "ni_last_activity row = 5"
    using b(4) by (auto split: option.splits)
  have "case save_block 9 ?env (lm_data ?m) (\<not> has_processed ?db) ?db of Inr _ \<Rightarrow> True | _ \<Rightarrow> False"
    by code_simp
  then obtain i db where "save_block 9 ?env (lm_data ?m) (\<not> has_processed ?db) ?db = Inr (i, db)"
    by (auto split: sum.splits)
  with forged_block_saved [of ?env ?m b ?db row "Data_buffer [4]" 9 "Data_buffer [6]"] b row show ?thesis
    by auto
qed

end
