(* ===== verification/Replica_storage.thy ===== *)
theory Replica_storage
  imports Log_sync Chunk_storage Encoding
begin

text \<open>
  How a node keeps replicas: the part of \<open>libs_server/vds_dht_network/impl/dht_network_client.cpp\<close> that
  writes replicas to the folders set aside for them and puts objects together again. The file system is a
  map from the names of files to what they hold; folders are there when they are needed. A step that
  fails leaves the files it has written, \<open>node_transaction\<close> takes back the tables only.
\<close>

section \<open>The node\<close>

datatype usage_type = Share | Exclusive

record node_storage =
  st_local_path :: cstring
  st_owner_id :: const_data_buffer
  st_reserved_size :: int
  st_usage_type :: usage_type

record local_data =
  ld_storage_id :: const_data_buffer
  ld_replica_size :: nat
  ld_storage_path :: cstring
  ld_last_access :: int

type_synonym file_system = "cstring \<Rightarrow> const_data_buffer option"

text \<open>The tables of a node next to those of the log, and its files.\<close>

record node_state =
  log_database :: database
  node_storages :: "(const_data_buffer, node_storage) table" \<comment> \<open>storage id\<close>
  local_datas :: "(const_data_buffer \<times> const_data_buffer, local_data) table" \<comment> \<open>replica hash, owner\<close>
  tmp_datas :: "(const_data_buffer, int) table" \<comment> \<open>object id; last sync\<close>
  well_known_nodes :: "(cstring, int) table" \<comment> \<open>address; last connect\<close>
  config_keys :: "(const_data_buffer, const_data_buffer \<times> const_data_buffer) table" \<comment> \<open>node id; public, private key\<close>
  node_files :: file_system

record ('pk, 'sk) node_env =
  node_log :: "('pk, 'sk) log_env"
  root_folder :: cstring \<comment> \<open>\<open>persistence::current_user\<close>\<close>
  can_write :: "cstring \<Rightarrow> bool" \<comment> \<open>whether the system lets the file be written as a whole\<close>
  failed_write :: "cstring \<Rightarrow> nat option" \<comment> \<open>else how many bytes get into it, none when it cannot be opened\<close>
  math_memory :: "u16 \<Rightarrow> u16" \<comment> \<open>what the tables of \<open>gf_math\<close> hold before they are filled\<close>
  restore_memory :: "u16 restore_state" \<comment> \<open>what the arrays of \<open>chunk_restore\<close> hold before\<close>

definition node_transaction :: "('a, node_state) step \<Rightarrow> ('a, node_state) step" where
  "node_transaction body s =
     (case body s of
        (Inl e, s') \<Rightarrow> (Inl e, s\<lparr>node_files := node_files s'\<rparr>)
      | (Inr x, s') \<Rightarrow> (Inr x, s'))"

section \<open>Files\<close>

abbreviation slash :: byte where
  "slash \<equiv> 0x2F"

text \<open>The constructors of \<open>filename\<close> and \<open>foldername\<close> from a folder and a name.\<close>

definition join_path :: "cstring \<Rightarrow> cstring \<Rightarrow> cstring" where
  "join_path base relative = base @ slash # relative"

definition file_read_all :: "cstring \<Rightarrow> (const_data_buffer, node_state) step" where
  "file_read_all fn s = (case node_files s fn of
     None \<Rightarrow> (Inl (Runtime_error ''Unable to open file''), s) | Some d \<Rightarrow> (Inr d, s))"

text \<open>The file is opened with \<open>truncate\<close> and then written: a write that fails leaves the first bytes, or
  none of them, and nothing of what was there before.\<close>

definition file_write_all :: "('pk, 'sk) node_env \<Rightarrow> cstring \<Rightarrow> const_data_buffer \<Rightarrow> (unit, node_state) step" where
  "file_write_all env fn d s =
     (if can_write env fn then (Inr (), s\<lparr>node_files := (node_files s)(fn \<mapsto> d)\<rparr>)
      else case failed_write env fn of
          None \<Rightarrow> (Inl (Runtime_error ''Unable to open file''), s)
        | Some n \<Rightarrow> (Inl (Runtime_error ''Unable to write file''),
            s\<lparr>node_files := (node_files s)(fn \<mapsto> Data_buffer (take n (buffer_data d)))\<rparr>))"

definition file_move :: "('pk, 'sk) node_env \<Rightarrow> cstring \<Rightarrow> cstring \<Rightarrow> (unit, node_state) step" where
  "file_move env source target s =
     (case node_files s source of
        None \<Rightarrow> (Inl (Runtime_error ''Rename file''), s)
      | Some d \<Rightarrow>
          if can_write env target
          then (Inr (), s\<lparr>node_files := ((node_files s)(source := None))(target \<mapsto> d)\<rparr>)
          else (Inl (Runtime_error ''Rename file''), s))"

definition file_delete :: "cstring \<Rightarrow> (unit, node_state) step" where
  "file_delete fn s =
     (if node_files s fn = None then (Inl (Runtime_error ''Unable to delete file''), s)
      else (Inr (), s\<lparr>node_files := (node_files s)(fn := None)\<rparr>))"

text \<open>The name of a replica: base64 with the characters that may stand in a file name.\<close>

definition str_replace :: "byte \<Rightarrow> byte \<Rightarrow> cstring \<Rightarrow> cstring" where
  "str_replace original target s = map (\<lambda>c. if c = original then target else c) s"

definition append_path :: "const_data_buffer \<Rightarrow> cstring" where
  "append_path h = str_replace slash 0x5F (str_replace 0x2B 0x23 (base64_from_bytes (buffer_data h)))"

section \<open>Finding a storage\<close>

text \<open>\<open>local_data_dbo\<close> joined with \<open>node_storage_dbo\<close>: folder and path of a replica.\<close>

definition replica_places :: "const_data_buffer \<Rightarrow> node_state \<Rightarrow> (cstring \<times> cstring) list" where
  "replica_places h s =
     concat (map (\<lambda>((h', _), ld).
        if h' = h
        then map (\<lambda>(_, st). (st_local_path st, ld_storage_path ld))
               (filter (\<lambda>(i, _). i = ld_storage_id ld) (node_storages s))
        else []) (local_datas s))"

text \<open>The sum of the left join; no row gives NULL, which is read as 0.\<close>

definition used_size :: "const_data_buffer \<Rightarrow> node_state \<Rightarrow> int" where
  "used_size sid s = (\<Sum>(_, ld) \<leftarrow> local_datas s. if ld_storage_id ld = sid then int (ld_replica_size ld) else 0)"

definition usable_storage :: "const_data_buffer \<Rightarrow> node_storage \<Rightarrow> bool" where
  "usable_storage owner st \<longleftrightarrow>
     st_usage_type st = Share \<or> st_usage_type st = Exclusive \<and> st_owner_id st = owner"

text \<open>The loop over the storages: the one with most room, its folder and its id.\<close>

fun best_storage :: "node_state \<Rightarrow> (const_data_buffer \<times> node_storage) list \<Rightarrow> int \<times> cstring \<times> const_data_buffer \<Rightarrow>
    int \<times> cstring \<times> const_data_buffer" where
  "best_storage s [] best = best"
| "best_storage s ((sid, st) # sts) (allowed, path, best) =
     (let sz = used_size sid s
      in best_storage s sts
           (if st_reserved_size st > sz \<and> allowed < st_reserved_size st - sz
            then (st_reserved_size st - sz, st_local_path st, sid) else (allowed, path, best)))"

definition choose_storage :: "const_data_buffer \<Rightarrow> nat \<Rightarrow> node_state \<Rightarrow> (cstring \<times> const_data_buffer) expected" where
  "choose_storage owner sz s =
     (let (allowed, path, sid) =
            best_storage s (filter (\<lambda>(_, st). usable_storage owner st) (node_storages s)) (0, [], Data_buffer [])
      in if path = [] \<or> allowed < int sz then Inl (Runtime_error ''No disk space'') else Inr (path, sid))"

text \<open>\<open>substr\<close> throws when it starts behind the end.\<close>

definition replica_path :: "const_data_buffer \<Rightarrow> cstring expected" where
  "replica_path h =
     (let a = append_path h
      in if length a < 20 then Inl (Runtime_error ''std::out_of_range'')
         else Inr (join_path (take 10 a) (join_path (take 10 (drop 10 a)) (drop 20 a))))"

definition insert_local_data :: "const_data_buffer \<Rightarrow> const_data_buffer \<Rightarrow> local_data \<Rightarrow> (unit, node_state) step" where
  "insert_local_data h owner ld s =
     (case table_insert ''local_data_dbo'' (h, owner) ld (local_datas s) of
        Inl e \<Rightarrow> (Inl e, s) | Inr t \<Rightarrow> (Inr (), s\<lparr>local_datas := t\<rparr>))"

text \<open>What the three forms of \<open>save_data\<close> do once they know that the replica is not there: choose a
  storage, put the file into it, insert the row.\<close>

definition store_replica :: "('pk, 'sk) node_env \<Rightarrow> (cstring \<Rightarrow> (unit, node_state) step) \<Rightarrow> const_data_buffer \<Rightarrow> nat \<Rightarrow>
    const_data_buffer \<Rightarrow> (cstring, node_state) step" where
  "store_replica env put_file h sz owner s =
     bind_step (lift_step (choose_storage owner sz s)) (\<lambda>(path, sid).
     bind_step (lift_step (replica_path h)) (\<lambda>p.
     bind_step (put_file (join_path path p)) (\<lambda>_.
     bind_step (insert_local_data h owner \<lparr>ld_storage_id = sid, ld_replica_size = sz, ld_storage_path = p,
         ld_last_access = env_now (node_log env)\<rparr>) (\<lambda>_.
       return_step (join_path path p))))) s"

section \<open>Saving\<close>

text \<open>A replica that came over the network. When it is there already the result names the path in the
  storage as folder and the folder of the storage as file.\<close>

definition save_received :: "('pk, 'sk) node_env \<Rightarrow> const_data_buffer \<Rightarrow> const_data_buffer \<Rightarrow> const_data_buffer \<Rightarrow>
    (cstring, node_state) step" where
  "save_received env data_hash data owner s =
     (case filter (\<lambda>(_, row). rd_replica_hash row = data_hash) (replica_data (log_database s)) of
        (_, row) # _ \<Rightarrow> assert_step (buffer_size data = unat (rd_replica_size row)) ''data.size() == t4.replica_size''
      | [] \<Rightarrow> id)
     (\<lambda>s. case replica_places data_hash s of
        (local_path, storage_path) # _ \<Rightarrow> (Inr (join_path storage_path local_path), s)
      | [] \<Rightarrow> store_replica env (\<lambda>fn. file_write_all env fn data) data_hash (buffer_size data) owner s) s"

text \<open>A file from the temporary folder.\<close>

definition save_file :: "('pk, 'sk) node_env \<Rightarrow> const_data_buffer \<Rightarrow> cstring \<Rightarrow> const_data_buffer \<Rightarrow>
    (cstring, node_state) step" where
  "save_file env data_hash original_file owner s =
     (case replica_places data_hash s of
        (local_path, storage_path) # _ \<Rightarrow> (Inr (join_path storage_path local_path), s)
      | [] \<Rightarrow>
          (case node_files s original_file of
             None \<Rightarrow> (Inl (Runtime_error ''Unable to get file size''), s)
           | Some d \<Rightarrow> store_replica env (file_move env original_file) data_hash (buffer_size d) owner s))"

text \<open>\<open>generators_[replica]->write\<close>: the generators are made once, for \<open>MIN_HORCRUX\<close>.\<close>

abbreviation MIN_HORCRUX :: u16 where "MIN_HORCRUX \<equiv> 32"
abbreviation GENERATE_HORCRUX :: u16 where "GENERATE_HORCRUX \<equiv> 64"

abbreviation node_cells :: "('pk, 'sk) node_env \<Rightarrow> u16 cell_type" where
  "node_cells env \<equiv> uint16_cells (chunk_math16 (math_memory env))"

definition write_replica :: "('pk, 'sk) node_env \<Rightarrow> u16 \<Rightarrow> const_data_buffer \<Rightarrow> const_data_buffer expected" where
  "write_replica env replica data =
     get_expected (generator_write (node_cells env) (new_chunk_generator (node_cells env) MIN_HORCRUX replica) []
       (buffer_data data) True) (\<lambda>s. Inr (Data_buffer s))"

text \<open>The numbers of the replicas.\<close>

definition all_replicas :: "u16 list" where
  "all_replicas = map word_of_nat [0..<unat GENERATE_HORCRUX]"

fun for_step :: "'i list \<Rightarrow> ('i \<Rightarrow> (unit, 's) step) \<Rightarrow> (unit, 's) step" where
  "for_step [] body s = (Inr (), s)"
| "for_step (i # is) body s = bind_step (body i) (\<lambda>_. for_step is body) s"

definition save_replica :: "('pk, 'sk) node_env \<Rightarrow> const_data_buffer \<Rightarrow> const_data_buffer \<Rightarrow> u16 \<Rightarrow> (unit, node_state) step" where
  "save_replica env data owner replica =
     bind_step (lift_step (write_replica env replica data)) (\<lambda>replica_data.
     bind_step (lift_step (hash_signature (env_crypto (node_log env)) replica_data)) (\<lambda>replica_hash s.
       if replica_places replica_hash s \<noteq> [] then (Inr (), s)
       else bind_step (store_replica env (\<lambda>fn. file_write_all env fn replica_data) replica_hash
              (buffer_size replica_data) owner) (\<lambda>_. return_step ()) s))"

text \<open>All replicas of an object this node has put together.\<close>

definition save_object :: "('pk, 'sk) node_env \<Rightarrow> const_data_buffer \<Rightarrow> const_data_buffer \<Rightarrow> (unit, node_state) step" where
  "save_object env data owner = for_step all_replicas (save_replica env data owner)"

section \<open>Temporary files\<close>

definition tmp_folder :: "('pk, 'sk) node_env \<Rightarrow> cstring" where
  "tmp_folder env = join_path (root_folder env) [0x74, 0x6D, 0x70]"

definition insert_tmp_data :: "('pk, 'sk) node_env \<Rightarrow> const_data_buffer \<Rightarrow> (unit, node_state) step" where
  "insert_tmp_data env h s =
     (case table_insert ''chunk_tmp_data'' h (env_now (node_log env)) (tmp_datas s) of
        Inl e \<Rightarrow> (Inl e, s) | Inr t \<Rightarrow> (Inr (), s\<lparr>tmp_datas := t\<rparr>))"

definition save_temp_replica :: "('pk, 'sk) node_env \<Rightarrow> const_data_buffer \<Rightarrow> u16 \<Rightarrow> (const_data_buffer \<times> nat, node_state) step" where
  "save_temp_replica env value replica =
     bind_step (lift_step (write_replica env replica value)) (\<lambda>replica_data.
     bind_step (lift_step (hash_signature (env_crypto (node_log env)) replica_data)) (\<lambda>replica_hash s.
       bind_step
         (if table_select (tmp_datas s) replica_hash = None
          then bind_step (file_write_all env (join_path (tmp_folder env) (append_path replica_hash)) replica_data)
                 (\<lambda>_. insert_tmp_data env replica_hash)
          else return_step ()) (\<lambda>_.
         return_step (replica_hash, buffer_size replica_data)) s))"

fun save_temp_loop :: "('pk, 'sk) node_env \<Rightarrow> const_data_buffer \<Rightarrow> u16 list \<Rightarrow> ((const_data_buffer \<times> nat) list, node_state) step" where
  "save_temp_loop env value [] s = (Inr [], s)"
| "save_temp_loop env value (r # rs) s =
     bind_step (save_temp_replica env value r) (\<lambda>x.
     bind_step (save_temp_loop env value rs) (\<lambda>xs. return_step (x # xs))) s"

text \<open>The hashes of the replicas and the size of the first, as a \<open>uint32_t\<close>.\<close>

definition save_temp :: "('pk, 'sk) node_env \<Rightarrow> const_data_buffer \<Rightarrow> (const_data_buffer list \<times> u32, node_state) step" where
  "save_temp env value =
     bind_step (save_temp_loop env value all_replicas) (\<lambda>xs.
       return_step (map fst xs, word_of_nat (snd (hd xs))))"

section \<open>Restoring\<close>

text \<open>The first loop of \<open>restore_async\<close>: the replicas that are here, until there are enough, and those that
  are not.\<close>

fun collect_replicas :: "const_data_buffer list \<Rightarrow> u16 list \<Rightarrow> u16 list \<times> const_data_buffer list \<times> const_data_buffer list \<Rightarrow>
    (u16 list \<times> const_data_buffer list \<times> const_data_buffer list, node_state) step" where
  "collect_replicas hashes [] acc s = (Inr acc, s)"
| "collect_replicas hashes (r # rs) (replicas, datas, unknown) s =
     (if length hashes \<le> unat r then (Inl (Undefined_behaviour ''replicas_hashes[replica]''), s)
      else case replica_places (hashes ! unat r) s of
        (local_path, storage_path) # _ \<Rightarrow>
          bind_step (file_read_all (join_path local_path storage_path)) (\<lambda>data s.
            if unat MIN_HORCRUX \<le> length replicas + 1 then (Inr (replicas @ [r], datas @ [data], unknown), s)
            else collect_replicas hashes rs (replicas @ [r], datas @ [data], unknown) s) s
      | [] \<Rightarrow> collect_replicas hashes rs (replicas, datas, unknown @ [hashes ! unat r]) s)"

definition restore_chunks_data :: "('pk, 'sk) node_env \<Rightarrow> u16 list \<Rightarrow> const_data_buffer list \<Rightarrow> const_data_buffer expected" where
  "restore_chunks_data env replicas datas =
     get_expected (chunk_restore (node_cells env) (restore_memory env) MIN_HORCRUX replicas) (\<lambda>m.
     get_expected (restore_chunks (node_cells env) MIN_HORCRUX m (map buffer_data datas)) (\<lambda>d.
       Inr (Data_buffer d)))"

text \<open>\<open>sync_process::restore_replica\<close>: ask the nodes that have the replica, or the nearest one.\<close>

definition candidate_nodes :: "('pk, 'sk) node_env \<Rightarrow> const_data_buffer \<Rightarrow> node_state \<Rightarrow> const_data_buffer list" where
  "candidate_nodes env h s =
     fold set_emplace
       (filter (\<lambda>n. n \<noteq> env_node_id (node_log env))
          (map (snd \<circ> fst) (filter (\<lambda>((h', _), _). h' = h) (replica_map (log_database s))))) []"

abbreviation request_replica :: "const_data_buffer \<Rightarrow> const_data_buffer \<Rightarrow> final_task" where
  "request_replica h candidate \<equiv> Send candidate (Sync_replica_request h)"

definition restore_replica :: "('pk, 'sk) node_env \<Rightarrow> const_data_buffer \<Rightarrow> node_state \<Rightarrow> final_task list" where
  "restore_replica env h s =
     (let candidates = candidate_nodes env h s in
      if candidates \<noteq> [] then map (request_replica h) candidates
      else [Send_near h 1 (Sync_replica_request h)])"

definition prepare_restore_replica :: "('pk, 'sk) node_env \<Rightarrow> const_data_buffer \<Rightarrow> node_state \<Rightarrow> bool \<times> final_task list" where
  "prepare_restore_replica env h s =
     (if h \<in> fst ` table_keys (local_datas s) then (True, [])
      else (False, map (request_replica h) (candidate_nodes env h s)))"

text \<open>The data when enough replicas are here (\<open>None\<close> leaves \<open>result\<close> as it is), the progress in percent and
  the tasks.\<close>

definition restore_async :: "('pk, 'sk) node_env \<Rightarrow> bool \<Rightarrow> const_data_buffer list \<Rightarrow>
    (const_data_buffer option \<times> byte \<times> final_task list, node_state) step" where
  "restore_async env want_result hashes =
     bind_step (collect_replicas hashes all_replicas ([], [], [])) (\<lambda>(replicas, datas, unknown) s.
       if unat MIN_HORCRUX \<le> length replicas then
         (if want_result
          then bind_step (lift_step (restore_chunks_data env replicas datas)) (\<lambda>d. return_step (Some d, 100, [])) s
          else (Inr (None, 100, []), s))
       else (Inr (None, word_of_nat (99 * length replicas div unat MIN_HORCRUX),
              concat (map (\<lambda>h. restore_replica env h s) unknown)), s))"

definition prepare_restore :: "('pk, 'sk) node_env \<Rightarrow> const_data_buffer list \<Rightarrow> node_state \<Rightarrow>
    (const_data_buffer \<times> bool) list \<times> final_task list" where
  "prepare_restore env hashes s =
     (let rs = map (\<lambda>h. (h, prepare_restore_replica env h s)) hashes
      in (fold (\<lambda>(h, r, _). map_put h r) rs [], concat (map (snd \<circ> snd) rs)))"

text \<open>The loop of \<open>restore\<close>: the rounds give the time since the start, in seconds, and what happens to the
  node while the loop sleeps. An object without bytes looks like one that is not there.\<close>

fun restore_loop :: "('pk, 'sk) node_env \<Rightarrow> const_data_buffer list \<Rightarrow> (int \<times> (node_state \<Rightarrow> node_state)) list \<Rightarrow>
    (const_data_buffer, node_state) step" where
  "restore_loop env hashes [] s = (Inl Not_terminating, s)"
| "restore_loop env hashes ((elapsed, event) # rounds) s =
     bind_step (node_transaction (restore_async env True hashes)) (\<lambda>(result, _, _) s.
       case result of
         Some d \<Rightarrow>
           if 0 < buffer_size d then (Inr d, s)
           else if 60 < elapsed then (Inl (Runtime_error ''not_found''), s)
           else restore_loop env hashes rounds (event s)
       | None \<Rightarrow>
           if 60 < elapsed then (Inl (Runtime_error ''not_found''), s)
           else restore_loop env hashes rounds (event s)) s"

section \<open>Reading and deleting\<close>

definition read_data :: "('pk, 'sk) node_env \<Rightarrow> const_data_buffer \<Rightarrow> cstring \<Rightarrow> (const_data_buffer, node_state) step" where
  "read_data env data_hash data_path =
     bind_step (file_read_all data_path) (\<lambda>data.
     bind_step (lift_step (hash_signature (env_crypto (node_log env)) data)) (\<lambda>fact.
       if data_hash \<noteq> fact then fail_step (Runtime_error ''Data is corrupted'') else return_step data))"

definition delete_data :: "const_data_buffer \<Rightarrow> cstring \<Rightarrow> (unit, node_state) step" where
  "delete_data replica_hash data_path = file_delete data_path"

end
