(* ===== verification/Replica_storage_properties.thy ===== *)
theory Replica_storage_properties
  imports Replica_storage Base64_properties
begin

text \<open>
  The replicas of a node: their files are where the tables say, hold what their names say and fit into
  the space set aside; an object whose replicas were stored is put together again.
\<close>

section \<open>Paths\<close>

lemma sextet_chars: "c \<in> set (map lookup_char (sextets t)) \<Longrightarrow> base64_value c \<noteq> None"
  unfolding sextets_take by (auto simp: value_sextet)

lemma base64_chars: "c \<in> set (base64_from_bytes d) \<Longrightarrow> base64_value c \<noteq> None \<or> c = pad_character"
proof (induction d rule: base64_from_bytes.induct)
  case (1 a b c' data)
  then have "c \<in> set (map lookup_char (sextets (joined a b c'))) \<or> c \<in> set (base64_from_bytes data)"
    unfolding base64_from_bytes_joined set_append by blast
  with 1 sextet_chars show ?case by blast
next
  case (2 a b)
  then have "c \<in> set (map lookup_char (sextets (joined a b 0))) \<or> c = pad_character"
    unfolding base64_from_bytes_joined set_append by (auto dest: in_set_takeD simp del: list.map)
  with sextet_chars show ?case by blast
next
  case (3 a)
  then have "c \<in> set (map lookup_char (sextets (joined a 0 0))) \<or> c = pad_character"
    unfolding base64_from_bytes_joined set_append by (auto dest: in_set_takeD simp del: list.map)
  with sextet_chars show ?case by blast
qed simp

lemma append_path_inj:
  assumes "append_path h = append_path h'"
  shows "h = h'"
proof -
  let ?f = "\<lambda>c. if (if c = 0x2B then 0x23 else c) = slash then 0x5F else if c = 0x2B then 0x23 else (c :: byte)"
  have ap: "append_path h = map ?f (base64_from_bytes (buffer_data h))" for h
    by (auto simp: append_path_def str_replace_def)
  have "base64_value (0x23 :: byte) = None" "base64_value (0x5F :: byte) = None" by code_simp+
  then have plain: "c \<noteq> 0x23 \<and> c \<noteq> 0x5F" if "base64_value c \<noteq> None \<or> c = pad_character" for c
    using that by auto
  have "inj_on ?f {c. base64_value c \<noteq> None \<or> c = pad_character}"
  proof (rule inj_onI)
    fix x y
    assume "x \<in> {c. base64_value c \<noteq> None \<or> c = pad_character}" "y \<in> {c. base64_value c \<noteq> None \<or> c = pad_character}"
    then have "x \<noteq> 0x23 \<and> x \<noteq> 0x5F" "y \<noteq> 0x23 \<and> y \<noteq> 0x5F" using plain by blast+
    moreover assume "?f x = ?f y"
    ultimately show "x = y" by (simp split: if_splits)
  qed
  then have "inj_on ?f (set (base64_from_bytes (buffer_data h)) \<union> set (base64_from_bytes (buffer_data h')))"
    by (rule inj_on_subset) (use base64_chars in blast)
  with assms have "base64_from_bytes (buffer_data h) = base64_from_bytes (buffer_data h')"
    unfolding ap by (rule map_inj_on)
  then have "(Inr (Data_buffer (buffer_data h)) :: const_data_buffer expected) = Inr (Data_buffer (buffer_data h'))"
    by (metis base64_to_from_bytes)
  then show ?thesis by (simp add: const_data_buffer.expand)
qed

lemma append_path_length: "buffer_size h = 32 \<Longrightarrow> length (append_path h) = 44"
  by (simp add: append_path_def str_replace_def base64_length)

definition path_of :: "const_data_buffer \<Rightarrow> cstring" where
  "path_of h = join_path (take 10 (append_path h)) (join_path (take 10 (drop 10 (append_path h))) (drop 20 (append_path h)))"

lemma replica_path_ok: "buffer_size h = 32 \<Longrightarrow> replica_path h = Inr (path_of h)"
  by (simp add: replica_path_def path_of_def append_path_length Let_def)

lemma path_of_length: "buffer_size h = 32 \<Longrightarrow> length (path_of h) = 46"
  by (simp add: path_of_def join_path_def append_path_length)

lemma path_of_inj:
  assumes "buffer_size h = 32" "buffer_size h' = 32" "path_of h = path_of h'"
  shows "h = h'"
proof -
  have "take 10 (append_path h) = take 10 (append_path h')
      \<and> take 10 (drop 10 (append_path h)) = take 10 (drop 10 (append_path h'))
      \<and> drop 20 (append_path h) = drop 20 (append_path h')"
    using assms(3) append_path_length [OF assms(1)] append_path_length [OF assms(2)]
    by (simp add: path_of_def join_path_def)
  then have "take 10 (append_path h) @ take 10 (drop 10 (append_path h)) @ drop 10 (drop 10 (append_path h))
      = take 10 (append_path h') @ take 10 (drop 10 (append_path h')) @ drop 10 (drop 10 (append_path h'))"
    by simp
  then have "append_path h = append_path h'" by (simp only: append_take_drop_id)
  then show ?thesis by (rule append_path_inj)
qed

text \<open>The last 46 characters name the replica, whatever the folder.\<close>

lemma join_path_of_inj:
  assumes "buffer_size h = 32" "buffer_size h' = 32" "join_path lp (path_of h) = join_path lp' (path_of h')"
  shows "h = h' \<and> lp = lp'"
proof -
  have "length (path_of h) = length (path_of h')" using assms by (simp add: path_of_length)
  with assms(3) have "path_of h = path_of h'" "lp = lp'" by (simp_all add: join_path_def)
  with path_of_inj [OF assms(1,2)] show ?thesis by simp
qed

section \<open>The invariant\<close>

abbreviation hash_of :: "('pk, 'sk) node_env \<Rightarrow> const_data_buffer \<Rightarrow> const_data_buffer expected" where
  "hash_of env \<equiv> hash_signature (env_crypto (node_log env))"

text \<open>What is relied on of SHA-256 here: it does not fail and its results have 32 bytes.\<close>

definition sha256 :: "('pk, 'sk) node_env \<Rightarrow> bool" where
  "sha256 env \<longleftrightarrow> (\<forall>d. \<exists>h. hash_of env d = Inr h \<and> buffer_size h = 32)"

definition stored_at :: "('pk, 'sk) node_env \<Rightarrow> node_state \<Rightarrow> const_data_buffer \<Rightarrow> local_data \<Rightarrow> bool" where
  "stored_at env s h ld \<longleftrightarrow> buffer_size h = 32 \<and> ld_storage_path ld = path_of h
     \<and> (\<exists>st d. table_select (node_storages s) (ld_storage_id ld) = Some st
          \<and> node_files s (join_path (st_local_path st) (path_of h)) = Some d
          \<and> hash_of env d = Inr h \<and> buffer_size d = ld_replica_size ld)"

definition replicas_ok :: "('pk, 'sk) node_env \<Rightarrow> node_state \<Rightarrow> bool" where
  "replicas_ok env s \<longleftrightarrow> table_ok (node_storages s) \<and> (\<forall>(_, st) \<in> set (node_storages s). st_local_path st \<noteq> [])
     \<and> (\<forall>((h, _), ld) \<in> set (local_datas s). stored_at env s h ld)"

definition storage_ok :: "('pk, 'sk) node_env \<Rightarrow> node_state \<Rightarrow> bool" where
  "storage_ok env s \<longleftrightarrow> replicas_ok env s
     \<and> (\<forall>(sid, st) \<in> set (node_storages s). used_size sid s \<le> max 0 (st_reserved_size st))"

lemma storage_ok_replicas: "storage_ok env s \<Longrightarrow> replicas_ok env s"
  by (simp add: storage_ok_def)

text \<open>No storage got more than it has room for; one that held more before may go on doing so.\<close>

definition room_kept :: "node_state \<Rightarrow> node_state \<Rightarrow> bool" where
  "room_kept s s' \<longleftrightarrow> (\<forall>sid. used_size sid s' \<le> used_size sid s
     \<or> (\<exists>st. table_select (node_storages s') sid = Some st \<and> used_size sid s' \<le> st_reserved_size st))"

lemma room_kept_refl [simp]: "room_kept s s"
  by (simp add: room_kept_def)

lemma room_kept_same: "local_datas s' = local_datas s \<Longrightarrow> room_kept s s'"
  by (simp add: room_kept_def used_size_def)

lemma room_keptD:
  assumes "room_kept s s'" "table_ok (node_storages s')" "(sid, st) \<in> set (node_storages s')"
  shows "used_size sid s' \<le> max (used_size sid s) (st_reserved_size st)"
proof -
  have "table_select (node_storages s') sid = Some st" using assms(2,3) by (simp add: table_ok_def)
  with assms(1) show ?thesis unfolding room_kept_def by (metis le_max_iff_disj option.inject)
qed

lemma used_size_insert:
  "used_size sid (s\<lparr>local_datas := local_datas s @ [(k, ld)]\<rparr>)
     = used_size sid s + (if ld_storage_id ld = sid then int (ld_replica_size ld) else 0)"
  by (simp add: used_size_def)

lemma used_size_frame [simp]: "used_size sid (s\<lparr>node_files := f\<rparr>) = used_size sid s"
  by (simp add: used_size_def)

lemma best_storage_spec:
  "best_storage s sts (a, p, i) = (a', p', i') \<Longrightarrow>
     a \<le> a' \<and> (\<forall>(sid, st) \<in> set sts. st_reserved_size st - used_size sid s \<le> max 0 a')
     \<and> ((a', p', i') = (a, p, i) \<or> (\<exists>st. (i', st) \<in> set sts \<and> p' = st_local_path st \<and> a' = st_reserved_size st - used_size i' s))"
proof (induction sts arbitrary: a p i)
  case (Cons x sts)
  obtain sid st where x: "x = (sid, st)" by (cases x)
  show ?case
  proof (cases "st_reserved_size st > used_size sid s \<and> a < st_reserved_size st - used_size sid s")
    case True
    with Cons.prems have "best_storage s sts (st_reserved_size st - used_size sid s, st_local_path st, sid) = (a', p', i')"
      by (simp add: x Let_def)
    from Cons.IH [OF this] True show ?thesis by (auto simp: x)
  next
    case False
    with Cons.prems have "best_storage s sts (a, p, i) = (a', p', i')" by (simp add: x Let_def)
    from Cons.IH [OF this] False show ?thesis by (auto simp: x)
  qed
qed auto

lemma choose_storage_Inr:
  assumes "choose_storage owner sz s = Inr (path, sid)"
  obtains st where "(sid, st) \<in> set (node_storages s)" "usable_storage owner st" "path = st_local_path st"
    "used_size sid s + int sz \<le> st_reserved_size st" "path \<noteq> []"
proof -
  obtain a p i where b: "best_storage s (filter (\<lambda>(_, st). usable_storage owner st) (node_storages s)) (0, [], Data_buffer []) = (a, p, i)"
    by (metis prod_cases3)
  from assms b have "p = path" "i = sid" "path \<noteq> []" "int sz \<le> a"
    by (auto simp: choose_storage_def Let_def split: if_splits)
  with best_storage_spec [OF b] show thesis by (auto intro: that)
qed

lemma choose_storage_ok:
  assumes "storage_ok env s" "(sid, st) \<in> set (node_storages s)" "usable_storage owner st"
    and room: "used_size sid s + int sz \<le> st_reserved_size st" and "0 < sz"
  shows "\<exists>path sid'. choose_storage owner sz s = Inr (path, sid')"
proof -
  obtain a p i where b: "best_storage s (filter (\<lambda>(_, st). usable_storage owner st) (node_storages s)) (0, [], Data_buffer []) = (a, p, i)"
    by (metis prod_cases3)
  from best_storage_spec [OF b] assms have "int sz \<le> a"
    by force
  moreover from this best_storage_spec [OF b] assms(1) \<open>0 < sz\<close> have "p \<noteq> []"
    by (auto simp: storage_ok_def replicas_ok_def)
  ultimately show ?thesis using b by (auto simp: choose_storage_def Let_def)
qed

section \<open>A node with one storage\<close>

text \<open>A stand-in for SHA-256 that tells the four-byte replicas of a small object from each other and from all
  else.\<close>

definition padded_hash :: "const_data_buffer \<Rightarrow> const_data_buffer" where
  "padded_hash d = Data_buffer (if buffer_size d = 4 then 1 # buffer_data d @ replicate 27 0 else replicate 32 0)"

definition one_storage_env :: "(const_data_buffer, unit) node_env" where
  "one_storage_env = \<lparr>node_log = \<lparr>env_crypto = \<lparr>hash_signature = Inr \<circ> padded_hash, key_der = Inr, key_parse_der = Inr,
       key_fingerprint = Inr, sign_verify = \<lambda>_ _ _. Inr True, sign_data = \<lambda>_ _. Inr (Data_buffer [7])\<rparr>,
       env_node_id = Data_buffer [4], env_now = 5\<rparr>,
     root_folder = [0x72], can_write = \<lambda>_. True, failed_write = \<lambda>_. None, math_memory = \<lambda>_. 0,
     restore_memory = \<lparr>left = \<lambda>_. 0, multipliers = \<lambda>_. 0\<rparr>\<rparr>"

definition share_storage :: node_storage where
  "share_storage = \<lparr>st_local_path = [0x64], st_owner_id = Data_buffer [4], st_reserved_size = 1000, st_usage_type = Share\<rparr>"

definition one_storage_state :: node_state where
  "one_storage_state = \<lparr>log_database = empty_database, node_storages = [(Data_buffer [1], share_storage)],
     local_datas = [], tmp_datas = [], well_known_nodes = [], config_keys = [],
     node_files = [join_path (tmp_folder one_storage_env) (append_path (padded_hash (Data_buffer [1, 2])))
       \<mapsto> Data_buffer [1, 2]]\<rparr>"

lemma one_storage_ok: "storage_ok one_storage_env one_storage_state" "sha256 one_storage_env"
  "hash_of one_storage_env d = Inr (padded_hash d)"
  by (simp_all add: storage_ok_def replicas_ok_def one_storage_state_def share_storage_def table_ok_def used_size_def sha256_def
      one_storage_env_def padded_hash_def)

section \<open>What is stored\<close>

lemma in_replica_places:
  "(lp, sp) \<in> set (replica_places h s) \<longleftrightarrow>
    (\<exists>owner ld st. ((h, owner), ld) \<in> set (local_datas s) \<and> (ld_storage_id ld, st) \<in> set (node_storages s)
       \<and> lp = st_local_path st \<and> sp = ld_storage_path ld)"
  unfolding replica_places_def by (force split: if_splits)

lemma replica_place_file:
  assumes ok: "replicas_ok env s" and place: "(lp, sp) \<in> set (replica_places h s)"
  shows "\<exists>d. node_files s (join_path lp sp) = Some d \<and> hash_of env d = Inr h"
proof -
  from place obtain owner ld st where row: "((h, owner), ld) \<in> set (local_datas s)"
    and st: "(ld_storage_id ld, st) \<in> set (node_storages s)" "lp = st_local_path st" "sp = ld_storage_path ld"
    unfolding in_replica_places by blast
  from row ok have "stored_at env s h ld" by (auto simp: replicas_ok_def)
  moreover have "table_select (node_storages s) (ld_storage_id ld) = Some st"
    using ok st(1) by (simp add: replicas_ok_def table_ok_def)
  ultimately show ?thesis using st by (auto simp: stored_at_def)
qed

lemma replica_places_row:
  assumes ok: "replicas_ok env s"
  shows "replica_places h s = [] \<longleftrightarrow> (\<forall>owner. (h, owner) \<notin> table_keys (local_datas s))"
proof
  assume none: "replica_places h s = []"
  show "\<forall>owner. (h, owner) \<notin> table_keys (local_datas s)"
  proof (rule allI, rule notI)
    fix owner assume "(h, owner) \<in> table_keys (local_datas s)"
    then obtain ld where row: "((h, owner), ld) \<in> set (local_datas s)" by force
    with ok obtain st where "table_select (node_storages s) (ld_storage_id ld) = Some st"
      by (auto simp: replicas_ok_def stored_at_def)
    with row have "(st_local_path st, ld_storage_path ld) \<in> set (replica_places h s)"
      unfolding in_replica_places by (auto dest: map_of_SomeD)
    with none show False by simp
  qed
next
  assume no: "\<forall>owner. (h, owner) \<notin> table_keys (local_datas s)"
  have "x \<notin> set (replica_places h s)" for x
  proof (cases x)
    case (Pair lp sp)
    show ?thesis unfolding Pair in_replica_places
    proof (rule notI)
      assume "\<exists>owner ld st. ((h, owner), ld) \<in> set (local_datas s) \<and> (ld_storage_id ld, st) \<in> set (node_storages s)
         \<and> lp = st_local_path st \<and> sp = ld_storage_path ld"
      then obtain owner ld where "((h, owner), ld) \<in> set (local_datas s)" by blast
      then have "(h, owner) \<in> table_keys (local_datas s)" by (rule in_table_keys)
      with no show False by blast
    qed
  qed
  then show "replica_places h s = []" by (metis ex_in_conv set_empty)
qed

text \<open>Storages and replicas are only ever added.\<close>

definition keeps_rows :: "node_state \<Rightarrow> node_state \<Rightarrow> bool" where
  "keeps_rows s s' \<longleftrightarrow> (\<exists>sts. node_storages s' = node_storages s @ sts) \<and> (\<exists>rows. local_datas s' = local_datas s @ rows)"

lemma keeps_rows_refl [simp]: "keeps_rows s s"
  by (simp add: keeps_rows_def)

lemma keeps_rows_trans: "keeps_rows s t \<Longrightarrow> keeps_rows t u \<Longrightarrow> keeps_rows s u"
  by (auto simp: keeps_rows_def)

lemma room_kept_trans:
  assumes "room_kept s t" "room_kept t u" "keeps_rows t u"
  shows "room_kept s u"
  unfolding room_kept_def
proof
  fix sid
  have kept: "table_select (node_storages u) sid = Some st" if "table_select (node_storages t) sid = Some st" for st
    using assms(3) that by (auto simp: keeps_rows_def map_add_def)
  consider "used_size sid u \<le> used_size sid t"
    | st where "table_select (node_storages u) sid = Some st" "used_size sid u \<le> st_reserved_size st"
    using assms(2) unfolding room_kept_def by metis
  then show "used_size sid u \<le> used_size sid s
     \<or> (\<exists>st. table_select (node_storages u) sid = Some st \<and> used_size sid u \<le> st_reserved_size st)"
  proof cases
    case 1
    with assms(1) kept show ?thesis unfolding room_kept_def by (metis order_trans)
  next
    case 2
    then show ?thesis by blast
  qed
qed

lemma keeps_rows_places:
  assumes "keeps_rows s s'" "replica_places h s \<noteq> []"
  shows "replica_places h s' \<noteq> []"
proof -
  obtain lp sp where "(lp, sp) \<in> set (replica_places h s)"
    using assms(2) by (metis list.set_intros(1) neq_Nil_conv surj_pair)
  with assms(1) have "(lp, sp) \<in> set (replica_places h s')"
    unfolding in_replica_places keeps_rows_def by (metis Un_iff set_append)
  then show ?thesis by auto
qed

section \<open>Storing a replica\<close>

definition new_row :: "('pk, 'sk) node_env \<Rightarrow> const_data_buffer \<Rightarrow> const_data_buffer \<Rightarrow> nat \<Rightarrow> local_data" where
  "new_row env sid h sz = \<lparr>ld_storage_id = sid, ld_replica_size = sz, ld_storage_path = path_of h,
     ld_last_access = env_now (node_log env)\<rparr>"

text \<open>Putting a file in its place: when that fails, no other file has changed.\<close>

definition puts :: "(cstring \<Rightarrow> (unit, node_state) step) \<Rightarrow> node_state \<Rightarrow> (cstring \<Rightarrow> file_system) \<Rightarrow> bool" where
  "puts put s g \<longleftrightarrow> (\<forall>fn r u. put fn s = (r, u) \<longrightarrow>
     (\<exists>e f. r = Inl e \<and> u = s\<lparr>node_files := f\<rparr> \<and> (\<forall>x. x \<noteq> fn \<longrightarrow> f x = node_files s x))
     \<or> r = Inr () \<and> u = s\<lparr>node_files := g fn\<rparr>)"

lemma write_puts: "puts (\<lambda>fn. file_write_all env fn d) s (\<lambda>fn. (node_files s)(fn \<mapsto> d))"
proof -
  have "\<exists>f. s = s\<lparr>node_files := f\<rparr> \<and> (\<forall>x. x \<noteq> fn \<longrightarrow> f x = node_files s x)" for fn
    by (rule exI [of _ "node_files s"]) simp
  then show ?thesis by (auto simp: puts_def file_write_all_def split: if_splits option.splits)
qed

lemma move_puts:
  assumes "node_files s source = Some d"
  shows "puts (file_move env source) s (\<lambda>fn. ((node_files s)(source := None))(fn \<mapsto> d))"
proof -
  have "\<exists>f. s = s\<lparr>node_files := f\<rparr> \<and> (\<forall>x. x \<noteq> fn \<longrightarrow> f x = node_files s x)" for fn
    by (rule exI [of _ "node_files s"]) simp
  with assms show ?thesis by (auto simp: puts_def file_move_def split: if_splits)
qed

text \<open>It fails and has changed at most the file of this replica in one of the storages, or it puts the file in
  place and inserts the row.\<close>

lemma store_replica_cases:
  assumes run: "store_replica env put h sz owner s = (r, s')" and h: "buffer_size h = 32"
    and new: "\<forall>owner. (h, owner) \<notin> table_keys (local_datas s)"
    and put: "puts put s g"
  obtains e lp f where "r = Inl e" "s' = s\<lparr>node_files := f\<rparr>" "\<forall>x. x \<noteq> join_path lp (path_of h) \<longrightarrow> f x = node_files s x"
  | sid st where "(sid, st) \<in> set (node_storages s)" "used_size sid s + int sz \<le> st_reserved_size st"
      "r = Inr (join_path (st_local_path st) (path_of h))"
      "s' = s\<lparr>node_files := g (join_path (st_local_path st) (path_of h)),
              local_datas := local_datas s @ [((h, owner), new_row env sid h sz)]\<rparr>"
proof (cases "choose_storage owner sz s")
  case (Inl e)
  with run have "r = Inl e" "s' = s\<lparr>node_files := node_files s\<rparr>"
    by (simp_all add: store_replica_def bind_step_def lift_step_def)
  with that(1) show thesis by blast
next
  case (Inr x)
  obtain path sid where x: "x = (path, sid)" by (cases x)
  from choose_storage_Inr [OF Inr [unfolded x]] obtain st where st: "(sid, st) \<in> set (node_storages s)"
    "path = st_local_path st" "used_size sid s + int sz \<le> st_reserved_size st" by metis
  obtain r1 u where p: "put (join_path path (path_of h)) s = (r1, u)" by (metis surj_pair)
  from put [unfolded puts_def, rule_format, OF p] show thesis
  proof (elim disjE conjE exE)
    fix e f assume "r1 = Inl e" "u = s\<lparr>node_files := f\<rparr>"
      "\<forall>x. x \<noteq> join_path path (path_of h) \<longrightarrow> f x = node_files s x"
    moreover from this run Inr p have "r = Inl e" "s' = u"
      by (simp_all add: store_replica_def bind_step_def lift_step_def x replica_path_ok [OF h])
    ultimately show thesis using that(1) by blast
  next
    assume "r1 = Inr ()" "u = s\<lparr>node_files := g (join_path path (path_of h))\<rparr>"
    with run Inr p new have "r = Inr (join_path path (path_of h))"
      "s' = s\<lparr>node_files := g (join_path path (path_of h)),
              local_datas := local_datas s @ [((h, owner), new_row env sid h sz)]\<rparr>"
      by (auto simp: store_replica_def bind_step_def lift_step_def return_step_def x replica_path_ok [OF h]
          insert_local_data_def table_insert_def new_row_def)
    with st that(2) show thesis by simp
  qed
qed

lemma stored_at_frame:
  assumes "stored_at env s h ld" "node_storages s' = node_storages s"
    and "\<And>lp. node_files s' (join_path lp (path_of h)) = node_files s (join_path lp (path_of h))"
  shows "stored_at env s' h ld"
  using assms by (auto simp: stored_at_def)

text \<open>What storing keeps: the replicas stay in order, no row is lost, no storage is overfilled.\<close>

definition stores :: "('pk, 'sk) node_env \<Rightarrow> node_state \<Rightarrow> node_state \<Rightarrow> bool" where
  "stores env s s' \<longleftrightarrow> replicas_ok env s' \<and> keeps_rows s s' \<and> node_storages s' = node_storages s \<and> room_kept s s'"

lemma stores_refl [simp]: "stores env s s \<longleftrightarrow> replicas_ok env s"
  by (simp add: stores_def)

lemma stores_trans: "stores env s t \<Longrightarrow> stores env t u \<Longrightarrow> stores env s u"
  unfolding stores_def using keeps_rows_trans room_kept_trans by metis

lemma stores_storage_ok:
  assumes "storage_ok env s" "stores env s s'"
  shows "storage_ok env s'"
proof -
  have "used_size sid s' \<le> max 0 (st_reserved_size st)" if "(sid, st) \<in> set (node_storages s')" for sid st
    using assms that room_keptD [of s s' sid st] by (fastforce simp: stores_def storage_ok_def replicas_ok_def)
  with assms(2) show ?thesis by (auto simp: storage_ok_def stores_def)
qed

lemma replicas_ok_same:
  assumes "replicas_ok env s" "node_storages s' = node_storages s" "local_datas s' = local_datas s"
    and "\<And>lp h o' ld. ((h, o'), ld) \<in> set (local_datas s) \<Longrightarrow> buffer_size h = 32 \<Longrightarrow>
      node_files s' (join_path lp (path_of h)) = node_files s (join_path lp (path_of h))"
  shows "replicas_ok env s'"
  using assms unfolding replicas_ok_def stored_at_def by (auto; metis)

lemma store_replica_ok:
  assumes ok: "replicas_ok env s" and run: "store_replica env put h sz owner s = (r, s')"
    and h: "buffer_size h = 32" and new: "\<forall>owner. (h, owner) \<notin> table_keys (local_datas s)"
    and put: "puts put s g"
    and g: "\<And>fn. g fn fn = Some d" "hash_of env d = Inr h" "buffer_size d = sz"
    and others: "\<And>lp lp' h'. buffer_size h' = 32 \<Longrightarrow> h' \<noteq> h \<Longrightarrow>
      g (join_path lp (path_of h)) (join_path lp' (path_of h')) = node_files s (join_path lp' (path_of h'))"
  shows "stores env s s' \<and> (r = Inr fn \<longrightarrow> replica_places h s' \<noteq> [])"
  using run h new put
proof (cases rule: store_replica_cases [where g = g])
  case (1 e lp f)
  have "replicas_ok env s'"
  proof (rule replicas_ok_same [OF ok])
    fix lp' h' o' ld
    assume row: "((h', o'), ld) \<in> set (local_datas s)" and size: "buffer_size h' = 32"
    from row new in_table_keys have "h' \<noteq> h" by metis
    then have "join_path lp' (path_of h') \<noteq> join_path lp (path_of h)" using join_path_of_inj [OF size h] by blast
    with 1 show "node_files s' (join_path lp' (path_of h')) = node_files s (join_path lp' (path_of h'))" by simp
  qed (simp_all add: 1)
  then show ?thesis by (simp add: 1 stores_def keeps_rows_def room_kept_same)
next
  case (2 sid st)
  have ext: "keeps_rows s s'" by (simp add: 2 keeps_rows_def)
  have used: "used_size i s' = used_size i s + (if sid = i then int sz else 0)" for i
    using used_size_insert [of i "s\<lparr>node_files := g (join_path (st_local_path st) (path_of h))\<rparr>"]
    by (simp add: 2(4) new_row_def)
  have sel: "table_select (node_storages s) sid = Some st"
    using ok 2(1) by (simp add: replicas_ok_def table_ok_def)
  have "stored_at env s' h' ld" if row: "((h', o'), ld) \<in> set (local_datas s')" for h' o' ld
  proof (cases "h' = h")
    case True
    with row new in_table_keys have "ld = new_row env sid h sz" by (force simp: 2(4))
    with True h sel g show ?thesis by (auto simp: stored_at_def new_row_def 2(4))
  next
    case False
    with row have "((h', o'), ld) \<in> set (local_datas s)" by (simp add: 2(4))
    with ok have "stored_at env s h' ld" by (auto simp: replicas_ok_def)
    then show ?thesis
      by (rule stored_at_frame) (use False others \<open>stored_at env s h' ld\<close> in \<open>auto simp: 2(4) stored_at_def\<close>)
  qed
  then have "replicas_ok env s'" using ok by (auto simp: replicas_ok_def 2(4))
  moreover have "room_kept s s'" unfolding room_kept_def used using sel 2(2) by (auto simp: 2(4))
  moreover have "(st_local_path st, path_of h) \<in> set (replica_places h s')"
    unfolding in_replica_places using 2(1) by (auto simp: 2(4) new_row_def intro!: exI)
  ultimately show ?thesis using ext by (auto simp: stores_def 2(4))
qed

lemma store_written_ok:
  assumes "replicas_ok env s" "store_replica env (\<lambda>fn. file_write_all env fn d) h (buffer_size d) owner s = (r, s')"
    and h: "hash_of env d = Inr h" "buffer_size h = 32" and new: "replica_places h s = []"
  shows "stores env s s' \<and> (r = Inr fn \<longrightarrow> replica_places h s' \<noteq> [])"
proof (rule store_replica_ok [where g = "\<lambda>fn. (node_files s)(fn \<mapsto> d)" and d = d])
  show "\<forall>owner. (h, owner) \<notin> table_keys (local_datas s)"
    using new replica_places_row [OF assms(1)] by blast
  show "((node_files s)(join_path lp (path_of h) \<mapsto> d)) (join_path lp' (path_of h')) = node_files s (join_path lp' (path_of h'))"
    if "buffer_size h' = 32" "h' \<noteq> h" for lp lp' h'
    using join_path_of_inj [OF that(1) h(2)] that(2) by auto
qed (use assms write_puts in simp_all)

section \<open>The operations keep the storage in order\<close>

lemma save_received_ok:
  assumes ok: "replicas_ok env s" and h: "hash_of env d = Inr h" "buffer_size h = 32"
    and run: "save_received env h d owner s = (r, s')"
  shows "stores env s s'"
proof -
  have "stores env s u"
    if "(case replica_places h s of
        (local_path, storage_path) # _ \<Rightarrow> (Inr (join_path storage_path local_path), s)
      | [] \<Rightarrow> store_replica env (\<lambda>fn. file_write_all env fn d) h (buffer_size d) owner s) = (r, u)" for r u
    using that store_written_ok [OF ok _ h] ok by (auto split: list.splits)
  with run ok show ?thesis
    unfolding save_received_def assert_step_def fail_step_def by (auto split: list.splits if_splits)
qed

lemma save_replica_ok:
  assumes ok: "replicas_ok env s" and sha: "sha256 env" and run: "save_replica env data owner i s = (r, s')"
  shows "stores env s s'
    \<and> (r = Inr () \<longrightarrow> (\<exists>d h. write_replica env i data = Inr d \<and> hash_of env d = Inr h \<and> replica_places h s' \<noteq> []))"
proof (cases "write_replica env i data")
  case (Inl e)
  with run ok show ?thesis by (auto simp: save_replica_def bind_step_def lift_step_def)
next
  case (Inr d)
  from sha obtain h where h: "hash_of env d = Inr h" "buffer_size h = 32" unfolding sha256_def by blast
  show ?thesis
  proof (cases "replica_places h s = []")
    case False
    with run ok Inr h show ?thesis by (auto simp: save_replica_def bind_step_def lift_step_def)
  next
    case True
    obtain r1 u where p: "store_replica env (\<lambda>fn. file_write_all env fn d) h (buffer_size d) owner s = (r1, u)"
      by (metis surj_pair)
    with run Inr h True have "s' = u" "r = Inr () \<longrightarrow> (\<exists>fn. r1 = Inr fn)"
      by (auto simp: save_replica_def bind_step_def lift_step_def return_step_def split: sum.splits)
    with store_written_ok [OF ok p h True] Inr h(1) show ?thesis by blast
  qed
qed

lemma save_replicas_ok:
  "replicas_ok env s \<Longrightarrow> sha256 env \<Longrightarrow> for_step is (save_replica env data owner) s = (r, s') \<Longrightarrow>
     stores env s s'
     \<and> (r = Inr () \<longrightarrow> (\<forall>i \<in> set is. \<exists>d h. write_replica env i data = Inr d \<and> hash_of env d = Inr h \<and> replica_places h s' \<noteq> []))"
proof (induction "is" arbitrary: s)
  case (Cons i "is")
  obtain r1 u where p: "save_replica env data owner i s = (r1, u)" by (metis surj_pair)
  note first = save_replica_ok [OF Cons.prems(1,2) p]
  show ?case
  proof (cases r1)
    case (Inl e)
    with Cons.prems(3) p first show ?thesis by (auto simp: bind_step_def)
  next
    case (Inr x)
    with Cons.prems(3) p have rest: "for_step is (save_replica env data owner) u = (r, s')" by (simp add: bind_step_def)
    from first have "replicas_ok env u" by (simp add: stores_def)
    note ih = Cons.IH [OF this Cons.prems(2) rest]
    have "r1 = Inr ()" using Inr by simp
    with first obtain d h where "write_replica env i data = Inr d" "hash_of env d = Inr h" "replica_places h u \<noteq> []"
      by blast
    moreover from this ih have "replica_places h s' \<noteq> []" using keeps_rows_places stores_def by blast
    ultimately have "\<exists>d h. write_replica env i data = Inr d \<and> hash_of env d = Inr h \<and> replica_places h s' \<noteq> []"
      by blast
    with ih first stores_trans show ?thesis by (simp only: list.set ball_simps) blast
  qed
qed auto

text \<open>The files of the temporary folder are not those of the storages.\<close>

lemma tmp_not_replica:
  assumes "buffer_size h = 32" "buffer_size h' = 32"
  shows "join_path (tmp_folder env) (append_path h) \<noteq> join_path lp (path_of h')"
proof
  assume eq: "join_path (tmp_folder env) (append_path h) = join_path lp (path_of h')"
  let ?d = "drop 20 (append_path h')"
  have l: "length ?d = 24" using append_path_length [OF assms(2)] by simp
  obtain pre where pre: "join_path lp (path_of h') = pre @ slash # ?d" by (simp add: path_of_def join_path_def)
  define a b where "a = take 19 (append_path h)" and "b = drop 19 (append_path h)"
  then have ab: "append_path h = a @ b" "length b = 25"
    using append_path_length [OF assms(1)] by simp_all
  from eq have "(tmp_folder env @ slash # a) @ b = pre @ slash # ?d"
    unfolding pre by (simp add: join_path_def ab(1))
  moreover have "length b = length (slash # ?d)" using ab(2) l by simp
  ultimately have "b = slash # ?d"
    using append_eq_append_conv [of "tmp_folder env @ slash # a" pre b "slash # ?d"] by blast
  then have "slash \<in> set (append_path h)" by (simp add: ab(1))
  moreover have "slash \<notin> set (append_path h)" by (auto simp: append_path_def str_replace_def)
  ultimately show False by blast
qed

lemma save_file_ok:
  assumes ok: "replicas_ok env s" and h: "hash_of env d = Inr h" "buffer_size h = 32"
    and tmp: "node_files s fn = Some d" "fn = join_path (tmp_folder env) (append_path h)"
    and run: "save_file env h fn owner s = (r, s')"
  shows "stores env s s'"
proof (cases "replica_places h s = []")
  case False
  with run ok show ?thesis by (auto simp: save_file_def split: list.splits)
next
  case True
  with run tmp(1) have run: "store_replica env (file_move env fn) h (buffer_size d) owner s = (r, s')"
    by (simp add: save_file_def)
  have "stores env s s' \<and> (r = Inr fn \<longrightarrow> replica_places h s' \<noteq> [])"
    using ok run h(2)
  proof (rule store_replica_ok [where g = "\<lambda>t. ((node_files s)(fn := None))(t \<mapsto> d)" and d = d])
    show "\<forall>owner. (h, owner) \<notin> table_keys (local_datas s)"
      using True replica_places_row [OF ok] by blast
    show "(((node_files s)(fn := None))(join_path lp (path_of h) \<mapsto> d)) (join_path lp' (path_of h'))
        = node_files s (join_path lp' (path_of h'))" if "buffer_size h' = 32" "h' \<noteq> h" for lp lp' h'
    proof -
      have "join_path lp' (path_of h') \<noteq> join_path lp (path_of h)" using join_path_of_inj [OF that(1) h(2)] that(2) by blast
      moreover have "join_path lp' (path_of h') \<noteq> fn" using tmp_not_replica [OF h(2) that(1)] tmp(2) by metis
      ultimately show ?thesis by simp
    qed
  qed (use h move_puts [OF tmp(1)] in simp_all)
  then show ?thesis by blast
qed

text \<open>A rollback of the tables.\<close>

lemma replicas_ok_files:
  assumes "replicas_ok env s1" "keeps_rows s s1" "replicas_ok env s"
  shows "replicas_ok env (s\<lparr>node_files := node_files s1\<rparr>)"
proof -
  have "stored_at env (s\<lparr>node_files := node_files s1\<rparr>) h ld" if row: "((h, o'), ld) \<in> set (local_datas s)" for h o' ld
  proof -
    from row assms(2) have "((h, o'), ld) \<in> set (local_datas s1)" by (auto simp: keeps_rows_def)
    with assms(1) have "stored_at env s1 h ld" by (auto simp: replicas_ok_def)
    moreover from row assms(3) have "stored_at env s h ld" by (auto simp: replicas_ok_def)
    ultimately show ?thesis using assms(2) by (auto simp: stored_at_def keeps_rows_def map_add_def)
  qed
  with assms(3) show ?thesis by (auto simp: replicas_ok_def)
qed

text \<open>C10: The replicas of a node stay in order, whatever is stored and whether or not it fails: every row has
  its file, under the name made of the hash, with the size of the row and with contents of that hash, and
  no storage holds more than its reserved size. It holds for replicas from the network, for those moved
  from the temporary folder and for the replicas of a whole object, also when the transaction around it
  takes back the tables but not the files.\<close>

theorem storage_stays_ok:
  assumes ok: "storage_ok env s" and sha: "sha256 env"
  shows "storage_ok env (snd (save_object env data owner s))
    \<and> storage_ok env (snd (node_transaction (save_object env data owner) s))
    \<and> (hash_of env d = Inr h \<longrightarrow> storage_ok env (snd (save_received env h d owner s)))
    \<and> (hash_of env d = Inr h \<and> node_files s (join_path (tmp_folder env) (append_path h)) = Some d \<longrightarrow>
        storage_ok env (snd (save_file env h (join_path (tmp_folder env) (append_path h)) owner s)))"
proof -
  obtain r1 s1 where run: "save_object env data owner s = (r1, s1)" by (metis surj_pair)
  note replicas = storage_ok_replicas [OF ok]
  have object: "stores env s s1" using save_replicas_ok [OF replicas sha run [unfolded save_object_def]] by blast
  have size: "buffer_size h = 32" if "hash_of env d = Inr h" using sha that unfolding sha256_def by (metis Inr_inject)
  have "replicas_ok env (s\<lparr>node_files := node_files s1\<rparr>)"
    using object replicas by (intro replicas_ok_files) (auto simp: stores_def)
  then have "storage_ok env (s\<lparr>node_files := node_files s1\<rparr>)" using ok by (simp add: storage_ok_def)
  moreover have saved: "storage_ok env s1" using stores_storage_ok [OF ok object] .
  ultimately have "storage_ok env (snd (node_transaction (save_object env data owner) s))"
    using run by (auto simp: node_transaction_def split: sum.splits)
  moreover have "storage_ok env (snd (save_received env h d owner s))" if "hash_of env d = Inr h"
    using stores_storage_ok [OF ok save_received_ok [OF replicas that size [OF that]]] by (metis prod.collapse)
  moreover have "storage_ok env (snd (save_file env h (join_path (tmp_folder env) (append_path h)) owner s))"
    if "hash_of env d = Inr h" "node_files s (join_path (tmp_folder env) (append_path h)) = Some d"
    using stores_storage_ok [OF ok save_file_ok [OF replicas that(1) size [OF that(1)] that(2) refl]] by (metis prod.collapse)
  ultimately show ?thesis using saved run by simp
qed

theorem storage_stays_ok_witness:
  "storage_ok one_storage_env (snd (save_object one_storage_env (Data_buffer [1, 2, 3]) (Data_buffer [4]) one_storage_state))
   \<and> storage_ok one_storage_env (snd (save_received one_storage_env (padded_hash (Data_buffer [1, 2])) (Data_buffer [1, 2])
       (Data_buffer [4]) one_storage_state))
   \<and> storage_ok one_storage_env (snd (save_file one_storage_env (padded_hash (Data_buffer [1, 2]))
       (join_path (tmp_folder one_storage_env) (append_path (padded_hash (Data_buffer [1, 2])))) (Data_buffer [4])
       one_storage_state))"
proof -
  have "node_files one_storage_state
      (join_path (tmp_folder one_storage_env) (append_path (padded_hash (Data_buffer [1, 2])))) = Some (Data_buffer [1, 2])"
    by (simp add: one_storage_state_def)
  with storage_stays_ok [OF one_storage_ok(1,2)] one_storage_ok(3) show ?thesis by blast
qed

section \<open>An object that is stored is restored\<close>

definition replica_size_of :: "const_data_buffer \<Rightarrow> nat" where
  "replica_size_of data = 2 * ((buffer_size data + 63) div 64) + 2"

lemma horcrux_bounds: "MIN_HORCRUX \<noteq> 0" "unat MIN_HORCRUX \<le> 32768" "unat MIN_HORCRUX = 32"
  by simp_all

lemma write_replica_bytes:
  "write_replica env i data = Inr (Data_buffer (replica_of (math_memory env) MIN_HORCRUX i (buffer_data data)))"
  by (simp only: write_replica_def generator_write_replica [OF horcrux_bounds(1,2)] get_expected_simps)

lemma replica_of_size: "length (replica_of (math_memory env) MIN_HORCRUX i (buffer_data data)) = replica_size_of data"
  by (simp add: replica_of_def u16_cells.groups_def u16_cells.chunk_generator_k replica_size_of_def)

definition has_room :: "const_data_buffer \<Rightarrow> nat \<Rightarrow> node_state \<Rightarrow> bool" where
  "has_room owner n s \<longleftrightarrow> (\<exists>(sid, st) \<in> set (node_storages s). usable_storage owner st
     \<and> used_size sid s + int n \<le> st_reserved_size st)"

lemma save_replica_succeeds:
  assumes ok: "storage_ok env s" and sha: "sha256 env" and w: "\<And>fn. can_write env fn"
    and room: "has_room owner (replica_size_of data + n) s"
  shows "\<exists>s'. save_replica env data owner i s = (Inr (), s') \<and> has_room owner n s'"
proof -
  let ?d = "Data_buffer (replica_of (math_memory env) MIN_HORCRUX i (buffer_data data))"
  from sha obtain h where h: "hash_of env ?d = Inr h" "buffer_size h = 32" unfolding sha256_def by blast
  show ?thesis
  proof (cases "replica_places h s = []")
    case False
    moreover have "has_room owner n s" using room unfolding has_room_def
      by (elim bexE) (rule bexI, auto)
    ultimately show ?thesis by (simp add: save_replica_def bind_step_def lift_step_def write_replica_bytes h(1))
  next
    case True
    then have new: "\<forall>owner. (h, owner) \<notin> table_keys (local_datas s)" using replica_places_row [OF storage_ok_replicas [OF ok]] by blast
    from room obtain sid st where st: "(sid, st) \<in> set (node_storages s)" "usable_storage owner st"
      "used_size sid s + int (replica_size_of data + n) \<le> st_reserved_size st"
      unfolding has_room_def by blast
    then obtain path sid' where c: "choose_storage owner (buffer_size ?d) s = Inr (path, sid')"
      using choose_storage_ok [OF ok st(1,2), of "buffer_size ?d"] by (auto simp: replica_of_size replica_size_of_def)
    define s' where "s' = s\<lparr>node_files := (node_files s)(join_path path (path_of h) \<mapsto> ?d),
              local_datas := local_datas s @ [((h, owner), new_row env sid' h (buffer_size ?d))]\<rparr>"
    have run: "save_replica env data owner i s = (Inr (), s')"
      using True new c w
      by (simp add: save_replica_def bind_step_def lift_step_def write_replica_bytes h(1) store_replica_def
          replica_path_ok [OF h(2)] file_write_all_def insert_local_data_def table_insert_def return_step_def
          s'_def new_row_def)
    have "used_size sid s' \<le> used_size sid s + int (replica_size_of data)"
      using used_size_insert [of sid "s\<lparr>node_files := (node_files s)(join_path path (path_of h) \<mapsto> ?d)\<rparr>"]
      by (simp add: s'_def new_row_def replica_of_size)
    then have "used_size sid s' + int n \<le> st_reserved_size st" using st(3) by simp
    moreover have "node_storages s' = node_storages s" by (simp add: s'_def)
    ultimately have "has_room owner n s'" using st(1,2) unfolding has_room_def by auto
    with run show ?thesis by blast
  qed
qed

lemma save_replicas_succeed:
  "storage_ok env s \<Longrightarrow> sha256 env \<Longrightarrow> (\<And>fn. can_write env fn) \<Longrightarrow>
     has_room owner (length is * replica_size_of data) s \<Longrightarrow>
     \<exists>s'. for_step is (save_replica env data owner) s = (Inr (), s')"
proof (induction "is" arbitrary: s)
  case (Cons i "is")
  obtain u where u: "save_replica env data owner i s = (Inr (), u)" "has_room owner (length is * replica_size_of data) u"
    using save_replica_succeeds [OF Cons.prems(1-3)] Cons.prems(4) by fastforce
  have "storage_ok env u"
    using stores_storage_ok [OF Cons.prems(1)] save_replica_ok [OF _ Cons.prems(2) u(1)] Cons.prems(1) by (simp add: storage_ok_def)
  from Cons.IH [OF this Cons.prems(2,3) u(2)] u(1) show ?case by (simp add: bind_step_def)
qed simp

lemma collect_replicas_here:
  assumes "\<And>r. r \<in> set rs \<Longrightarrow> unat r < length hashes \<and>
      (\<exists>lp sp ps. replica_places (hashes ! unat r) s = (lp, sp) # ps \<and> node_files s (join_path lp sp) = Some (dat r))"
    and "length reps < 32" "32 \<le> length reps + length rs"
  shows "collect_replicas hashes rs (reps, ds, unk) s
    = (Inr (reps @ take (32 - length reps) rs, ds @ map dat (take (32 - length reps) rs), unk), s)"
  using assms
proof (induction rs arbitrary: reps ds)
  case (Cons r rs)
  from Cons.prems(1) [of r] obtain lp sp ps where r: "unat r < length hashes"
    "replica_places (hashes ! unat r) s = (lp, sp) # ps" "node_files s (join_path lp sp) = Some (dat r)"
    by auto
  show ?case
  proof (cases "32 \<le> length reps + 1")
    case True
    with Cons.prems(2) have "32 - length reps = 1" by simp
    with r(2,3) True r(1) [folded not_le] show ?thesis by (simp add: bind_step_def file_read_all_def)
  next
    case False
    then have "32 - length reps = Suc (32 - length (reps @ [r]))" by simp
    with r(2,3) r(1) [folded not_le] False Cons.IH [of "reps @ [r]" "ds @ [dat r]"] Cons.prems show ?thesis
      by (simp add: bind_step_def file_read_all_def)
  qed
qed simp

lemma all_replicas_props: "length all_replicas = 64" "distinct (take 32 all_replicas)" "r \<in> set all_replicas \<longleftrightarrow> r < 64"
proof -
  show "length all_replicas = 64" by (simp add: all_replicas_def)
  have "inj_on (word_of_nat :: nat \<Rightarrow> u16) {0..<64}"
    by (rule inj_on_inverseI [where g = unat]) (simp add: unat_of_nat)
  then show "distinct (take 32 all_replicas)" by (intro distinct_take) (simp add: all_replicas_def distinct_map)
  show "r \<in> set all_replicas \<longleftrightarrow> r < 64"
  proof
    assume "r < 64"
    then have "unat r \<in> {0..<64}" by (simp add: word_less_nat_alt)
    moreover have "r = word_of_nat (unat r)" by simp
    ultimately have "r \<in> word_of_nat ` {0..<64}" by (rule rev_image_eqI)
    then show "r \<in> set all_replicas" by (simp add: all_replicas_def)
  qed (auto simp: all_replicas_def word_less_nat_alt unat_of_nat)
qed

text \<open>C9: An object is stored and restored: when a storage has room for the 64 replicas, storing them
  succeeds, and with their hashes \<open>restore_async\<close> gives the object back from the first 32, with no request to
  other nodes. Relied on of the hash is that nothing else has the hash of one of these replicas.\<close>

theorem stored_object_restored:
  assumes ok: "storage_ok env s" and sha: "sha256 env"
    and unique: "\<And>r d d'. write_replica env r data = Inr d \<Longrightarrow> hash_of env d' = hash_of env d \<Longrightarrow> d' = d"
    and can: "\<And>fn. can_write env fn"
    and room: "(sid, st) \<in> set (node_storages s)" "usable_storage owner st"
      "used_size sid s + 64 * int (replica_size_of data) \<le> st_reserved_size st"
    and len: "buffer_size data < 2 ^ 62"
    and hashes: "length hashes = 64"
      "\<And>r. r < 64 \<Longrightarrow> get_expected (write_replica env r data) (hash_of env) = Inr (hashes ! unat r)"
  shows "\<exists>s'. save_object env data owner s = (Inr (), s')
    \<and> restore_async env True hashes s' = (Inr (Some data, 100, []), s')"
proof -
  let ?rep = "\<lambda>r. replica_of (math_memory env) MIN_HORCRUX r (buffer_data data)"
  have "has_room owner (length all_replicas * replica_size_of data) s"
    using room all_replicas_props(1) by (auto simp: has_room_def)
  from save_replicas_succeed [OF ok sha can this] obtain s'
    where run: "for_step all_replicas (save_replica env data owner) s = (Inr (), s')" by blast
  have saved: "replicas_ok env s' \<and> (\<forall>i \<in> set all_replicas. \<exists>d h. write_replica env i data = Inr d \<and> hash_of env d = Inr h
      \<and> replica_places h s' \<noteq> [])"
    using save_replicas_ok [OF storage_ok_replicas [OF ok] sha run] by (simp add: stores_def)
  have here: "unat r < length hashes \<and> (\<exists>lp sp ps. replica_places (hashes ! unat r) s' = (lp, sp) # ps
      \<and> node_files s' (join_path lp sp) = Some (Data_buffer (?rep r)))" if "r \<in> set all_replicas" for r
  proof -
    from that have r: "r < 64" by (simp add: all_replicas_props)
    from saved that obtain d h where d: "write_replica env r data = Inr d" "hash_of env d = Inr h" "replica_places h s' \<noteq> []"
      by blast
    with hashes(2) [OF r] have h: "hashes ! unat r = h" by simp
    from d(3) obtain lp sp ps where p: "replica_places h s' = (lp, sp) # ps" by (metis neq_Nil_conv surj_pair)
    with saved replica_place_file [of env s' lp sp h] obtain d' where
      "node_files s' (join_path lp sp) = Some d'" "hash_of env d' = Inr h" by auto
    moreover from this unique [OF d(1), of d'] d have "d' = Data_buffer (?rep r)" by (simp add: write_replica_bytes)
    ultimately show ?thesis using p h r hashes(1) by (auto simp: word_less_nat_alt)
  qed
  let ?n = "take 32 all_replicas"
  have "collect_replicas hashes all_replicas ([], [], []) s' = (Inr (?n, map (\<lambda>r. Data_buffer (?rep r)) ?n, []), s')"
    using collect_replicas_here [of all_replicas hashes s' "\<lambda>r. Data_buffer (?rep r)" "[]" "[]" "[]"] here
      all_replicas_props(1) by simp
  moreover obtain m where "chunk_restore (node_cells env) (restore_memory env) MIN_HORCRUX ?n = Inr m"
    "restore_chunks (node_cells env) MIN_HORCRUX m (map ?rep ?n) = Inr (buffer_data data)"
    using restore_replicas [OF horcrux_bounds(1,2) _ all_replicas_props(2) len] all_replicas_props(1) by fastforce
  then have "restore_chunks_data env ?n (map (\<lambda>r. Data_buffer (?rep r)) ?n) = Inr data"
    by (simp add: restore_chunks_data_def comp_def)
  ultimately have "restore_async env True hashes s' = (Inr (Some data, 100, []), s')"
    using all_replicas_props(1)
    by (simp add: restore_async_def bind_step_def lift_step_def return_step_def)
  with run show ?thesis unfolding save_object_def by blast
qed

lemma padded_hash_unique:
  "write_replica one_storage_env r (Data_buffer [1, 2, 3]) = Inr d \<Longrightarrow>
     hash_of one_storage_env d' = hash_of one_storage_env d \<Longrightarrow> d' = d"
proof -
  assume "write_replica one_storage_env r (Data_buffer [1, 2, 3]) = Inr d"
  then have "buffer_size d = 4"
    using replica_of_size [of one_storage_env r "Data_buffer [1, 2, 3]"] by (auto simp: write_replica_bytes replica_size_of_def)
  moreover assume "hash_of one_storage_env d' = hash_of one_storage_env d"
  ultimately show ?thesis
    by (cases d; cases d') (auto simp: one_storage_ok(3) padded_hash_def numeral_eq_Suc split: if_splits)
qed

theorem stored_object_restored_witness:
  "\<exists>hashes s'. save_object one_storage_env (Data_buffer [1, 2, 3]) (Data_buffer [4]) one_storage_state = (Inr (), s')
    \<and> restore_async one_storage_env True hashes s' = (Inr (Some (Data_buffer [1, 2, 3]), 100, []), s')"
proof -
  let ?data = "Data_buffer [1, 2, 3]"
  let ?rep = "\<lambda>r. Data_buffer (replica_of (math_memory one_storage_env) MIN_HORCRUX r (buffer_data ?data))"
  let ?hashes = "map (padded_hash \<circ> ?rep) all_replicas"
  have at: "all_replicas ! unat r = r" if "r < 64" for r
    using that by (simp add: all_replicas_def word_less_nat_alt)
  have hashes: "get_expected (write_replica one_storage_env r ?data) (hash_of one_storage_env) = Inr (?hashes ! unat r)"
    if "r < 64" for r
    using that at all_replicas_props(1) by (simp add: write_replica_bytes one_storage_ok(3) word_less_nat_alt)
  have "\<exists>s'. save_object one_storage_env ?data (Data_buffer [4]) one_storage_state = (Inr (), s')
      \<and> restore_async one_storage_env True ?hashes s' = (Inr (Some ?data, 100, []), s')"
    by (rule stored_object_restored [where sid = "Data_buffer [1]" and st = share_storage])
      (use hashes padded_hash_unique one_storage_ok all_replicas_props(1) in
        \<open>simp_all add: one_storage_state_def share_storage_def usable_storage_def used_size_def replica_size_of_def
          one_storage_env_def\<close>)
  then show ?thesis by blast
qed

end
