(* ===== verification/Udp_transport.thy ===== *)
theory Udp_transport
  imports Datagram_protocol Transactions Encoding
begin

text \<open>
  \<open>libs_server/vds_dht_network/impl/udp_transport.cpp\<close>: the handshake of two nodes and the table of
  sessions. Addresses (\<open>network_address\<close>), the socket, RSA and the random bytes of a new key are
  parameters, so is what \<open>client\<close> and \<open>imessage_map\<close> answer; their calls and the datagrams written are
  recorded. A round of the read loop is one step; a step that fails ends the loop.
\<close>

section \<open>State\<close>

record session_state =
  blocked :: bool
  update_time :: int \<comment> \<open>milliseconds of the steady clock\<close>
  session :: "datagram_protocol option" \<comment> \<open>\<open>session_\<close>\<close>
  state_session_key :: const_data_buffer

datatype 'a client_call =
    Add_session 'a const_data_buffer
  | Remove_session 'a const_data_buffer
  | On_new_session const_data_buffer

record 'a udp_transport =
  sessions :: "('a \<times> session_state) list"
  sent :: "('a \<times> byte list) list" \<comment> \<open>by the transport itself\<close>
  broadcasts :: "byte list list"
  client_calls :: "'a client_call list"

record ('pk, 'sk, 'a) transport_env =
  transport_crypto :: "('pk, 'sk) crypto"
  own_id :: const_data_buffer
  own_public_key :: 'pk
  own_private_key :: 'sk
  encrypt_key :: "'pk \<Rightarrow> const_data_buffer \<Rightarrow> const_data_buffer expected"
  decrypt_key :: "'sk \<Rightarrow> const_data_buffer \<Rightarrow> const_data_buffer expected"
  magic_label :: u32
  parse_address :: "cstring \<Rightarrow> 'a expected"
  show_address :: "'a \<Rightarrow> cstring"
  send_result :: "'a \<Rightarrow> byte list \<Rightarrow> unit expected"
  client_result :: "'a client_call \<Rightarrow> unit expected"
  session_env :: "'a \<Rightarrow> protocol_env"

text \<open>\<open>start\<close>: the magic number tells a network of developers from the real one.\<close>

definition start_magic_label :: "bool \<Rightarrow> u32" where
  "start_magic_label dev_network = (if dev_network then 0x54445331 else 0x56445331)"

definition new_session_state :: session_state where
  "new_session_state = \<lparr>blocked = False, update_time = 0, session = None, state_session_key = Data_buffer []\<rparr>"

definition new_transport :: "'a udp_transport" where
  "new_transport = \<lparr>sessions = [], sent = [], broadcasts = [], client_calls = []\<rparr>"

type_synonym ('r, 'a) transport_step = "('r, 'a udp_transport) step"

text \<open>\<open>sessions_[address]\<close>.\<close>

definition session_at :: "'a udp_transport \<Rightarrow> 'a \<Rightarrow> session_state" where
  "session_at st a = (case map_of (sessions st) a of None \<Rightarrow> new_session_state | Some i \<Rightarrow> i)"

definition put_session :: "'a::linorder \<Rightarrow> session_state \<Rightarrow> 'a udp_transport \<Rightarrow> 'a udp_transport" where
  "put_session a i st = st\<lparr>sessions := map_put a i (sessions st)\<rparr>"

definition send_datagram :: "('pk, 'sk, 'a) transport_env \<Rightarrow> 'a \<Rightarrow> byte list \<Rightarrow> (unit, 'a) transport_step" where
  "send_datagram env a d st = (send_result env a d, st\<lparr>sent := sent st @ [(a, d)]\<rparr>)"

definition call_client :: "('pk, 'sk, 'a) transport_env \<Rightarrow> 'a client_call \<Rightarrow> (unit, 'a) transport_step" where
  "call_client env c st = (client_result env c, st\<lparr>client_calls := client_calls st @ [c]\<rparr>)"

text \<open>\<open>remove_session\<close> of the client has no result.\<close>

definition call_remove :: "'a \<Rightarrow> const_data_buffer \<Rightarrow> 'a udp_transport \<Rightarrow> 'a udp_transport" where
  "call_remove a partner st = st\<lparr>client_calls := client_calls st @ [Remove_session a partner]\<rparr>"

section \<open>Handshakes\<close>

abbreviation (input) msg_handshake_broadcast :: byte where "msg_handshake_broadcast \<equiv> 0"
abbreviation (input) msg_handshake :: byte where "msg_handshake \<equiv> 1"
abbreviation (input) msg_welcome :: byte where "msg_welcome \<equiv> 2"
abbreviation (input) msg_failed :: byte where "msg_failed \<equiv> 5"

abbreviation PROTOCOL_VERSION :: byte where "PROTOCOL_VERSION \<equiv> 0"

definition own_der :: "('pk, 'sk, 'a) transport_env \<Rightarrow> const_data_buffer expected" where
  "own_der env = key_der (transport_crypto env) (own_public_key env)"

definition handshake_message :: "('pk, 'sk, 'a) transport_env \<Rightarrow> byte list expected" where
  "handshake_message env =
     get_expected (own_der env) (\<lambda>der.
       Inr ([msg_handshake_broadcast] @ index_bytes (magic_label env) @ [PROTOCOL_VERSION] @ put_buffer der []))"

text \<open>No handshake while the address is blocked for the minute, or when there is a session.\<close>

definition keeps_quiet :: "int \<Rightarrow> session_state \<Rightarrow> bool" where
  "keeps_quiet now i \<longleftrightarrow> (if blocked i then now - update_time i \<le> 60000 else \<not> Option.is_none (session i))"

definition try_handshake :: "('pk, 'sk, 'a) transport_env \<Rightarrow> int \<Rightarrow> cstring \<Rightarrow> (unit, 'a) transport_step" where
  "try_handshake env now address st =
     bind_step (lift_step (parse_address env address)) (\<lambda>a st.
       if (case map_of (sessions st) a of None \<Rightarrow> False | Some i \<Rightarrow> keeps_quiet now i) then (Inr (), st)
       else bind_step (lift_step (handshake_message env)) (send_datagram env a) st) st"

definition broadcast_handshake :: "('pk, 'sk, 'a) transport_env \<Rightarrow> (unit, 'a) transport_step" where
  "broadcast_handshake env st =
     bind_step (lift_step (handshake_message env)) (\<lambda>m. modify_step (\<lambda>st. st\<lparr>broadcasts := broadcasts st @ [m]\<rparr>)) st"

text \<open>Comparing one byte after the other, up to the first that differs.\<close>

fun bytes_at :: "nat \<Rightarrow> byte list \<Rightarrow> byte list \<Rightarrow> bool expected" where
  "bytes_at i [] d = Inr True"
| "bytes_at i (b # bs) d =
     (if length d \<le> i then Inl (Undefined_behaviour ''datagram.data()'')
      else if d ! i \<noteq> b then Inr False
      else bytes_at (Suc i) bs d)"

text \<open>The first entry whose session is with the node: it is a duplicate, unless it is blocked.\<close>

definition session_with :: "const_data_buffer \<Rightarrow> session_state \<Rightarrow> bool" where
  "session_with partner i \<longleftrightarrow> (case session i of None \<Rightarrow> False | Some s \<Rightarrow> partner_node_id s = partner)"

definition find_duplicate :: "const_data_buffer \<Rightarrow> 'a::linorder udp_transport \<Rightarrow> bool \<times> 'a udp_transport" where
  "find_duplicate partner st =
     (case find (\<lambda>(_, i). session_with partner i) (sessions st) of
        None \<Rightarrow> (False, st)
      | Some (b, i) \<Rightarrow>
          if blocked i then (False, st\<lparr>sessions := filter (\<lambda>(b', _). b' \<noteq> b) (sessions st)\<rparr>)
          else (True, st))"

definition start_session :: "('pk, 'sk, 'a::linorder) transport_env \<Rightarrow> int \<Rightarrow> int \<Rightarrow> 'a \<Rightarrow> const_data_buffer \<Rightarrow>
    const_data_buffer \<Rightarrow> 'a udp_transport \<Rightarrow> 'a udp_transport" where
  "start_session env now time a partner key st =
     put_session a ((session_at st a)\<lparr>session := Some (new_protocol now time (own_id env) partner key)\<rparr>) st"

definition answer_handshake :: "('pk, 'sk, 'a::linorder) transport_env \<Rightarrow> int \<Rightarrow> int \<Rightarrow> const_data_buffer \<Rightarrow> 'a \<Rightarrow> 'pk \<Rightarrow>
    const_data_buffer \<Rightarrow> (unit, 'a) transport_step" where
  "answer_handshake env now time random_key a key partner st =
     bind_step (modify_step (put_session a ((session_at st a)\<lparr>update_time := now, state_session_key := random_key\<rparr>))) (\<lambda>_.
     bind_step (lift_step (encrypt_key env key random_key)) (\<lambda>encrypted.
     bind_step (modify_step (start_session env now time a partner random_key)) (\<lambda>_.
     bind_step (lift_step (own_der env)) (\<lambda>der.
     bind_step (call_client env (Add_session a partner)) (\<lambda>_.
     bind_step (send_datagram env a
         ([msg_welcome] @ index_bytes (magic_label env) @ put_buffer encrypted (put_buffer der []))) (\<lambda>_.
       call_client env (On_new_session partner))))))) st"

definition accept_handshake :: "('pk, 'sk, 'a::linorder) transport_env \<Rightarrow> int \<Rightarrow> int \<Rightarrow> const_data_buffer \<Rightarrow> 'a \<Rightarrow>
    byte list \<Rightarrow> (unit, 'a) transport_step" where
  "accept_handshake env now time random_key a d st =
     (if \<not> Option.is_none (session (session_at st a)) then (Inr (), st)
      else
        bind_step (lift_step (bytes_at 1 (index_bytes (magic_label env) @ [PROTOCOL_VERSION]) d)) (\<lambda>same.
          if \<not> same then return_step ()
          else
            bind_step (lift_step (get_buffer (drop 6 d))) (\<lambda>(der, _).
            bind_step (lift_step (key_parse_der (transport_crypto env) der)) (\<lambda>key.
            bind_step (lift_step (key_fingerprint (transport_crypto env) key)) (\<lambda>partner st.
              if partner = own_id env then (Inr (), st)
              else
                let (is_duplicate, st) = find_duplicate partner st
                in if is_duplicate then (Inr (), st)
                   else answer_handshake env now time random_key a key partner st)))) st)"

text \<open>A welcome is taken whether or not a handshake was sent, and replaces the session there is.\<close>

definition accept_welcome :: "('pk, 'sk, 'a::linorder) transport_env \<Rightarrow> int \<Rightarrow> int \<Rightarrow> 'a \<Rightarrow> byte list \<Rightarrow> (unit, 'a) transport_step" where
  "accept_welcome env now time a d =
     (if 5 < length d \<and> take 4 (drop 1 d) = index_bytes (magic_label env) then
        bind_step (lift_step (get_buffer (drop 5 d))) (\<lambda>(public_key_buffer, rest).
        bind_step (lift_step (get_buffer rest)) (\<lambda>(key_buffer, _).
        bind_step (lift_step (key_parse_der (transport_crypto env) public_key_buffer)) (\<lambda>public_key.
        bind_step (lift_step (decrypt_key env (own_private_key env) key_buffer)) (\<lambda>key.
        bind_step (lift_step (key_fingerprint (transport_crypto env) public_key)) (\<lambda>partner.
        bind_step (modify_step (start_session env now time a partner key)) (\<lambda>_.
        bind_step (call_client env (Add_session a partner)) (\<lambda>_.
          call_client env (On_new_session partner))))))))
      else fail_step (Runtime_error ''Invalid protocol''))"

section \<open>The read loop\<close>

definition block_session :: "int \<Rightarrow> 'a::linorder \<Rightarrow> 'a udp_transport \<Rightarrow> 'a udp_transport" where
  "block_session now a st =
     (let i = session_at st a;
          st = (case session i of None \<Rightarrow> st | Some s \<Rightarrow> call_remove a (partner_node_id s) st)
      in put_session a (i\<lparr>blocked := True, session := None, update_time := now\<rparr>) st)"

definition session_datagram :: "('pk, 'sk, 'a::linorder) transport_env \<Rightarrow> int \<Rightarrow> 'a \<Rightarrow> byte list \<Rightarrow> (unit, 'a) transport_step" where
  "session_datagram env now a d st =
     (case session (session_at st a) of
        None \<Rightarrow> (Inr (), snd (send_datagram env a [msg_failed] (block_session now a st)))
      | Some s \<Rightarrow>
          let (r, s') = process_datagram (session_env env a) now d s;
              st = put_session a ((session_at st a)\<lparr>session := Some s'\<rparr>) st
          in case r of
               Inr _ \<Rightarrow> (Inr (), st)
             | Inl _ \<Rightarrow> send_datagram env a [msg_failed] (block_session now a st))"

definition handle_datagram :: "('pk, 'sk, 'a::linorder) transport_env \<Rightarrow> int \<Rightarrow> int \<Rightarrow> const_data_buffer \<Rightarrow> 'a \<Rightarrow> byte list \<Rightarrow>
    (unit, 'a) transport_step" where
  "handle_datagram env now time random_key a d st =
     (if d ! 0 = msg_handshake_broadcast \<or> d ! 0 = msg_handshake then accept_handshake env now time random_key a d st
      else if d ! 0 = msg_welcome then accept_welcome env now time a d st
      else if d ! 0 = msg_failed then (Inr (), block_session now a st)
      else session_datagram env now a d st)"

text \<open>A round of \<open>continue_read\<close>. The socket does not hand over datagrams without bytes.\<close>

definition read_datagram :: "('pk, 'sk, 'a::linorder) transport_env \<Rightarrow> int \<Rightarrow> int \<Rightarrow> const_data_buffer \<Rightarrow> 'a \<Rightarrow> byte list \<Rightarrow>
    (unit, 'a) transport_step" where
  "read_datagram env now time random_key a d st =
     (let i = session_at st a; st = put_session a i st
      in if d = [] then (Inl (Undefined_behaviour ''datagram.data()[0]''), st)
         else if blocked i then
           if 60000 < now - update_time i \<and> d ! 0 \<in> {msg_handshake, msg_handshake_broadcast, msg_welcome, msg_failed} then
             handle_datagram env now time random_key a d (put_session a (i\<lparr>blocked := False\<rparr>) st)
           else if d ! 0 \<notin> {msg_failed, msg_handshake, msg_handshake_broadcast, msg_welcome} then
             (Inr (), snd (send_datagram env a [msg_failed] st))
           else (Inr (), st)
         else handle_datagram env now time random_key a d st)"

text \<open>What the socket hands over: the clocks, the random bytes there are then, the sender and the bytes.\<close>

type_synonym 'a arrival = "int \<times> int \<times> const_data_buffer \<times> 'a \<times> byte list"

fun continue_read :: "('pk, 'sk, 'a::linorder) transport_env \<Rightarrow> 'a arrival list \<Rightarrow> (unit, 'a) transport_step" where
  "continue_read env [] st = (Inr (), st)"
| "continue_read env ((now, time, random_key, a, d) # ds) st =
     bind_step (read_datagram env now time random_key a d) (\<lambda>_. continue_read env ds) st"

section \<open>The timer and the statistics\<close>

text \<open>The sessions are collected first; the first error ends the round.\<close>

fun timer_loop :: "('pk, 'sk, 'a::linorder) transport_env \<Rightarrow> int \<Rightarrow> 'a list \<Rightarrow> (unit, 'a) transport_step" where
  "timer_loop env time [] st = (Inr (), st)"
| "timer_loop env time (a # as) st =
     (case session (session_at st a) of
        None \<Rightarrow> timer_loop env time as st
      | Some s \<Rightarrow>
          let (r, s') = on_timer (session_env env a) time s
          in bind_step (lift_step r) (\<lambda>_. timer_loop env time as)
               (put_session a ((session_at st a)\<lparr>session := Some s'\<rparr>) st))"

definition transport_on_timer :: "('pk, 'sk, 'a::linorder) transport_env \<Rightarrow> int \<Rightarrow> (unit, 'a) transport_step" where
  "transport_on_timer env time st =
     timer_loop env time (map fst (filter (\<lambda>(_, i). \<not> Option.is_none (session i)) (sessions st))) st"

text \<open>\<open>get_session_statistics\<close> with \<open>dht_session::get_statistic\<close>: partner, address and metrics.\<close>

definition session_statistics :: "('pk, 'sk, 'a) transport_env \<Rightarrow> 'a udp_transport \<Rightarrow> (cstring \<times> cstring \<times> time_metric list) list" where
  "session_statistics env st =
     concat (map (\<lambda>(a, i). case session i of None \<Rightarrow> []
         | Some s \<Rightarrow> [(base64_from_bytes (buffer_data (partner_node_id s)), show_address env a, metrics s)])
       (sessions st))"

end
