(* ===== verification/Step_relation.thy ===== *)
theory Step_relation
  imports VDS_Prelude
begin

text \<open>
  Relations kept by steps: how an invariant of a state, or what an operation leaves alone, is carried over
  the operations it is made of.
\<close>

text \<open>A reflexive and transitive relation of the state before and after: a sequence of steps keeps it when
  each step does, whether or not one of them fails.\<close>

locale step_relation =
  fixes rel :: "'s \<Rightarrow> 's \<Rightarrow> bool"
  assumes refl: "rel s s"
    and trans: "rel s t \<Longrightarrow> rel t u \<Longrightarrow> rel s u"
begin

lemma bind_at:
  assumes "rel s (snd (m s))" and "\<And>x t. rel t (snd (k x t))"
  shows "rel s (snd (bind_step m k s))"
proof (cases "m s")
  case (Pair r t)
  with assms(1) have t: "rel s t" by simp
  show ?thesis
  proof (cases r)
    case (Inl e)
    with Pair t show ?thesis by (simp add: bind_step_def)
  next
    case (Inr x)
    with Pair trans [OF t assms(2) [of t x]] show ?thesis by (simp add: bind_step_def)
  qed
qed

lemma bind: "(\<And>s. rel s (snd (m s))) \<Longrightarrow> (\<And>x s. rel s (snd (k x s))) \<Longrightarrow> rel s (snd (bind_step m k s))"
  by (rule bind_at)

lemma basic:
  "rel s (snd (return_step x s))" "rel s (snd (fail_step e s))" "rel s (snd (lift_step v s))"
  by (simp_all add: return_step_def fail_step_def lift_step_def refl)

lemma modify: "rel s (f s) \<Longrightarrow> rel s (snd (modify_step f s))"
  by (simp add: modify_step_def)

lemma lift_bind: "(\<And>x. v = Inr x \<Longrightarrow> rel s (snd (k x s))) \<Longrightarrow> rel s (snd (bind_step (lift_step v) k s))"
  by (cases v) (simp_all add: bind_step_def lift_step_def refl)

lemmas steps = bind basic modify

end

end
