(* ===== verification/Udp_properties.thy ===== *)
theory Udp_properties
  imports Udp_transport Step_relation Datagram_delivery
begin

text \<open>
  What the table of sessions promises, how two nodes agree on a key, and what a stranger can do with one
  datagram.
\<close>

declare Option.is_none_def [simp]

section \<open>A session keeps its identity\<close>

definition session_identity :: "datagram_protocol \<Rightarrow> const_data_buffer \<times> const_data_buffer \<times> const_data_buffer" where
  "session_identity s = (this_node_id s, partner_node_id s, session_key s)"

definition keeps_identity :: "('r, datagram_protocol) step \<Rightarrow> bool" where
  "keeps_identity m \<longleftrightarrow> (\<forall>s. session_identity (snd (m s)) = session_identity s)"

interpretation identity: step_relation "\<lambda>s s'. session_identity s' = session_identity s"
  by unfold_locales simp_all

named_theorems identity_intros \<open>steps that keep the identity of a session\<close>

lemma identityD: "keeps_identity m \<Longrightarrow> m s = (r, s') \<Longrightarrow> session_identity s' = session_identity s"
  unfolding keeps_identity_def by (metis snd_conv)

lemma keeps_bind [identity_intros]:
  "keeps_identity m \<Longrightarrow> (\<And>x. keeps_identity (k x)) \<Longrightarrow> keeps_identity (bind_step m k)"
  unfolding keeps_identity_def by (blast intro: identity.bind)

lemma keeps_basic [identity_intros]:
  "keeps_identity (return_step x)" "keeps_identity (fail_step e)" "keeps_identity (lift_step v)"
  "(\<And>s. session_identity (f s) = session_identity s) \<Longrightarrow> keeps_identity (modify_step f)"
  unfolding keeps_identity_def by (simp_all only: identity.basic identity.modify simp_thms)

lemma keeps_write [identity_intros]: "keeps_identity (write_async env d)"
  by (simp add: keeps_identity_def write_async_def session_identity_def)

lemma keeps_resend [identity_intros]: "keeps_identity (resend env d)"
  unfolding resend_def by (intro identity_intros) (simp add: session_identity_def)

lemma keeps_resend_mask [identity_intros]: "keeps_identity (resend_mask n env i bits)"
proof (induction n arbitrary: i bits)
  case (Suc n)
  have "keeps_identity (case map_of ms i of Some m \<Rightarrow> if bits AND 1 = 1 then resend env (om_data m) else return_step ()
         | None \<Rightarrow> return_step ())" for ms
    by (auto intro: identity_intros split: option.split)
  then have "keeps_identity (bind_step (case map_of ms i of Some m \<Rightarrow> if bits AND 1 = 1 then resend env (om_data m)
        else return_step () | None \<Rightarrow> return_step ()) (\<lambda>_. resend_mask n env (i + 1) (drop_bit 1 bits)))" for ms
    using Suc by (rule keeps_bind)
  then have "session_identity (snd (bind_step (case map_of ms i of Some m \<Rightarrow> if bits AND 1 = 1 then resend env (om_data m)
        else return_step () | None \<Rightarrow> return_step ()) (\<lambda>_. resend_mask n env (i + 1) (drop_bit 1 bits)) s)) = session_identity s"
    for ms s unfolding keeps_identity_def by blast
  then show ?case unfolding keeps_identity_def resend_mask.simps by auto
qed (simp add: keeps_identity_def)

lemma identity_drop_acknowledged: "session_identity (drop_acknowledged now i ms s) = session_identity s"
  by (induction now i ms s rule: drop_acknowledged.induct) (simp_all add: session_identity_def)

lemma keeps_acknowledgment: "keeps_identity (process_acknowledgment env now d)"
  unfolding keeps_identity_def
proof (rule allI)
  fix s
  let ?s = "drop_acknowledged now (index_at 1 d) (output_messages s) s"
  have first: "keeps_identity (case map_of (output_messages ?s) (index_at 1 d) of
        None \<Rightarrow> return_step ()
      | Some m \<Rightarrow> (\<lambda>st. bind_step (write_async env (om_data m)) return_step
            (st\<lparr>service_traffic := service_traffic st + length (om_data m)\<rparr>)))"
  proof (cases "map_of (output_messages ?s) (index_at 1 d)")
    case (Some m)
    have "keeps_identity (bind_step (write_async env (om_data m)) return_step)" by (intro identity_intros)
    with Some show ?thesis by (simp add: keeps_identity_def session_identity_def)
  qed (simp add: identity_intros)
  let ?p = "push_bit 8 (ucast (d ! 9)) OR ucast (d ! 10) :: u16"
  have "keeps_identity (bind_step (resend_mask 32 env (index_at 1 d + 1) (index_at 5 d)) (\<lambda>_.
      modify_step (\<lambda>st. if mtu st < ?p then st\<lparr>mtu := ?p\<rparr> else st)))"
    by (intro identity_intros) (simp add: session_identity_def)
  from keeps_bind [OF first this] show "session_identity (snd (process_acknowledgment env now d s)) = session_identity s"
    unfolding keeps_identity_def process_acknowledgment_def Let_def
    by (simp add: identity_drop_acknowledged del: One_nat_def)
qed

lemma identity_skip_received: "session_identity (skip_received n s) = session_identity s"
  using skip_received_index [of n s] by (auto simp: session_identity_def)

lemma identity_deliver: "session_identity (deliver env now c m s) = session_identity s"
  by (simp add: session_identity_def deliver_def count_received_def Let_def)

lemma identity_round: "process_round env now s = (r, s') \<Longrightarrow> session_identity s' = session_identity s"
  using identity_skip_received [of "length (input_messages s)" s]
  by (auto simp: process_round_def Let_def identity_deliver split: list.splits if_splits sum.splits option.splits)
    (simp_all add: session_identity_def)

lemma keeps_continue_process: "keeps_identity (continue_process n env now)"
proof (induction n)
  case (Suc n)
  show ?case unfolding keeps_identity_def
  proof (rule allI)
    fix s
    obtain r t where "process_round env now s = (r, t)" by (metis surj_pair)
    with identity_round [OF this] Suc
    show "session_identity (snd (continue_process (Suc n) env now s)) = session_identity s"
      by (cases r) (auto simp: keeps_identity_def)
  qed
qed (simp add: keeps_identity_def)

lemma keeps_continue_messages: "keeps_identity (continue_process_messages env now)"
  using keeps_continue_process unfolding keeps_identity_def continue_process_messages_def by blast

lemma identity_updates: "session_identity (s\<lparr>input_messages := ms\<rparr>) = session_identity s"
  "session_identity (s\<lparr>input_mtu := m\<rparr>) = session_identity s"
  by (simp_all add: session_identity_def)

lemma keeps_process_datagram: "keeps_identity (process_datagram env now d)"
  unfolding keeps_identity_def
proof (rule allI)
  fix s :: datagram_protocol
  let ?s = "if unat (input_mtu s) < length d then s\<lparr>input_mtu := word_of_nat (length d)\<rparr> else s"
  have "session_identity ?s = session_identity s" by (simp add: identity_updates)
  moreover have "session_identity (snd (process_acknowledgment env now d t)) = session_identity t"
    "session_identity (snd (continue_process_messages env now (t\<lparr>input_messages := ms\<rparr>))) = session_identity t" for t ms
    using keeps_acknowledgment keeps_continue_messages by (simp_all add: keeps_identity_def identity_updates)
  ultimately show "session_identity (snd (process_datagram env now d s)) = session_identity s"
    unfolding process_datagram_def Let_def by auto
qed

lemma keeps_on_timer: "keeps_identity (on_timer env time)"
proof -
  have "keeps_identity (mtu_probe env)"
    by (simp add: keeps_identity_def mtu_probe_def write_async_def session_identity_def)
  moreover have "keeps_identity (send_acknowledgment env)"
    by (simp add: keeps_identity_def send_acknowledgment_def write_async_def session_identity_def)
  ultimately have "keeps_identity (bind_step (mtu_probe env) (\<lambda>_. bind_step (send_acknowledgment env) (\<lambda>_.
      modify_step (push_metric time))))"
    by (intro identity_intros) (simp_all add: session_identity_def push_metric_def)
  then show ?thesis by (simp add: keeps_identity_def on_timer_def session_identity_def)
qed

section \<open>The table of sessions\<close>

text \<open>A blocked address has no session; a session is of this node, with a node whose key was seen.\<close>

definition entry_ok :: "('pk, 'sk, 'a) transport_env \<Rightarrow> session_state \<Rightarrow> bool" where
  "entry_ok env i \<longleftrightarrow> (blocked i \<longrightarrow> session i = None)
     \<and> (\<forall>s. session i = Some s \<longrightarrow> this_node_id s = own_id env
          \<and> (\<exists>der key. key_parse_der (transport_crypto env) der = Inr key
               \<and> key_fingerprint (transport_crypto env) key = Inr (partner_node_id s)))"

definition transport_ok :: "('pk, 'sk, 'a::linorder) transport_env \<Rightarrow> 'a udp_transport \<Rightarrow> bool" where
  "transport_ok env st \<longleftrightarrow> is_set (map fst (sessions st)) \<and> (\<forall>(a, i) \<in> set (sessions st). entry_ok env i)"

interpretation transport: step_relation "\<lambda>s s'. transport_ok env s \<longrightarrow> transport_ok env s'"
  by unfold_locales simp_all

lemma entry_ok_at: "transport_ok env st \<Longrightarrow> entry_ok env (session_at st a)"
  by (auto simp: transport_ok_def session_at_def entry_ok_def new_session_state_def dest!: map_of_SomeD split: option.splits)

lemma put_session_ok: "transport_ok env st \<Longrightarrow> entry_ok env i \<Longrightarrow> transport_ok env (put_session a i st)"
  by (auto simp: transport_ok_def put_session_def is_set_map_put dest: in_map_put)

lemma transport_ok_sessions: "sessions st' = sessions st \<Longrightarrow> transport_ok env st' = transport_ok env st"
  by (simp add: transport_ok_def)

lemma send_datagram_ok: "transport_ok env st \<longrightarrow> transport_ok env (snd (send_datagram env' a d st))"
  by (simp add: send_datagram_def transport_ok_def)

lemma call_client_ok: "transport_ok env st \<longrightarrow> transport_ok env (snd (call_client env' c st))"
  by (simp add: call_client_def transport_ok_def)

lemma block_session_ok: "transport_ok env st \<Longrightarrow> transport_ok env (block_session now a st)"
  unfolding block_session_def Let_def
  by (rule put_session_ok) (auto simp: entry_ok_def call_remove_def transport_ok_def split: option.splits)

lemma start_session_ok:
  assumes "transport_ok env st" "\<not> blocked (session_at st a)"
    and "key_parse_der (transport_crypto env) der = Inr k" "key_fingerprint (transport_crypto env) k = Inr partner"
  shows "transport_ok env (start_session env now time a partner key st)"
  unfolding start_session_def
  by (rule put_session_ok [OF assms(1)]) (use assms in \<open>auto simp: entry_ok_def new_protocol_def\<close>)

lemma session_at_put [simp]: "session_at (put_session a i st) b = (if b = a then i else session_at st b)"
  by (simp add: session_at_def put_session_def map_of_map_put)

lemma put_session_fields [simp]:
  "sent (put_session a i st) = sent st" "client_calls (put_session a i st) = client_calls st"
  by (simp_all add: put_session_def)

lemma session_at_frame [simp]:
  "session_at (st\<lparr>sent := x\<rparr>) = session_at st" "session_at (st\<lparr>client_calls := y\<rparr>) = session_at st"
  by (simp_all add: session_at_def fun_eq_iff)

lemma find_duplicate_ok: "transport_ok env st \<Longrightarrow> snd (find_duplicate partner st) = st"
proof (cases "find (\<lambda>(_, i). session_with partner i) (sessions st)")
  case (Some x)
  obtain b i where x: "x = (b, i)" by (cases x)
  assume "transport_ok env st"
  moreover from Some x have "(b, i) \<in> set (sessions st)" "session_with partner i"
    by (auto simp: find_Some_iff) (metis nth_mem)
  ultimately have "\<not> blocked i" by (auto simp: transport_ok_def entry_ok_def session_with_def)
  with Some x show ?thesis by (simp add: find_duplicate_def)
qed (simp add: find_duplicate_def)

lemma find_duplicate_cases:
  assumes "transport_ok env st"
  obtains b where "find_duplicate partner st = (b, st)"
  using find_duplicate_ok [OF assms] by (metis prod.collapse)

text \<open>What is left to check once the entry of the sender is there and not blocked.\<close>

lemma answer_handshake_ok:
  assumes ok: "transport_ok env st" and free: "\<not> blocked (session_at st a)"
    and key: "key_parse_der (transport_crypto env) der = Inr k" "key_fingerprint (transport_crypto env) k = Inr partner"
  shows "transport_ok env (snd (answer_handshake env now time rk a k partner st))"
proof -
  let ?st1 = "put_session a ((session_at st a)\<lparr>update_time := now, state_session_key := rk\<rparr>) st"
  have ok1: "transport_ok env ?st1"
    by (rule put_session_ok [OF ok]) (use entry_ok_at [OF ok, of a] in \<open>simp add: entry_ok_def\<close>)
  show ?thesis
  proof (cases "encrypt_key env k rk")
    case (Inl e)
    with ok1 show ?thesis by (simp add: answer_handshake_def bind_step_def modify_step_def lift_step_def)
  next
    case (Inr c)
    have ok2: "transport_ok env (start_session env now time a partner rk ?st1)"
      by (rule start_session_ok [OF ok1 _ key]) (simp add: free)
    have "transport_ok env s \<longrightarrow> transport_ok env (snd (bind_step (lift_step (own_der env)) (\<lambda>der.
        bind_step (call_client env (Add_session a partner)) (\<lambda>_.
        bind_step (send_datagram env a
          ([msg_welcome] @ index_bytes (magic_label env) @ put_buffer c (put_buffer der []))) (\<lambda>_.
        call_client env (On_new_session partner)))) s))" for s
      by (intro transport.steps send_datagram_ok call_client_ok)
    with ok2 Inr show ?thesis by (simp add: answer_handshake_def bind_step_def modify_step_def lift_step_def)
  qed
qed

lemma accept_handshake_ok:
  assumes ok: "transport_ok env st" and free: "\<not> blocked (session_at st a)"
  shows "transport_ok env (snd (accept_handshake env now time rk a d st))"
proof -
  have "transport_ok env (snd ((let (is_duplicate, st) = find_duplicate partner st
      in if is_duplicate then (Inr (), st) else answer_handshake env now time rk a k partner st)))"
    if "key_parse_der (transport_crypto env) der = Inr k" "key_fingerprint (transport_crypto env) k = Inr partner" for der k partner
  proof -
    obtain b where "find_duplicate partner st = (b, st)" using find_duplicate_cases [OF ok] .
    with answer_handshake_ok [OF ok free that] ok show ?thesis by simp
  qed
  with ok show ?thesis
    by (auto simp: accept_handshake_def bind_step_def lift_step_def return_step_def split: sum.split)
qed

lemma accept_welcome_ok:
  assumes ok: "transport_ok env st" and free: "\<not> blocked (session_at st a)"
  shows "transport_ok env (snd (accept_welcome env now time a d st))"
proof -
  have calls: "transport_ok env s \<longrightarrow> transport_ok env (snd (bind_step (call_client env (Add_session a partner)) (\<lambda>_.
      call_client env (On_new_session partner)) s))" for s partner
    by (intro transport.steps call_client_ok)
  have "transport_ok env (snd (bind_step (modify_step (start_session env now time a partner key)) (\<lambda>_.
      bind_step (call_client env (Add_session a partner)) (\<lambda>_. call_client env (On_new_session partner))) st))"
    if "key_parse_der (transport_crypto env) der = Inr k" "key_fingerprint (transport_crypto env) k = Inr partner" for der k partner key
    using calls start_session_ok [OF ok free that] by (simp add: bind_step_def [of "modify_step _"] modify_step_def)
  with ok show ?thesis
    by (auto simp: accept_welcome_def bind_step_def [of "lift_step _"] lift_step_def fail_step_def split: sum.split)
qed

lemma entry_ok_session:
  assumes "entry_ok env i" "session i = Some s" "session_identity s' = session_identity s"
  shows "entry_ok env (i\<lparr>session := Some s'\<rparr>)"
  using assms by (auto simp: entry_ok_def session_identity_def)

lemma session_datagram_ok:
  assumes ok: "transport_ok env st"
  shows "transport_ok env (snd (session_datagram env now a d st))"
proof (cases "session (session_at st a)")
  case None
  with block_session_ok [OF ok] show ?thesis by (simp add: session_datagram_def send_datagram_def transport_ok_def)
next
  case (Some s)
  obtain r s' where p: "process_datagram (session_env env a) now d s = (r, s')" by (metis surj_pair)
  have "transport_ok env (put_session a ((session_at st a)\<lparr>session := Some s'\<rparr>) st)"
    using put_session_ok [OF ok] entry_ok_session [OF entry_ok_at [OF ok] Some] identityD [OF keeps_process_datagram p] by blast
  with Some p block_session_ok [OF this] show ?thesis
    by (auto simp: session_datagram_def Let_def send_datagram_def transport_ok_def split: sum.split)
qed

lemma handle_datagram_ok:
  "transport_ok env st \<Longrightarrow> \<not> blocked (session_at st a) \<Longrightarrow> transport_ok env (snd (handle_datagram env now time rk a d st))"
  by (simp add: handle_datagram_def accept_handshake_ok accept_welcome_ok block_session_ok session_datagram_ok)

lemma read_datagram_ok:
  assumes ok: "transport_ok env st"
  shows "transport_ok env (snd (read_datagram env now time rk a d st))"
proof -
  let ?i = "session_at st a" and ?st = "put_session a (session_at st a) st"
  have 1: "transport_ok env ?st" using put_session_ok [OF ok entry_ok_at [OF ok]] .
  have "transport_ok env (put_session a (?i\<lparr>blocked := False\<rparr>) ?st)"
    by (rule put_session_ok [OF 1]) (use entry_ok_at [OF ok, of a] in \<open>simp add: entry_ok_def\<close>)
  with 1 handle_datagram_ok [OF this, of a] handle_datagram_ok [OF 1, of a] show ?thesis
    by (simp add: read_datagram_def Let_def send_datagram_ok [rule_format])
qed

lemma continue_read_ok: "transport_ok env st \<Longrightarrow> transport_ok env (snd (continue_read env ds st))"
proof (induction env ds st rule: continue_read.induct)
  case (2 env now time rk a d ds st)
  obtain r st' where "read_datagram env now time rk a d st = (r, st')" by (metis surj_pair)
  with 2 read_datagram_ok [OF 2(2), of now time rk a d] show ?case
    by (cases r) (simp_all add: bind_step_def)
qed simp

lemma timer_loop_ok: "transport_ok env st \<Longrightarrow> transport_ok env (snd (timer_loop env time as st))"
proof (induction env time "as" st rule: timer_loop.induct)
  case (2 env time a as' st)
  show ?case
  proof (cases "session (session_at st a)")
    case (Some s)
    obtain r s' where p: "on_timer (session_env env a) time s = (r, s')" by (metis surj_pair)
    have "transport_ok env (put_session a ((session_at st a)\<lparr>session := Some s'\<rparr>) st)"
      using put_session_ok [OF 2(3)] entry_ok_session [OF entry_ok_at [OF 2(3)] Some] identityD [OF keeps_on_timer p] by blast
    with 2(2) [OF Some refl p [symmetric]] Some p show ?thesis
      by (cases r) (auto simp: bind_step_def lift_step_def)
  qed (use 2 in simp)
qed simp

inductive transport_reaches :: "('pk, 'sk, 'a::linorder) transport_env \<Rightarrow> 'a udp_transport \<Rightarrow> bool" for env where
  start: "transport_reaches env new_transport"
| read: "transport_reaches env st \<Longrightarrow> transport_reaches env (snd (read_datagram env now time rk a d st))"
| timer: "transport_reaches env st \<Longrightarrow> transport_reaches env (snd (transport_on_timer env time st))"
| handshake: "transport_reaches env st \<Longrightarrow> transport_reaches env (snd (try_handshake env now address st))"
| broadcast: "transport_reaches env st \<Longrightarrow> transport_reaches env (snd (broadcast_handshake env st))"

lemma try_handshake_sessions: "sessions (snd (try_handshake env now address st)) = sessions st"
  by (auto simp: try_handshake_def bind_step_def lift_step_def send_datagram_def split: sum.split)

lemma broadcast_handshake_sessions: "sessions (snd (broadcast_handshake env st)) = sessions st"
  by (auto simp: broadcast_handshake_def bind_step_def lift_step_def modify_step_def split: sum.split)

lemma reaches_ok: "transport_reaches env st \<Longrightarrow> transport_ok env st"
proof (induction rule: transport_reaches.induct)
  case start
  show ?case by (simp add: transport_ok_def new_transport_def)
next
  case (timer st time)
  then show ?case by (simp add: transport_on_timer_def timer_loop_ok)
qed (simp_all add: read_datagram_ok transport_ok_sessions [OF try_handshake_sessions]
    transport_ok_sessions [OF broadcast_handshake_sessions])

text \<open>C19: Whatever datagrams arrive, from whomever, the table of sessions stays in order: one entry for an
  address, no session with a blocked address, and every session is between this node and one whose key was
  read and has the identifier the session carries.\<close>

theorem sessions_stay_ok:
  assumes "transport_reaches env st"
  shows "is_set (map fst (sessions st))
    \<and> (\<forall>(a, i) \<in> set (sessions st). (blocked i \<longrightarrow> session i = None)
        \<and> (\<forall>s. session i = Some s \<longrightarrow> this_node_id s = own_id env
             \<and> (\<exists>der key. key_parse_der (transport_crypto env) der = Inr key
                  \<and> key_fingerprint (transport_crypto env) key = Inr (partner_node_id s))))"
  using reaches_ok [OF assms] unfolding transport_ok_def entry_ok_def .

text \<open>A node whose public key is its number; keys and ciphertexts are as they are.\<close>

definition numbered_node :: "byte \<Rightarrow> (const_data_buffer, unit, nat) transport_env" where
  "numbered_node n = \<lparr>transport_crypto = \<lparr>hash_signature = Inr, key_der = Inr, key_parse_der = Inr, key_fingerprint = Inr,
       sign_verify = \<lambda>_ _ _. Inr True, sign_data = \<lambda>_ _. Inr (Data_buffer [7])\<rparr>,
     own_id = Data_buffer [n], own_public_key = Data_buffer [n], own_private_key = (), encrypt_key = \<lambda>_. Inr,
     decrypt_key = \<lambda>_. Inr, magic_label = start_magic_label False, parse_address = \<lambda>s. Inr (length s),
     show_address = \<lambda>_. [], send_result = \<lambda>_ _. Inr (), client_result = \<lambda>_. Inr (),
     session_env = \<lambda>_. \<lparr>hmac_signature = \<lambda>_ _. Inr (Data_buffer []), hmac_verify = \<lambda>_ _ _. False,
       write_result = \<lambda>_. Inr (), message_good = \<lambda>_. True, heap = \<lambda>_. 0\<rparr>\<rparr>"

text \<open>Node 2 sends the number of its key to node 1, from address 5.\<close>

abbreviation greeting :: "byte list" where
  "greeting \<equiv> [0, 0x56, 0x44, 0x53, 0x31, 0, 1, 2]"

abbreviation greeted :: "nat udp_transport" where
  "greeted \<equiv> snd (read_datagram (numbered_node 1) 9 9 (Data_buffer [8]) 5 greeting new_transport)"

section \<open>Agreement\<close>

lemma bytes_at_prefix: "bytes_at (length pre) bs (pre @ bs @ post) = Inr True"
proof (induction bs arbitrary: pre)
  case (Cons b bs)
  from Cons [of "pre @ [b]"] show ?case by (simp add: nth_append)
qed simp

lemma find_no_duplicate: "\<forall>(b, i) \<in> set (sessions st). \<not> session_with partner i \<Longrightarrow> find_duplicate partner st = (False, st)"
proof -
  assume "\<forall>(b, i) \<in> set (sessions st). \<not> session_with partner i"
  then have "find (\<lambda>(_, i). session_with partner i) (sessions st) = None" by (auto simp: find_None_iff)
  then show ?thesis by (simp add: find_duplicate_def)
qed

lemma try_handshake_sends:
  assumes "parse_address env address = Inr a" "\<not> keeps_quiet now (session_at st a)" "own_der env = Inr der"
  shows "try_handshake env now address st = send_datagram env a
    ([msg_handshake_broadcast] @ index_bytes (magic_label env) @ [PROTOCOL_VERSION] @ put_buffer der []) st"
proof -
  have "\<not> (case map_of (sessions st) a of None \<Rightarrow> False | Some i \<Rightarrow> keeps_quiet now i)"
    using assms(2) by (auto simp: session_at_def split: option.splits)
  with assms(1,3) show ?thesis
    by (simp add: try_handshake_def handshake_message_def bind_step_def lift_step_def)
qed

text \<open>An address that is not kept quiet is served, with an entry that is not blocked and has no session.\<close>

lemma read_free:
  assumes ok: "transport_ok env st" and free: "\<not> keeps_quiet now (session_at st a)"
    and d: "d \<noteq> []" "d ! 0 \<in> {msg_handshake, msg_handshake_broadcast, msg_welcome, msg_failed}"
  obtains st0 where "read_datagram env now time rk a d st = handle_datagram env now time rk a d st0"
    "transport_ok env st0" "\<not> blocked (session_at st0 a)" "session (session_at st0 a) = None" "sent st0 = sent st"
    "client_calls st0 = client_calls st" "\<And>b i. (b, i) \<in> set (sessions st0) \<Longrightarrow> (b, i) \<in> set (sessions st) \<or> session i = None"
proof
  let ?i = "session_at st a"
  let ?j = "if blocked ?i then ?i\<lparr>blocked := False\<rparr> else ?i"
  let ?st1 = "put_session a ?i st"
  let ?st0 = "if blocked ?i then put_session a ?j ?st1 else ?st1"
  have entry: "entry_ok env ?i" using entry_ok_at [OF ok] .
  then have none: "session ?i = None" using free by (auto simp: entry_ok_def keeps_quiet_def split: if_splits)
  show "read_datagram env now time rk a d st = handle_datagram env now time rk a d ?st0"
    using free d by (auto simp: read_datagram_def Let_def keeps_quiet_def)
  have "transport_ok env ?st1" by (rule put_session_ok [OF ok entry])
  moreover have "entry_ok env ?j" using entry by (simp add: entry_ok_def)
  ultimately show "transport_ok env ?st0" by (cases "blocked ?i") (simp_all add: put_session_ok)
  show "\<not> blocked (session_at ?st0 a)" "session (session_at ?st0 a) = None" using none by simp_all
  show "sent ?st0 = sent st" "client_calls ?st0 = client_calls st" by (simp_all add: put_session_def)
  show "(b, i) \<in> set (sessions st) \<or> session i = None" if "(b, i) \<in> set (sessions ?st0)" for b i
    using that none by (auto simp: put_session_def split: if_splits dest!: in_map_put)
qed

text \<open>The answer to a handshake, and what the answer makes of the other node.\<close>

definition good_results :: "('pk, 'sk, 'a) transport_env \<Rightarrow> bool" where
  "good_results env \<longleftrightarrow> (\<forall>c. client_result env c = Inr ()) \<and> (\<forall>a d. send_result env a d = Inr ())"

lemma welcome_is_sent:
  assumes ok: "transport_ok env st" and free: "\<not> keeps_quiet now (session_at st a)"
    and new: "\<forall>(b, i) \<in> set (sessions st). \<not> session_with partner i" "partner \<noteq> own_id env"
    and key: "key_parse_der (transport_crypto env) pder = Inr k" "key_fingerprint (transport_crypto env) k = Inr partner"
      "encrypt_key env k rk = Inr c" "own_der env = Inr der" and small: "small_buffer pder"
    and good: "good_results env"
  shows "\<exists>st'. read_datagram env now time rk a
        ([msg_handshake_broadcast] @ index_bytes (magic_label env) @ [PROTOCOL_VERSION] @ put_buffer pder []) st = (Inr (), st')
    \<and> session (session_at st' a) = Some (new_protocol now time (own_id env) partner rk)
    \<and> sent st' = sent st @ [(a, [msg_welcome] @ index_bytes (magic_label env) @ put_buffer der [] @ put_buffer c [])]
    \<and> client_calls st' = client_calls st @ [Add_session a partner, On_new_session partner]"
proof -
  let ?d = "[msg_handshake_broadcast] @ index_bytes (magic_label env) @ [PROTOCOL_VERSION] @ put_buffer pder []"
  obtain st0 where st0: "read_datagram env now time rk a ?d st = handle_datagram env now time rk a ?d st0"
    "session (session_at st0 a) = None" "sent st0 = sent st" "client_calls st0 = client_calls st"
    and old: "\<And>b i. (b, i) \<in> set (sessions st0) \<Longrightarrow> (b, i) \<in> set (sessions st) \<or> session i = None"
    by (rule read_free [OF ok free, of ?d time rk]) auto
  have "\<not> session_with partner i" if "(b, i) \<in> set (sessions st0)" for b i
    using old [OF that] new(1) by (auto simp: session_with_def)
  then have "find_duplicate partner st0 = (False, st0)" by (intro find_no_duplicate) auto
  moreover have "bytes_at 1 (index_bytes (magic_label env) @ [PROTOCOL_VERSION]) ?d = Inr True"
    using bytes_at_prefix [of "[msg_handshake_broadcast]" "index_bytes (magic_label env) @ [PROTOCOL_VERSION]" "put_buffer pder []"]
    by simp
  moreover have "drop 6 ?d = put_buffer pder []" by simp
  moreover have "get_buffer (put_buffer pder []) = Inr (pder, [])" using buffer_codec.get_enc [OF small, of "[]"] by simp
  ultimately have "handle_datagram env now time rk a ?d st0 = answer_handshake env now time rk a k partner st0"
    using st0(2) key new(2)
    by (simp add: handle_datagram_def accept_handshake_def bind_step_def lift_step_def del: bytes_at.simps)
  moreover have "put_buffer c (put_buffer der []) = put_buffer der [] @ put_buffer c []"
    by (rule put_buffer_append) simp
  ultimately show ?thesis
    using key good st0
    by (simp add: answer_handshake_def bind_step_def modify_step_def lift_step_def call_client_def send_datagram_def
        good_results_def start_session_def)
qed

lemma welcome_accepted:
  assumes key: "key_parse_der (transport_crypto env) pder = Inr k" "key_fingerprint (transport_crypto env) k = Inr partner"
      "decrypt_key env (own_private_key env) c = Inr secret"
    and small: "small_buffer pder" "small_buffer c" and good: "good_results env"
  shows "\<exists>st'. accept_welcome env now time a
        ([msg_welcome] @ index_bytes (magic_label env) @ put_buffer pder [] @ put_buffer c []) st = (Inr (), st')
    \<and> session (session_at st' a) = Some (new_protocol now time (own_id env) partner secret)
    \<and> client_calls st' = client_calls st @ [Add_session a partner, On_new_session partner]"
proof -
  let ?d = "[msg_welcome] @ index_bytes (magic_label env) @ put_buffer pder [] @ put_buffer c []"
  have "drop 5 ?d = put_buffer pder [] @ put_buffer c []" "take 4 (drop 1 ?d) = index_bytes (magic_label env)" by simp_all
  moreover have "5 < length ?d"
    by (simp add: put_buffer_def push_data_def add_bytes_def write_number_def put_uint8_def add_byte_def Let_def)
  moreover have "get_buffer (put_buffer pder [] @ put_buffer c []) = Inr (pder, put_buffer c [])"
    "get_buffer (put_buffer c []) = Inr (c, [])"
    using buffer_codec.get_enc [OF small(1)] buffer_codec.get_enc [OF small(2), of "[]"] by simp_all
  ultimately have "accept_welcome env now time a ?d st =
      bind_step (modify_step (start_session env now time a partner secret)) (\<lambda>_.
      bind_step (call_client env (Add_session a partner)) (\<lambda>_. call_client env (On_new_session partner))) st"
    unfolding accept_welcome_def using key by (simp add: bind_step_def [of "lift_step _"] lift_step_def)
  with good show ?thesis
    by (simp add: bind_step_def modify_step_def call_client_def good_results_def start_session_def)
qed

lemma welcome_is_read:
  assumes ok: "transport_ok env st" and free: "\<not> keeps_quiet now (session_at st a)"
    and key: "key_parse_der (transport_crypto env) pder = Inr k" "key_fingerprint (transport_crypto env) k = Inr partner"
      "decrypt_key env (own_private_key env) c = Inr secret"
    and small: "small_buffer pder" "small_buffer c" and good: "good_results env"
  shows "\<exists>st'. read_datagram env now time rk a
        ([msg_welcome] @ index_bytes (magic_label env) @ put_buffer pder [] @ put_buffer c []) st = (Inr (), st')
    \<and> session (session_at st' a) = Some (new_protocol now time (own_id env) partner secret)
    \<and> client_calls st' = client_calls st @ [Add_session a partner, On_new_session partner]"
proof -
  let ?d = "[msg_welcome] @ index_bytes (magic_label env) @ put_buffer pder [] @ put_buffer c []"
  obtain st0 where st0: "read_datagram env now time rk a ?d st = handle_datagram env now time rk a ?d st0"
    "client_calls st0 = client_calls st"
    by (rule read_free [OF ok free, of ?d time rk]) auto
  moreover have "handle_datagram env now time rk a ?d st0 = accept_welcome env now time a ?d st0"
    by (simp add: handle_datagram_def)
  ultimately show ?thesis using welcome_accepted [OF key small good, of now time a st0] by simp
qed

text \<open>C18: Two nodes agree: the handshake of one makes the other answer, and with the answer each has a session
  with the identifier of the other and the same key, the one the answering node drew. So the session of
  one is the mirror of the session of the other, which is what the delivery of datagrams starts from. Relied
  on of the cryptography is that keys are read back and that the owner of a key decrypts what was
  encrypted with it.\<close>

theorem handshake_agrees:
  assumes ok: "transport_ok ea sa" "transport_ok eb sb"
    and free: "\<not> keeps_quiet now (session_at sa b)" "now \<le> now2" "\<not> keeps_quiet now1 (session_at sb a)"
    and new: "\<forall>(x, i) \<in> set (sessions sb). \<not> session_with (own_id ea) i" "own_id ea \<noteq> own_id eb"
    and network: "magic_label ea = magic_label eb" "parse_address ea address = Inr b"
    and keys: "own_der ea = Inr dera" "key_parse_der (transport_crypto eb) dera = Inr pka"
      "key_fingerprint (transport_crypto eb) pka = Inr (own_id ea)"
      "own_der eb = Inr derb" "key_parse_der (transport_crypto ea) derb = Inr pkb"
      "key_fingerprint (transport_crypto ea) pkb = Inr (own_id eb)"
      "encrypt_key eb pka rk = Inr c" "decrypt_key ea (own_private_key ea) c = Inr rk"
    and small: "small_buffer dera" "small_buffer derb" "small_buffer c"
    and good: "good_results ea" "good_results eb"
  shows "\<exists>m w sa1 sb1 sa2. try_handshake ea now address sa = (Inr (), sa1) \<and> sent sa1 = sent sa @ [(b, m)]
    \<and> read_datagram eb now1 time1 rk a m sb = (Inr (), sb1) \<and> sent sb1 = sent sb @ [(a, w)]
    \<and> read_datagram ea now2 time2 rk2 b w sa1 = (Inr (), sa2)
    \<and> session (session_at sb1 a) = Some (new_protocol now1 time1 (own_id eb) (own_id ea) rk)
    \<and> session (session_at sa2 b) = Some (new_protocol now2 time2 (own_id ea) (own_id eb) rk)
    \<and> client_calls sb1 = client_calls sb @ [Add_session a (own_id ea), On_new_session (own_id ea)]
    \<and> client_calls sa2 = client_calls sa @ [Add_session b (own_id eb), On_new_session (own_id eb)]"
proof -
  let ?m = "[msg_handshake_broadcast] @ index_bytes (magic_label ea) @ [PROTOCOL_VERSION] @ put_buffer dera []"
  let ?w = "[msg_welcome] @ index_bytes (magic_label eb) @ put_buffer derb [] @ put_buffer c []"
  let ?sa1 = "sa\<lparr>sent := sent sa @ [(b, ?m)]\<rparr>"
  have "try_handshake ea now address sa = (Inr (), ?sa1)"
    using try_handshake_sends [OF network(2) free(1) keys(1)] good(1) by (simp add: send_datagram_def good_results_def)
  moreover obtain sb1 where "read_datagram eb now1 time1 rk a ?m sb = (Inr (), sb1)" "sent sb1 = sent sb @ [(a, ?w)]"
    "session (session_at sb1 a) = Some (new_protocol now1 time1 (own_id eb) (own_id ea) rk)"
    "client_calls sb1 = client_calls sb @ [Add_session a (own_id ea), On_new_session (own_id ea)]"
    using welcome_is_sent [OF ok(2) free(3) new keys(2,3,7,4) small(1) good(2)] network(1) by metis
  moreover have "transport_ok ea ?sa1" using ok(1) by (simp add: transport_ok_def)
  moreover have "\<not> keeps_quiet now2 (session_at ?sa1 b)"
    using free(1,2) by (auto simp: keeps_quiet_def session_at_def split: if_splits)
  moreover note welcome_is_read [of ea ?sa1 now2 b derb pkb "own_id eb" c rk time2 rk2]
  ultimately show ?thesis using keys(5,6,8) small(2,3) good(1) network(1) by (simp del: append.simps)
qed

theorem handshake_agrees_witness:
  "\<exists>m w s1 s2 t1. try_handshake (numbered_node 1) 3 [0] new_transport = (Inr (), s1) \<and> sent s1 = [(1, m)]
    \<and> read_datagram (numbered_node 2) 4 4 (Data_buffer [8, 9]) 7 m new_transport = (Inr (), s2) \<and> sent s2 = [(7, w)]
    \<and> read_datagram (numbered_node 1) 5 5 (Data_buffer []) 1 w s1 = (Inr (), t1)
    \<and> session (session_at s2 7) = Some (new_protocol 4 4 (Data_buffer [2]) (Data_buffer [1]) (Data_buffer [8, 9]))
    \<and> session (session_at t1 1) = Some (new_protocol 5 5 (Data_buffer [1]) (Data_buffer [2]) (Data_buffer [8, 9]))"
  using handshake_agrees [of "numbered_node 1" new_transport "numbered_node 2" new_transport 3 1 5 4 7 "[0]" "Data_buffer [1]"
      "Data_buffer [1]" "Data_buffer [2]" "Data_buffer [2]" "Data_buffer [8, 9]" "Data_buffer [8, 9]" 4 5 "Data_buffer []"]
  by (simp add: numbered_node_def new_transport_def transport_ok_def session_at_def new_session_state_def keeps_quiet_def
      own_der_def small_buffer_def good_results_def) blast

lemma greeted_session: "session (session_at greeted 5) =
    Some (new_protocol 9 9 (Data_buffer [1]) (Data_buffer [2]) (Data_buffer [8])) \<and> \<not> blocked (session_at greeted 5)"
proof
  have "greeting = [msg_handshake_broadcast] @ index_bytes 0x56445331 @ [PROTOCOL_VERSION] @ put_buffer (Data_buffer [2]) []"
    by code_simp
  then show "session (session_at greeted 5) = Some (new_protocol 9 9 (Data_buffer [1]) (Data_buffer [2]) (Data_buffer [8]))"
    using welcome_is_sent [of "numbered_node 1" new_transport 9 5 "Data_buffer [2]" "Data_buffer [2]" "Data_buffer [2]"
        "Data_buffer [8]" "Data_buffer [8]" "Data_buffer [1]" 9]
    by (auto simp: numbered_node_def new_transport_def transport_ok_def session_at_def new_session_state_def keeps_quiet_def
        own_der_def small_buffer_def good_results_def start_magic_label_def)
  show "\<not> blocked (session_at greeted 5)" by code_simp
qed

lemma own_id_numbered: "own_id (numbered_node n) = Data_buffer [n]"
  by (simp add: numbered_node_def)

theorem sessions_stay_ok_witness:
  "is_set (map fst (sessions greeted))
    \<and> (\<exists>s. session (session_at greeted 5) = Some s \<and> this_node_id s = Data_buffer [1])"
proof -
  have reached: "transport_reaches (numbered_node 1) greeted" by (intro transport_reaches.read transport_reaches.start)
  have "map_of (sessions greeted) 5 \<noteq> None"
  proof
    assume "map_of (sessions greeted) 5 = None"
    then have "session (session_at greeted 5) = None" by (simp only: session_at_def option.case new_session_state_def
        session_state.simps)
    with greeted_session show False by (simp only: option.distinct simp_thms)
  qed
  then obtain i where i: "map_of (sessions greeted) 5 = Some i" by blast
  then have i': "session_at greeted 5 = i" "(5, i) \<in> set (sessions greeted)"
    by (simp_all only: session_at_def option.case map_of_SomeD)
  show ?thesis
    using sessions_stay_ok [OF reached, THEN conjunct2] sessions_stay_ok [OF reached, THEN conjunct1]
      greeted_session i' by (fastforce simp only: own_id_numbered)
qed

section \<open>A blocked address\<close>

definition calls_of :: "'a \<Rightarrow> 'a udp_transport \<Rightarrow> 'a client_call list" where
  "calls_of a st = filter (\<lambda>c. case c of Add_session b _ \<Rightarrow> b = a | Remove_session b _ \<Rightarrow> b = a | On_new_session _ \<Rightarrow> False)
     (client_calls st)"

definition sent_to :: "'a \<Rightarrow> 'a udp_transport \<Rightarrow> byte list list" where
  "sent_to a st = map snd (filter (\<lambda>(b, _). b = a) (sent st))"

text \<open>The entry stays, the client is not called for the address, only refusals are sent to it.\<close>

definition stays_quiet :: "'a \<Rightarrow> 'a udp_transport \<Rightarrow> 'a udp_transport \<Rightarrow> bool" where
  "stays_quiet a st st' \<longleftrightarrow> session_at st' a = session_at st a \<and> calls_of a st' = calls_of a st
     \<and> (\<exists>n. sent_to a st' = sent_to a st @ replicate n [msg_failed])"

interpretation quiet: step_relation "stays_quiet a"
proof
  show "stays_quiet a s s" for s
    unfolding stays_quiet_def by (intro conjI exI [of _ 0]) simp_all
  show "stays_quiet a s u" if "stays_quiet a s t" "stays_quiet a t u" for s t u
  proof -
    from that obtain n m where "sent_to a u = sent_to a s @ replicate n [msg_failed] @ replicate m [msg_failed]"
      by (auto simp: stays_quiet_def)
    then have "sent_to a u = sent_to a s @ replicate (n + m) [msg_failed]" by (simp add: replicate_add)
    with that show ?thesis unfolding stays_quiet_def by metis
  qed
qed

lemma quiet_same:
  "session_at st' a = session_at st a \<Longrightarrow> calls_of a st' = calls_of a st \<Longrightarrow> sent_to a st' = sent_to a st \<Longrightarrow> stays_quiet a st st'"
  unfolding stays_quiet_def by (intro conjI exI [of _ 0]) simp_all

lemma quiet_other:
  assumes "b \<noteq> a"
  shows "stays_quiet a st (put_session b i st)" "stays_quiet a st (call_remove b p st)"
    "stays_quiet a st (snd (send_datagram env b d st))"
    "stays_quiet a st (snd (call_client env (Add_session b p) st))"
    "stays_quiet a st (start_session env now time b p key st)"
  using assms
  by (auto intro!: quiet_same simp: calls_of_def sent_to_def call_remove_def send_datagram_def call_client_def start_session_def)

lemma quiet_new: "stays_quiet a st (snd (call_client env (On_new_session p) st))"
  by (rule quiet_same) (simp_all add: calls_of_def sent_to_def call_client_def)

lemma quiet_block: "b \<noteq> a \<Longrightarrow> stays_quiet a st (block_session now b st)"
  by (auto simp: block_session_def Let_def intro: quiet_other quiet.trans split: option.split)

lemma quiet_answer: "b \<noteq> a \<Longrightarrow> stays_quiet a st (snd (answer_handshake env now time rk b k p st))"
proof -
  assume b: "b \<noteq> a"
  have "stays_quiet a s (snd (bind_step (modify_step (put_session b i)) (\<lambda>_.
     bind_step (lift_step (encrypt_key env k rk)) (\<lambda>encrypted.
     bind_step (modify_step (start_session env now time b p rk)) (\<lambda>_.
     bind_step (lift_step (own_der env)) (\<lambda>der.
     bind_step (call_client env (Add_session b p)) (\<lambda>_.
     bind_step (send_datagram env b
         ([msg_welcome] @ index_bytes (magic_label env) @ put_buffer encrypted (put_buffer der []))) (\<lambda>_.
       call_client env (On_new_session p))))))) s))" for s i
    by (intro quiet.steps quiet_new quiet_other b)
  then show ?thesis unfolding answer_handshake_def .
qed

lemma quiet_handshake:
  assumes "b \<noteq> a" and ok: "transport_ok env st"
  shows "stays_quiet a st (snd (accept_handshake env now time rk b d st))"
proof -
  have "stays_quiet a st (snd (let (is_duplicate, st) = find_duplicate p st
      in if is_duplicate then (Inr (), st) else answer_handshake env now time rk b k p st))" for p k
  proof -
    obtain x where "find_duplicate p st = (x, st)" using find_duplicate_cases [OF ok] .
    with quiet_answer [OF assms(1), of st env now time rk k p] quiet.refl [of a st] show ?thesis by simp
  qed
  then show ?thesis
    by (auto simp: accept_handshake_def bind_step_def lift_step_def return_step_def quiet.refl split: sum.split)
qed

lemma quiet_welcome:
  assumes b: "b \<noteq> a"
  shows "stays_quiet a st (snd (accept_welcome env now time b d st))"
proof (cases "5 < length d \<and> take 4 (drop 1 d) = index_bytes (magic_label env)")
  case True
  show ?thesis unfolding accept_welcome_def if_P [OF True] split_beta by (intro quiet.steps quiet_new quiet_other b)
next
  case False
  show ?thesis unfolding accept_welcome_def if_not_P [OF False] by (rule quiet.basic)
qed

lemma quiet_session_datagram:
  assumes b: "b \<noteq> a"
  shows "stays_quiet a st (snd (session_datagram env now b d st))"
proof (cases "session (session_at st b)")
  case None
  with quiet.trans [OF quiet_block [OF b] quiet_other(3) [OF b]] show ?thesis by (simp add: session_datagram_def)
next
  case (Some s)
  obtain r s' where "process_datagram (session_env env b) now d s = (r, s')" by (metis surj_pair)
  with Some quiet_other(1) [OF b] quiet.trans [OF quiet.trans [OF quiet_other(1) [OF b] quiet_block [OF b]] quiet_other(3) [OF b]]
  show ?thesis by (cases r) (simp_all add: session_datagram_def Let_def)
qed

lemma quiet_read_other:
  assumes b: "b \<noteq> a" and ok: "transport_ok env st"
  shows "stays_quiet a st (snd (read_datagram env now time rk b d st))"
proof -
  let ?i = "session_at st b" and ?st = "put_session b (session_at st b) st"
  have ok1: "transport_ok env ?st" using put_session_ok [OF ok entry_ok_at [OF ok]] .
  have ok2: "transport_ok env (put_session b (?i\<lparr>blocked := False\<rparr>) ?st)"
    by (rule put_session_ok [OF ok1]) (use entry_ok_at [OF ok, of b] in \<open>simp add: entry_ok_def\<close>)
  have handle: "stays_quiet a t (snd (handle_datagram env now time rk b d t))" if "transport_ok env t" for t
    using that b by (simp add: handle_datagram_def quiet_handshake quiet_welcome quiet_block quiet_session_datagram)
  show ?thesis
    using quiet_other(1) [OF b, of st ?i] quiet.trans [OF quiet_other(1) [OF b, of st ?i] handle [OF ok1]]
      quiet.trans [OF quiet.trans [OF quiet_other(1) [OF b, of st ?i] quiet_other(1) [OF b]] handle [OF ok2]]
      quiet.trans [OF quiet_other(1) [OF b, of st ?i] quiet_other(3) [OF b, of ?st env "[msg_failed]"]]
    by (simp add: read_datagram_def Let_def)
qed

lemma quiet_read_blocked:
  assumes "blocked (session_at st a)" "now \<le> update_time (session_at st a) + 60000"
  shows "stays_quiet a st (snd (read_datagram env now time rk a d st))"
proof -
  let ?st = "put_session a (session_at st a) st"
  have 1: "stays_quiet a st ?st" by (rule quiet_same) (simp_all add: calls_of_def sent_to_def)
  have "stays_quiet a ?st (snd (send_datagram env a [msg_failed] ?st))"
    unfolding stays_quiet_def
    by (intro conjI exI [of _ 1]) (simp_all add: send_datagram_def calls_of_def sent_to_def)
  with 1 have "stays_quiet a st (snd (send_datagram env a [msg_failed] ?st))" by (rule quiet.trans)
  with 1 assms show ?thesis by (simp add: read_datagram_def Let_def)
qed

lemma quiet_continue_read:
  "transport_ok env st \<Longrightarrow> blocked (session_at st a) \<Longrightarrow>
     \<forall>(now, _, _, b, _) \<in> set ds. b = a \<longrightarrow> now \<le> update_time (session_at st a) + 60000 \<Longrightarrow>
     stays_quiet a st (snd (continue_read env ds st))"
proof (induction env ds st rule: continue_read.induct)
  case (1 env st)
  show ?case by (simp add: quiet.refl)
next
  case (2 env now time rk b d ds st)
  obtain r t where t: "read_datagram env now time rk b d st = (r, t)" by (metis surj_pair)
  have step: "stays_quiet a st t"
  proof (cases "b = a")
    case True
    with 2(3,4) quiet_read_blocked [of st a now env time rk d] t show ?thesis by simp
  next
    case False
    with quiet_read_other [OF False 2(2), of now time rk d] t show ?thesis by simp
  qed
  then have at: "session_at t a = session_at st a" by (simp add: stays_quiet_def)
  have "transport_ok env t" using read_datagram_ok [OF 2(2), of now time rk b d] t by simp
  with 2(1) [of "()" t] 2(3,4) at t have "stays_quiet a t (snd (continue_read env ds t))" if "r = Inr ()"
    using that by simp
  with step t show ?case by (cases r) (auto simp: bind_step_def intro: quiet.trans)
qed

text \<open>C20: A blocked address stays blocked for its minute: whatever arrives, from it and from others, in any
  order, it gets no session, the client hears nothing of it and all that is sent to it is the byte that
  refuses it.\<close>

theorem blocked_address_silent:
  assumes "transport_reaches env st" and "blocked (session_at st a)"
    and "\<forall>(now, _, _, b, _) \<in> set ds. b = a \<longrightarrow> now \<le> update_time (session_at st a) + 60000"
    and "continue_read env ds st = (r, st')"
  shows "session_at st' a = session_at st a \<and> session (session_at st' a) = None
    \<and> calls_of a st' = calls_of a st \<and> (\<exists>n. sent_to a st' = sent_to a st @ replicate n [msg_failed])"
  using quiet_continue_read [OF reaches_ok [OF assms(1)] assms(2,3)] entry_ok_at [OF reaches_ok [OF assms(1)], of a] assms(2,4)
  by (simp add: stays_quiet_def entry_ok_def)

text \<open>The address of a session is blocked when it sends a refusal.\<close>

abbreviation refused :: "nat udp_transport" where
  "refused \<equiv> snd (read_datagram (numbered_node 1) 10 10 (Data_buffer [8]) 5 [5] greeted)"

abbreviation later :: "nat arrival list" where
  "later \<equiv> [(20, 20, Data_buffer [9], 5, greeting), (30, 30, Data_buffer [9], 6, greeting), (40, 40, Data_buffer [9], 5, [0x20])]"

theorem blocked_address_silent_witness:
  "\<exists>r st'. continue_read (numbered_node 1) later refused = (r, st')
    \<and> session (session_at st' 5) = None \<and> calls_of 5 st' = calls_of 5 refused
    \<and> (\<exists>n. sent_to 5 st' = sent_to 5 refused @ replicate n [5])"
proof -
  have reach: "transport_reaches (numbered_node 1) refused" by (intro transport_reaches.read transport_reaches.start)
  have blk: "blocked (session_at refused 5)" by code_simp
  have "update_time (session_at refused 5) = 10" by code_simp
  then have times: "\<forall>(now, _, _, b, _) \<in> set later. b = 5 \<longrightarrow> now \<le> update_time (session_at refused 5) + 60000" by simp
  obtain r st' where run: "continue_read (numbered_node 1) later refused = (r, st')" by (rule prod.exhaust)
  from blocked_address_silent [OF reach blk times run] run show ?thesis by blast
qed

section \<open>What a stranger can do\<close>

text \<open>C21: One byte ends the reading: after a welcome that is cut off, or a handshake without a key, from an
  address that is not blocked, the read loop has returned with an error, and nothing that arrives later,
  from any node, is read.\<close>

theorem one_datagram_ends_reading:
  assumes "\<not> blocked (session_at st a)"
  shows "(\<exists>st'. \<forall>ds. continue_read env ((now, time, rk, a, [msg_welcome]) # ds) st
      = (Inl (Runtime_error ''Invalid protocol''), st'))
    \<and> (session (session_at st a) = None \<longrightarrow>
      (\<exists>e st'. \<forall>ds. continue_read env
        ((now, time, rk, a, [msg_handshake] @ index_bytes (magic_label env) @ [PROTOCOL_VERSION]) # ds) st = (Inl e, st')))"
proof (intro conjI impI)
  show "\<exists>st'. \<forall>ds. continue_read env ((now, time, rk, a, [msg_welcome]) # ds) st
      = (Inl (Runtime_error ''Invalid protocol''), st')"
    using assms by (simp add: bind_step_def read_datagram_def Let_def handle_datagram_def accept_welcome_def fail_step_def)
  let ?d = "[msg_handshake] @ index_bytes (magic_label env) @ [PROTOCOL_VERSION]"
  obtain e where "get_buffer [] = Inl e"
    by (auto simp: get_buffer_def read_number_def)
  moreover have "bytes_at 1 (index_bytes (magic_label env) @ [PROTOCOL_VERSION]) ?d = Inr True"
    using bytes_at_prefix [of "[msg_handshake]" "index_bytes (magic_label env) @ [PROTOCOL_VERSION]" "[]"] by simp
  moreover assume "session (session_at st a) = None"
  ultimately show "\<exists>e st'. \<forall>ds. continue_read env ((now, time, rk, a, ?d) # ds) st = (Inl e, st')"
    using assms
    by (simp add: bind_step_def read_datagram_def Let_def handle_datagram_def accept_handshake_def lift_step_def
        del: bytes_at.simps)
qed

theorem one_datagram_ends_reading_witness:
  "\<exists>st'. \<forall>ds. continue_read (numbered_node 1) ((20, 20, Data_buffer [9], 5, [2]) # ds) greeted
     = (Inl (Runtime_error ''Invalid protocol''), st')"
  using one_datagram_ends_reading [of greeted 5 "numbered_node 1" 20 20 "Data_buffer [9]"] greeted_session by blast

text \<open>C22: A welcome is accepted without a handshake: whoever can send in the name of an address replaces the
  session with it by one of its own, with a key of its choice and the counters back at the start. The old
  session is not taken out of the routing table.\<close>

theorem welcome_replaces_session:
  assumes "session (session_at st a) = Some s" "\<not> blocked (session_at st a)"
    and "key_parse_der (transport_crypto env) pder = Inr k" "key_fingerprint (transport_crypto env) k = Inr partner"
      "decrypt_key env (own_private_key env) c = Inr secret"
    and "small_buffer pder" "small_buffer c" "good_results env"
  shows "\<exists>st'. read_datagram env now time rk a
        ([msg_welcome] @ index_bytes (magic_label env) @ put_buffer pder [] @ put_buffer c []) st = (Inr (), st')
    \<and> session (session_at st' a) = Some (new_protocol now time (own_id env) partner secret)
    \<and> client_calls st' = client_calls st @ [Add_session a partner, On_new_session partner]"
proof -
  let ?d = "[msg_welcome] @ index_bytes (magic_label env) @ put_buffer pder [] @ put_buffer c []"
  have "read_datagram env now time rk a ?d st = accept_welcome env now time a ?d (put_session a (session_at st a) st)"
    using assms(2) by (simp add: read_datagram_def Let_def handle_datagram_def)
  with welcome_accepted [OF assms(3-8), of now time a "put_session a (session_at st a) st"] show ?thesis by simp
qed

theorem welcome_replaces_session_witness:
  "session (session_at greeted 5) = Some (new_protocol 9 9 (Data_buffer [1]) (Data_buffer [2]) (Data_buffer [8]))
    \<and> (\<exists>st'. read_datagram (numbered_node 1) 20 20 (Data_buffer []) 5
        ([2] @ index_bytes 0x56445331 @ put_buffer (Data_buffer [6]) [] @ put_buffer (Data_buffer [7]) []) greeted = (Inr (), st')
      \<and> session (session_at st' 5) = Some (new_protocol 20 20 (Data_buffer [1]) (Data_buffer [6]) (Data_buffer [7])))"
  using welcome_replaces_session [of greeted 5 _ "numbered_node 1" "Data_buffer [6]" "Data_buffer [6]" "Data_buffer [6]"
      "Data_buffer [7]" "Data_buffer [7]" 20 20 "Data_buffer []"] greeted_session
  by (auto simp: numbered_node_def small_buffer_def good_results_def start_magic_label_def)

end
