(* ===== verification/Dht_client.thy ===== *)
theory Dht_client
  imports Replica_storage
begin

text \<open>
  The messages of the network of nodes, in \<open>libs_server/vds_dht_network/impl/dht_network_client.cpp\<close> and
  \<open>dht_session.cpp\<close>: sending to a node or towards it, forwarding, looking for nodes, pings. What is handed to
  the sessions and to the transport is recorded in \<open>outgoing\<close>; \<open>packet_result\<close> is what they answer.
\<close>

section \<open>State\<close>

datatype 'a packet =
    Send_message "'a route_session" byte const_data_buffer const_data_buffer \<comment> \<open>type, target, message\<close>
  | Proxy_message "'a route_session" byte const_data_buffer "const_data_buffer list" const_data_buffer \<comment> \<open>type, target, hops, message\<close>
  | Process_pong "'a route_session" const_data_buffer u64 \<comment> \<open>node, delay\<close>
  | Handshake cstring
  | Handshake_broadcast
  | Transport_timer

record 'a dht_client =
  client_route :: "'a dht_route"
  update_route_table_counter :: u32
  outgoing :: "'a packet list"

record 'a client_env =
  packet_result :: "'a packet \<Rightarrow> unit expected"
  address_string :: "'a \<Rightarrow> cstring"
  random_byte :: "nat \<Rightarrow> nat \<Rightarrow> byte" \<comment> \<open>what \<open>std::rand\<close> gives while an identifier is drawn\<close>
  wellknown_enabled :: bool

type_synonym ('r, 'a) client_step = "('r, 'a dht_client) step"

definition new_client :: "const_data_buffer \<Rightarrow> 'a dht_client" where
  "new_client this_node_id = \<lparr>client_route = new_route this_node_id, update_route_table_counter = 0, outgoing = []\<rparr>"

definition put_packet :: "'a client_env \<Rightarrow> 'a packet \<Rightarrow> (unit, 'a) client_step" where
  "put_packet env p c = (packet_result env p, c\<lparr>outgoing := outgoing c @ [p]\<rparr>)"

section \<open>Sending\<close>

text \<open>The callbacks return \<open>false\<close> after the first node they were given.\<close>

definition send_data :: "'a client_env \<Rightarrow> const_data_buffer \<Rightarrow> byte \<Rightarrow> const_data_buffer expected \<Rightarrow> (unit, 'a) client_step" where
  "send_data env target mtype message c =
     bind_step (lift_step message) (\<lambda>msg c.
       for_near (client_route c) target 1 (\<lambda>_. Inr True) (\<lambda>candidate.
         bind_step (put_packet env (Send_message (proxy_session candidate) mtype target msg)) (\<lambda>_. return_step False)) c) c"

definition client_send :: "'a client_env \<Rightarrow> const_data_buffer \<Rightarrow> node_message \<Rightarrow> (unit, 'a) client_step" where
  "client_send env target m = send_data env target (message_type m) (message_serialize m)"

definition send_near :: "'a client_env \<Rightarrow> const_data_buffer \<Rightarrow> nat \<Rightarrow> node_message \<Rightarrow> ('a route_node \<Rightarrow> bool expected) \<Rightarrow>
    (unit, 'a) client_step" where
  "send_near env target max_count m filt c =
     bind_step (lift_step (message_serialize m)) (\<lambda>msg c.
       for_near (client_route c) target max_count filt (\<lambda>candidate.
         bind_step (put_packet env (Send_message (proxy_session candidate) (message_type m) (node_id candidate) msg))
           (\<lambda>_. return_step False)) c) c"

definition send_neighbors :: "'a client_env \<Rightarrow> node_message \<Rightarrow> (unit, 'a) client_step" where
  "send_neighbors env m c =
     bind_step (lift_step (message_serialize m)) (\<lambda>msg c.
       for_neighbors (client_route c) (\<lambda>candidate.
         bind_step (put_packet env (Send_message (proxy_session candidate) (message_type m) (node_id candidate) msg))
           (\<lambda>_. return_step True)) c) c"

definition find_nodes :: "'a client_env \<Rightarrow> const_data_buffer \<Rightarrow> (unit, 'a) client_step" where
  "find_nodes env target = send_neighbors env (Dht_find_node target)"

section \<open>Forwarding\<close>

text \<open>Of the nodes a message came over, the one nearest to the target; this node when none is nearer.\<close>

definition best_hop :: "const_data_buffer \<Rightarrow> const_data_buffer \<Rightarrow> const_data_buffer list \<Rightarrow> const_data_buffer" where
  "best_hop this target way =
     fold (\<lambda>item best. if dht_distance target item < dht_distance target best then item else best) way this"

definition forward :: "'a client_env \<Rightarrow> const_data_buffer \<Rightarrow> byte \<Rightarrow> const_data_buffer \<Rightarrow> const_data_buffer list \<Rightarrow>
    (unit, 'a) client_step" where
  "forward env target mtype message way c =
     for_near (client_route c) target 1 (\<lambda>n. Inr (session_partner (proxy_session n) \<notin> set way)) (\<lambda>candidate.
       if way = [] then fail_step (Undefined_behaviour ''hops[0]'')
       else bind_step (put_packet env (Proxy_message (proxy_session candidate) mtype target way message))
              (\<lambda>_. return_step False)) c"

text \<open>After more than ten hops the message goes back towards the last of them, with the list cut to one node.\<close>

definition client_proxy :: "'a client_env \<Rightarrow> const_data_buffer \<Rightarrow> byte \<Rightarrow> const_data_buffer \<Rightarrow> const_data_buffer list \<Rightarrow>
    (unit, 'a) client_step" where
  "client_proxy env target mtype message way c =
     (if 10 < length way
      then forward env (last way) mtype message [best_hop (current_node_id (client_route c)) target way] c
      else forward env target mtype message way c)"

text \<open>Every node a message came over is known from now on, over the session that delivered it; the count is
  cut to a byte.\<close>

fun add_routes :: "const_data_buffer list \<Rightarrow> nat \<Rightarrow> 'a route_session \<Rightarrow> 'a dht_route \<Rightarrow> 'a dht_route" where
  "add_routes [] i s r = r"
| "add_routes (n # ns) i s r = add_routes ns (Suc i) s (snd (add_node n s (word_of_nat i) False r))"

definition add_route :: "const_data_buffer list \<Rightarrow> 'a route_session \<Rightarrow> 'a dht_client \<Rightarrow> 'a dht_client" where
  "add_route nodes s c = c\<lparr>client_route := add_routes nodes 0 s (client_route c)\<rparr>"

definition client_remove_session :: "'a route_session \<Rightarrow> 'a dht_client \<Rightarrow> 'a dht_client" where
  "client_remove_session s c = c\<lparr>client_route := remove_session s (client_route c)\<rparr>"

section \<open>Messages of the routing table\<close>

text \<open>What a handler is given: the session, the type, the message and the nodes it came over, the sender last.\<close>

record 'a message_info =
  mi_session :: "'a route_session"
  mi_type :: byte
  mi_data :: const_data_buffer
  mi_hops :: "const_data_buffer list"

abbreviation source_node :: "'a message_info \<Rightarrow> const_data_buffer" where
  "source_node i \<equiv> last (mi_hops i)"

definition found_target :: "'a client_env \<Rightarrow> 'a route_node \<Rightarrow> target_node" where
  "found_target env n = \<lparr>tn_target_id = node_id n, tn_address = address_string env (node_address n), tn_hops = hops n\<rparr>"

definition apply_find_node :: "'a client_env \<Rightarrow> const_data_buffer \<Rightarrow> 'a message_info \<Rightarrow> (bool, 'a) client_step" where
  "apply_find_node env target info c =
     (case search_nodes (client_route c) target 70 (\<lambda>n. Inr (node_id n \<notin> set (mi_hops info))) [] of
        (Inl e, _) \<Rightarrow> (Inl e, c)
      | (Inr _, found) \<Rightarrow>
          let result = map (found_target env) (found_in_order found)
          in if result = [] then (Inr False, c)
             else bind_step (client_send env (source_node info) (Dht_find_node_response result)) (\<lambda>_. return_step True) c)"

fun apply_find_node_response :: "'a client_env \<Rightarrow> target_node list \<Rightarrow> 'a message_info \<Rightarrow> (bool, 'a) client_step" where
  "apply_find_node_response env [] info c = (Inr True, c)"
| "apply_find_node_response env (p # ps) info c =
     (if tn_target_id p = current_node_id (client_route c) then apply_find_node_response env ps info c
      else
        let (added, r) = add_node (tn_target_id p) (mi_session info)
              (tn_hops p + word_of_nat (length (mi_hops info)) + 1) True (client_route c);
            c = c\<lparr>client_route := r\<rparr>
        in if added
           then bind_step (put_packet env (Handshake (tn_address p))) (\<lambda>_. apply_find_node_response env ps info) c
           else apply_find_node_response env ps info c)"

text \<open>\<open>now\<close> is the steady clock in milliseconds.\<close>

definition apply_ping :: "'a client_env \<Rightarrow> u64 \<Rightarrow> u64 \<Rightarrow> 'a message_info \<Rightarrow> (bool, 'a) client_step" where
  "apply_ping env now ping_time info =
     bind_step (lift_step (message_serialize (Dht_pong \<lparr>dp_ping_time = ping_time, dp_pong_time = now\<rparr>))) (\<lambda>msg.
     bind_step (put_packet env (Send_message (mi_session info)
         (message_type (Dht_pong \<lparr>dp_ping_time = ping_time, dp_pong_time = now\<rparr>)) (source_node info) msg)) (\<lambda>_.
       return_step True))"

definition apply_pong :: "u64 \<Rightarrow> dht_pong \<Rightarrow> 'a message_info \<Rightarrow> (bool, 'a) client_step" where
  "apply_pong now m info c =
     (Inr True, c\<lparr>outgoing := outgoing c @ [Process_pong (mi_session info) (source_node info) (now - dp_ping_time m)],
        client_route := mark_pinged (source_node info) (session_address (mi_session info)) (client_route c)\<rparr>)"

text \<open>\<open>dht_session::ping_node\<close>.\<close>

definition ping_node :: "'a client_env \<Rightarrow> u64 \<Rightarrow> const_data_buffer \<Rightarrow> 'a route_session \<Rightarrow> unit expected" where
  "ping_node env now node s =
     get_expected (message_serialize (Dht_ping now)) (\<lambda>msg.
       packet_result env (Send_message s (message_type (Dht_ping now)) node msg))"

section \<open>The timer\<close>

text \<open>Ten rounds after another, a search for an identifier in every bucket.\<close>

fun find_random :: "'a client_env \<Rightarrow> nat list \<Rightarrow> (unit, 'a) client_step" where
  "find_random env [] c = (Inr (), c)"
| "find_random env (i # is) c =
     bind_step (lift_step (generate_random_id (random_byte env i) (current_node_id (client_route c)) i)) (\<lambda>candidate.
     bind_step (send_neighbors env (Dht_find_node candidate)) (\<lambda>_. find_random env is)) c"

definition update_route_table :: "'a client_env \<Rightarrow> (unit, 'a) client_step" where
  "update_route_table env c =
     (if update_route_table_counter c = 0 then
        bind_step (find_random env [0..<8 * buffer_size (current_node_id (client_route c))])
          (\<lambda>_. modify_step (\<lambda>c. c\<lparr>update_route_table_counter := 10\<rparr>)) c
      else (Inr (), c\<lparr>update_route_table_counter := update_route_table_counter c - 1\<rparr>))"

definition update_wellknown_connection :: "'a client_env \<Rightarrow> (cstring, int) table \<Rightarrow> final_task list" where
  "update_wellknown_connection env known =
     (if wellknown_enabled env then map (\<lambda>(address, _). Try_handshake address) known
      else [Try_handshake [0x75, 0x64, 0x70, 0x3A, 0x2F, 0x2F, 0x6C, 0x6F, 0x63, 0x61, 0x6C, 0x68, 0x6F, 0x73, 0x74,
              0x3A, 0x38, 0x30, 0x35, 0x30]]) \<comment> \<open>\<open>udp://localhost:8050\<close>\<close>
     @ [Broadcast_handshake]"

section \<open>Running what was put off\<close>

text \<open>The results of handshakes are ignored.\<close>

fun run_task :: "'a client_env \<Rightarrow> final_task \<Rightarrow> (unit, 'a) client_step" where
  "run_task env (Send target m) c = client_send env target m c"
| "run_task env (Send_neighbors m) c = send_neighbors env m c"
| "run_task env (Send_near target n m) c = send_near env target n m (\<lambda>node. Inr (hops node = 0)) c"
| "run_task env (Try_handshake address) c = (Inr (), snd (put_packet env (Handshake address) c))"
| "run_task env Broadcast_handshake c = (Inr (), snd (put_packet env Handshake_broadcast c))"

fun run_tasks :: "'a client_env \<Rightarrow> final_task list \<Rightarrow> (unit, 'a) client_step" where
  "run_tasks env [] c = (Inr (), c)"
| "run_tasks env (t # ts) c = bind_step (run_task env t) (\<lambda>_. run_tasks env ts) c"

section \<open>New sessions\<close>

definition now_or_insert :: "string \<Rightarrow> 'k \<Rightarrow> int \<Rightarrow> ('k, int) table \<Rightarrow> ('k, int) table expected" where
  "now_or_insert name k now t =
     (if table_select t k \<noteq> None then Inr (update_key k (\<lambda>_. now) t) else table_insert name k now t)"

text \<open>The body of the transaction of \<open>add_session\<close>: the address is well known now, the node was active.\<close>

definition note_session :: "('pk, 'sk) node_env \<Rightarrow> cstring \<Rightarrow> const_data_buffer \<Rightarrow> 'pk \<Rightarrow> node_state \<Rightarrow> (unit \<times> node_state) expected" where
  "note_session env address partner partner_key s =
     (let now = env_now (node_log env); db = log_database s
      in get_expected (now_or_insert ''well_known_node'' address now (well_known_nodes s)) (\<lambda>known.
         get_expected
           (case table_select (node_infos db) partner of
              Some row \<Rightarrow> Inr (if ni_last_activity row < now
                then update_key partner (\<lambda>r. r\<lparr>ni_last_activity := now\<rparr>) (node_infos db) else node_infos db)
            | None \<Rightarrow>
                get_expected (key_der (env_crypto (node_log env)) partner_key) (\<lambda>der.
                  table_insert ''node_info_dbo'' partner \<lparr>ni_public_key = der, ni_last_activity = now\<rparr> (node_infos db)))
           (\<lambda>infos. Inr ((), s\<lparr>well_known_nodes := known, log_database := db\<lparr>node_infos := infos\<rparr>\<rparr>))))"

end
