(* ===== verification/Node_client.thy ===== *)
theory Node_client
  imports Dht_client
begin

text \<open>
  What a node does about replicas on its own and for others: the replica part of
  \<open>libs_server/vds_dht_network/impl/sync_process.cpp\<close>, with \<open>client::save\<close> and \<open>client::load_keys\<close> of
  \<open>dht_network_client.cpp\<close>. The generation of keys and their private form are parameters.
\<close>

section \<open>State\<close>

record ('pk, 'sk) node_client =
  store :: node_state
  node_public_key :: "'pk option"
  node_key :: "'sk option"
  is_new_node :: bool
  sync_replicas_timeout :: int

record ('pk, 'sk) node_client_env =
  store_env :: "('pk, 'sk) node_env"
  generate_private_key :: "'sk expected"
  public_key_of :: "'sk \<Rightarrow> 'pk expected"
  private_key_der :: "'sk \<Rightarrow> const_data_buffer expected"
  private_key_parse :: "const_data_buffer \<Rightarrow> 'sk expected"
  root_id :: const_data_buffer \<comment> \<open>\<open>keys_control::root_id()\<close>\<close>
  save_fuel :: nat

abbreviation client_log_env :: "('pk, 'sk) node_client_env \<Rightarrow> ('pk, 'sk) log_env" where
  "client_log_env env \<equiv> node_log (store_env env)"

abbreviation client_crypto :: "('pk, 'sk) node_client_env \<Rightarrow> ('pk, 'sk) crypto" where
  "client_crypto env \<equiv> env_crypto (client_log_env env)"

type_synonym ('r, 'pk, 'sk) node_step = "('r, ('pk, 'sk) node_client) step"

definition empty_node_state :: node_state where
  "empty_node_state = \<lparr>log_database = empty_database, node_storages = [], local_datas = [], tmp_datas = [],
     well_known_nodes = [], config_keys = [], node_files = (\<lambda>_. None)\<rparr>"

definition new_node_client :: "node_state \<Rightarrow> ('pk, 'sk) node_client" where
  "new_node_client s = \<lparr>store = s, node_public_key = None, node_key = None, is_new_node = True, sync_replicas_timeout = 0\<rparr>"

text \<open>Steps on the tables and files, and on the log; an error of the log takes the transaction with it, so its
  tables are left as they were.\<close>

definition on_store :: "('r, node_state) step \<Rightarrow> ('r, 'pk, 'sk) node_step" where
  "on_store m c = (let (r, s) = m (store c) in (r, c\<lparr>store := s\<rparr>))"

definition on_log :: "(database \<Rightarrow> ('r \<times> database) expected) \<Rightarrow> ('r, 'pk, 'sk) node_step" where
  "on_log body c =
     (let (r, db) = async_transaction body (log_database (store c)) in (r, c\<lparr>store := (store c)\<lparr>log_database := db\<rparr>\<rparr>))"

text \<open>The transaction around them takes back the tables, not the files and not the members.\<close>

definition client_transaction :: "('r, 'pk, 'sk) node_step \<Rightarrow> ('r, 'pk, 'sk) node_step" where
  "client_transaction body c =
     (case body c of
        (Inl e, c') \<Rightarrow> (Inl e, c'\<lparr>store := (store c)\<lparr>node_files := node_files (store c')\<rparr>\<rparr>)
      | (Inr x, c') \<Rightarrow> (Inr x, c'))"

section \<open>The keys of the node\<close>

definition insert_config :: "const_data_buffer \<Rightarrow> const_data_buffer \<Rightarrow> const_data_buffer \<Rightarrow> (unit, node_state) step" where
  "insert_config i public private s =
     (case table_insert ''current_config'' i (public, private) (config_keys s) of
        Inl e \<Rightarrow> (Inl e, s) | Inr t \<Rightarrow> (Inr (), s\<lparr>config_keys := t\<rparr>))"

definition insert_storage :: "const_data_buffer \<Rightarrow> node_storage \<Rightarrow> (unit, node_state) step" where
  "insert_storage i st s =
     (case table_insert ''node_storage_dbo'' i st (node_storages s) of
        Inl e \<Rightarrow> (Inl e, s) | Inr t \<Rightarrow> (Inr (), s\<lparr>node_storages := t\<rparr>))"

definition storage_folder :: "('pk, 'sk) node_client_env \<Rightarrow> cstring" where
  "storage_folder env = join_path (root_folder (store_env env)) [0x73, 0x74, 0x6F, 0x72, 0x61, 0x67, 0x65]"

definition create_keys :: "('pk, 'sk) node_client_env \<Rightarrow> (unit, 'pk, 'sk) node_step" where
  "create_keys env =
     bind_step (lift_step (generate_private_key env)) (\<lambda>key.
     bind_step (modify_step (\<lambda>c. c\<lparr>node_key := Some key\<rparr>)) (\<lambda>_.
     bind_step (lift_step (public_key_of env key)) (\<lambda>public.
     bind_step (lift_step (key_fingerprint (client_crypto env) public)) (\<lambda>key_id.
     bind_step (modify_step (\<lambda>c. c\<lparr>node_public_key := Some public\<rparr>)) (\<lambda>_.
     bind_step (lift_step (key_der (client_crypto env) public)) (\<lambda>public_der.
     bind_step (lift_step (private_key_der env key)) (\<lambda>key_der.
     bind_step (on_store (insert_config key_id public_der key_der)) (\<lambda>_.
     bind_step (lift_step (hash_signature (client_crypto env)
         (Data_buffer (put_string (storage_folder env) (put_buffer (root_id env) (put_buffer key_id [])))))) (\<lambda>storage_id.
       on_store (insert_storage storage_id \<lparr>st_local_path = storage_folder env, st_owner_id = root_id env,
         st_reserved_size = 1024 * 1024 * 1024, st_usage_type = Share\<rparr>))))))))))"

definition load_keys :: "('pk, 'sk) node_client_env \<Rightarrow> (unit, 'pk, 'sk) node_step" where
  "load_keys env c =
     (case config_keys (store c) of
        (_, (public, private)) # _ \<Rightarrow>
          bind_step (lift_step (key_parse_der (client_crypto env) public)) (\<lambda>key.
          bind_step (modify_step (\<lambda>c. c\<lparr>node_public_key := Some key\<rparr>)) (\<lambda>_.
          bind_step (lift_step (private_key_parse env private)) (\<lambda>key.
            modify_step (\<lambda>c. c\<lparr>node_key := Some key\<rparr>)))) c
      | [] \<Rightarrow> create_keys env c)"

section \<open>Saving a block\<close>

text \<open>\<open>walk_messages\<close> with a handler that changes the node: what was done before an error stays.\<close>

function walk_messages :: "('pk, 'sk) crypto \<Rightarrow> ('pk transaction_message \<Rightarrow> (bool, 's) step) \<Rightarrow> binary_deserializer \<Rightarrow> (bool, 's) step" where
  "walk_messages cr visit d s =
     (if d = [] then (Inr True, s)
      else case get_expected (get_uint8 d) (\<lambda>(message_id, d). get_message cr message_id d) of
        Inl e \<Rightarrow> (Inl e, s)
      | Inr (message, d) \<Rightarrow>
          bind_step (visit message) (\<lambda>go_on. if go_on then walk_messages cr visit d else return_step False) s)"
  by pat_completeness auto
termination
proof (relation "measure (\<lambda>(cr, visit, d, s). length d)", goal_cases)
  case (2 cr visit d s a message d2 b t)
  then obtain i d1 where d1: "get_uint8 d = Inr (i, d1)" "get_message cr i d1 = Inr (message, d2)"
    by (auto simp: expected_simps)
  then have "length d1 < length d" using 2(1) by (cases d) auto
  moreover have "length d2 \<le> length d1" using d1(2) consumes_message [of cr i] unfolding consumes_def by blast
  ultimately show ?case by simp
qed simp

declare walk_messages.simps [simp del]

definition delete_tmp_data :: "const_data_buffer \<Rightarrow> (unit, node_state) step" where
  "delete_tmp_data p = modify_step (\<lambda>s. s\<lparr>tmp_datas := delete_key p (tmp_datas s)\<rparr>)"

text \<open>A replica from the temporary folder becomes one of the node.\<close>

definition keep_tmp_replica :: "('pk, 'sk) node_env \<Rightarrow> const_data_buffer \<Rightarrow> const_data_buffer \<Rightarrow> (unit, node_state) step" where
  "keep_tmp_replica env owner p s =
     (if table_select (tmp_datas s) p = None then (Inr (), s)
      else
        let fn = join_path (tmp_folder env) (append_path p)
        in bind_step
             (if node_files s fn \<noteq> None then bind_step (save_file env p fn owner) (\<lambda>_. return_step ()) else return_step ())
             (\<lambda>_. delete_tmp_data p) s)"

fun keep_tmp_replicas :: "('pk, 'sk) node_env \<Rightarrow> const_data_buffer \<Rightarrow> const_data_buffer list \<Rightarrow>
    (unit, const_data_buffer list \<times> node_state) step" where
  "keep_tmp_replicas env owner [] (seen, s) = (Inr (), (seen, s))"
| "keep_tmp_replicas env owner (p # ps) (seen, s) =
     (if p \<in> set seen then keep_tmp_replicas env owner ps (seen, s)
      else case keep_tmp_replica env owner p s of
        (Inl e, s) \<Rightarrow> (Inl e, (set_emplace p seen, s))
      | (Inr _, s) \<Rightarrow> keep_tmp_replicas env owner ps (set_emplace p seen, s))"

definition visit_store_block :: "('pk, 'sk) node_env \<Rightarrow> 'pk transaction_message \<Rightarrow> (bool, const_data_buffer list \<times> node_state) step" where
  "visit_store_block env m =
     (case m of
        Store_block b \<Rightarrow> bind_step (keep_tmp_replicas env (sb_owner_id b) (sb_replicas b)) (\<lambda>_. return_step True)
      | _ \<Rightarrow> return_step True)"

definition walk_block :: "('pk, 'sk) node_env \<Rightarrow> transaction_block \<Rightarrow> (bool, node_state) step" where
  "walk_block env b s =
     (let (r, (_, s)) = walk_messages (env_crypto (node_log env)) (visit_store_block env) (buffer_data (tb_messages b)) ([], s)
      in (r, s))"

text \<open>The first block of a node introduces it. The flag is cleared before the block is saved.\<close>

definition introduce_node :: "('pk, 'sk) node_client_env \<Rightarrow> 'pk \<Rightarrow> binary_serializer \<Rightarrow> (binary_serializer, 'pk, 'sk) node_step" where
  "introduce_node env public block c =
     (if \<not> is_new_node c then (Inr block, c)
      else
        bind_step (lift_step (key_fingerprint (client_crypto env) public)) (\<lambda>i c.
        bind_step
          (lift_step
            (if table_select (node_infos (log_database (store c))) i = None
             then add_transaction (client_crypto env) (Inr (Node_add \<lparr>na_node_public_key = public\<rparr>)) block
             else Inr block))
          (\<lambda>block. bind_step (modify_step (\<lambda>c. c\<lparr>is_new_node := False\<rparr>)) (\<lambda>_. return_step block)) c) c)"

definition client_save :: "('pk, 'sk) node_client_env \<Rightarrow> binary_serializer \<Rightarrow> bool \<Rightarrow> (const_data_buffer, 'pk, 'sk) node_step" where
  "client_save env block allow_root c =
     bind_step (case node_public_key c of None \<Rightarrow> load_keys env | Some _ \<Rightarrow> return_step ()) (\<lambda>_ c.
       case node_public_key c of
         None \<Rightarrow> (Inl (Undefined_behaviour ''node_public_key_''), c)
       | Some public \<Rightarrow>
           bind_step (introduce_node env public block) (\<lambda>block c.
             case node_key c of
               None \<Rightarrow> (Inl (Undefined_behaviour ''node_key_''), c)
             | Some key \<Rightarrow>
                 bind_step (lift_step (block_build (client_crypto env) (env_now (client_log_env env)) (log_database (store c))
                     (Data_buffer block) public key)) (\<lambda>data.
                 bind_step (lift_step (block_create (client_crypto env) data)) (\<lambda>b.
                 bind_step (on_store (walk_block (store_env env) b)) (\<lambda>_.
                   on_log (save_block (save_fuel env) (client_log_env env) data allow_root)))) c) c) c"

section \<open>Replicas asked for and sent\<close>

text \<open>\<open>local_data_dbo\<close> joined with the storages and \<open>chunk_replica_data_dbo\<close>: folder, path, owner, object,
  replica.\<close>

definition replica_rows :: "const_data_buffer \<Rightarrow> node_state \<Rightarrow>
    (cstring \<times> cstring \<times> const_data_buffer \<times> const_data_buffer \<times> u16) list" where
  "replica_rows h s =
     concat (map (\<lambda>((h', owner), ld).
       if h' = h then
         concat (map (\<lambda>(i, st).
           if i = ld_storage_id ld then
             map (\<lambda>((_, object_hash, replica), _). (st_local_path st, ld_storage_path ld, owner, object_hash, replica))
               (filter (\<lambda>(_, row). rd_replica_hash row = h) (replica_data (log_database s)))
           else []) (node_storages s))
       else []) (local_datas s))"

definition apply_replica_request :: "const_data_buffer \<Rightarrow> const_data_buffer \<Rightarrow> (bool \<times> final_task list, node_state) step" where
  "apply_replica_request object_id source s =
     (case replica_rows object_id s of
        [] \<Rightarrow> (Inr (True, []), s)
      | (local_path, storage_path, owner, object_hash, replica) # _ \<Rightarrow>
          bind_step (file_read_all (join_path local_path storage_path)) (\<lambda>data.
            return_step (True, [Send source (Sync_replica_data \<lparr>sd_object_id = object_id, sd_data = data, sd_owner = owner,
              sd_value_id = object_hash, sd_replica = replica\<rparr>)])) s)"

definition apply_replica_data :: "('pk, 'sk) node_env \<Rightarrow> sync_replica_data \<Rightarrow> (bool \<times> final_task list, node_state) step" where
  "apply_replica_data env m s =
     (if sd_object_id m \<in> fst ` table_keys (local_datas s) then (Inr (False, []), s)
      else
        bind_step (lift_step (hash_signature (env_crypto (node_log env)) (sd_data m))) (\<lambda>data_hash.
          assert_step (data_hash = sd_object_id m) ''data_hash == message.object_id''
            (bind_step (save_received env data_hash (sd_data m) (sd_owner m)) (\<lambda>_. return_step (True, [])))) s)"

section \<open>The round of the timer\<close>

text \<open>\<open>std::map<node, std::set<replica>>\<close> of an object.\<close>

type_synonym replica_nodes = "(const_data_buffer \<times> u16 list) list"

definition object_nodes :: "database \<Rightarrow> const_data_buffer \<Rightarrow> replica_nodes" where
  "object_nodes db object_hash =
     fold (\<lambda>(replica, node) m.
         map_put node (set_emplace replica (case map_of m node of None \<Rightarrow> [] | Some rs \<Rightarrow> rs)) m)
       (concat (map (\<lambda>((_, o', replica), row).
          if o' = object_hash
          then map (\<lambda>((_, node), _). (replica, node)) (filter (\<lambda>((h, _), _). h = rd_replica_hash row) (replica_map db))
          else []) (replica_data db))) []"

definition stored_nodes :: "replica_nodes \<Rightarrow> u16 \<Rightarrow> const_data_buffer list" where
  "stored_nodes nodes replica = map fst (filter (\<lambda>(_, rs). replica \<in> set rs) nodes)"

text \<open>The hashes of the replicas of an object, in order, up to the first that is missing.\<close>

fun consecutive_replicas :: "nat \<Rightarrow> (u16 \<times> const_data_buffer) list \<Rightarrow> const_data_buffer list" where
  "consecutive_replicas n [] = []"
| "consecutive_replicas n ((replica, h) # rows) =
     (if n \<noteq> unat replica then [] else h # consecutive_replicas (Suc n) rows)"

definition object_replicas :: "database \<Rightarrow> const_data_buffer \<Rightarrow> const_data_buffer list" where
  "object_replicas db object_hash =
     consecutive_replicas 0 (sort_key fst
       (map (\<lambda>((_, _, replica), row). (replica, rd_replica_hash row))
         (filter (\<lambda>((_, o', _), _). o' = object_hash) (replica_data db))))"

record sync_round =
  requested_objects :: "const_data_buffer list"
  nodes_of_objects :: "(const_data_buffer \<times> replica_nodes) list"

text \<open>The body of the loop for one row, with the tasks it pushes.\<close>

definition announce_replica :: "('pk, 'sk) node_client_env \<Rightarrow> const_data_buffer \<Rightarrow> const_data_buffer \<Rightarrow> (unit, 'pk, 'sk) node_step" where
  "announce_replica env owner replica_hash =
     bind_step (lift_step (add_transaction (client_crypto env)
         (Inr (Host_block \<lparr>hb_owner_id = owner, hb_replica_hash = replica_hash\<rparr>)) [])) (\<lambda>playload.
     bind_step (client_save env playload False) (\<lambda>_. return_step ()))"

definition restore_missing :: "('pk, 'sk) node_client_env \<Rightarrow> const_data_buffer \<Rightarrow> const_data_buffer \<Rightarrow> (final_task list, 'pk, 'sk) node_step" where
  "restore_missing env owner object_hash c =
     bind_step (on_store (restore_async (store_env env) True (object_replicas (log_database (store c)) object_hash)))
       (\<lambda>(result, _, tasks).
         bind_step
           (case result of
              Some d \<Rightarrow> if 0 < buffer_size d then on_store (save_object (store_env env) d owner) else return_step ()
            | None \<Rightarrow> return_step ())
           (\<lambda>_. return_step tasks)) c"

definition sync_row :: "('pk, 'sk) node_client_env \<Rightarrow> (const_data_buffer \<times> const_data_buffer \<times> u16) \<times> replica_row \<Rightarrow>
    sync_round \<Rightarrow> (final_task list \<times> sync_round, 'pk, 'sk) node_step" where
  "sync_row env row round c =
     (let ((owner, object_hash, replica), r) = row;
          h = rd_replica_hash r;
          nodes = (case map_of (nodes_of_objects round) object_hash of
                     None \<Rightarrow> object_nodes (log_database (store c)) object_hash | Some m \<Rightarrow> m);
          round = round\<lparr>nodes_of_objects := map_put object_hash nodes (nodes_of_objects round)\<rparr>;
          stored = stored_nodes nodes replica
      in if stored = [] \<or> length nodes < unat GENERATE_HORCRUX \<and> env_node_id (client_log_env env) \<notin> set stored then
           if replica_places h (store c) \<noteq> [] then
             bind_step (announce_replica env owner h) (\<lambda>_. return_step ([], round)) c
           else if stored \<noteq> [] then (Inr (map (request_replica h) stored, round), c)
           else if object_hash \<notin> set (requested_objects round) then
             bind_step (restore_missing env owner object_hash) (\<lambda>tasks.
               return_step (tasks, round\<lparr>requested_objects := set_emplace object_hash (requested_objects round)\<rparr>)) c
           else (Inr ([], round), c)
         else (Inr ([], round), c))"

fun sync_rows :: "('pk, 'sk) node_client_env \<Rightarrow> ((const_data_buffer \<times> const_data_buffer \<times> u16) \<times> replica_row) list \<Rightarrow>
    sync_round \<Rightarrow> (final_task list, 'pk, 'sk) node_step" where
  "sync_rows env [] round c = (Inr [], c)"
| "sync_rows env (row # rows) round c =
     bind_step (sync_row env row round) (\<lambda>(tasks, round).
     bind_step (sync_rows env rows round) (\<lambda>more. return_step (tasks @ more))) c"

text \<open>The rows are those there are when the query starts; \<open>sync_replicas_timeout_++ == 30\<close>.\<close>

definition sync_replicas :: "('pk, 'sk) node_client_env \<Rightarrow> (final_task list, 'pk, 'sk) node_step" where
  "sync_replicas env c =
     (let n = sync_replicas_timeout c; c = c\<lparr>sync_replicas_timeout := n + 1\<rparr>
      in if n = 30
         then sync_rows env (sort_key (\<lambda>(_, row). rd_distance row) (replica_data (log_database (store c))))
                \<lparr>requested_objects = [], nodes_of_objects = []\<rparr> c
         else (Inr [], c))"

definition do_sync :: "('pk, 'sk) node_client_env \<Rightarrow> (final_task list, 'pk, 'sk) node_step" where
  "do_sync env = sync_replicas env"

definition process_update :: "'a client_env \<Rightarrow> ('pk, 'sk) node_client_env \<Rightarrow> (final_task list, 'pk, 'sk) node_step" where
  "process_update cenv env =
     bind_step (do_sync env) (\<lambda>tasks c.
       (Inr (tasks @ update_wellknown_connection cenv (well_known_nodes (store c))), c))"

section \<open>Messages\<close>

text \<open>A node of the network: its routes and what it keeps.\<close>

record ('a, 'pk, 'sk) network_node =
  nn_client :: "'a dht_client"
  nn_store :: "('pk, 'sk) node_client"

definition on_client :: "('r, 'a) client_step \<Rightarrow> ('r, ('a, 'pk, 'sk) network_node) step" where
  "on_client m n = (let (r, c) = m (nn_client n) in (r, n\<lparr>nn_client := c\<rparr>))"

definition on_node :: "('r, 'pk, 'sk) node_step \<Rightarrow> ('r, ('a, 'pk, 'sk) network_node) step" where
  "on_node m n = (let (r, c) = m (nn_store n) in (r, n\<lparr>nn_store := c\<rparr>))"

text \<open>The messages whose handlers run in a transaction and put off what they send.\<close>

definition apply_in_transaction :: "('pk, 'sk) node_client_env \<Rightarrow> const_data_buffer \<Rightarrow> node_message \<Rightarrow>
    (bool \<times> final_task list, 'pk, 'sk) node_step" where
  "apply_in_transaction env source m =
     client_transaction
       (case m of
          Transaction_log_state m \<Rightarrow> on_log (\<lambda>db. get_expected (apply_log_state (client_log_env env) m db) (\<lambda>(r, t, db). Inr ((r, t), db)))
        | Transaction_log_request m \<Rightarrow> on_log (\<lambda>db. get_expected (apply_log_request m db) (\<lambda>(r, t, db). Inr ((r, t), db)))
        | Transaction_log_record m \<Rightarrow> on_log (\<lambda>db.
            get_expected (apply_log_record (save_fuel env) (client_log_env env) source m db) (\<lambda>(r, t, db). Inr ((r, t), db)))
        | Sync_replica_request h \<Rightarrow> on_store (apply_replica_request h source)
        | Sync_replica_data m \<Rightarrow> on_store (apply_replica_data (store_env env) m)
        | _ \<Rightarrow> fail_step (Runtime_error ''Invalid command''))"

text \<open>\<open>process_message\<close> of \<open>message_map.cpp\<close>; \<open>now\<close> is the steady clock.\<close>

definition server_process_message :: "'a client_env \<Rightarrow> ('pk, 'sk) node_client_env \<Rightarrow> u64 \<Rightarrow> 'a message_info \<Rightarrow>
    (bool, ('a, 'pk, 'sk) network_node) step" where
  "server_process_message cenv env now info =
     bind_step (lift_step (message_deserialize (mi_type info) (mi_data info))) (\<lambda>message.
       case message of
         Dht_find_node target \<Rightarrow> on_client (apply_find_node cenv target info)
       | Dht_find_node_response nodes \<Rightarrow> on_client (apply_find_node_response cenv nodes info)
       | Dht_ping time \<Rightarrow> on_client (apply_ping cenv now time info)
       | Dht_pong m \<Rightarrow> on_client (apply_pong now m info)
       | m \<Rightarrow>
           bind_step (on_node (apply_in_transaction env (source_node info) m)) (\<lambda>(result, tasks).
           bind_step (on_client (run_tasks cenv tasks)) (\<lambda>_. return_step result)))"

text \<open>\<open>dht_session::process_message\<close>: the nodes the message came over become routes; a message for another
  node is passed on.\<close>

definition session_process_message :: "'a client_env \<Rightarrow> ('pk, 'sk) node_client_env \<Rightarrow> u64 \<Rightarrow> const_data_buffer \<Rightarrow> 'a message_info \<Rightarrow>
    (bool, ('a, 'pk, 'sk) network_node) step" where
  "session_process_message cenv env now target info n =
     (if mi_hops info = [] then (Inl (Undefined_behaviour ''hops.back()''), n)
      else
        bind_step (on_client (modify_step (add_route (mi_hops info) (mi_session info)))) (\<lambda>_ n.
          if target \<noteq> current_node_id (client_route (nn_client n)) then
            bind_step (on_client (client_proxy cenv target (mi_type info) (mi_data info) (mi_hops info)))
              (\<lambda>_. return_step True) n
          else server_process_message cenv env now info n) n)"

section \<open>Timer and sessions\<close>

text \<open>The body of the timer of \<open>_client::start\<close>. The pings of the routing table are not recorded in
  \<open>outgoing\<close>.\<close>

definition client_timer :: "'a client_env \<Rightarrow> ('pk, 'sk) node_client_env \<Rightarrow> u64 \<Rightarrow> (unit, ('a, 'pk, 'sk) network_node) step" where
  "client_timer cenv env now =
     bind_step (on_client (put_packet cenv Transport_timer)) (\<lambda>_.
     bind_step (on_client (\<lambda>c.
         let (r, route) = route_on_timer (ping_node cenv now) (client_route c) in (r, c\<lparr>client_route := route\<rparr>))) (\<lambda>_.
     bind_step (on_client (update_route_table cenv)) (\<lambda>_.
     bind_step (on_node (client_transaction (process_update cenv env))) (\<lambda>tasks.
       on_client (run_tasks cenv tasks)))))"

text \<open>\<open>_client::add_session\<close>: the table of routes, then the database.\<close>

definition add_session :: "'a client_env \<Rightarrow> ('pk, 'sk) node_client_env \<Rightarrow> 'a route_session \<Rightarrow> 'pk \<Rightarrow> byte \<Rightarrow>
    (unit, ('a, 'pk, 'sk) network_node) step" where
  "add_session cenv env s partner_key h =
     bind_step (on_client (modify_step (\<lambda>c. c\<lparr>client_route := snd (add_node (session_partner s) s h False (client_route c))\<rparr>))) (\<lambda>_.
       on_node (on_store (async_transaction
         (note_session (store_env env) (address_string cenv (session_address s)) (session_partner s) partner_key))))"

end
