(* ===== verification/Websocket_api.thy ===== *)
theory Websocket_api
  imports Json_parser Json_writer Node_client
begin

text \<open>
  \<open>websocket_api::allocate_storage\<close> of \<open>libs_server/vds_ws_api/impl/websocket_api.cpp\<close>: the call by which a
  user sets aside a folder for the replicas of the network, or changes how much of it. The folder holds a
  file \<open>.vds_storage.json\<close> that the user has signed. The other methods of the interface only read the tables
  or save blocks.
\<close>

section \<open>The file in the folder\<close>

abbreviation text_of :: "string \<Rightarrow> cstring" where
  "text_of s \<equiv> map of_char s"

definition storage_description :: "cstring \<Rightarrow> cstring" where
  "storage_description folder = join_path folder (text_of ''.vds_storage.json'')"

text \<open>\<open>strtoull\<close> stops at the largest number; a sign is taken modulo \<open>2 ^ 64\<close>.\<close>

definition strtoull :: "cstring \<Rightarrow> u64" where
  "strtoull s = (let n = number_value s in if 2 ^ 64 \<le> \<bar>n\<bar> then - 1 else word_of_int n)"

definition parse_usage_type :: "cstring \<Rightarrow> usage_type expected" where
  "parse_usage_type s =
     (if s = text_of ''share'' then Inr Share
      else if s = text_of ''exclusive'' then Inr Exclusive
      else Inl (Runtime_error (''Invalid storage usage type '' @ chars_of s)))"

fun usage_type_text :: "usage_type \<Rightarrow> cstring" where
  "usage_type_text Share = text_of ''share''"
| "usage_type_text Exclusive = text_of ''exclusive''"

text \<open>What a variable holds after \<open>get_property\<close>: without such a property, and after an error, what it held
  before.\<close>

definition property_or :: "'a option expected \<Rightarrow> 'a \<Rightarrow> 'a" where
  "property_or r old = (case r of Inr (Some x) \<Rightarrow> x | _ \<Rightarrow> old)"

text \<open>What the user signs.\<close>

definition storage_sign_body :: "const_data_buffer \<Rightarrow> cstring \<Rightarrow> usage_type \<Rightarrow> json_value" where
  "storage_sign_body key_id size_str usage = Json_object (-1) (-1)
     (add_string (text_of ''usage'') (usage_type_text usage)
       (add_string (text_of ''size'') size_str
         (add_buffer (text_of ''name'') key_id
           (add_string (text_of ''vds'') (text_of ''0.1'') []))))"

text \<open>The checks of the file: the key of the user, the size and the usage. \<open>!\<close> is the operator of
  \<open>expected\<close>, which is false for a property that is missing too; \<open>fresh\<close> is what new memory holds.\<close>

definition check_storage_description :: "('pk, 'sk) crypto \<Rightarrow> (nat \<Rightarrow> byte) \<Rightarrow> 'pk \<Rightarrow> const_data_buffer \<Rightarrow>
    (const_data_buffer \<times> u64 \<times> usage_type) expected" where
  "check_storage_description cr fresh user_public_key data =
     get_expected (json_parse ''.vds_storage.json'' (buffer_data data)) (\<lambda>json.
     case json of
       Some (Json_object _ _ sign_info) \<Rightarrow>
         (let version = json_get_string sign_info (text_of ''vds'');
              size_property = json_get_string sign_info (text_of ''size'');
              size_str = property_or size_property [];
              sz = strtoull size_str
          in if expected_not version \<or> property_or version [] \<noteq> text_of ''0.1''
             then Inl (Runtime_error ''Invalid file version'')
             else if expected_not size_property then Inl (Runtime_error ''Missing size parameter'')
             else if size_str \<noteq> to_string (unat sz)
             then Inl (Runtime_error (''Invalid size parameter value '' @ chars_of size_str))
             else
               get_expected (key_fingerprint cr user_public_key) (\<lambda>key_id.
               let name = json_get_buffer fresh sign_info (text_of ''name''); val = property_or name (Data_buffer [])
               in if expected_not name \<or> val \<noteq> key_id then Inl (Runtime_error ''Invalid user name'')
                  else
                    let usage = json_get_string sign_info (text_of ''usage'')
                    in if expected_not usage then Inl (Runtime_error ''Invalid folder usage'')
                       else
                         get_expected (parse_usage_type (property_or usage [])) (\<lambda>usage_type.
                         let sign = json_get_buffer fresh sign_info (text_of ''sign'')
                         in if expected_not sign then Inl (Runtime_error ''The signature is missing'')
                            else
                              get_expected (json_to_string (storage_sign_body key_id size_str usage_type)) (\<lambda>body.
                              get_expected (sign_verify cr user_public_key (property_or sign val) (Data_buffer body)) (\<lambda>sig_ok.
                                if \<not> sig_ok then Inl (Runtime_error ''Invalid signature'')
                                else Inr (key_id, sz, usage_type))))))
     | _ \<Rightarrow> Inl (Runtime_error ''Invalid format''))"

section \<open>The tables\<close>

definition storage_of :: "cstring \<Rightarrow> const_data_buffer \<Rightarrow> const_data_buffer \<Rightarrow> node_storage \<Rightarrow> bool" where
  "storage_of folder key_id i st \<longleftrightarrow> st_local_path st = folder \<and> st_owner_id st = key_id"

text \<open>The body of the transaction: the id of the storage, as text. Nothing asks whether the storage holds more
  than the new size.\<close>

definition allocate_row :: "('pk, 'sk) crypto \<Rightarrow> const_data_buffer \<Rightarrow> const_data_buffer \<Rightarrow> cstring \<Rightarrow> u64 \<Rightarrow> usage_type \<Rightarrow>
    (cstring, node_state) step" where
  "allocate_row cr this key_id folder sz usage s =
     (case filter (\<lambda>(i, st). storage_of folder key_id i st) (node_storages s) of
        (i, st) # _ \<Rightarrow>
          (Inr (base64_from_bytes (buffer_data i)),
           if st_reserved_size st \<noteq> sint sz
           then s\<lparr>node_storages := table_update (storage_of folder key_id) (\<lambda>st. st\<lparr>st_reserved_size := sint sz\<rparr>) (node_storages s)\<rparr>
           else s)
      | [] \<Rightarrow>
          bind_step (lift_step (hash_signature cr
              (Data_buffer (put_string folder (put_buffer key_id (put_buffer this [])))))) (\<lambda>storage_id.
          bind_step (insert_storage storage_id \<lparr>st_local_path = folder, st_owner_id = key_id,
              st_reserved_size = sint sz, st_usage_type = usage\<rparr>) (\<lambda>_.
            return_step (base64_from_bytes (buffer_data storage_id)))) s)"

definition allocate_storage :: "('pk, 'sk) crypto \<Rightarrow> (nat \<Rightarrow> byte) \<Rightarrow> const_data_buffer \<Rightarrow> 'pk \<Rightarrow> cstring \<Rightarrow>
    (cstring, node_state) step" where
  "allocate_storage cr fresh this user_public_key folder =
     bind_step (file_read_all (storage_description folder)) (\<lambda>data.
     bind_step (lift_step (check_storage_description cr fresh user_public_key data)) (\<lambda>(key_id, sz, usage).
       node_transaction (allocate_row cr this key_id folder sz usage)))"

text \<open>The branch of \<open>process_message\<close>, with the array of the arguments if there is one.\<close>

definition invoke_allocate_storage :: "('pk, 'sk) crypto \<Rightarrow> (nat \<Rightarrow> byte) \<Rightarrow> const_data_buffer \<Rightarrow> json_value option \<Rightarrow>
    (cstring, node_state) step" where
  "invoke_allocate_storage cr fresh this params =
     (case params of
        Some (Json_array _ _ (public_key # folder # _)) \<Rightarrow>
          (case public_key of
             Json_primitive _ _ key _ \<Rightarrow>
               if key = [] then fail_step (Runtime_error ''missing public_key argument at invoke method allocate_storage'')
               else
                 bind_step (lift_step (base64_to_bytes fresh key)) (\<lambda>der.
                 bind_step (lift_step (key_parse_der cr der)) (\<lambda>user_public_key.
                   case folder of
                     Json_primitive _ _ path _ \<Rightarrow>
                       if path = [] then fail_step (Runtime_error ''missing folder argument at invoke method allocate_storage'')
                       else allocate_storage cr fresh this user_public_key path
                   | _ \<Rightarrow> fail_step (Runtime_error ''missing folder argument at invoke method allocate_storage'')))
           | _ \<Rightarrow> fail_step (Runtime_error ''missing public_key argument at invoke method allocate_storage''))
      | _ \<Rightarrow> fail_step (Runtime_error ''invalid arguments at invoke method allocate_storage''))"

section \<open>What the call does to the storages\<close>

lemma allocate_row_cases:
  assumes "allocate_row cr this key_id folder sz usage s = (r, s')"
  obtains e where "r = Inl e" "s' = s"
  | i st where "(i, st) \<in> set (node_storages s)" "storage_of folder key_id i st" "r = Inr (base64_from_bytes (buffer_data i))"
      "s' = s \<or> s' = s\<lparr>node_storages := table_update (storage_of folder key_id) (\<lambda>st. st\<lparr>st_reserved_size := sint sz\<rparr>) (node_storages s)\<rparr>"
  | i where "i \<notin> table_keys (node_storages s)" "r = Inr (base64_from_bytes (buffer_data i))"
      "s' = s\<lparr>node_storages := node_storages s @ [(i, \<lparr>st_local_path = folder, st_owner_id = key_id,
         st_reserved_size = sint sz, st_usage_type = usage\<rparr>)]\<rparr>"
proof (cases "filter (\<lambda>(i, st). storage_of folder key_id i st) (node_storages s)")
  case Nil
  note defs = allocate_row_def bind_step_def lift_step_def return_step_def insert_storage_def table_insert_def
  show thesis
  proof (cases "hash_signature cr (Data_buffer (put_string folder (put_buffer key_id (put_buffer this []))))")
    case (Inl e)
    with Nil assms have "r = Inl e" "s' = s" by (simp_all add: defs)
    with that(1) show thesis by blast
  next
    case (Inr i)
    show thesis
    proof (cases "i \<in> table_keys (node_storages s)")
      case True
      with Nil assms Inr have "\<exists>e. r = Inl e" "s' = s" by (auto simp: defs)
      with that(1) show thesis by blast
    next
      case False
      with Nil assms Inr that(3) [OF False] show thesis by (simp add: defs)
    qed
  qed
next
  case (Cons p rows)
  obtain i st where p: "p = (i, st)" by (cases p)
  have "p \<in> set (filter (\<lambda>(i, st). storage_of folder key_id i st) (node_storages s))" unfolding Cons by simp
  then have row: "(i, st) \<in> set (node_storages s)" "storage_of folder key_id i st" by (simp_all add: p)
  from Cons assms have "r = Inr (base64_from_bytes (buffer_data i))"
    "s' = s \<or> s' = s\<lparr>node_storages := table_update (storage_of folder key_id) (\<lambda>st. st\<lparr>st_reserved_size := sint sz\<rparr>) (node_storages s)\<rparr>"
    by (auto simp: allocate_row_def p split: if_splits)
  with row that(2) show thesis by blast
qed

end
