(* ===== verification/Node_invariant.thy ===== *)
theory Node_invariant
  imports Websocket_api Step_relation Route_properties Log_sync_properties Replica_storage_properties
begin

text \<open>
  What a node keeps in order, whatever messages reach it: the routing table, the log, the rows and files of
  its replicas. The sections follow the theories of the model, from the files up to the whole node.
\<close>

section \<open>Tables and files\<close>

abbreviation tmp_file :: "('pk, 'sk) node_env \<Rightarrow> const_data_buffer \<Rightarrow> cstring" where
  "tmp_file env p \<equiv> join_path (tmp_folder env) (append_path p)"

text \<open>A temporary file is looked at only when it has a row; a step that failed may have left others.\<close>

definition tmp_ok :: "('pk, 'sk) node_env \<Rightarrow> node_state \<Rightarrow> bool" where
  "tmp_ok env s \<longleftrightarrow> (\<forall>p \<in> table_keys (tmp_datas s). buffer_size p = 32
     \<and> (\<forall>d. node_files s (tmp_file env p) = Some d \<longrightarrow> hash_of env d = Inr p))"

lemma tmp_okD:
  assumes "tmp_ok env s" "p \<in> table_keys (tmp_datas s)"
  shows "buffer_size p = 32" and "node_files s (tmp_file env p) = Some d \<Longrightarrow> hash_of env d = Inr p"
  using assms unfolding tmp_ok_def by blast+

lemma tmp_ok_frame:
  assumes "tmp_ok env s" "table_keys (tmp_datas s') \<subseteq> table_keys (tmp_datas s)"
    and "\<And>p. p \<in> table_keys (tmp_datas s') \<Longrightarrow> node_files s' (tmp_file env p) = node_files s (tmp_file env p)"
  shows "tmp_ok env s'"
  unfolding tmp_ok_def
proof
  fix p assume p: "p \<in> table_keys (tmp_datas s')"
  with assms(2) have "p \<in> table_keys (tmp_datas s)" by (rule subsetD)
  with tmp_okD [OF assms(1)] assms(3) [OF p]
  show "buffer_size p = 32 \<and> (\<forall>d. node_files s' (tmp_file env p) = Some d \<longrightarrow> hash_of env d = Inr p)" by simp
qed

definition store_ok :: "('pk, 'sk) node_env \<Rightarrow> node_state \<Rightarrow> bool" where
  "store_ok env s \<longleftrightarrow> replicas_ok env s \<and> tmp_ok env s \<and> log_ok (node_log env) (log_database s)"

definition tmp_safe :: "('pk, 'sk) node_env \<Rightarrow> node_state \<Rightarrow> node_state \<Rightarrow> bool" where
  "tmp_safe env s s' \<longleftrightarrow>
     (\<forall>p d. buffer_size p = 32 \<and> node_files s' (tmp_file env p) = Some d \<longrightarrow> node_files s (tmp_file env p) = Some d)"

definition keeps_store :: "('pk, 'sk) node_env \<Rightarrow> node_state \<Rightarrow> node_state \<Rightarrow> bool" where
  "keeps_store env s s' \<longleftrightarrow> (store_ok env s \<longrightarrow> store_ok env s' \<and> keeps_rows s s' \<and> room_kept s s' \<and> tmp_safe env s s')"

lemma tmp_safe_same: "node_files s' = node_files s \<Longrightarrow> tmp_safe env s s'"
  by (simp add: tmp_safe_def)

lemma tmp_safe_trans: "tmp_safe env s t \<Longrightarrow> tmp_safe env t u \<Longrightarrow> tmp_safe env s u"
  by (simp add: tmp_safe_def)

interpretation store: step_relation "keeps_store env"
proof
  show "keeps_store env s s" for s by (simp add: keeps_store_def tmp_safe_def)
  show "keeps_store env s u" if "keeps_store env s t" "keeps_store env t u" for s t u
    using that unfolding keeps_store_def by (blast intro: keeps_rows_trans room_kept_trans tmp_safe_trans)
qed

text \<open>Storing a replica touches no other table, and the temporary files at most by taking one away.\<close>

definition tmp_frame :: "('pk, 'sk) node_env \<Rightarrow> node_state \<Rightarrow> node_state \<Rightarrow> bool" where
  "tmp_frame env s s' \<longleftrightarrow> tmp_datas s' = tmp_datas s \<and> log_database s' = log_database s \<and> tmp_safe env s s'"

interpretation tmp: step_relation "tmp_frame env"
  by unfold_locales (auto simp: tmp_frame_def tmp_safe_def)

lemma keeps_storeI:
  "(replicas_ok env s \<Longrightarrow> tmp_ok env s \<Longrightarrow> stores env s s') \<Longrightarrow> tmp_frame env s s' \<Longrightarrow> keeps_store env s s'"
  unfolding keeps_store_def store_ok_def tmp_frame_def stores_def tmp_ok_def tmp_safe_def by auto

lemma put_frame:
  assumes "buffer_size h = 32"
  shows "tmp_frame env s (snd (file_write_all env (join_path lp (path_of h)) d s))"
    and "tmp_frame env s (snd (file_move env fn (join_path lp (path_of h)) s))"
  using tmp_not_replica [OF _ assms, of _ env lp]
  by (auto simp: tmp_frame_def tmp_safe_def file_write_all_def file_move_def split: option.splits if_splits)

lemma store_replica_frame:
  assumes h: "buffer_size h = 32" and put: "\<And>lp s. tmp_frame env s (snd (put (join_path lp (path_of h)) s))"
  shows "tmp_frame env s (snd (store_replica env put h sz owner s))"
proof -
  have ins: "tmp_frame env s (snd (insert_local_data h owner ld s))" for ld s
    by (auto simp: insert_local_data_def tmp_frame_def tmp_safe_def split: sum.splits)
  show ?thesis
    unfolding store_replica_def replica_path_ok [OF h]
    by (auto simp: case_prod_beta intro!: tmp.steps tmp.lift_bind ins put)
qed

lemma save_received_frame: "buffer_size h = 32 \<Longrightarrow> tmp_frame env s (snd (save_received env h d owner s))"
  unfolding save_received_def assert_step_def
  by (auto split: list.splits intro!: tmp.steps tmp.refl store_replica_frame put_frame)

lemma save_file_frame: "buffer_size h = 32 \<Longrightarrow> tmp_frame env s (snd (save_file env h fn owner s))"
  unfolding save_file_def by (auto split: list.splits option.splits intro!: tmp.refl store_replica_frame put_frame)

lemma save_replica_frame:
  assumes "sha256 env"
  shows "tmp_frame env s (snd (save_replica env data owner i s))"
  unfolding save_replica_def
proof (intro tmp.lift_bind)
  fix d h assume "hash_of env d = Inr h"
  with assms have "buffer_size h = 32" by (metis Inr_inject sha256_def)
  then show "tmp_frame env s (snd (if replica_places h s \<noteq> [] then (Inr (), s)
       else bind_step (store_replica env (\<lambda>fn. file_write_all env fn d) h (buffer_size d) owner) (\<lambda>_. return_step ()) s))" for s
    by (auto intro!: tmp.steps tmp.refl store_replica_frame put_frame)
qed

lemma for_step_rel: "(\<And>i s. tmp_frame env s (snd (body i s))) \<Longrightarrow> tmp_frame env s (snd (for_step is body s))"
  by (induction "is" arbitrary: s) (auto intro: tmp.refl tmp.steps)

named_theorems store_intros \<open>steps that keep the tables and files of a node\<close>

lemma save_received_keeps:
  assumes "sha256 env" "hash_of env d = Inr h"
  shows "keeps_store env s (snd (save_received env h d owner s))"
proof -
  have "buffer_size h = 32" using assms by (metis Inr_inject sha256_def)
  with assms(2) save_received_frame show ?thesis
    by (intro keeps_storeI save_received_ok [OF _ assms(2), of _ owner "fst (save_received env h d owner s)"]) auto
qed

lemma save_object_keeps:
  assumes "sha256 env"
  shows "keeps_store env s (snd (save_object env data owner s))"
proof (rule keeps_storeI)
  show "tmp_frame env s (snd (save_object env data owner s))"
    unfolding save_object_def by (intro for_step_rel save_replica_frame [OF assms])
  assume "replicas_ok env s"
  then show "stores env s (snd (save_object env data owner s))"
    using save_replicas_ok [OF _ assms, of s all_replicas data owner] unfolding save_object_def by (metis prod.collapse)
qed

lemma save_file_keeps:
  assumes "sha256 env" "buffer_size h = 32" and row: "h \<in> table_keys (tmp_datas s)"
  shows "keeps_store env s (snd (save_file env h (tmp_file env h) owner s))"
proof (rule keeps_storeI)
  show "tmp_frame env s (snd (save_file env h (tmp_file env h) owner s))" using assms(2) by (rule save_file_frame)
  assume ok: "replicas_ok env s" "tmp_ok env s"
  show "stores env s (snd (save_file env h (tmp_file env h) owner s))"
  proof (cases "node_files s (tmp_file env h)")
    case None
    with ok show ?thesis by (auto simp: save_file_def split: list.splits)
  next
    case (Some d)
    with ok(2) row have "hash_of env d = Inr h" by (auto simp: tmp_ok_def)
    from save_file_ok [OF ok(1) this assms(2) Some refl] show ?thesis by (metis prod.collapse)
  qed
qed

section \<open>Temporary files\<close>

text \<open>A step that leaves the replicas, the storages, the log and the files alone.\<close>

lemma keeps_storeI_same:
  assumes "node_storages s' = node_storages s" "local_datas s' = local_datas s" "log_database s' = log_database s"
    and "node_files s' = node_files s" "table_keys (tmp_datas s') \<subseteq> table_keys (tmp_datas s)"
  shows "keeps_store env s s'"
proof -
  have "replicas_ok env s'" if "replicas_ok env s"
    using that by (rule replicas_ok_same) (simp_all add: assms)
  moreover have "tmp_ok env s'" if "tmp_ok env s"
    using that assms(5) by (rule tmp_ok_frame) (simp add: assms(4))
  ultimately show ?thesis
    using assms by (auto simp: keeps_store_def store_ok_def keeps_rows_def room_kept_same tmp_safe_same)
qed

text \<open>Keeping an object for saving adds rows and files; what has a row already is left alone.\<close>

definition tmp_grows :: "('pk, 'sk) node_env \<Rightarrow> node_state \<Rightarrow> node_state \<Rightarrow> bool" where
  "tmp_grows env s s' \<longleftrightarrow> node_storages s' = node_storages s \<and> local_datas s' = local_datas s \<and> log_database s' = log_database s
     \<and> (\<forall>lp h. buffer_size h = 32 \<longrightarrow> node_files s' (join_path lp (path_of h)) = node_files s (join_path lp (path_of h)))
     \<and> table_keys (tmp_datas s) \<subseteq> table_keys (tmp_datas s')
     \<and> (\<forall>p \<in> table_keys (tmp_datas s). node_files s' (tmp_file env p) = node_files s (tmp_file env p))
     \<and> (tmp_ok env s \<longrightarrow> tmp_ok env s')"

lemma tmp_growsD:
  assumes "tmp_grows env s s'"
  shows "node_storages s' = node_storages s" "local_datas s' = local_datas s" "log_database s' = log_database s"
    and "buffer_size h = 32 \<Longrightarrow> node_files s' (join_path lp (path_of h)) = node_files s (join_path lp (path_of h))"
    and "table_keys (tmp_datas s) \<subseteq> table_keys (tmp_datas s')"
    and "p \<in> table_keys (tmp_datas s) \<Longrightarrow> node_files s' (tmp_file env p) = node_files s (tmp_file env p)"
    and "tmp_ok env s \<Longrightarrow> tmp_ok env s'"
proof -
  note g1 = assms [unfolded tmp_grows_def]
  note g2 = g1 [THEN conjunct2]
  note g3 = g2 [THEN conjunct2]
  note g4 = g3 [THEN conjunct2]
  note g5 = g4 [THEN conjunct2]
  note g6 = g5 [THEN conjunct2]
  show "node_storages s' = node_storages s" "local_datas s' = local_datas s" "log_database s' = log_database s"
    "table_keys (tmp_datas s) \<subseteq> table_keys (tmp_datas s')"
    by (rule g1 [THEN conjunct1] g2 [THEN conjunct1] g3 [THEN conjunct1] g5 [THEN conjunct1])+
  show "buffer_size h = 32 \<Longrightarrow> node_files s' (join_path lp (path_of h)) = node_files s (join_path lp (path_of h))"
    by (rule g4 [THEN conjunct1, rule_format])
  show "p \<in> table_keys (tmp_datas s) \<Longrightarrow> node_files s' (tmp_file env p) = node_files s (tmp_file env p)"
    by (rule g6 [THEN conjunct1, rule_format])
  show "tmp_ok env s \<Longrightarrow> tmp_ok env s'" by (rule g6 [THEN conjunct2, rule_format])
qed

interpretation grows: step_relation "tmp_grows env"
proof
  show "tmp_grows env s u" if g: "tmp_grows env s t" "tmp_grows env t u" for s t u
    unfolding tmp_grows_def
  proof (intro conjI allI ballI impI)
    show "table_keys (tmp_datas s) \<subseteq> table_keys (tmp_datas u)"
      using tmp_growsD(5) [OF g(1)] tmp_growsD(5) [OF g(2)] by (rule subset_trans)
    show "node_files u (tmp_file env p) = node_files s (tmp_file env p)" if p: "p \<in> table_keys (tmp_datas s)" for p
      using tmp_growsD(6) [OF g(1) p] tmp_growsD(6) [OF g(2) subsetD [OF tmp_growsD(5) [OF g(1)] p]] by simp
    show "tmp_ok env u" if "tmp_ok env s" using tmp_growsD(7) [OF g(2) tmp_growsD(7) [OF g(1) that]] .
    show "node_files u (join_path lp (path_of h)) = node_files s (join_path lp (path_of h))" if "buffer_size h = 32" for lp h
      using tmp_growsD(4) [OF g(1) that] tmp_growsD(4) [OF g(2) that] by simp
  qed (use tmp_growsD(1-3) [OF g(1)] tmp_growsD(1-3) [OF g(2)] in simp_all)
qed (simp add: tmp_grows_def)

lemma tmp_file_inj: "tmp_file env p = tmp_file env h \<longleftrightarrow> p = h"
  by (auto simp: join_path_def dest: append_path_inj)

lemma write_tmp_grows:
  assumes h: "buffer_size h = 32" and new: "h \<notin> table_keys (tmp_datas s)"
  shows "tmp_grows env s (s\<lparr>node_files := (node_files s)(tmp_file env h \<mapsto> d)\<rparr>)"
    and "hash_of env d = Inr h \<Longrightarrow>
      tmp_grows env s (s\<lparr>node_files := (node_files s)(tmp_file env h \<mapsto> d), tmp_datas := tmp_datas s @ [(h, now)]\<rparr>)"
proof -
  have other: "p \<noteq> h" if "p \<in> table_keys (tmp_datas s)" for p using that new by blast
  have replica: "tmp_file env h \<noteq> join_path lp (path_of h')" if "buffer_size h' = 32" for lp h'
    using h that by (rule tmp_not_replica)
  show "tmp_grows env s (s\<lparr>node_files := (node_files s)(tmp_file env h \<mapsto> d)\<rparr>)"
    using other replica [symmetric] by (simp add: tmp_grows_def tmp_ok_def tmp_file_inj)
  show "tmp_grows env s (s\<lparr>node_files := (node_files s)(tmp_file env h \<mapsto> d), tmp_datas := tmp_datas s @ [(h, now)]\<rparr>)"
    if "hash_of env d = Inr h"
    using other replica [symmetric] h that by (auto simp: tmp_grows_def tmp_ok_def tmp_file_inj)
qed

lemma save_temp_replica_grows:
  assumes "sha256 env"
  shows "tmp_grows env s (snd (save_temp_replica env value r s))"
  unfolding save_temp_replica_def
proof (intro grows.lift_bind)
  fix d h s
  assume h: "hash_of env d = Inr h"
  with assms have size: "buffer_size h = 32" by (metis Inr_inject sha256_def)
  show "tmp_grows env s
     (snd (bind_step (if table_select (tmp_datas s) h = None
          then bind_step (file_write_all env (tmp_file env h) d) (\<lambda>_. insert_tmp_data env h)
          else return_step ()) (\<lambda>_. return_step (h, buffer_size d)) s))"
  proof (cases "h \<in> table_keys (tmp_datas s)")
    case True
    then have "table_select (tmp_datas s) h \<noteq> None" by (simp add: table_select_None)
    then show ?thesis by (auto intro!: grows.steps)
  next
    case False
    then have "table_select (tmp_datas s) h = None" by (simp add: table_select_None)
    with False write_tmp_grows [OF size False] h show ?thesis
      by (auto simp: bind_step_def return_step_def file_write_all_def insert_tmp_data_def table_insert_def grows.refl
          split: option.split)
  qed
qed

lemma save_temp_grows:
  assumes "sha256 env"
  shows "tmp_grows env s (snd (save_temp env value s))"
proof -
  have "tmp_grows env s (snd (save_temp_loop env value rs s))" for rs s
    by (induction rs arbitrary: s)
      (use save_temp_replica_grows [OF assms] in \<open>auto simp: grows.refl intro!: grows.steps\<close>)
  then show ?thesis unfolding save_temp_def by (intro grows.steps)
qed

lemma tmp_grows_ok:
  assumes "tmp_grows env s s'" "store_ok env s"
  shows "store_ok env s' \<and> keeps_rows s s' \<and> room_kept s s'"
proof -
  have "replicas_ok env s" using assms(2) by (simp add: store_ok_def)
  then have "replicas_ok env s'" by (rule replicas_ok_same) (simp_all add: tmp_growsD [OF assms(1)])
  with assms(2) tmp_growsD [OF assms(1)] show ?thesis by (simp add: store_ok_def keeps_rows_def room_kept_same)
qed

lemma save_temp_transaction:
  assumes "sha256 env" "store_ok env s"
  shows "store_ok env (snd (node_transaction (save_temp env value) s))
    \<and> keeps_rows s (snd (node_transaction (save_temp env value) s)) \<and> room_kept s (snd (node_transaction (save_temp env value) s))"
proof -
  obtain r s1 where run: "save_temp env value s = (r, s1)" by (metis surj_pair)
  with save_temp_grows [OF assms(1), of s] have g: "tmp_grows env s s1" by (metis snd_conv)
  have "tmp_grows env s (s\<lparr>node_files := node_files s1\<rparr>)"
    unfolding tmp_grows_def
  proof (intro conjI impI)
    show "tmp_ok env (s\<lparr>node_files := node_files s1\<rparr>)" if "tmp_ok env s"
      using that by (rule tmp_ok_frame) (simp_all add: tmp_growsD(6) [OF g])
  qed (use tmp_growsD(4,6) [OF g] in simp_all)
  with tmp_grows_ok [OF _ assms(2)] g run show ?thesis by (auto simp: node_transaction_def split: sum.splits)
qed

lemma delete_tmp_keeps: "keeps_store env s (snd (delete_tmp_data p s))"
  unfolding delete_tmp_data_def
  by (rule store.modify, rule keeps_storeI_same) (auto simp: table_delete_def)

lemma keep_tmp_replica_keeps:
  assumes "sha256 env"
  shows "keeps_store env s (snd (keep_tmp_replica env owner p s))"
proof (cases "tmp_ok env s \<and> table_select (tmp_datas s) p \<noteq> None")
  case True
  then have row: "p \<in> table_keys (tmp_datas s)" by (metis table_select_None)
  with True have "buffer_size p = 32" unfolding tmp_ok_def by blast
  from save_file_keeps [OF assms this row] delete_tmp_keeps show ?thesis
    by (auto simp: keep_tmp_replica_def Let_def store.refl intro!: store.bind_at store.basic)
next
  case False
  then show ?thesis by (auto simp: keep_tmp_replica_def keeps_store_def store_ok_def tmp_safe_same)
qed

lemma keep_tmp_replicas_keeps:
  assumes "sha256 env"
  shows "keeps_store env s (snd (snd (keep_tmp_replicas env owner ps (seen, s))))"
proof (induction ps arbitrary: seen s)
  case (Cons p ps)
  have "keeps_store env s (snd (keep_tmp_replica env owner p s))" using keep_tmp_replica_keeps [OF assms] .
  with Cons show ?case by (auto split: prod.splits sum.splits intro: store.trans)
qed (simp add: store.refl)

interpretation walk: step_relation "\<lambda>(_, s) (_, s'). keeps_store env s s'"
  by unfold_locales (auto intro: store.refl store.trans)

lemma walk_messages_keeps:
  assumes "\<And>m seen s. keeps_store env s (snd (snd (visit m (seen, s))))"
  shows "keeps_store env s (snd (snd (walk_messages cr visit d (seen, s))))"
proof (induction "length d" arbitrary: d seen s rule: less_induct)
  case less
  show ?case
  proof (cases "d = []")
    case False
    show ?thesis
    proof (cases "get_expected (get_uint8 d) (\<lambda>(i, d). get_message cr i d)")
      case (Inl e)
      with False show ?thesis by (subst walk_messages.simps) (simp add: store.refl)
    next
      case (Inr x)
      obtain m d2 where x: "x = (m, d2)" by (cases x)
      from Inr obtain i d1 where d1: "get_uint8 d = Inr (i, d1)" "get_message cr i d1 = Inr (m, d2)"
        unfolding x by (auto simp: expected_simps)
      have "length d1 < length d" using d1(1) False by (cases d) auto
      moreover have "length d2 \<le> length d1" using d1(2) consumes_message [of cr i] unfolding consumes_def by blast
      ultimately have shorter: "length d2 < length d" by simp
      obtain r seen' s' where v: "visit m (seen, s) = (r, seen', s')" by (metis surj_pair)
      with assms have first: "keeps_store env s s'" by (metis snd_conv)
      have "walk_messages cr visit d (seen, s)
          = bind_step (visit m) (\<lambda>go_on. if go_on then walk_messages cr visit d2 else return_step False) (seen, s)"
        using False Inr x by (subst walk_messages.simps) simp
      then show ?thesis
        using v first less [OF shorter, of s' seen'] by (auto simp: bind_step_def return_step_def split: sum.splits intro: store.trans)
    qed
  qed (simp add: walk_messages.simps store.refl)
qed

lemma walk_block_keeps:
  assumes "sha256 env"
  shows "keeps_store env s (snd (walk_block env b s))"
proof -
  have "keeps_store env s (snd (snd (visit_store_block env m (seen, s))))" for m seen s
    using keep_tmp_replicas_keeps [OF assms]
    by (auto simp: visit_store_block_def return_step_def store.refl bind_step_def split: transaction_message.splits sum.splits prod.splits)
      (metis snd_conv)+
  from walk_messages_keeps [OF this, of s "env_crypto (node_log env)"] show ?thesis
    by (simp add: walk_block_def case_prod_beta)
qed

section \<open>The node's own steps\<close>

definition keeps_node :: "('pk, 'sk) node_env \<Rightarrow> ('pk, 'sk) node_client \<Rightarrow> ('pk, 'sk) node_client \<Rightarrow> bool" where
  "keeps_node env c c' \<longleftrightarrow> keeps_store env (store c) (store c')"

interpretation node: step_relation "keeps_node env"
  by unfold_locales (auto simp: keeps_node_def intro: store.refl store.trans)

lemma keeps_node_same: "store c' = store c \<Longrightarrow> keeps_node env c c'"
  by (simp add: keeps_node_def store.refl)

lemma on_store_keeps: "keeps_store env (store c) (snd (m (store c))) \<Longrightarrow> keeps_node env c (snd (on_store m c))"
  by (simp add: on_store_def keeps_node_def case_prod_beta)

text \<open>Only the log has to stay in order when a step works on the tables of the log.\<close>

lemma keeps_store_log:
  assumes "log_ok (node_log env) (log_database s) \<Longrightarrow> log_ok (node_log env) db"
  shows "keeps_store env s (s\<lparr>log_database := db\<rparr>)"
  using assms by (auto simp: keeps_store_def store_ok_def replicas_ok_def tmp_ok_def keeps_rows_def room_kept_same tmp_safe_same stored_at_def)

lemma on_log_keeps:
  assumes "\<And>db x db'. log_ok (node_log env) db \<Longrightarrow> body db = Inr (x, db') \<Longrightarrow> log_ok (node_log env) db'"
  shows "keeps_node env c (snd (on_log body c))"
  using assms by (auto simp: on_log_def keeps_node_def async_transaction_def split: sum.splits
      intro!: keeps_store_log store.refl)

text \<open>A rollback of the tables, not of the files.\<close>

lemma keeps_rollback:
  assumes "keeps_store env s s1"
  shows "keeps_store env s (s\<lparr>node_files := node_files s1\<rparr>)"
  unfolding keeps_store_def
proof (intro impI conjI)
  assume ok: "store_ok env s"
  with assms have s1: "store_ok env s1" "keeps_rows s s1" "tmp_safe env s s1" by (simp_all add: keeps_store_def)
  with ok have "replicas_ok env (s\<lparr>node_files := node_files s1\<rparr>)"
    using replicas_ok_files [of env s1 s] by (simp add: store_ok_def)
  moreover have "tmp_ok env (s\<lparr>node_files := node_files s1\<rparr>)" using ok s1(3) by (auto simp: store_ok_def tmp_ok_def tmp_safe_def)
  ultimately show "store_ok env (s\<lparr>node_files := node_files s1\<rparr>)" using ok by (simp add: store_ok_def)
  show "tmp_safe env s (s\<lparr>node_files := node_files s1\<rparr>)" using s1(3) by (simp add: tmp_safe_def)
qed (simp_all add: keeps_rows_def room_kept_same)

lemma node_transaction_keeps:
  assumes "keeps_store env s (snd (body s))"
  shows "keeps_store env s (snd (node_transaction body s))"
  using assms keeps_rollback [OF assms] by (auto simp: node_transaction_def split: prod.splits sum.splits)

lemma client_transaction_keeps:
  assumes "keeps_node env c (snd (body c))"
  shows "keeps_node env c (snd (client_transaction body c))"
  using assms keeps_rollback unfolding keeps_node_def
  by (fastforce simp: client_transaction_def split: prod.splits sum.splits)

lemma insert_config_keeps: "keeps_store env s (snd (insert_config i public private s))"
  by (rule keeps_storeI_same) (auto simp: insert_config_def split: sum.splits)

lemma insert_storage_keeps:
  assumes "st_local_path st \<noteq> []"
  shows "keeps_store env s (snd (insert_storage i st s))"
proof (cases "i \<in> table_keys (node_storages s)")
  case True
  then show ?thesis by (simp add: insert_storage_def table_insert_def store.refl)
next
  case False
  let ?s = "s\<lparr>node_storages := node_storages s @ [(i, st)]\<rparr>"
  have run: "snd (insert_storage i st s) = ?s" using False by (simp add: insert_storage_def table_insert_def)
  have "replicas_ok env ?s" if ok: "replicas_ok env s"
  proof -
    have "stored_at env ?s h ld" if "stored_at env s h ld" for h ld
      using that by (auto simp: stored_at_def map_add_def)
    moreover have "table_ok (node_storages ?s)" using ok False by (simp add: replicas_ok_def table_ok_def)
    ultimately show ?thesis using ok assms by (auto simp: replicas_ok_def)
  qed
  then show ?thesis
    unfolding run by (auto simp: keeps_store_def store_ok_def keeps_rows_def tmp_ok_def room_kept_same tmp_safe_same)
qed

lemma create_keys_keeps: "keeps_node (store_env env) c (snd (create_keys env c))"
  unfolding create_keys_def
  by (intro node.lift_bind node.bind node.modify on_store_keeps insert_config_keeps insert_storage_keeps keeps_node_same)
    (simp_all add: storage_folder_def join_path_def)

lemma load_keys_keeps: "keeps_node (store_env env) c (snd (load_keys env c))"
proof -
  have "keeps_node (store_env env) c (snd (bind_step (lift_step (key_parse_der (client_crypto env) pub)) (\<lambda>key.
          bind_step (modify_step (\<lambda>c. c\<lparr>node_public_key := Some key\<rparr>)) (\<lambda>_.
          bind_step (lift_step (private_key_parse env priv)) (\<lambda>key.
            modify_step (\<lambda>c. c\<lparr>node_key := Some key\<rparr>)))) c))" for pub priv
    by (intro node.lift_bind node.bind node.modify keeps_node_same) simp_all
  with create_keys_keeps show ?thesis by (auto simp: load_keys_def split: list.splits)
qed

lemma introduce_node_keeps: "keeps_node (store_env env) c (snd (introduce_node env public block c))"
  unfolding introduce_node_def
  by (auto simp: node.refl intro!: node.lift_bind node.bind node.modify node.basic intro: keeps_node_same)

lemma client_save_keeps:
  assumes "sha256 (store_env env)"
  shows "keeps_node (store_env env) c (snd (client_save env block allow_root c))"
proof -
  have logged: "keeps_node (store_env env) c (snd (on_log (save_block fuel (client_log_env env) data allow_root) c))" for fuel data c
    by (rule on_log_keeps) (rule save_block_log_ok)
  have saved: "keeps_node (store_env env) c
      (snd (bind_step (lift_step (block_build (client_crypto env) now db (Data_buffer block) public key)) (\<lambda>data.
         bind_step (lift_step (block_create (client_crypto env) data)) (\<lambda>b.
         bind_step (on_store (walk_block (store_env env) b)) (\<lambda>_.
           on_log (save_block (save_fuel env) (client_log_env env) data allow_root)))) c))" for now db block public key c
    by (intro node.lift_bind node.bind on_store_keeps walk_block_keeps logged assms)
  show ?thesis
    unfolding client_save_def
  proof (rule node.bind)
    show "keeps_node (store_env env) c
        (snd ((case node_public_key c0 of None \<Rightarrow> load_keys env | Some _ \<Rightarrow> return_step ()) c))" for c0 c
      by (auto split: option.splits intro: load_keys_keeps node.basic)
    show "keeps_node (store_env env) c (snd (case node_public_key c of
         None \<Rightarrow> (Inl (Undefined_behaviour ''node_public_key_''), c)
       | Some public \<Rightarrow>
           bind_step (introduce_node env public block) (\<lambda>block c.
             case node_key c of
               None \<Rightarrow> (Inl (Undefined_behaviour ''node_key_''), c)
             | Some key \<Rightarrow>
                 bind_step (lift_step (block_build (client_crypto env) (env_now (client_log_env env)) (log_database (store c))
                     (Data_buffer block) public key)) (\<lambda>data.
                 bind_step (lift_step (block_create (client_crypto env) data)) (\<lambda>b.
                 bind_step (on_store (walk_block (store_env env) b)) (\<lambda>_.
                   on_log (save_block (save_fuel env) (client_log_env env) data allow_root)))) c) c))" for c
      by (auto split: option.splits intro!: node.bind introduce_node_keeps saved simp: node.refl)
  qed
qed

section \<open>The round of the timer and the handlers\<close>

lemma file_read_same: "snd (file_read_all fn s) = s"
  by (simp add: file_read_all_def split: option.splits)

lemma collect_replicas_same: "snd (collect_replicas hashes rs acc s) = s"
proof (induction hashes rs acc s rule: collect_replicas.induct)
  case (2 hashes r rs replicas datas unknown s)
  show ?case
  proof (cases "replica_places (hashes ! unat r) s")
    case Nil
    with 2 show ?thesis by simp
  next
    case (Cons place rest)
    obtain lp sp where place: "place = (lp, sp)" by (cases place)
    show ?thesis
      using 2 Cons file_read_same [of "join_path lp sp" s]
      by (auto simp: place bind_step_def split: prod.splits sum.splits)
  qed
qed simp

lemma restore_async_keeps: "keeps_store env s (snd (restore_async nenv want hashes s))"
proof -
  obtain r where "collect_replicas hashes all_replicas ([], [], []) s = (r, s)"
    using collect_replicas_same by (metis prod.collapse)
  then have "snd (restore_async nenv want hashes s) = s"
    by (auto simp: restore_async_def bind_step_def lift_step_def return_step_def split: sum.splits prod.splits)
  then show ?thesis by (simp add: store.refl)
qed

lemma announce_replica_keeps: "sha256 (store_env env) \<Longrightarrow> keeps_node (store_env env) c (snd (announce_replica env owner h c))"
  unfolding announce_replica_def by (intro node.lift_bind node.bind client_save_keeps node.basic)

lemma restore_missing_keeps:
  assumes "sha256 (store_env env)"
  shows "keeps_node (store_env env) c (snd (restore_missing env owner object_hash c))"
  unfolding restore_missing_def
  by (rule node.bind) (auto intro!: node.bind node.basic on_store_keeps restore_async_keeps save_object_keeps assms
      split: option.splits)

lemma sync_row_keeps:
  assumes "sha256 (store_env env)"
  shows "keeps_node (store_env env) c (snd (sync_row env row round c))"
  unfolding sync_row_def
  by (auto simp: Let_def case_prod_beta node.refl
      intro!: node.bind node.basic announce_replica_keeps restore_missing_keeps assms)

lemma sync_replicas_keeps:
  assumes "sha256 (store_env env)"
  shows "keeps_node (store_env env) c (snd (sync_replicas env c))"
proof -
  have rows: "keeps_node (store_env env) c (snd (sync_rows env rows round c))" for rows round c
    by (induction rows arbitrary: round c)
      (auto simp: node.refl case_prod_beta intro!: node.bind node.basic sync_row_keeps assms)
  have "keeps_node (store_env env) c (c\<lparr>sync_replicas_timeout := n\<rparr>)" for n
    by (rule keeps_node_same) simp
  with rows node.trans show ?thesis unfolding sync_replicas_def Let_def by (auto split: if_splits) blast
qed

lemma process_update_keeps:
  "sha256 (store_env env) \<Longrightarrow> keeps_node (store_env env) c (snd (process_update cenv env c))"
  unfolding process_update_def do_sync_def
  by (intro node.bind sync_replicas_keeps) (simp_all add: node.refl)

lemma apply_replica_request_keeps: "keeps_store env s (snd (apply_replica_request h source s))"
proof -
  have "keeps_store env s (snd (file_read_all fn s))" for fn s by (simp add: file_read_same store.refl)
  then show ?thesis
    by (auto simp: apply_replica_request_def store.refl intro!: store.bind store.basic split: list.splits)
qed

lemma apply_replica_data_keeps:
  assumes "sha256 env"
  shows "keeps_store env s (snd (apply_replica_data env m s))"
proof -
  have "keeps_store env s (snd (assert_step (h = sd_object_id m) ''data_hash == message.object_id''
            (bind_step (save_received env h (sd_data m) (sd_owner m)) (\<lambda>_. return_step (True, []))) s))"
    if "hash_of env (sd_data m) = Inr h" for h s
    using save_received_keeps [OF assms that] by (auto simp: assert_step_def intro!: store.bind store.basic)
  then show ?thesis by (auto simp: apply_replica_data_def store.refl intro!: store.lift_bind)
qed

lemma apply_in_transaction_keeps:
  assumes "sha256 (store_env env)"
  shows "keeps_node (store_env env) c (snd (apply_in_transaction env source m c))"
  unfolding apply_in_transaction_def
proof (rule client_transaction_keeps)
  have logged: "keeps_node (store_env env) c (snd (on_log body c))"
    if "\<And>db x db'. log_ok (client_log_env env) db \<Longrightarrow> body db = Inr (x, db') \<Longrightarrow> log_ok (client_log_env env) db'"
    for body :: "database \<Rightarrow> ((bool \<times> final_task list) \<times> database) expected"
    using that by (rule on_log_keeps)
  have state: "apply_log_state (client_log_env env) m db = Inr (r, t, db') \<Longrightarrow> db' = db" for m db r t db'
    by (auto simp: apply_log_state_def Let_def split: prod.splits if_splits)
  have request: "apply_log_request m db = Inr (r, t, db') \<Longrightarrow> db' = db" for m db r t db'
    by (auto simp: apply_log_request_def split: option.splits)
  show "keeps_node (store_env env) c (snd ((case m of
          Transaction_log_state m \<Rightarrow> on_log (\<lambda>db. get_expected (apply_log_state (client_log_env env) m db) (\<lambda>(r, t, db). Inr ((r, t), db)))
        | Transaction_log_request m \<Rightarrow> on_log (\<lambda>db. get_expected (apply_log_request m db) (\<lambda>(r, t, db). Inr ((r, t), db)))
        | Transaction_log_record m \<Rightarrow> on_log (\<lambda>db.
            get_expected (apply_log_record (save_fuel env) (client_log_env env) source m db) (\<lambda>(r, t, db). Inr ((r, t), db)))
        | Sync_replica_request h \<Rightarrow> on_store (apply_replica_request h source)
        | Sync_replica_data m \<Rightarrow> on_store (apply_replica_data (store_env env) m)
        | _ \<Rightarrow> fail_step (Runtime_error ''Invalid command'')) c))"
    using apply_replica_request_keeps apply_replica_data_keeps [OF assms]
    by (cases m) (auto intro!: node.basic on_store_keeps logged intro: apply_log_record_ok simp: expected_simps
        split: prod.splits dest: state request)
qed

lemma note_session_keeps:
  "keeps_store env s (snd (async_transaction (note_session env address partner key) s))"
proof (cases "note_session env address partner key s")
  case (Inl e)
  then show ?thesis by (simp add: async_transaction_def store.refl)
next
  case (Inr x)
  then have same: "node_storages (snd x) = node_storages s" "local_datas (snd x) = local_datas s" "tmp_datas (snd x) = tmp_datas s"
    "node_files (snd x) = node_files s" "log_records (log_database (snd x)) = log_records (log_database s)"
    "log_hierarchy (log_database (snd x)) = log_hierarchy (log_database s)"
    by (auto simp: note_session_def Let_def expected_simps split: option.splits if_splits)
  then show ?thesis
    using Inr replicas_ok_same [of env s "snd x"] by (simp add: async_transaction_def keeps_store_def store_ok_def tmp_ok_def
        keeps_rows_def room_kept_same tmp_safe_same log_ok_def case_prod_beta)
qed

section \<open>The routing table\<close>

definition keeps_route :: "'a dht_client \<Rightarrow> 'a dht_client \<Rightarrow> bool" where
  "keeps_route c c' \<longleftrightarrow> (route_ok (client_route c) \<longrightarrow>
     route_ok (client_route c') \<and> current_node_id (client_route c') = current_node_id (client_route c))"

interpretation client: step_relation keeps_route
  by unfold_locales (auto simp: keeps_route_def)

lemma keeps_route_op:
  assumes "client_route c' = run_op ping op (client_route c)"
  shows "keeps_route c c'"
  using route_ok_op [of "client_route c" ping op] assms by (auto simp: keeps_route_def)

lemma keeps_route_same: "client_route c' = client_route c \<Longrightarrow> keeps_route c c'"
  by (simp add: keeps_route_def)

lemma put_packet_keeps: "keeps_route c (snd (put_packet env p c))"
  by (simp add: put_packet_def keeps_route_def)

lemma run_callback_keeps:
  assumes "\<And>n c. keeps_route c (snd (callback n c))"
  shows "keeps_route c (snd (run_callback callback ns c))"
  by (induction ns arbitrary: c) (auto simp: client.refl intro!: client.bind client.basic assms)

lemma for_near_keeps:
  assumes "\<And>n c. keeps_route c (snd (callback n c))"
  shows "keeps_route c (snd (for_near r target n filt callback c))"
  using run_callback_keeps [of callback, OF assms] by (auto simp: for_near_def client.refl split: sum.splits prod.splits)

lemma client_send_keeps: "keeps_route c (snd (client_send env target m c))"
  unfolding client_send_def send_data_def by (intro client.lift_bind for_near_keeps client.bind put_packet_keeps client.basic)

lemma send_near_keeps: "keeps_route c (snd (send_near env target n m filt c))"
  unfolding send_near_def by (intro client.lift_bind for_near_keeps client.bind put_packet_keeps client.basic)

lemma send_neighbors_keeps: "keeps_route c (snd (send_neighbors env m c))"
  unfolding send_neighbors_def for_neighbors_def
  by (intro client.lift_bind run_callback_keeps client.bind put_packet_keeps client.basic)

lemma client_proxy_keeps: "keeps_route c (snd (client_proxy env target mtype message way c))"
proof -
  have "keeps_route c (snd (forward env target mtype message way c))" for target way c
    unfolding forward_def by (rule for_near_keeps) (auto intro!: client.bind put_packet_keeps client.basic)
  then show ?thesis by (simp add: client_proxy_def)
qed

lemma run_tasks_keeps: "keeps_route c (snd (run_tasks env ts c))"
proof -
  have "keeps_route c (snd (run_task env t c))" for t c
    by (cases t) (auto intro: client_send_keeps send_near_keeps send_neighbors_keeps put_packet_keeps)
  then show ?thesis by (induction ts arbitrary: c) (auto simp: client.refl intro!: client.bind)
qed

lemma add_route_keeps: "keeps_route c (add_route ns s c)"
proof -
  have "route_ok r \<Longrightarrow> route_ok (add_routes ns i s r) \<and> current_node_id (add_routes ns i s r) = current_node_id r" for i r
  proof (induction ns arbitrary: i r)
    case (Cons n ns)
    from route_ok_op [OF Cons.prems, of undefined "Add_node n s (word_of_nat i) False"] Cons.IH show ?case by simp
  qed simp
  then show ?thesis by (simp add: add_route_def keeps_route_def)
qed

lemma apply_find_node_keeps: "keeps_route c (snd (apply_find_node env target info c))"
  unfolding apply_find_node_def
  by (auto simp: Let_def client.refl intro!: client.bind client_send_keeps client.basic split: prod.splits sum.splits)

lemma add_node_keeps:
  "add_node i s h allow_skip (client_route c) = (added, r) \<Longrightarrow> keeps_route c (c\<lparr>client_route := r\<rparr>)"
  using keeps_route_op [of "c\<lparr>client_route := r\<rparr>" undefined "Add_node i s h allow_skip" c] by simp

lemma apply_find_node_response_keeps: "keeps_route c (snd (apply_find_node_response env ts info c))"
proof (induction ts arbitrary: c)
  case (Cons p ps)
  obtain added r where r: "add_node (tn_target_id p) (mi_session info)
      (tn_hops p + word_of_nat (length (mi_hops info)) + 1) True (client_route c) = (added, r)" by fastforce
  have "keeps_route (c\<lparr>client_route := r\<rparr>) (snd (if added
      then bind_step (put_packet env (Handshake (tn_address p))) (\<lambda>_. apply_find_node_response env ps info) (c\<lparr>client_route := r\<rparr>)
      else apply_find_node_response env ps info (c\<lparr>client_route := r\<rparr>)))"
    using Cons by (auto intro!: client.bind put_packet_keeps)
  with add_node_keeps [OF r] Cons show ?case by (auto simp: r Let_def intro: client.trans)
qed (simp add: client.refl)

lemma apply_ping_keeps: "keeps_route c (snd (apply_ping env now time info c))"
  unfolding apply_ping_def by (intro client.lift_bind client.bind put_packet_keeps client.basic)

lemma apply_pong_keeps: "keeps_route c (snd (apply_pong now m info c))"
  unfolding apply_pong_def
  by (rule keeps_route_op [where ping = undefined and op = "Mark_pinged (source_node info) (session_address (mi_session info))"]) simp

lemma update_route_table_keeps: "keeps_route c (snd (update_route_table env c))"
proof -
  have "keeps_route c (snd (find_random env is c))" for "is" c
    by (induction "is" arbitrary: c) (auto simp: client.refl intro!: client.lift_bind client.bind send_neighbors_keeps)
  then show ?thesis
    by (auto simp: update_route_table_def intro!: client.bind client.modify intro: keeps_route_same)
qed

section \<open>A node in its network\<close>

text \<open>The clock and the sockets may change between steps, the hash function and the folder may not.\<close>

definition at_node :: "('pk, 'sk) crypto \<Rightarrow> cstring \<Rightarrow> ('pk, 'sk) node_client_env \<Rightarrow> bool" where
  "at_node cr root env \<longleftrightarrow> client_crypto env = cr \<and> root_folder (store_env env) = root"

definition node_ok :: "('pk, 'sk) crypto \<Rightarrow> cstring \<Rightarrow> const_data_buffer \<Rightarrow> ('a, 'pk, 'sk) network_node \<Rightarrow> bool" where
  "node_ok cr root this n \<longleftrightarrow> route_ok (client_route (nn_client n)) \<and> current_node_id (client_route (nn_client n)) = this
     \<and> (\<forall>env. at_node cr root env \<longrightarrow> store_ok (store_env env) (store (nn_store n)))"

lemma store_ok_cong:
  assumes "env_crypto (node_log env') = env_crypto (node_log env)" "root_folder env' = root_folder env"
  shows "store_ok env' s = store_ok env s"
  using assms by (simp add: store_ok_def replicas_ok_def stored_at_def tmp_ok_def tmp_folder_def log_ok_def)

abbreviation tables :: "('a, 'pk, 'sk) network_node \<Rightarrow> node_state" where
  "tables n \<equiv> store (nn_store n)"

definition network_keeps :: "('pk, 'sk) crypto \<Rightarrow> cstring \<Rightarrow> const_data_buffer \<Rightarrow>
    ('a, 'pk, 'sk) network_node \<Rightarrow> ('a, 'pk, 'sk) network_node \<Rightarrow> bool" where
  "network_keeps cr root this n n' \<longleftrightarrow>
     (node_ok cr root this n \<longrightarrow> node_ok cr root this n' \<and> keeps_rows (tables n) (tables n') \<and> room_kept (tables n) (tables n'))"

interpretation network: step_relation "network_keeps cr root this"
proof
  show "network_keeps cr root this n n" for n by (simp add: network_keeps_def)
  show "network_keeps cr root this l n" if "network_keeps cr root this l m" "network_keeps cr root this m n" for l m n
    using that keeps_rows_trans room_kept_trans unfolding network_keeps_def by metis
qed

definition keeps_ok :: "('pk, 'sk) crypto \<Rightarrow> cstring \<Rightarrow> const_data_buffer \<Rightarrow> ('r, ('a, 'pk, 'sk) network_node) step \<Rightarrow> bool" where
  "keeps_ok cr root this m \<longleftrightarrow> (\<forall>n. network_keeps cr root this n (snd (m n)))"

lemma keeps_okD:
  "node_ok cr root this n \<Longrightarrow> keeps_ok cr root this m \<Longrightarrow>
   node_ok cr root this (snd (m n)) \<and> room_kept (tables n) (tables (snd (m n)))"
  by (simp add: keeps_ok_def network_keeps_def)

named_theorems network_intros \<open>steps that keep a node in order\<close>

lemma keeps_ok_bind [network_intros]:
  "keeps_ok cr root this m \<Longrightarrow> (\<And>x. keeps_ok cr root this (k x)) \<Longrightarrow> keeps_ok cr root this (bind_step m k)"
  unfolding keeps_ok_def using network.bind by blast

lemma keeps_ok_basic [network_intros]:
  "keeps_ok cr root this (return_step x)" "keeps_ok cr root this (lift_step v)"
  by (simp_all add: keeps_ok_def network.basic)

lemma on_client_ok [network_intros]:
  "(\<And>c. keeps_route c (snd (m c))) \<Longrightarrow> keeps_ok cr root this (on_client m)"
  by (auto simp: keeps_ok_def network_keeps_def on_client_def case_prod_beta node_ok_def keeps_route_def)

lemma node_ok_store:
  assumes "at_node cr root env" "node_ok cr root this n" "store_ok (store_env env) (store c)"
  shows "node_ok cr root this (n\<lparr>nn_store := c\<rparr>)"
proof -
  have "store_ok (store_env env') (store c)" if "at_node cr root env'" for env'
    using store_ok_cong [of "store_env env'" "store_env env"] that assms(1,3) by (simp add: at_node_def)
  with assms(2) show ?thesis by (simp add: node_ok_def)
qed

lemma on_node_ok [network_intros]:
  assumes env: "at_node cr root env" and keeps: "\<And>c. keeps_node (store_env env) c (snd (m c))"
  shows "keeps_ok cr root this (on_node m)"
  unfolding keeps_ok_def network_keeps_def
proof (intro allI impI)
  fix n
  assume ok: "node_ok cr root this n"
  with env have "store_ok (store_env env) (tables n)" by (simp add: node_ok_def)
  with keeps [of "nn_store n"] have new: "store_ok (store_env env) (store (snd (m (nn_store n))))"
    "keeps_rows (tables n) (store (snd (m (nn_store n))))" "room_kept (tables n) (store (snd (m (nn_store n))))"
    by (simp_all add: keeps_node_def keeps_store_def)
  with node_ok_store [OF env ok new(1)] show "node_ok cr root this (snd (on_node m n))
      \<and> keeps_rows (tables n) (tables (snd (on_node m n))) \<and> room_kept (tables n) (tables (snd (on_node m n)))"
    by (simp add: on_node_def case_prod_beta)
qed

text \<open>A step on the tables and files alone.\<close>

lemma on_store_ok:
  assumes env: "at_node cr root env" and ok: "node_ok cr root this n"
    and keeps: "store_ok (store_env env) (tables n) \<Longrightarrow>
      store_ok (store_env env) (snd (m (tables n))) \<and> room_kept (tables n) (snd (m (tables n)))"
  shows "node_ok cr root this (snd (on_node (on_store m) n)) \<and> room_kept (tables n) (tables (snd (on_node (on_store m) n)))"
proof -
  have "store_ok (store_env env) (tables n)" using ok env by (simp add: node_ok_def)
  with keeps node_ok_store [OF env ok, of "(nn_store n)\<lparr>store := snd (m (tables n))\<rparr>"] show ?thesis
    by (simp add: on_node_def on_store_def case_prod_beta)
qed

lemma server_process_message_ok:
  assumes "at_node cr root env" "sha256 (store_env env)"
  shows "keeps_ok cr root this (server_process_message cenv env now info)"
proof -
  have stored: "keeps_ok cr root this (bind_step (on_node (apply_in_transaction env (source_node info) m)) (\<lambda>(result, tasks).
           bind_step (on_client (run_tasks cenv tasks)) (\<lambda>_. return_step result)))" for m
    unfolding case_prod_beta
    by (intro network_intros on_node_ok [OF assms(1)] apply_in_transaction_keeps [OF assms(2)] run_tasks_keeps)
  show ?thesis
    unfolding server_process_message_def
  proof (rule keeps_ok_bind [OF keeps_ok_basic(2)])
    fix m
    show "keeps_ok cr root this (case m of
         Dht_find_node target \<Rightarrow> on_client (apply_find_node cenv target info)
       | Dht_find_node_response ts \<Rightarrow> on_client (apply_find_node_response cenv ts info)
       | Dht_ping time \<Rightarrow> on_client (apply_ping cenv now time info)
       | Dht_pong m \<Rightarrow> on_client (apply_pong now m info)
       | m \<Rightarrow>
           bind_step (on_node (apply_in_transaction env (source_node info) m)) (\<lambda>(result, tasks).
           bind_step (on_client (run_tasks cenv tasks)) (\<lambda>_. return_step result)))"
      by (cases m) (simp_all only: node_message.case stored on_client_ok apply_find_node_keeps
          apply_find_node_response_keeps apply_ping_keeps apply_pong_keeps)
  qed
qed

lemma session_process_message_ok:
  assumes "at_node cr root env" "sha256 (store_env env)"
  shows "keeps_ok cr root this (session_process_message cenv env now target info)"
proof -
  have routed: "keeps_ok cr root this (on_client (modify_step (add_route (mi_hops info) (mi_session info))))"
    by (intro on_client_ok client.modify add_route_keeps)
  have "keeps_ok cr root this (bind_step (on_client (modify_step (add_route (mi_hops info) (mi_session info)))) (\<lambda>_ n.
          if target \<noteq> current_node_id (client_route (nn_client n)) then
            bind_step (on_client (client_proxy cenv target (mi_type info) (mi_data info) (mi_hops info)))
              (\<lambda>_. return_step True) n
          else server_process_message cenv env now info n))"
  proof (rule keeps_ok_bind [OF routed])
    have 1: "keeps_ok cr root this (bind_step (on_client (client_proxy cenv target (mi_type info) (mi_data info) (mi_hops info)))
              (\<lambda>_. return_step True))"
      by (intro network_intros client_proxy_keeps)
    note 2 = server_process_message_ok [OF assms, of this cenv now info]
    show "keeps_ok cr root this (\<lambda>n. if target \<noteq> current_node_id (client_route (nn_client n)) then
            bind_step (on_client (client_proxy cenv target (mi_type info) (mi_data info) (mi_hops info)))
              (\<lambda>_. return_step True) n
          else server_process_message cenv env now info n)"
      using 1 2 by (simp add: keeps_ok_def)
  qed
  then show ?thesis by (simp add: keeps_ok_def session_process_message_def network.refl)
qed

lemma client_timer_ok:
  assumes "at_node cr root env" "sha256 (store_env env)"
  shows "keeps_ok cr root this (client_timer cenv env now)"
proof -
  have "keeps_route c (snd (let (r, route) = route_on_timer (ping_node cenv now) (client_route c)
      in (r, c\<lparr>client_route := route\<rparr>)))" for c
    by (rule keeps_route_op [where ping = "ping_node cenv now" and op = On_timer]) (simp add: case_prod_beta)
  then show ?thesis
    unfolding client_timer_def
    by (intro network_intros on_node_ok [OF assms(1)] put_packet_keeps update_route_table_keeps run_tasks_keeps
        client_transaction_keeps process_update_keeps [OF assms(2)])
qed

lemma add_session_ok:
  assumes "at_node cr root env"
  shows "keeps_ok cr root this (add_session cenv env s key h)"
proof -
  have "keeps_route c (c\<lparr>client_route := snd (add_node (session_partner s) s h False (client_route c))\<rparr>)" for c
    by (rule keeps_route_op [where ping = undefined and op = "Add_node (session_partner s) s h False"]) simp
  then show ?thesis
    unfolding add_session_def
    by (intro network_intros on_node_ok [OF assms] client.modify on_store_keeps note_session_keeps)
qed

text \<open>The file a user puts into a folder is none of the node's own.\<close>

lemma description_other:
  assumes "buffer_size h = 32"
  shows "storage_description folder \<noteq> join_path lp (path_of h)" and "storage_description folder \<noteq> tmp_file env h"
proof -
  let ?n = "text_of ''.vds_storage.json''"
  have dot: "(0x2E :: byte) \<notin> set (append_path h)"
  proof
    assume "(0x2E :: byte) \<in> set (append_path h)"
    then have "(0x2E :: byte) \<in> set (base64_from_bytes (buffer_data h))"
      by (auto simp: append_path_def str_replace_def split: if_splits)
    from base64_chars [OF this] show False by code_simp
  qed
  have n: "length ?n = 17" "(0x2E :: byte) \<in> set ?n" by code_simp+
  have len: "length (append_path h) = 44" using append_path_length [OF assms] .
  have tail: "x @ drop 27 (append_path h) \<noteq> y @ ?n" for x y
  proof
    assume "x @ drop 27 (append_path h) = y @ ?n"
    then have "drop 27 (append_path h) = ?n" using append_eq_append_conv [of x y] n(1) len by simp
    with n(2) dot show False by (metis in_set_dropD)
  qed
  have d: "drop 20 (append_path h) = take 7 (drop 20 (append_path h)) @ drop 27 (append_path h)"
    using append_take_drop_id [of 7 "drop 20 (append_path h)"] by simp
  show "storage_description folder \<noteq> join_path lp (path_of h)"
    using tail [of "lp @ slash # take 10 (append_path h) @ slash # take 10 (drop 10 (append_path h)) @ slash # take 7 (drop 20 (append_path h))"
        "folder @ [slash]"] d
    by (simp add: storage_description_def join_path_def path_of_def)
  show "storage_description folder \<noteq> tmp_file env h"
    using tail [of "tmp_folder env @ slash # take 27 (append_path h)" "folder @ [slash]"]
    by (simp add: storage_description_def join_path_def)
qed

definition put_description :: "cstring \<Rightarrow> const_data_buffer \<Rightarrow> (unit, node_state) step" where
  "put_description folder d s = (Inr (), s\<lparr>node_files := (node_files s)(storage_description folder \<mapsto> d)\<rparr>)"

lemma put_description_ok:
  assumes "store_ok env s"
  shows "store_ok env (snd (put_description folder d s)) \<and> room_kept s (snd (put_description folder d s))"
proof -
  have size: "buffer_size p = 32" if "p \<in> table_keys (tmp_datas s)" for p
    using assms that unfolding store_ok_def tmp_ok_def by blast
  have "tmp_file env p \<noteq> storage_description folder" if "p \<in> table_keys (tmp_datas s)" for p
    using description_other(2) [OF size [OF that]] by metis
  then have "tmp_grows env s (snd (put_description folder d s))"
    using description_other(1) [of _ folder, symmetric] by (simp add: tmp_grows_def put_description_def tmp_ok_def)
  from tmp_grows_ok [OF this assms] show ?thesis by blast
qed

section \<open>Setting a folder aside\<close>

lemma select_update:
  "table_select (table_update c f t) i = map_option (\<lambda>v. if c i v then f v else v) (table_select t i)"
  by (induction t) (auto simp: table_update_def)

lemma reserve_keeps:
  assumes "replicas_ok env s"
  shows "replicas_ok env (s\<lparr>node_storages := table_update c (\<lambda>st. st\<lparr>st_reserved_size := n\<rparr>) (node_storages s)\<rparr>)"
proof -
  let ?s = "s\<lparr>node_storages := table_update c (\<lambda>st. st\<lparr>st_reserved_size := n\<rparr>) (node_storages s)\<rparr>"
  have "map fst (table_update c f t) = map fst t" for f and t :: "(const_data_buffer, node_storage) table"
    by (induction t) (auto simp: table_update_def)
  then have "table_ok (node_storages ?s)" using assms by (simp add: replicas_ok_def table_ok_def)
  moreover have "\<forall>(_, st) \<in> set (node_storages ?s). st_local_path st \<noteq> []"
    using assms by (auto simp: replicas_ok_def table_update_def split: if_splits)
  moreover have "stored_at env ?s h ld" if "stored_at env s h ld" for h ld
  proof -
    from that obtain st d where st: "table_select (node_storages s) (ld_storage_id ld) = Some st"
      and d: "node_files s (join_path (st_local_path st) (path_of h)) = Some d" "hash_of env d = Inr h"
        "buffer_size d = ld_replica_size ld"
      unfolding stored_at_def by blast
    let ?st = "if c (ld_storage_id ld) st then st\<lparr>st_reserved_size := n\<rparr> else st"
    have "table_select (node_storages ?s) (ld_storage_id ld) = Some ?st" using st by (simp add: select_update)
    moreover have "st_local_path ?st = st_local_path st" by simp
    ultimately have "\<exists>st d. table_select (node_storages ?s) (ld_storage_id ld) = Some st
        \<and> node_files ?s (join_path (st_local_path st) (path_of h)) = Some d \<and> hash_of env d = Inr h
        \<and> buffer_size d = ld_replica_size ld"
      using d by (intro exI [of _ ?st] exI [of _ d]) simp
    with that show ?thesis by (simp add: stored_at_def)
  qed
  ultimately show ?thesis using assms by (auto simp: replicas_ok_def)
qed

lemma allocate_row_ok:
  assumes ok: "store_ok env s" and folder: "folder \<noteq> []"
  shows "store_ok env (snd (allocate_row cr this key_id folder sz usage s))
    \<and> room_kept s (snd (allocate_row cr this key_id folder sz usage s))"
proof -
  obtain r s' where run: "allocate_row cr this key_id folder sz usage s = (r, s')" by (metis surj_pair)
  from run have "store_ok env s' \<and> local_datas s' = local_datas s"
  proof (cases rule: allocate_row_cases)
    case 2
    with ok reserve_keeps [of env s] show ?thesis by (auto simp: store_ok_def tmp_ok_def)
  next
    case (3 i)
    let ?st = "\<lparr>st_local_path = folder, st_owner_id = key_id, st_reserved_size = sint sz, st_usage_type = usage\<rparr>"
    have "snd (insert_storage i ?st s) = s'" using 3 by (simp add: insert_storage_def table_insert_def)
    moreover have "keeps_store env s (snd (insert_storage i ?st s))" using folder by (intro insert_storage_keeps) simp
    ultimately have "store_ok env s'" using ok by (simp add: keeps_store_def)
    then show ?thesis by (simp add: 3)
  qed (use ok in simp)
  with run show ?thesis by (simp add: room_kept_same)
qed

lemma invoke_allocate_storage_ok:
  assumes "store_ok env s"
  shows "store_ok env (snd (invoke_allocate_storage cr fresh this params s))
    \<and> room_kept s (snd (invoke_allocate_storage cr fresh this params s))"
proof -
  let ?P = "\<lambda>s'. store_ok env s' \<and> room_kept s s'"
  have same: "?P s" using assms by simp
  have row: "?P (snd (node_transaction (allocate_row cr this key_id folder sz usage) s))" if "folder \<noteq> []" for key_id folder sz usage
  proof -
    obtain r s' where run: "allocate_row cr this key_id folder sz usage s = (r, s')" by (metis surj_pair)
    have "node_files s' = node_files s" if "r = Inl e" for e
      using run that by (cases rule: allocate_row_cases) auto
    with run allocate_row_ok [OF assms that, of cr this key_id sz usage] same show ?thesis
      by (auto simp: node_transaction_def split: sum.splits)
  qed
  have allocated: "?P (snd (allocate_storage cr fresh this key folder s))" if "folder \<noteq> []" for key folder
    using same row [OF that] file_read_same [of "storage_description folder" s]
    by (auto simp: allocate_storage_def bind_step_def lift_step_def split: prod.splits sum.splits)
  show ?thesis
    unfolding invoke_allocate_storage_def
    using same allocated
    by (auto simp: bind_step_def lift_step_def fail_step_def split: option.split json_value.split list.split sum.split)
qed

section \<open>Everything that happens to a node\<close>

text \<open>A message of any content from any session, for this node or another; the timer; a session that comes or
  goes; an object kept in the temporary folder for saving; a block saved with the transaction around it; a
  file put into a folder by its user; a call that sets the folder aside, or changes its size.\<close>

inductive node_acts :: "('pk, 'sk) crypto \<Rightarrow> cstring \<Rightarrow> ('a, 'pk, 'sk) network_node \<Rightarrow> ('a, 'pk, 'sk) network_node \<Rightarrow> bool"
  for cr root where
  node_receives: "at_node cr root env \<Longrightarrow> node_acts cr root n (snd (session_process_message cenv env now target info n))"
| node_times: "at_node cr root env \<Longrightarrow> node_acts cr root n (snd (client_timer cenv env now n))"
| node_meets: "at_node cr root env \<Longrightarrow> node_acts cr root n (snd (add_session cenv env s key h n))"
| node_leaves: "node_acts cr root n (snd (on_client (modify_step (client_remove_session s)) n))"
| node_keeps: "at_node cr root env \<Longrightarrow>
    node_acts cr root n (snd (on_node (on_store (node_transaction (save_temp (store_env env) object))) n))"
| node_saves: "at_node cr root env \<Longrightarrow>
    node_acts cr root n (snd (on_node (client_transaction (client_save env block allow_root)) n))"
| node_given: "node_acts cr root n (snd (on_node (on_store (put_description folder d)) n))"
| node_allocates: "node_acts cr root n (snd (on_node (on_store
      (invoke_allocate_storage cr fresh (current_node_id (client_route (nn_client n))) params)) n))"

inductive node_reaches :: "('pk, 'sk) crypto \<Rightarrow> cstring \<Rightarrow> const_data_buffer \<Rightarrow> ('a, 'pk, 'sk) network_node \<Rightarrow> bool"
  for cr root this where
  node_starts: "node_reaches cr root this \<lparr>nn_client = new_client this, nn_store = new_node_client empty_node_state\<rparr>"
| node_goes_on: "node_reaches cr root this n \<Longrightarrow> node_acts cr root n n' \<Longrightarrow> node_reaches cr root this n'"

lemma node_acts_ok:
  assumes "node_acts cr root n n'" and env: "at_node cr root env" "sha256 (store_env env)" and ok: "node_ok cr root this n"
  shows "node_ok cr root this n' \<and> room_kept (tables n) (tables n')"
proof -
  have sha: "sha256 (store_env env')" if "at_node cr root env'" for env'
    using env that by (simp add: sha256_def at_node_def)
  from assms(1) ok show ?thesis
  proof induction
    case (node_receives env n cenv now target info)
    from node_receives(2) session_process_message_ok [OF node_receives(1) sha [OF node_receives(1)]]
    show ?case by (rule keeps_okD)
  next
    case (node_times env n cenv now)
    from node_times(2) client_timer_ok [OF node_times(1) sha [OF node_times(1)]] show ?case by (rule keeps_okD)
  next
    case (node_meets env n cenv s key h)
    from node_meets(2) add_session_ok [OF node_meets(1)] show ?case by (rule keeps_okD)
  next
    case (node_leaves n s)
    have "keeps_route c (client_remove_session s c)" for c
      by (rule keeps_route_op [where ping = undefined and op = "Remove_session s"]) (simp add: client_remove_session_def)
    then show ?case by (intro keeps_okD [OF node_leaves] on_client_ok client.modify)
  next
    case (node_keeps env n object)
    show ?case using save_temp_transaction [OF sha [OF node_keeps(1)]] by (intro on_store_ok [OF node_keeps]) blast
  next
    case (node_saves env n block allow_root)
    show ?case
      by (intro keeps_okD [OF node_saves(2)] on_node_ok [OF node_saves(1)] client_transaction_keeps client_save_keeps
          sha node_saves(1))
  next
    case (node_given n folder d)
    show ?case using put_description_ok by (intro on_store_ok [OF env(1) node_given])
  next
    case (node_allocates n fresh params)
    show ?case using invoke_allocate_storage_ok by (intro on_store_ok [OF env(1) node_allocates])
  qed
qed

lemma node_start_ok: "node_ok cr root this \<lparr>nn_client = new_client this, nn_store = new_node_client empty_node_state\<rparr>"
  using empty_log_ok
  by (auto simp: node_ok_def new_client_def route_ok_def new_route_def new_node_client_def empty_node_state_def
      store_ok_def replicas_ok_def table_ok_def tmp_ok_def)

text \<open>C1: Whatever messages reach a node, forged ones as well, whatever its timer and its sockets do, whatever
  its users save or set aside and whichever of these steps fail, half-way through a file as well, the node
  stays in order: the routing table does, every row of a replica has its file with the contents of its hash,
  every temporary file that has a row has the contents of its name, and the records of the log are the blocks
  they are filed under with exactly their ancestors. And no step fills a storage beyond its reserved size:
  after it a storage holds at most that, or what it held before (a user may set the size to less than is
  there).\<close>

theorem node_stays_ok:
  assumes "node_reaches cr root this n" and "at_node cr root env" "sha256 (store_env env)"
  shows "route_ok (client_route (nn_client n)) \<and> current_node_id (client_route (nn_client n)) = this
    \<and> replicas_ok (store_env env) (tables n) \<and> tmp_ok (store_env env) (tables n)
    \<and> log_ok (client_log_env env) (log_database (tables n))
    \<and> (\<forall>n'. node_acts cr root n n' \<longrightarrow> (\<forall>(sid, st) \<in> set (node_storages (tables n')).
         used_size sid (tables n') \<le> max (used_size sid (tables n)) (st_reserved_size st)))"
proof -
  from assms(1) have ok: "node_ok cr root this n"
  proof induction
    case (node_goes_on n n')
    with node_acts_ok [OF node_goes_on(2) assms(2,3)] show ?case by blast
  qed (rule node_start_ok)
  have "used_size sid (tables n') \<le> max (used_size sid (tables n)) (st_reserved_size st)"
    if "node_acts cr root n n'" "(sid, st) \<in> set (node_storages (tables n'))" for n' sid st
  proof -
    note acted = node_acts_ok [OF that(1) assms(2,3) ok]
    with assms(2) have "table_ok (node_storages (tables n'))" by (auto simp: node_ok_def store_ok_def replicas_ok_def)
    with acted that(2) show ?thesis by (intro room_keptD) blast+
  qed
  with ok assms(2) show ?thesis by (auto simp: node_ok_def store_ok_def)
qed

text \<open>A node with a hash of 32 bytes; the sockets take everything.\<close>

definition silent_client_env :: "nat client_env" where
  "silent_client_env = \<lparr>packet_result = \<lambda>_. Inr (), address_string = \<lambda>_. [], random_byte = \<lambda>_ _. 0, wellknown_enabled = True\<rparr>"

definition plain_node_env :: "(const_data_buffer, unit) node_client_env" where
  "plain_node_env = \<lparr>store_env = one_storage_env, generate_private_key = Inr (), public_key_of = \<lambda>_. Inr (Data_buffer [4]),
     private_key_der = \<lambda>_. Inr (Data_buffer [6]), private_key_parse = \<lambda>_. Inr (), root_id = Data_buffer [5], save_fuel = 3\<rparr>"

text \<open>A user sets the folder \<open>d\<close> aside, with 1000 bytes; then a node pings.\<close>

definition sample_description :: const_data_buffer where
  "sample_description = Data_buffer (text_of
     ''{\"vds\":\"0.1\",\"name\":\"BA==\",\"size\":\"1000\",\"usage\":\"share\",\"sign\":\"BA==\"}'')"

definition given_node :: "(nat, const_data_buffer, unit) network_node" where
  "given_node = snd (on_node (on_store (put_description [0x64] sample_description))
     \<lparr>nn_client = new_client (Data_buffer [1]), nn_store = new_node_client empty_node_state\<rparr>)"

definition storing_node :: "(nat, const_data_buffer, unit) network_node" where
  "storing_node = snd (on_node (on_store (invoke_allocate_storage (env_crypto (node_log one_storage_env)) (\<lambda>_. 0)
     (current_node_id (client_route (nn_client given_node)))
     (Some (Json_array 0 0 [json_primitive (text_of ''BA==''), json_primitive [0x64]])))) given_node)"

abbreviation ping_of_2 :: "(nat, const_data_buffer, unit) network_node \<Rightarrow> (nat, const_data_buffer, unit) network_node" where
  "ping_of_2 n \<equiv> snd (session_process_message silent_client_env plain_node_env 7 (Data_buffer [1])
     \<lparr>mi_session = \<lparr>session_address = 5, session_partner = Data_buffer [2]\<rparr>, mi_type = message_type (Dht_ping 3),
       mi_data = Data_buffer [0, 0, 0, 0, 0, 0, 0, 3], mi_hops = [Data_buffer [2]]\<rparr> n)"

lemma storing_node:
  "nn_client storing_node = new_client (Data_buffer [1])"
  "map (st_reserved_size \<circ> snd) (node_storages (tables storing_node)) = [1000]"
proof -
  let ?cr = "env_crypto (node_log one_storage_env)"
  have given: "nn_client given_node = new_client (Data_buffer [1])"
    "node_files (tables given_node) (storage_description [0x64]) = Some sample_description"
    "node_storages (tables given_node) = []"
    by (simp_all add: given_node_def put_description_def on_node_def on_store_def new_node_client_def empty_node_state_def)
  have check: "check_storage_description ?cr (\<lambda>_. 0) (Data_buffer [4]) sample_description = Inr (Data_buffer [4], 1000, Share)"
    by code_simp
  have key: "base64_to_bytes (\<lambda>_. 0) (text_of ''BA=='') = Inr (Data_buffer [4])" "text_of ''BA=='' \<noteq> []"
    "key_parse_der ?cr (Data_buffer [4]) = Inr (Data_buffer [4])"
    by code_simp+
  have hash: "hash_signature ?cr d = Inr (padded_hash d)" for d by (rule one_storage_ok(3))
  show "nn_client storing_node = new_client (Data_buffer [1])"
    by (simp add: storing_node_def on_node_def case_prod_beta given(1))
  have "sint (1000 :: u64) = 1000" by code_simp
  then show "map (st_reserved_size \<circ> snd) (node_storages (tables storing_node)) = [1000]"
    using given(2,3) check key hash
    by (simp add: storing_node_def on_node_def on_store_def case_prod_beta invoke_allocate_storage_def allocate_storage_def
        allocate_row_def bind_step_def lift_step_def return_step_def file_read_all_def node_transaction_def
        insert_storage_def table_insert_def)
qed

lemma ping_answered:
  "map (st_reserved_size \<circ> snd) (node_storages (tables (ping_of_2 \<lparr>nn_client = new_client (Data_buffer [1]), nn_store = x\<rparr>)))
     = map (st_reserved_size \<circ> snd) (node_storages (store x))"
  "buckets (client_route (nn_client (ping_of_2 \<lparr>nn_client = new_client (Data_buffer [1]), nn_store = x\<rparr>))) \<noteq> []"
  "outgoing (nn_client (ping_of_2 \<lparr>nn_client = new_client (Data_buffer [1]), nn_store = x\<rparr>)) \<noteq> []"
  by code_simp+

theorem node_stays_ok_witness:
  "map (st_reserved_size \<circ> snd) (node_storages (tables (ping_of_2 storing_node))) = [1000]
    \<and> buckets (client_route (nn_client (ping_of_2 storing_node))) \<noteq> [] \<and> outgoing (nn_client (ping_of_2 storing_node)) \<noteq> []
    \<and> replicas_ok one_storage_env (tables storing_node) \<and> route_ok (client_route (nn_client storing_node))
    \<and> (\<exists>sid. used_size sid (tables (ping_of_2 storing_node)) \<le> max (used_size sid (tables storing_node)) 1000)"
proof -
  let ?cr = "env_crypto (node_log one_storage_env)"
  have at: "at_node ?cr [0x72] plain_node_env"
    by (simp add: at_node_def plain_node_env_def one_storage_env_def)
  have sha: "sha256 (store_env plain_node_env)" using one_storage_ok(2) by (simp add: plain_node_env_def)
  have ok: "route_ok (client_route (nn_client n)) \<and> replicas_ok one_storage_env (tables n)"
    and acts: "node_acts ?cr [0x72] n n' \<Longrightarrow> (sid, st) \<in> set (node_storages (tables n')) \<Longrightarrow>
         used_size sid (tables n') \<le> max (used_size sid (tables n)) (st_reserved_size st)"
    if "node_reaches ?cr [0x72] (Data_buffer [1]) n" for n n' :: "(nat, const_data_buffer, unit) network_node" and sid st
    using node_stays_ok [OF that at sha] by (auto simp: plain_node_env_def)
  have reach: "node_reaches ?cr [0x72] (Data_buffer [1]) storing_node"
    unfolding storing_node_def given_node_def by (rule node_goes_on [OF node_goes_on [OF node_starts node_given] node_allocates])
  have "storing_node = \<lparr>nn_client = new_client (Data_buffer [1]), nn_store = nn_store storing_node\<rparr>"
    using storing_node(1) by (cases storing_node) simp
  from ping_answered [of "nn_store storing_node", folded this] storing_node(2)
  have run: "map (st_reserved_size \<circ> snd) (node_storages (tables (ping_of_2 storing_node))) = [1000]"
    "buckets (client_route (nn_client (ping_of_2 storing_node))) \<noteq> []" "outgoing (nn_client (ping_of_2 storing_node)) \<noteq> []"
    by simp_all
  from run(1) obtain sid st where st: "(sid, st) \<in> set (node_storages (tables (ping_of_2 storing_node)))" "st_reserved_size st = 1000"
    by (cases "node_storages (tables (ping_of_2 storing_node))") auto
  from acts [OF reach node_receives [OF at] st(1)] st(2)
  have "used_size sid (tables (ping_of_2 storing_node)) \<le> max (used_size sid (tables storing_node)) 1000" by simp
  with ok [OF reach] run show ?thesis by (intro conjI exI [of _ sid]) simp_all
qed

end
