(* ===== verification/Client_properties.thy ===== *)
theory Client_properties
  imports Node_invariant
begin

text \<open>
  Messages on their way through the network of nodes, and replicas that travel in them.
\<close>

section \<open>The order of a search\<close>

text \<open>Sorted by distance, every node under its own distance and identifier.\<close>

definition level_ok :: "const_data_buffer \<Rightarrow> const_data_buffer \<Rightarrow> (const_data_buffer \<times> 'a route_node) list \<Rightarrow> bool" where
  "level_ok target d m \<longleftrightarrow> is_set (map fst m) \<and> (\<forall>(i, n) \<in> set m. node_id n = i \<and> d = dht_distance i target)"

definition in_place :: "const_data_buffer \<Rightarrow> 'a found_nodes \<Rightarrow> bool" where
  "in_place target result \<longleftrightarrow> is_set (map fst result) \<and> (\<forall>(d, m) \<in> set result. m \<noteq> [] \<and> level_ok target d m)"

lemma map_put_not_Nil: "map_put k v m \<noteq> []"
  by (cases "(k, v, m)" rule: map_put.cases) auto

lemma in_place_level: "in_place target result \<Longrightarrow> level_ok target d (at_distance result d)"
  by (auto simp: in_place_def level_ok_def split: option.split dest!: map_of_SomeD)

lemma in_place_put: "in_place target result \<Longrightarrow> m \<noteq> [] \<Longrightarrow> level_ok target d m \<Longrightarrow> in_place target (map_put d m result)"
  by (auto simp: in_place_def is_set_map_put dest!: in_map_put)

lemma level_ok_put:
  "level_ok target (dht_distance (node_id n) target) m \<Longrightarrow>
     level_ok target (dht_distance (node_id n) target) (map_put (node_id n) n m)"
  by (auto simp: level_ok_def is_set_map_put dest!: in_map_put)

lemma found_node_in_place:
  assumes "in_place target result" "found_node target n result = (k, result')"
  shows "in_place target result'"
proof -
  let ?d = "dht_distance (node_id n) target"
  let ?m = "at_distance result ?d"
  note level = in_place_level [OF assms(1), of ?d]
  have "in_place target (map_put ?d (map_put (node_id n) n ?m) result)"
    by (intro in_place_put assms(1) map_put_not_Nil level_ok_put level)
  moreover have "in_place target (map_put ?d ?m result)" if "map_of ?m (node_id n) \<noteq> None"
    using that by (intro in_place_put assms(1) level) auto
  ultimately show ?thesis
    using assms(2) by (auto simp: found_node_def Let_def split: option.splits if_splits)
qed

lemma looking_bucket_in_place:
  "in_place target result \<Longrightarrow> looking_bucket target filt ns count result = (r, result') \<Longrightarrow> in_place target result'"
proof (induction ns arbitrary: count result)
  case (Cons n ns)
  obtain k result1 where f: "found_node target n result = (k, result1)" by fastforce
  from found_node_in_place [OF Cons.prems(1) f] Cons show ?case
    by (auto simp: f split: if_splits sum.splits bool.splits)
qed simp

interpretation placed: step_relation "\<lambda>result result'. in_place target result \<longrightarrow> in_place target result'"
  by unfold_locales simp_all

lemma looking_nodes_in_place:
  "in_place target result \<longrightarrow> in_place target (snd (looking_nodes r target filt index result))"
  using looking_bucket_in_place [of target result filt] by (auto simp: looking_nodes_def split: option.splits) (metis prod.collapse)

lemma search_loop_in_place:
  "in_place target result \<longrightarrow> in_place target (snd (search_loop r target max_count filt index lo hi d count result))"
proof (induction "Suc (index + hi) - d" arbitrary: d count result rule: less_induct)
  case less
  show ?case
  proof (cases "length result < max_count \<and> (index + d \<le> hi \<or> d \<le> index \<and> lo \<le> index - d)")
    case True
    then have "Suc (index + hi) - Suc d < Suc (index + hi) - d" by auto
    note ih = less [OF this]
    show ?thesis
      unfolding search_loop.simps [of r target max_count filt index lo hi d count result] if_P [OF True]
      by (intro placed.bind) (auto simp: return_step_def ih [rule_format] intro: looking_nodes_in_place [rule_format])
  next
    case False
    then show ?thesis unfolding search_loop.simps [of r target max_count filt index lo hi d count result] if_not_P [OF False] by simp
  qed
qed

lemma search_nodes_in_place: "search_nodes r target max_count filt [] = (x, result) \<Longrightarrow> in_place target result"
proof -
  assume run: "search_nodes r target max_count filt [] = (x, result)"
  have start: "in_place target []" by (simp add: in_place_def)
  from run start search_loop_in_place [rule_format, OF start] show ?thesis
    unfolding search_nodes_def by (metis prod.inject prod.collapse)
qed

lemma found_in_order_found:
  assumes "in_place target result" "n \<in> set (found_in_order result)"
  shows "found result target (node_id n) = Some n"
proof -
  from assms(2) obtain d m i where dm: "(d, m) \<in> set result" "(i, n) \<in> set m" by (auto simp: found_in_order_def)
  with assms(1) have m: "level_ok target d m" "is_set (map fst result)" by (auto simp: in_place_def)
  with dm(2) have i: "i = node_id n" "d = dht_distance i target" "is_set (map fst m)" by (auto simp: level_ok_def)
  have "map_of result d = Some m" using dm(1) m(2) is_set_sorted by (metis map_of_is_SomeI)
  moreover have "map_of m i = Some n" using dm(2) i(3) is_set_sorted by (metis map_of_is_SomeI)
  ultimately show ?thesis using i by (simp add: found_def)
qed

lemma found_in_order_not_Nil:
  assumes "in_place target result" "result \<noteq> []"
  shows "found_in_order result \<noteq> []"
  using assms by (cases result) (auto simp: found_in_order_def in_place_def)

text \<open>The first of the nodes found is nearest to the target.\<close>

lemma found_in_order_first:
  assumes "in_place target result" "found_in_order result = n # ns" "m \<in> set (found_in_order result)"
  shows "dht_distance (node_id n) target \<le> dht_distance (node_id m) target"
proof -
  obtain d l rest where result: "result = (d, l) # rest"
    using assms(2) by (cases result) (auto simp: found_in_order_def)
  with assms(1) have l: "l \<noteq> []" "level_ok target d l" and later: "\<forall>d' \<in> fst ` set rest. d < d'"
    and ok: "\<forall>(d', l') \<in> set result. level_ok target d' l'"
    by (auto simp: in_place_def)
  have "n \<in> snd ` set l" using assms(2) l(1) by (cases l) (auto simp: result found_in_order_def)
  with l(2) have "d = dht_distance (node_id n) target" by (auto simp: level_ok_def)
  moreover from assms(3) obtain d' l' i where m: "(d', l') \<in> set result" "(i, m) \<in> set l'"
    by (auto simp: found_in_order_def)
  with ok have "d' = dht_distance (node_id m) target" by (auto simp: level_ok_def)
  moreover have "d \<le> d'" using m(1) later by (force simp: result)
  ultimately show ?thesis by simp
qed

section \<open>A node that is known\<close>

lemma search_finds_target:
  assumes r: "route_ok r" and n: "n \<in> nodes r" "node_id n = target" "eligible filt n" and total: "\<And>n. \<exists>b. filt n = Inr b"
  shows "\<exists>result n'. search_nodes r target 1 filt [] = (Inr (), result) \<and> found result target target = Some n'
    \<and> n' \<in> nodes r \<and> eligible filt n' \<and> node_id n' = target \<and> hops n' \<le> hops n"
proof -
  let ?i = "distance_exp (current_node_id r) target"
  let ?lo = "fst (hd (buckets r))" and ?hi = "fst (last (buckets r))"
  from n(1) obtain k b where b: "(k, b) \<in> set (buckets r)" "n \<in> set b" by (auto simp: nodes_def)
  with r n(2) have k: "k = ?i" by (auto simp: route_ok_def bucket_ok_def)
  then have at: "map_of (buckets r) ?i = Some b"
    using r b(1) is_set_sorted unfolding route_ok_def by (metis map_of_is_SomeI)
  then have set_at: "set (bucket_at r ?i) = set b" by (simp add: bucket_at_def)
  have "bucket_at r ?i \<noteq> []" using set_at b(2) by auto
  then have bounds: "?lo \<le> ?i" "?i \<le> ?hi" using bucket_bounds [OF r] by auto
  have "collected filt target {} 0 []" by (auto simp: collected_def found_def)
  from looking_nodes_collects [OF total this, of r ?i] obtain above result1 where
    1: "looking_nodes r target filt ?i [] = (Inr above, result1)" "collected filt target (set b) above result1"
    using set_at by auto
  from looking_nodes_collects [OF total 1(2), of r ?i] obtain below result where
    2: "looking_nodes r target filt ?i result1 = (Inr below, result)" "collected filt target (set b) (above + below) result"
    using set_at by auto
  from 2(2) n b(2) obtain n' where n': "found result target target = Some n'" "hops n' \<le> hops n"
    unfolding collected_def by blast
  with 2(2) have "n' \<in> set b \<and> eligible filt n' \<and> node_id n' = target" unfolding collected_def by blast
  moreover have "n' \<in> nodes r" if "n' \<in> set b" using that b(1) by (auto simp: nodes_def)
  moreover have "result \<noteq> []" using n'(1) by (auto simp: found_def)
  then have ends: "search_loop r target 1 filt ?i ?lo ?hi d count result = (Inr (), result)" for d count
    by (subst search_loop.simps) (cases result, simp_all)
  have "search_nodes r target 1 filt [] = (Inr (), result)"
    using bounds 1(1) 2(1) at ends unfolding search_nodes_def
    by (subst search_loop.simps) (auto simp: bind_step_def return_step_def)
  ultimately show ?thesis using n' by blast
qed

text \<open>Nothing is nearer to a node than the node itself.\<close>

lemma distance_self_least:
  assumes "buffer_size i = buffer_size target" "dht_distance i target \<le> dht_distance target target"
  shows "i = target"
proof -
  have least: "length xs = length ys \<Longrightarrow> \<not> memcmp_less (map2 (XOR) xs ys) (map2 (XOR) ys ys)
      \<and> (map2 (XOR) xs ys = map2 (XOR) ys ys \<longrightarrow> xs = ys)" for xs ys :: "byte list"
    by (induction xs ys rule: list_induct2) (auto simp: xor_eq_0)
  have comm: "map2 (XOR) xs ys = map2 (XOR) ys (xs :: byte list)" for xs ys
    by (induction xs ys rule: list_induct2') (simp_all add: xor.commute)
  have "buffer_data i = buffer_data target"
    using assms least [of "buffer_data i" "buffer_data target"] comm [of "buffer_data target" "buffer_data i"]
    by (auto simp: dht_distance_def less_eq_const_data_buffer_def buffer_less_def)
  then show ?thesis by (simp add: const_data_buffer.expand)
qed

text \<open>C3: What is sent to a node the routing table knows, and that answers pings, goes straight to it: one
  message, over a session that leads to that very node, and over the one with the fewest hops that is good.
  It holds although the search need not find the nearest node otherwise.\<close>

theorem known_node_reached:
  assumes r: "route_ok (client_route c)" and n: "n \<in> nodes (client_route c)" "node_id n = target" "is_good n"
    and sizes: "\<forall>m \<in> nodes (client_route c). buffer_size (node_id m) = buffer_size target"
    and msg: "message_serialize m = Inr data" and sent: "\<forall>p. packet_result env p = Inr ()"
  shows "\<exists>n' \<in> nodes (client_route c). node_id n' = target \<and> is_good n' \<and> hops n' \<le> hops n
    \<and> client_send env target m c
        = (Inr (), c\<lparr>outgoing := outgoing c @ [Send_message (proxy_session n') (message_type m) target data]\<rparr>)"
proof -
  let ?filt = "\<lambda>_. Inr True :: bool expected"
  from search_finds_target [OF r n(1,2), of ?filt] n(3) obtain result n0 where
    run: "search_nodes (client_route c) target 1 ?filt [] = (Inr (), result)" and
    n0: "found result target target = Some n0" "n0 \<in> nodes (client_route c)" "is_good n0" "node_id n0 = target" "hops n0 \<le> hops n"
    by (auto simp: eligible_def)
  note place = search_nodes_in_place [OF run]
  have listed: "n0 \<in> set (found_in_order result)" using n0(1) by (force simp: found_def found_in_order_def split: option.splits dest!: map_of_SomeD)
  obtain n1 ns where order: "found_in_order result = n1 # ns" using listed by (cases "found_in_order result") auto
  then have n1: "found result target (node_id n1) = Some n1" using found_in_order_found [OF place] by simp
  have "dht_distance (node_id n1) target \<le> dht_distance (node_id n0) target"
    using found_in_order_first [OF place order listed] .
  moreover have "n1 \<in> nodes (client_route c)"
    using search_nodes_collects [OF r, of ?filt target 1] run n1 by auto
  ultimately have "node_id n1 = target" using sizes n0(4) by (auto intro: distance_self_least)
  with n1 n0(1) have "n1 = n0" by simp
  have "client_send env target m c
      = (Inr (), c\<lparr>outgoing := outgoing c @ [Send_message (proxy_session n0) (message_type m) target data]\<rparr>)"
    using run order sent msg \<open>n1 = n0\<close>
    by (simp add: client_send_def send_data_def for_near_def bind_step_def lift_step_def put_packet_def return_step_def)
  with n0 show ?thesis by blast
qed

section \<open>Forwarding\<close>

lemma found_in_order_empty:
  assumes "in_place target result"
  shows "found_in_order result = [] \<longleftrightarrow> (\<forall>i. found result target i = None)"
proof
  assume "found_in_order result = []"
  with found_in_order_not_Nil [OF assms] have "result = []" by blast
  then show "\<forall>i. found result target i = None" by (simp add: found_def)
next
  assume none: "\<forall>i. found result target i = None"
  show "found_in_order result = []"
  proof (rule ccontr)
    assume "found_in_order result \<noteq> []"
    then obtain n where "n \<in> set (found_in_order result)" by (meson last_in_set)
    from found_in_order_found [OF assms this] none show False by simp
  qed
qed

text \<open>A good node whose session does not lead back over the way.\<close>

definition onward :: "const_data_buffer list \<Rightarrow> 'a route_node \<Rightarrow> bool" where
  "onward way n \<longleftrightarrow> is_good n \<and> session_partner (proxy_session n) \<notin> set way"

lemma forward_onward:
  assumes r: "route_ok (client_route c)" and way: "way \<noteq> []" and sent: "\<forall>p. packet_result env p = Inr ()"
  shows "(\<forall>n \<in> nodes (client_route c). \<not> onward way n) \<and> forward env target mtype message way c = (Inr (), c)
    \<or> (\<exists>n \<in> nodes (client_route c). onward way n \<and> forward env target mtype message way c
        = (Inr (), c\<lparr>outgoing := outgoing c @ [Proxy_message (proxy_session n) mtype target way message]\<rparr>))"
proof -
  let ?filt = "\<lambda>n. Inr (session_partner (proxy_session n) \<notin> set way) :: bool expected"
  from search_nodes_collects [OF r, of ?filt target 1] obtain result where
    run: "search_nodes (client_route c) target 1 ?filt [] = (Inr (), result)" and
    good: "\<And>i n. found result target i = Some n \<Longrightarrow> n \<in> nodes (client_route c) \<and> is_good n \<and> ?filt n = Inr True" and
    all: "enough 1 target result \<or> (\<forall>n \<in> nodes (client_route c). is_good n \<and> ?filt n = Inr True \<longrightarrow>
            (\<exists>n'. found result target (node_id n) = Some n' \<and> hops n' \<le> hops n))"
    by blast
  note place = search_nodes_in_place [OF run]
  show ?thesis
  proof (cases "found_in_order result")
    case Nil
    then have none: "found result target i = None" for i using found_in_order_empty [OF place] by blast
    have "result = []" using found_in_order_not_Nil [OF place] Nil by blast
    then have "\<not> enough 1 target result" using none by (simp add: enough_def)
    with all none have "\<forall>n \<in> nodes (client_route c). \<not> onward way n" by (auto simp: onward_def)
    with run Nil show ?thesis by (simp add: forward_def for_near_def)
  next
    case (Cons n ns)
    then have "found result target (node_id n) = Some n" using found_in_order_found [OF place] by simp
    from good [OF this] have "n \<in> nodes (client_route c)" "onward way n" by (auto simp: onward_def)
    moreover have "forward env target mtype message way c
        = (Inr (), c\<lparr>outgoing := outgoing c @ [Proxy_message (proxy_session n) mtype target way message]\<rparr>)"
      using run Cons way sent by (simp add: forward_def for_near_def put_packet_def bind_step_def return_step_def)
    ultimately show ?thesis by blast
  qed
qed

text \<open>C4: A message for another node that came over at most ten nodes is passed on exactly once, unchanged and
  with the nodes it came over, to a good node over a session to none of them; it is dropped only when the
  routing table has no such node. After more than ten nodes it does not go on: it is sent towards the node
  it started from, as a message for that node, with one of the nodes it came over, or this one, in place of
  all of them.\<close>

theorem forwarded_once:
  assumes "route_ok (client_route c)" and "way \<noteq> []" and "\<forall>p. packet_result env p = Inr ()"
  shows "\<exists>target' way'. (if length way \<le> 10 then target' = target \<and> way' = way
        else target' = last way \<and> (\<exists>best \<in> insert (current_node_id (client_route c)) (set way). way' = [best]))
    \<and> ((\<forall>n \<in> nodes (client_route c). \<not> onward way' n) \<and> client_proxy env target mtype message way c = (Inr (), c)
      \<or> (\<exists>n \<in> nodes (client_route c). onward way' n \<and> client_proxy env target mtype message way c
          = (Inr (), c\<lparr>outgoing := outgoing c @ [Proxy_message (proxy_session n) mtype target' way' message]\<rparr>)))"
proof -
  have best: "best_hop this target hs \<in> insert this (set hs)" for this hs
  proof -
    have "fold (\<lambda>item best. if dht_distance target item < dht_distance target best then item else best) hs b \<in> insert b (set hs)"
      for b by (induction hs arbitrary: b) auto
    then show ?thesis by (simp add: best_hop_def)
  qed
  show ?thesis
  proof (cases "length way \<le> 10")
    case True
    with forward_onward [OF assms] show ?thesis by (auto simp: client_proxy_def)
  next
    case False
    let ?way = "[best_hop (current_node_id (client_route c)) target way]"
    have "?way \<noteq> []" by simp
    from forward_onward [OF assms(1) this assms(3), of "last way" mtype message] best
    show ?thesis using False by (intro exI [of _ "last way"] exI [of _ ?way]) (auto simp: client_proxy_def)
  qed
qed

section \<open>A replica on its way\<close>

lemma save_received_succeeds:
  assumes ok: "storage_ok env s" and h: "hash_of env d = Inr h" "buffer_size h = 32" and w: "\<And>fn. can_write env fn"
    and new: "replica_places h s = []" and room: "has_room owner (buffer_size d) s" "d \<noteq> Data_buffer []"
    and sizes: "\<forall>(k, row) \<in> set (replica_data (log_database s)). rd_replica_hash row = h \<longrightarrow> unat (rd_replica_size row) = buffer_size d"
  shows "\<exists>fn s'. save_received env h d owner s = (Inr fn, s') \<and> storage_ok env s'
    \<and> (\<exists>lp sp. (lp, sp) \<in> set (replica_places h s') \<and> node_files s' (join_path lp sp) = Some d)"
proof -
  have rows: "\<forall>owner. (h, owner) \<notin> table_keys (local_datas s)" using new replica_places_row [OF storage_ok_replicas [OF ok]] by blast
  from room obtain sid st where st: "(sid, st) \<in> set (node_storages s)" "usable_storage owner st"
    "used_size sid s + int (buffer_size d) \<le> st_reserved_size st" unfolding has_room_def by blast
  have "0 < buffer_size d" using room(2) by (cases d) auto
  from choose_storage_ok [OF ok st this] obtain path sid' where c: "choose_storage owner (buffer_size d) s = Inr (path, sid')"
    by blast
  from choose_storage_Inr [OF c] obtain st' where st': "(sid', st') \<in> set (node_storages s)" "path = st_local_path st'" by metis
  define s' where "s' = s\<lparr>node_files := (node_files s)(join_path path (path_of h) \<mapsto> d),
     local_datas := local_datas s @ [((h, owner), new_row env sid' h (buffer_size d))]\<rparr>"
  have store: "store_replica env (\<lambda>fn. file_write_all env fn d) h (buffer_size d) owner s
      = (Inr (join_path path (path_of h)), s')"
    using c rows w
    by (simp add: bind_step_def lift_step_def store_replica_def replica_path_ok [OF h(2)] file_write_all_def
        insert_local_data_def table_insert_def return_step_def s'_def new_row_def)
  have "buffer_size d = unat (rd_replica_size row)"
    if "filter (\<lambda>(_, row). rd_replica_hash row = h) (replica_data (log_database s)) = (k, row) # rest" for k row rest
  proof -
    from that have "(k, row) \<in> set (filter (\<lambda>(_, row). rd_replica_hash row = h) (replica_data (log_database s)))" by simp
    with sizes show ?thesis by fastforce
  qed
  then have run: "save_received env h d owner s = (Inr (join_path path (path_of h)), s')"
    using new store by (auto simp: save_received_def assert_step_def split: list.splits)
  moreover have "storage_ok env s'" using stores_storage_ok [OF ok save_received_ok [OF storage_ok_replicas [OF ok] h run]] .
  moreover have "(path, path_of h) \<in> set (replica_places h s')"
    unfolding in_replica_places using st' by (auto simp: s'_def new_row_def intro!: exI)
  moreover have "node_files s' (join_path path (path_of h)) = Some d" by (simp add: s'_def)
  ultimately show ?thesis by blast
qed

lemma replica_rows_place:
  "(lp, sp, owner, object_hash, replica) \<in> set (replica_rows h s) \<Longrightarrow> (lp, sp) \<in> set (replica_places h s)"
  unfolding in_replica_places replica_rows_def by (fastforce split: if_splits)

text \<open>C2: A replica that one node keeps gets to another that asks for it. The first answers a request with one
  message, which changes nothing of it; the message is read back from its bytes as it was sent; and the
  second, when it does not have the replica, knows no other size of it and has room for it, stores it: its
  file then holds the bytes of the first node's file, and both nodes stay in order.\<close>

theorem replica_travels:
  assumes ok: "storage_ok (store_env env) (store a)" "storage_ok (store_env env') (store b)"
    and crypto: "client_crypto env' = client_crypto env" "sha256 (store_env env)" and w: "\<forall>fn. can_write (store_env env') fn"
    and row: "replica_rows h (store a) = (lp, sp, owner, object_hash, replica) # rest"
    and held: "node_files (store a) (join_path lp sp) = Some d" "d \<noteq> Data_buffer []"
    and small: "small_buffer d" "small_buffer h" "small_buffer owner" "small_buffer object_hash"
    and new: "replica_places h (store b) = []" "has_room owner (buffer_size d) (store b)"
    and sizes: "\<forall>(k, row) \<in> set (replica_data (log_database (store b))).
      rd_replica_hash row = h \<longrightarrow> unat (rd_replica_size row) = buffer_size d"
  shows "\<exists>m data b'. apply_in_transaction env source (Sync_replica_request h) a
        = (Inr (True, [Send source (Sync_replica_data m)]), a)
    \<and> message_serialize (Sync_replica_data m) = Inr data
    \<and> bind_step (lift_step (message_deserialize (message_type (Sync_replica_data m)) data)) (apply_in_transaction env' source') b
        = (Inr (True, []), b')
    \<and> storage_ok (store_env env') (store b')
    \<and> (\<exists>lp' sp'. (lp', sp') \<in> set (replica_places h (store b')) \<and> node_files (store b') (join_path lp' sp') = Some d)"
proof -
  define m where "m = \<lparr>sd_object_id = h, sd_data = d, sd_owner = owner, sd_value_id = object_hash, sd_replica = replica\<rparr>"
  have "(lp, sp) \<in> set (replica_places h (store a))" using row replica_rows_place by (metis list.set_intros(1))
  from replica_place_file [OF storage_ok_replicas [OF ok(1)] this] held(1) have hash: "hash_of (store_env env) d = Inr h" by simp
  with crypto(2) have size: "buffer_size h = 32" by (metis Inr_inject sha256_def)
  have asked: "apply_in_transaction env source (Sync_replica_request h) a = (Inr (True, [Send source (Sync_replica_data m)]), a)"
    using row held(1)
    by (simp add: apply_in_transaction_def client_transaction_def on_store_def apply_replica_request_def file_read_all_def
        bind_step_def return_step_def m_def)
  from message_roundtrip [of "Sync_replica_data m"] small obtain data where
    data: "message_serialize (Sync_replica_data m) = Inr data"
      "message_deserialize (message_type (Sync_replica_data m)) data = Inr (Sync_replica_data m)"
    by (auto simp: m_def simp del: message_serialize.simps)
  have hash': "hash_of (store_env env') d = Inr h" using hash crypto(1) by simp
  obtain fn s' where saved: "save_received (store_env env') h d owner (store b) = (Inr fn, s')" "storage_ok (store_env env') s'"
    "\<exists>lp sp. (lp, sp) \<in> set (replica_places h s') \<and> node_files s' (join_path lp sp) = Some d"
    using save_received_succeeds [OF ok(2) hash' size _ new(1,2) held(2) sizes] w by blast
  have "h \<notin> fst ` table_keys (local_datas (store b))"
    using new(1) replica_places_row [OF storage_ok_replicas [OF ok(2)]] by fastforce
  then have "apply_in_transaction env' source' (Sync_replica_data m) b = (Inr (True, []), b\<lparr>store := s'\<rparr>)"
    using saved(1) hash'
    by (simp add: apply_in_transaction_def client_transaction_def on_store_def apply_replica_data_def bind_step_def
        lift_step_def return_step_def assert_step_def m_def)
  with data(2) have "bind_step (lift_step (message_deserialize (message_type (Sync_replica_data m)) data))
      (apply_in_transaction env' source') b = (Inr (True, []), b\<lparr>store := s'\<rparr>)"
    by (simp add: bind_step_def lift_step_def)
  moreover have "storage_ok (store_env env') (store (b\<lparr>store := s'\<rparr>))
      \<and> (\<exists>lp sp. (lp, sp) \<in> set (replica_places h (store (b\<lparr>store := s'\<rparr>)))
            \<and> node_files (store (b\<lparr>store := s'\<rparr>)) (join_path lp sp) = Some d)"
    using saved(2,3) by simp
  ultimately show ?thesis using asked data(1) by blast
qed

section \<open>A save that is rolled back\<close>

lemma replica_places_cong:
  assumes "node_storages s' = node_storages s" "local_datas s' = local_datas s"
  shows "replica_places h s' = replica_places h s"
  unfolding replica_places_def assms ..

text \<open>C5: A save whose transaction fails after a replica was moved out of the temporary folder loses the replica.
  The tables are rolled back, the file is not: the row of the temporary replica is there again, its file is
  gone, and the next save takes the row away and reports success without having stored the replica.\<close>

theorem rolled_back_save_loses_replica:
  assumes ok: "store_ok env s" and tmp: "table_select (tmp_datas s) h \<noteq> None" "node_files s (tmp_file env h) = Some d"
    and new: "replica_places h s = []" and moved: "keep_tmp_replica env owner h s = (Inr (), s1)"
    and failed: "later s1 = (Inl e, s2)" "node_files s2 = node_files s1"
  shows "\<exists>s3 s4. node_transaction (bind_step (keep_tmp_replica env owner h) (\<lambda>_. later)) s = (Inl e, s3)
    \<and> tmp_datas s3 = tmp_datas s \<and> local_datas s3 = local_datas s
    \<and> keep_tmp_replica env owner' h s3 = (Inr (), s4)
    \<and> table_select (tmp_datas s4) h = None \<and> replica_places h s4 = [] \<and> node_files s4 (tmp_file env h) = None"
proof -
  have size: "buffer_size h = 32"
    using ok tmp(1) by (auto simp: store_ok_def tmp_ok_def table_select_None)
  have rows: "\<forall>owner. (h, owner) \<notin> table_keys (local_datas s)"
    using ok new replica_places_row [of env s h] by (simp add: store_ok_def)
  obtain r u where saved: "save_file env h (tmp_file env h) owner s = (r, u)" by (metis surj_pair)
  from moved tmp saved obtain fn where "r = Inr fn" and s1: "s1 = u\<lparr>tmp_datas := delete_key h (tmp_datas u)\<rparr>"
    by (cases r) (auto simp: keep_tmp_replica_def Let_def bind_step_def return_step_def delete_tmp_data_def modify_step_def)
  from this(1) saved new tmp(2) have "store_replica env (file_move env (tmp_file env h)) h (buffer_size d) owner s = (Inr fn, u)"
    by (simp add: save_file_def)
  moreover note move_puts [OF tmp(2), of env]
  moreover have "tmp_file env h \<noteq> join_path lp (path_of h)" for lp using size size by (rule tmp_not_replica)
  ultimately have "node_files u (tmp_file env h) = None"
    using size rows
    by (elim store_replica_cases [where g = "\<lambda>t. ((node_files s)(tmp_file env h := None))(t \<mapsto> d)"]) auto
  then have gone: "node_files s2 (tmp_file env h) = None" by (simp add: failed(2) s1)
  define s3 where "s3 = s\<lparr>node_files := node_files s2\<rparr>"
  have "node_transaction (bind_step (keep_tmp_replica env owner h) (\<lambda>_. later)) s = (Inl e, s3)"
    by (simp add: node_transaction_def bind_step_def moved failed(1) s3_def)
  moreover obtain x where "table_select (tmp_datas s) h = Some x" using tmp(1) by blast
  then have "keep_tmp_replica env owner' h s3 = (Inr (), s3\<lparr>tmp_datas := delete_key h (tmp_datas s3)\<rparr>)"
    using gone by (simp add: keep_tmp_replica_def Let_def bind_step_def return_step_def delete_tmp_data_def modify_step_def s3_def)
  moreover have "table_select (delete_key h t) h = None" for t :: "(const_data_buffer, int) table"
    by (auto simp: table_select_None table_delete_def)
  moreover have "replica_places h (s3\<lparr>tmp_datas := t\<rparr>) = replica_places h s" for t
    by (rule replica_places_cong) (simp_all add: s3_def)
  ultimately show ?thesis using gone new by (auto simp: s3_def)
qed

section \<open>Examples\<close>

abbreviation sample_client :: "nat dht_client" where
  "sample_client \<equiv> \<lparr>client_route = sample_route, update_route_table_counter = 0, outgoing = []\<rparr>"

abbreviation node16 :: "nat route_node" where
  "node16 \<equiv> make_node (Data_buffer [16]) \<lparr>session_address = 2, session_partner = Data_buffer [16]\<rparr> 1"

lemma sample_route_ok: "route_ok sample_route"
  unfolding sample_route_def by (intro route_ok_ops route_ok_new)

lemma sample_route_nodes:
  "nodes sample_route = {make_node (Data_buffer [2]) \<lparr>session_address = 1, session_partner = Data_buffer [2]\<rparr> 1, node16}"
proof -
  have "buckets sample_route = [(3, [node16]),
      (6, [make_node (Data_buffer [2]) \<lparr>session_address = 1, session_partner = Data_buffer [2]\<rparr> 1])]"
    by code_simp
  then show ?thesis by (auto simp: nodes_def)
qed

theorem known_node_reached_witness:
  "\<exists>s. session_partner s = Data_buffer [16] \<and> client_send silent_client_env (Data_buffer [16]) (Dht_find_node (Data_buffer [9])) sample_client
     = (Inr (), sample_client\<lparr>outgoing := [Send_message s 3 (Data_buffer [16]) (Data_buffer [1, 9])]\<rparr>)"
proof -
  have "message_serialize (Dht_find_node (Data_buffer [9])) = Inr (Data_buffer [1, 9])" by code_simp
  from known_node_reached [of sample_client node16 "Data_buffer [16]" "Dht_find_node (Data_buffer [9])", OF _ _ _ _ _ this,
      of silent_client_env] sample_route_ok
  show ?thesis
    by (auto simp: sample_route_nodes make_node_def is_good_def silent_client_env_def)
qed

theorem forwarded_once_witness:
  "\<exists>s. client_proxy silent_client_env (Data_buffer [8]) 5 (Data_buffer [7]) [Data_buffer [16]] sample_client
     = (Inr (), sample_client\<lparr>outgoing := [Proxy_message s 5 (Data_buffer [8]) [Data_buffer [16]] (Data_buffer [7])]\<rparr>)
     \<and> session_partner s = Data_buffer [2]"
  using forwarded_once [of sample_client "[Data_buffer [16]]" silent_client_env "Data_buffer [8]" 5 "Data_buffer [7]"] sample_route_ok
  by (auto simp: sample_route_nodes make_node_def is_good_def silent_client_env_def onward_def)

text \<open>The node that holds the replica, and the node that asks for it.\<close>

definition holding_node :: "(const_data_buffer, unit) node_client" where
  "holding_node = new_node_client (one_storage_state
     \<lparr>local_datas := [((padded_hash (Data_buffer [1, 2]), Data_buffer [4]),
        \<lparr>ld_storage_id = Data_buffer [1], ld_replica_size = 2, ld_storage_path = path_of (padded_hash (Data_buffer [1, 2])), ld_last_access = 5\<rparr>)],
      log_database := empty_database\<lparr>replica_data := [((Data_buffer [4], Data_buffer [9], 3),
        \<lparr>rd_replica_hash = padded_hash (Data_buffer [1, 2]), rd_replica_size = 2, rd_distance = 0\<rparr>)]\<rparr>,
      node_files := [join_path [0x64] (path_of (padded_hash (Data_buffer [1, 2]))) \<mapsto> Data_buffer [1, 2]]\<rparr>)"

lemma padded_hash_size: "buffer_size (padded_hash (Data_buffer [1, 2])) = 32"
  by (simp add: padded_hash_def)

lemma holding_node_ok: "storage_ok one_storage_env (store holding_node)"
  using one_storage_ok(3) padded_hash_size
  by (auto simp: storage_ok_def replicas_ok_def holding_node_def new_node_client_def one_storage_state_def share_storage_def table_ok_def
      used_size_def stored_at_def)

theorem replica_travels_witness:
  "\<exists>m data b'. apply_in_transaction plain_node_env (Data_buffer [3]) (Sync_replica_request (padded_hash (Data_buffer [1, 2]))) holding_node
        = (Inr (True, [Send (Data_buffer [3]) (Sync_replica_data m)]), holding_node)
    \<and> bind_step (lift_step (message_deserialize (message_type (Sync_replica_data m)) data))
          (apply_in_transaction plain_node_env (Data_buffer [2])) (new_node_client one_storage_state)
        = (Inr (True, []), b')
    \<and> (\<exists>lp sp. (lp, sp) \<in> set (replica_places (padded_hash (Data_buffer [1, 2])) (store b'))
        \<and> node_files (store b') (join_path lp sp) = Some (Data_buffer [1, 2]))"
proof -
  have env: "store_env plain_node_env = one_storage_env" by (simp add: plain_node_env_def)
  have w: "\<forall>fn. can_write one_storage_env fn" by (simp add: one_storage_env_def)
  have rows: "replica_rows (padded_hash (Data_buffer [1, 2])) (store holding_node)
      = [([0x64], path_of (padded_hash (Data_buffer [1, 2])), Data_buffer [4], Data_buffer [9], 3)]"
    by (simp add: replica_rows_def holding_node_def new_node_client_def one_storage_state_def share_storage_def)
  have held: "node_files (store holding_node) (join_path [0x64] (path_of (padded_hash (Data_buffer [1, 2])))) = Some (Data_buffer [1, 2])"
    by (simp add: holding_node_def new_node_client_def)
  have room: "has_room (Data_buffer [4]) (buffer_size (Data_buffer [1, 2])) (store (new_node_client one_storage_state))"
    by (simp add: has_room_def new_node_client_def one_storage_state_def share_storage_def usable_storage_def used_size_def)
  have none: "replica_places (padded_hash (Data_buffer [1, 2])) (store (new_node_client one_storage_state)) = []"
    by (simp add: new_node_client_def one_storage_state_def replica_places_def)
  have asking: "storage_ok one_storage_env (store (new_node_client one_storage_state))"
    "\<forall>(k, row) \<in> set (replica_data (log_database (store (new_node_client one_storage_state)))).
       rd_replica_hash row = padded_hash (Data_buffer [1, 2]) \<longrightarrow> unat (rd_replica_size row) = buffer_size (Data_buffer [1, 2])"
    using one_storage_ok(1) by (simp_all add: new_node_client_def one_storage_state_def empty_database_def)
  have small: "small_buffer (Data_buffer [1, 2])" "small_buffer (padded_hash (Data_buffer [1, 2]))"
    "small_buffer (Data_buffer [4])" "small_buffer (Data_buffer [9])" "Data_buffer [1, 2 :: byte] \<noteq> Data_buffer []"
    using padded_hash_size by (simp_all add: small_buffer_def)
  from replica_travels [of plain_node_env holding_node plain_node_env "new_node_client one_storage_state"
      _ _ _ _ _ _ _ _ "Data_buffer [3]" "Data_buffer [2]", unfolded env,
      OF holding_node_ok asking(1) refl one_storage_ok(2) w rows held small(5,1-4) none room asking(2)]
  show ?thesis by blast
qed

theorem rolled_back_save_loses_replica_witness:
  "\<exists>s3 s4. node_transaction (bind_step (keep_tmp_replica one_storage_env (Data_buffer [4]) (padded_hash (Data_buffer [1, 2])))
        (\<lambda>_. fail_step (Runtime_error ''save''))) (one_storage_state\<lparr>tmp_datas := [(padded_hash (Data_buffer [1, 2]), 5)]\<rparr>)
      = (Inl (Runtime_error ''save''), s3)
    \<and> keep_tmp_replica one_storage_env (Data_buffer [4]) (padded_hash (Data_buffer [1, 2])) s3 = (Inr (), s4)
    \<and> replica_places (padded_hash (Data_buffer [1, 2])) s4 = []"
proof -
  let ?h = "padded_hash (Data_buffer [1, 2])" and ?s = "one_storage_state\<lparr>tmp_datas := [(padded_hash (Data_buffer [1, 2]), 5)]\<rparr>"
  have inj: "tmp_file one_storage_env p = tmp_file one_storage_env ?h \<longleftrightarrow> p = ?h" for p
    by (auto simp: join_path_def dest: append_path_inj)
  have ok: "store_ok one_storage_env ?s"
    using one_storage_ok(1,3) padded_hash_size empty_log_ok
    by (auto simp: store_ok_def storage_ok_def replicas_ok_def tmp_ok_def one_storage_state_def inj)
  have places: "replica_places ?h ?s = []" by (simp add: replica_places_def one_storage_state_def)
  have moved: "node_files ?s (tmp_file one_storage_env ?h) = Some (Data_buffer [1, 2])" by (simp add: one_storage_state_def)
  have w: "can_write one_storage_env fn" "local_datas ?s = []" for fn by (simp_all add: one_storage_env_def one_storage_state_def)
  have choice: "choose_storage (Data_buffer [4]) (Suc (Suc 0)) ?s = Inr ([0x64], Data_buffer [1])"
    by (simp add: choose_storage_def one_storage_state_def share_storage_def usable_storage_def used_size_def)
  have "\<exists>s1. save_file one_storage_env ?h (tmp_file one_storage_env ?h) (Data_buffer [4]) ?s = (Inr (join_path [0x64] (path_of ?h)), s1)"
    using places moved choice w(2)
    by (simp add: save_file_def store_replica_def replica_path_ok [OF padded_hash_size] bind_step_def lift_step_def
        return_step_def file_move_def insert_local_data_def table_insert_def w(1))
  then have "\<exists>s1. keep_tmp_replica one_storage_env (Data_buffer [4]) ?h ?s = (Inr (), s1)"
    using moved by (auto simp: keep_tmp_replica_def Let_def bind_step_def return_step_def delete_tmp_data_def modify_step_def)
  then obtain s1 where kept: "keep_tmp_replica one_storage_env (Data_buffer [4]) ?h ?s = (Inr (), s1)" ..
  have "table_select (tmp_datas ?s) ?h \<noteq> None" by simp
  from rolled_back_save_loses_replica [OF ok this moved places kept, of "fail_step (Runtime_error ''save'')" _ s1 "Data_buffer [4]",
      unfolded fail_step_def, OF refl refl]
  show ?thesis unfolding fail_step_def by blast
qed

end
