(* ===== verification/Spec2Isabelle.thy ===== *)
theory Spec2Isabelle
  imports Chunk_storage Gf_math Coin_properties Consensus_properties Dht_object_id
    Vote_properties Rollback_properties Invalid_properties Base64_properties Utf8_properties Datagram_acknowledgment
    Json_roundtrip Json_properties Route_properties Log_sync_properties Replica_storage_properties Udp_properties Client_properties
begin

text \<open>
  VDS is a distributed storage. The files of its users are cut into objects, every object into 64 replicas of
  which any 32 restore it; what users and nodes do is written into a log of signed blocks, which the nodes
  exchange and on which they vote; nodes find each other in a distributed hash table and talk over UDP. This
  library models the core of a node, from the bytes of its datagrams to the rows of its tables and its
  files, and proves what makes the parts correct and where the code does not keep what it means to.

  \<^bold>\<open>How the program fits together\<close>

  A datagram arrives at \<open>udp_transport\<close>, which makes sessions by a handshake and hands the bytes to the
  session of the sender. The session (\<open>dht_datagram_protocol\<close>) checks the signature, puts the datagrams in
  order, assembles messages, acknowledges and sends again. A whole message goes to \<open>dht_session\<close>: the nodes it
  came over become routes (\<open>dht_route\<close>); it is forwarded (\<open>proxy_message\<close>) or given to
  \<open>_server::process_message\<close>, which picks the handler: the routing table (\<open>dht_find_node\<close>, pings), the log
  (\<open>vds_log_sync/impl/sync_process.cpp\<close>), the replicas (\<open>vds_dht_network/impl/sync_process.cpp\<close>). The
  handlers of the last two run in a transaction of the database and put off what they send until it is
  committed. A block of the log is parsed (\<open>transaction_block\<close>), saved and applied (\<open>transaction_log\<close>): its
  messages change balances, users, nodes, replicas; votes of the nodes move it to consensus or mark it
  invalid, and then the log is rolled back and applied in another order.

  \<^bold>\<open>Theories, in the order of the layers\<close>

  \<^item> \<open>VDS_Prelude\<close>: bytes, words, \<open>expected.h\<close> as a sum type with \<open>get_expected\<close>, \<open>check_expected\<close> and
    \<open>vds_assert\<close> as binds, methods as steps on a state (\<open>bind_step\<close>; an error leaves the changes made before
    it), \<open>const_data_buffer\<close> and its order, \<open>std::set\<close> and \<open>std::map\<close> as sorted lists, counting loops.
  \<^item> \<open>Binary_serialize\<close>: \<open>kernel/vds_core/binary_serialize.h\<close> and \<open>.cpp\<close>. \<open>put_*\<close> and \<open>get_*\<close> are the
    overloads of \<open>operator <<\<close> and \<open>operator >>\<close>; the locale \<open>codec\<close> says what makes a pair of them inverse.
  \<^item> \<open>Encoding\<close>: \<open>kernel/vds_core/encoding.cpp\<close>; round trips and the characters for which they fail in
    \<open>Encoding_properties\<close>, \<open>Base64_properties\<close>, \<open>Utf8_properties\<close>.
  \<^item> \<open>Galois_field\<close>, \<open>Gf_math\<close>: \<open>kernel/vds_data/gf.h\<close>, the field on byte arrays and the tables of
    logarithms, with the proof that the tables compute the field.
  \<^item> \<open>Chunk\<close>: \<open>kernel/vds_data/chunk.h\<close>, the generator of replicas and the elimination of
    \<open>chunk_restore\<close>. \<open>Vandermonde\<close> and \<open>Chunk_inverse\<close> show that the elimination inverts the matrix,
    \<open>Chunk_stream\<close> what the bytes of replicas are. \<open>Chunk_storage\<close>:
    \<open>kernel/vds_data/chunk_storage.cpp\<close> and the round trip of data through replicas.
  \<^item> \<open>Json_value\<close>, \<open>Json_writer\<close>, \<open>Json_parser\<close>: \<open>kernel/vds_parser/json_object\<close>, \<open>json_writer\<close> and
    \<open>json_parser\<close>. \<open>Json_text\<close> is the text of a value, \<open>Json_roundtrip\<close> that the parser reads it back,
    \<open>Json_safety\<close> that the stacks and pointers of the parser are used as they may be, \<open>Json_properties\<close> the
    typed properties.
  \<^item> \<open>Transactions\<close>: the messages of the log, \<open>libs_common/vds_transactions\<close>, builder and walker.
    \<open>Db_model\<close>: the tables of \<open>libs_server/vds_db_model/db_model.cpp\<close>, a list of rows by primary key.
    \<open>Transaction_block\<close>: \<open>libs_server/vds_log_sync/impl/transaction_block.cpp\<close>.
  \<^item> \<open>Transaction_records\<close>, \<open>Transaction_log\<close>: \<open>libs_server/vds_log_sync/impl/transaction_log.cpp\<close>, what every
    kind of message does, undoes and checks at consensus, then the walk over blocks, votes, rollback and
    \<open>save_block\<close>. \<open>Log_monotone\<close> and \<open>Log_save\<close> show what is never taken back, \<open>Log_properties\<close> that the log
    stays well formed and that a block is applied whole or not at all, \<open>Coin_properties\<close> the coins,
    \<open>Consensus_properties\<close> the leaves, \<open>Vote_properties\<close> the majorities, \<open>Rollback_properties\<close> and
    \<open>Invalid_properties\<close> that the loops end and what they touch.
  \<^item> \<open>Datagram_protocol\<close>: \<open>libs_server/vds_dht_network/impl/dht_datagram_protocol.cpp\<close>. \<open>Datagram_sender\<close>
    and \<open>Datagram_receiver\<close> are about one side, \<open>Datagram_delivery\<close> about both over a transport that loses,
    repeats and reorders, \<open>Datagram_acknowledgment\<close> about sending again.
  \<^item> \<open>Udp_transport\<close>: \<open>libs_server/vds_dht_network/impl/udp_transport.cpp\<close>. \<open>Udp_properties\<close>: the table of
    sessions stays in order, two nodes agree on a key, what a stranger can do.
  \<^item> \<open>Dht_object_id\<close>, \<open>Dht_route\<close>: \<open>include/dht_object_id.h\<close> and \<open>impl/dht_route.cpp\<close>, the metric and the
    routing table; \<open>Route_properties\<close>: its invariant, what a search finds, nodes that do not answer.
  \<^item> \<open>Node_messages\<close>: the headers of \<open>include/messages\<close>, the nine messages between nodes.
  \<^item> \<open>Log_sync\<close>: \<open>vds_log_sync/impl/sync_process.cpp\<close> with the transaction around it;
    \<open>Log_sync_properties\<close>: missing blocks are fetched, nodes agree on the bytes of a block, signatures are not
    looked at.
  \<^item> \<open>Replica_storage\<close>: the part of \<open>vds_dht_network/impl/dht_network_client.cpp\<close> that keeps replicas in
    files. Writing a file truncates it first; how many bytes got into it when the writing fails is a field of the
    environment. \<open>Replica_storage_properties\<close>: every row keeps its file, a stored object is restored.
  \<^item> \<open>Dht_client\<close>: the rest of \<open>dht_network_client.cpp\<close>, sending, forwarding and the messages of the
    routing table. \<open>Node_client\<close>: the handlers of replicas and the round of the timer in
    \<open>vds_dht_network/impl/sync_process.cpp\<close>, \<open>client::save\<close> and \<open>load_keys\<close>, the dispatch in
    \<open>dht_session.cpp\<close> and \<open>vds_server/message_map.cpp\<close>; a \<open>network_node\<close> is the state of a whole node.
    \<open>Websocket_api\<close>: of \<open>vds_ws_api/impl/websocket_api.cpp\<close> the call \<open>allocate_storage\<close>, by which a user sets
    aside a folder for replicas or changes its size, with the checks of the file the user has signed.
    \<open>Node_invariant\<close>: what can happen to a node (\<open>node_acts\<close>: messages, the timer, sessions that come and go, the
    calls of its users), one invariant and that every such step keeps it, by relations that are composed
    along the steps (\<open>Step_relation\<close>), and that no step fills a storage beyond its size. \<open>Client_properties\<close>: messages reach known nodes, are forwarded
    once, replicas travel from node to node, and a save that is rolled back.

  \<^bold>\<open>Conventions\<close>

  A method of an object is a function from its state; results are \<open>expected\<close> values, exceptions and failed
  assertions (\<open>vds_assert\<close> throws whenever the compiler has exceptions, as in all builds of the repository) are
  its errors, and so are undefined behaviour of C++ (\<open>Undefined_behaviour\<close>, a read past the end
  of a buffer) and a loop that does not end (\<open>Not_terminating\<close>). Integers keep their width where it shows. A
  handler runs as one step: coroutines, threads and mutexes are left out.

  \<^bold>\<open>Fuel\<close>

  \<open>continue_process\<close> gets twice the number of stored datagrams and one: every round takes a datagram out or
  delivers a message whose first datagram goes out in the next round. The loops over votes, rollbacks and
  invalid blocks get as many rounds as they are given; \<open>vote_loop_terminates\<close>, \<open>rollback_all_terminates\<close> and
  \<open>invalid_block_marks\<close> show that with the number of stored blocks (for the last, of the steps down the hierarchy)
  the result is never \<open>Not_terminating\<close>; for a rollback the stored blocks may not register 65536 replicas at
  once, since the counter of that loop has 16 bits and the code does not end then. \<open>follow_loop\<close> and \<open>update_consensus\<close> call each other and share a fuel of the caller; what is shown of
  them holds for every fuel and every run that returns. \<open>restore_loop\<close> runs over the list of its rounds, and
  \<open>continue_read\<close> over that of the datagrams that arrive. All other recursions have a measure.

  \<^bold>\<open>Hypotheses\<close>

  Hashes, keys and signatures are the record \<open>crypto\<close>, sockets and clocks are fields of the environments. The
  properties that rely on them say so: that a hash has 32 bytes and does not fail (\<open>sha256\<close>), that no other
  data has the hash of a given replica, that a key is read back from its DER form, that the owner of a key
  decrypts what was encrypted with it, that a signature made with a key is accepted with it, that parsing a
  key and taking its fingerprint return (\<open>keys_return\<close>). Every such
  property has a witness with concrete functions.

  \<^bold>\<open>Not modelled\<close>

  Sockets, the asynchronous runtime, SQL and SQLite, OpenSSL and zlib: system or third-party code and wrappers of
  it, parameters of the model where the modelled code calls them. The web interface (\<open>vds_http\<close>,
  \<open>vds_ws_api\<close>) apart from \<open>allocate_storage\<close>, the user and file managers, the command line, the programs under \<open>app\<close>, the UPnP client: they
  call the node from outside. \<open>transaction_record_state.cpp\<close>, \<open>transaction_state_calculator.cpp\<close> and
  \<open>network_serializer.cpp\<close>: commented out or not called. Logging, statistics as JSON, the creation of folders and
  the shutdown of the process.
\<close>

end
